(* ===== verification/Prelude.thy ===== *)
theory Prelude
  imports Complex_Main "HOL-Library.Multiset"
begin

text \<open>
  Shared ground of the development: the effect type every operation of the model is written
  in (explicit state, errors as values of a sum), the collections of rewrite rules the
  component proofs use, and lemmas on lists, finite maps and sums that more than one
  component needs.
\<close>

named_theorems eff_simps \<open>unfolding the sequencing combinators\<close>
named_theorems view_simps \<open>effect of a Redis command on the observable state\<close>
named_theorems key_simps \<open>distinctness of Redis keys\<close>
named_theorems num_simps \<open>machine integers and their decimal renderings\<close>

section \<open>Stateful computations that can fail\<close>

text \<open>
  A Go method \<open>func f(...) (a, error)\<close> and a Lua script are both functions from a state to
  an error or a value together with the state they leave. \<open>andThen\<close> is the Go idiom
  \<open>x, err := m(); if err != nil { return err }; k(x)\<close>; \<open>attempt\<close> hands the
  continuation the error too, for the places where the code looks at it.
\<close>

type_synonym ('s, 'e, 'a) eff = "'s \<Rightarrow> ('e + 'a) \<times> 's"

definition ret :: "'a \<Rightarrow> ('s, 'e, 'a) eff" where
  "ret a s = (Inr a, s)"

definition raise :: "'e \<Rightarrow> ('s, 'e, 'a) eff" where
  "raise e s = (Inl e, s)"

definition andThen :: "('s, 'e, 'a) eff \<Rightarrow> ('a \<Rightarrow> ('s, 'e, 'b) eff) \<Rightarrow> ('s, 'e, 'b) eff" where
  "andThen m k s = (case m s of (Inl e, s') \<Rightarrow> (Inl e, s') | (Inr a, s') \<Rightarrow> k a s')"

definition attempt :: "('s, 'e, 'a) eff \<Rightarrow> ('e + 'a \<Rightarrow> ('s, 'f, 'b) eff) \<Rightarrow> ('s, 'f, 'b) eff" where
  "attempt m k s = (case m s of (r, s') \<Rightarrow> k r s')"

definition asks :: "('s \<Rightarrow> 'a) \<Rightarrow> ('s, 'e, 'a) eff" where
  "asks f s = (Inr (f s), s)"

definition exec :: "('s \<Rightarrow> 's) \<Rightarrow> ('s, 'e, unit) eff" where
  "exec f s = (Inr (), f s)"

definition runs :: "('s \<Rightarrow> 'a \<times> 's) \<Rightarrow> ('s, 'e, 'a) eff" where
  "runs f s = (case f s of (a, s') \<Rightarrow> (Inr a, s'))"

definition lift_sum :: "'e + 'a \<Rightarrow> ('s, 'e, 'a) eff" where
  "lift_sum r s = (r, s)"

lemmas eff_defs = ret_def raise_def andThen_def attempt_def asks_def exec_def runs_def
  lift_sum_def

lemma eff_run [eff_simps]:
  "ret a s = (Inr a, s)" "raise e s = (Inl e, s)"
  "asks f s = (Inr (f s), s)" "exec g s = (Inr (), g s)" "lift_sum r s = (r, s)"
  by (simp_all add: eff_defs)

lemma andThen_ret [eff_simps]: "andThen (ret a) k s = k a s"
  by (simp add: eff_defs)

lemma andThen_raise [eff_simps]: "andThen (raise e) k s = (Inl e, s)"
  by (simp add: eff_defs)

lemma andThen_asks [eff_simps]: "andThen (asks f) k s = k (f s) s"
  by (simp add: eff_defs)

lemma andThen_exec [eff_simps]: "andThen (exec f) k s = k () (f s)"
  by (simp add: eff_defs)

lemma andThen_runs [eff_simps]: "f s = (a, s') \<Longrightarrow> andThen (runs f) k s = k a s'"
  by (simp add: eff_defs)

lemma andThen_Inr [eff_simps]: "m s = (Inr a, s') \<Longrightarrow> andThen m k s = k a s'"
  by (simp add: eff_defs)

lemma andThen_Inl [eff_simps]: "m s = (Inl e, s') \<Longrightarrow> andThen m k s = (Inl e, s')"
  by (simp add: eff_defs)

lemma attempt_eq [eff_simps]: "m s = (r, s') \<Longrightarrow> attempt m k s = k r s'"
  by (simp add: eff_defs)

lemma andThen_InrE:
  assumes "andThen m k s = (Inr b, t)"
  obtains a u where "m s = (Inr a, u)" "k a u = (Inr b, t)"
  using assms by (auto simp: andThen_def split: prod.splits sum.splits)

lemma attemptE:
  assumes "attempt m k s = (r, t)"
  obtains q u where "m s = (q, u)" "k q u = (r, t)"
  using assms by (auto simp: attempt_def split: prod.splits)

section \<open>Computations that can fail\<close>

text \<open>\<open>if err != nil { return err }\<close> where no state is threaded, and a loop of such steps.\<close>

definition sum_bind :: "'e + 'a \<Rightarrow> ('a \<Rightarrow> 'e + 'b) \<Rightarrow> 'e + 'b" where
  "sum_bind r k = (case r of Inl e \<Rightarrow> Inl e | Inr a \<Rightarrow> k a)"

lemma sum_bind_simps [eff_simps]: "sum_bind (Inl e) k = Inl e" "sum_bind (Inr a) k = k a"
  by (simp_all add: sum_bind_def)

fun try_map :: "('a \<Rightarrow> 'e + 'b) \<Rightarrow> 'a list \<Rightarrow> 'e + 'b list" where
  "try_map f [] = Inr []"
| "try_map f (x # xs) = sum_bind (f x) (\<lambda>y. sum_bind (try_map f xs) (\<lambda>ys. Inr (y # ys)))"

lemma sum_bind_InrE:
  assumes "sum_bind r k = Inr b"
  obtains a where "r = Inr a" "k a = Inr b"
  using assms by (auto simp: sum_bind_def split: sum.splits)

lemma try_map_Inr: "try_map f xs = Inr ys \<longleftrightarrow> list_all2 (\<lambda>x y. f x = Inr y) xs ys"
proof (induction xs arbitrary: ys)
  case (Cons x xs)
  then show ?case
    by (cases ys; cases "f x"; cases "try_map f xs") (auto simp: eff_simps)
qed auto

lemma try_map_member: "try_map f xs = Inr ys \<Longrightarrow> x \<in> set xs \<Longrightarrow> \<exists>y\<in>set ys. f x = Inr y"
  unfolding try_map_Inr by (induction rule: list_all2_induct) auto

lemma try_map_append:
  "try_map f (xs @ ys) = sum_bind (try_map f xs) (\<lambda>as. sum_bind (try_map f ys) (\<lambda>bs. Inr (as @ bs)))"
proof (induction xs)
  case Nil
  show ?case by (cases "try_map f ys") (simp_all add: eff_simps)
next
  case (Cons x xs)
  then show ?case
    by (cases "f x"; cases "try_map f xs"; cases "try_map f ys") (simp_all add: eff_simps)
qed

section \<open>Lists\<close>

lemma sum_list_nonneg_int: "(\<And>x. x \<in> set xs \<Longrightarrow> 0 \<le> f x) \<Longrightarrow> 0 \<le> (\<Sum>x\<leftarrow>xs. f x :: int)"
  by (induction xs) auto

lemma sum_list_mono_int:
  "(\<And>x. x \<in> set xs \<Longrightarrow> f x \<le> (g x :: int)) \<Longrightarrow> (\<Sum>x\<leftarrow>xs. f x) \<le> (\<Sum>x\<leftarrow>xs. g x)"
  by (induction xs) (auto intro!: add_mono)

lemma member_le_sum_list_int:
  "x \<in> set xs \<Longrightarrow> (\<And>y. y \<in> set xs \<Longrightarrow> 0 \<le> f y) \<Longrightarrow> f x \<le> (\<Sum>y\<leftarrow>xs. f y :: int)"
  by (induction xs) (auto intro: add_increasing2 sum_list_nonneg_int add_increasing)

lemma sum_list_filter_split:
  "(\<Sum>x\<leftarrow>xs. f x :: int) = (\<Sum>x\<leftarrow>filter P xs. f x) + (\<Sum>x\<leftarrow>filter (\<lambda>x. \<not> P x) xs. f x)"
  by (induction xs) auto

lemma sum_list_update_int:
  "i < length xs \<Longrightarrow> sum_list (xs[i := x]) = sum_list xs - xs ! i + (x :: int)"
  by (induction xs arbitrary: i) (auto split: nat.splits)

section \<open>Sums over finite maps\<close>

text \<open>
  The total of a hash whose values have been read as numbers: used for the wallets of a room,
  the pools and the wagers of a round.
\<close>

definition map_sum :: "('v \<Rightarrow> int) \<Rightarrow> ('k \<rightharpoonup> 'v) \<Rightarrow> int" where
  "map_sum f m = (\<Sum>k\<in>dom m. f (the (m k)))"

lemma map_sum_upd_new:
  "finite (dom m) \<Longrightarrow> m k = None \<Longrightarrow> map_sum f (m(k \<mapsto> v)) = map_sum f m + f v"
proof -
  assume fin: "finite (dom m)" and new: "m k = None"
  from new have nin: "k \<notin> dom m" by auto
  have "(\<Sum>j\<in>dom m. f (the ((m(k \<mapsto> v)) j))) = (\<Sum>j\<in>dom m. f (the (m j)))"
    using nin by (intro sum.cong) auto
  with fin nin show ?thesis by (simp add: map_sum_def)
qed

lemma map_sum_upd_old:
  "finite (dom m) \<Longrightarrow> m k = Some u \<Longrightarrow> map_sum f (m(k \<mapsto> v)) = map_sum f m - f u + f v"
proof -
  assume fin: "finite (dom m)" and old: "m k = Some u"
  from old have kin: "k \<in> dom m" by auto
  have "(\<Sum>j\<in>dom m - {k}. f (the ((m(k \<mapsto> v)) j))) = (\<Sum>j\<in>dom m - {k}. f (the (m j)))"
    by (intro sum.cong) auto
  with fin kin old show ?thesis
    by (simp add: map_sum_def insert_absorb sum.remove [OF fin kin])
qed

lemma map_sum_upd:
  "finite (dom m) \<Longrightarrow>
   map_sum f (m(k \<mapsto> v)) = map_sum f m - (case m k of None \<Rightarrow> 0 | Some u \<Rightarrow> f u) + f v"
  by (cases "m k") (simp_all add: map_sum_upd_new map_sum_upd_old)

lemma map_sum_del:
  "finite (dom m) \<Longrightarrow>
   map_sum f (m(k := None)) = map_sum f m - (case m k of None \<Rightarrow> 0 | Some u \<Rightarrow> f u)"
proof (cases "m k")
  case None
  then have "m(k := None) = m" by auto
  with None show ?thesis by simp
next
  case (Some u)
  assume fin: "finite (dom m)"
  from Some have kin: "k \<in> dom m" by auto
  have "(\<Sum>j\<in>dom m - {k}. f (the ((m(k := None)) j))) = (\<Sum>j\<in>dom m - {k}. f (the (m j)))"
    by (intro sum.cong) auto
  with fin kin Some show ?thesis
    by (simp add: map_sum_def sum.remove [OF fin kin])
qed

lemma map_sum_empty [simp]: "map_sum f Map.empty = 0"
  by (simp add: map_sum_def)

lemma map_sum_map_of:
  "distinct (map fst ps) \<Longrightarrow> map_sum f (map_of ps) = (\<Sum>p\<leftarrow>ps. f (snd p))"
proof (induction ps)
  case (Cons p ps)
  obtain k v where p: "p = (k, v)" by (cases p)
  with Cons.prems have new: "map_of ps k = None" by (auto simp: map_of_eq_None_iff)
  have "map_of (p # ps) = (map_of ps)(k \<mapsto> v)" by (simp add: p)
  with new have "map_sum f (map_of (p # ps)) = map_sum f (map_of ps) + f v"
    by (simp only: map_sum_upd_new finite_dom_map_of)
  then show ?case using Cons by (simp add: p fun_upd_def)
qed simp

section \<open>Insertion order\<close>

text \<open>
  Several loops of the code collect the distinct keys of a list in the order they first appear,
  with a map from key to position: \<open>add_new\<close> is the list they build, \<open>idx_of\<close> the map.
\<close>

fun add_new :: "'k list \<Rightarrow> 'k list \<Rightarrow> 'k list" where
  "add_new us [] = us"
| "add_new us (k # ks) = add_new (if k \<in> set us then us else us @ [k]) ks"

definition idx_of :: "'k list \<Rightarrow> 'k \<rightharpoonup> nat" where
  "idx_of us = map_of (zip us [0..<length us])"

lemma idx_of_Nil [simp]: "idx_of [] = Map.empty"
  by (simp add: idx_of_def)

lemma idx_of_None: "u \<notin> set us \<Longrightarrow> idx_of us u = None"
  by (auto simp: idx_of_def map_of_eq_None_iff dest: set_zip_leftD)

lemma idx_of_Some: "distinct us \<Longrightarrow> i < length us \<Longrightarrow> idx_of us (us ! i) = Some i"
  using map_of_zip_nth [of us "[0..<length us]" i] by (simp add: idx_of_def)

lemma idx_of_in:
  assumes "distinct us" "u \<in> set us"
  obtains i where "i < length us" "us ! i = u" "idx_of us u = Some i"
  using assms idx_of_Some [OF assms(1)] by (metis in_set_conv_nth)

lemma idx_of_snoc:
  assumes "u \<notin> set us"
  shows "idx_of (us @ [u]) = (idx_of us)(u \<mapsto> length us)"
proof -
  have "idx_of (us @ [u]) = [u \<mapsto> length us] ++ idx_of us" by (simp add: idx_of_def)
  with idx_of_None [OF assms] show ?thesis
    by (auto simp: map_add_def fun_eq_iff split: option.split)
qed

lemma distinct_add_new: "distinct us \<Longrightarrow> distinct (add_new us ks)"
  by (induction ks arbitrary: us) auto

lemma set_add_new: "set (add_new us ks) = set us \<union> set ks"
  by (induction ks arbitrary: us) auto

lemma map_update_distinct:
  "distinct us \<Longrightarrow> i < length us \<Longrightarrow> us ! i = u \<Longrightarrow> (map f us)[i := y] = map (f(u := y)) us"
  by (rule nth_equalityI) (auto simp: nth_list_update nth_eq_iff_index_eq)

text \<open>Grouping a list by key keeps the sum.\<close>

lemma sum_list_group:
  "distinct us \<Longrightarrow> key ` set xs \<subseteq> set us \<Longrightarrow>
   (\<Sum>u\<leftarrow>us. \<Sum>x\<leftarrow>filter (\<lambda>x. key x = u) xs. f x) = (\<Sum>x\<leftarrow>xs. f x :: int)"
proof (induction xs)
  case (Cons x xs)
  have "(\<Sum>u\<leftarrow>us. \<Sum>y\<leftarrow>filter (\<lambda>y. key y = u) (x # xs). f y) =
     (\<Sum>u\<leftarrow>us. (if key x = u then f x else 0) + (\<Sum>y\<leftarrow>filter (\<lambda>y. key y = u) xs. f y))"
    by (rule arg_cong [where f = sum_list], rule map_cong) auto
  also have "\<dots> = (\<Sum>u\<leftarrow>us. if key x = u then f x else 0) + (\<Sum>y\<leftarrow>xs. f y)"
    using Cons by (simp add: sum_list_addf)
  also have "(\<Sum>u\<leftarrow>us. if key x = u then f x else 0) = f x"
    using Cons.prems by (simp add: sum_list_distinct_conv_sum_set)
  finally show ?case by simp
qed simp

end
