(* ===== verification/Golang.thy ===== *)
theory Golang
  imports Prelude "HOL-Library.Char_ord" "HOL-Library.List_Lexorder"
begin

text \<open>
  What the code uses of the Go and Lua languages and their standard libraries: 64-bit signed
  integers that wrap, truncating division, rounding to a double, the decimal renderings
  \<open>strconv.Itoa\<close>/\<open>FormatInt\<close> and \<open>ParseInt\<close>/\<open>Atoi\<close>, Lua's
  \<open>tonumber\<close> and \<open>tostring\<close>, and string splitting and trimming. Strings are
  lists of bytes, compared byte by byte as Go compares them.
\<close>

section \<open>64-bit integers\<close>

definition in64 :: "int \<Rightarrow> bool" where
  "in64 x \<longleftrightarrow> - (2 ^ 63) \<le> x \<and> x < 2 ^ 63"

definition i64 :: "int \<Rightarrow> int" where
  "i64 x = (x + 2 ^ 63) mod 2 ^ 64 - 2 ^ 63"

text \<open>Go's \<open>/\<close> truncates towards zero.\<close>

definition go_div :: "int \<Rightarrow> int \<Rightarrow> int" where
  "go_div a b = i64 (sgn a * sgn b * (\<bar>a\<bar> div \<bar>b\<bar>))"

lemma i64_id [num_simps]: "in64 x \<Longrightarrow> i64 x = x"
  by (simp add: in64_def i64_def)

lemma in64_i64 [simp]: "in64 (i64 x)"
proof -
  have "0 \<le> (x + 2 ^ 63) mod (2 ^ 64 :: int)" "(x + 2 ^ 63) mod (2 ^ 64 :: int) < 2 ^ 64"
    by simp_all
  then show ?thesis by (simp add: in64_def i64_def)
qed

lemma i64_mod: "i64 x mod 2 ^ 64 = x mod 2 ^ 64"
  by (simp add: i64_def mod_simps)

lemma go_div_nonneg: "0 \<le> a \<Longrightarrow> 0 < b \<Longrightarrow> in64 a \<Longrightarrow> go_div a b = a div b"
proof -
  assume a: "0 \<le> a" and b: "0 < b" and r: "in64 a"
  have "0 \<le> a div b"
    using a b by (simp add: pos_imp_zdiv_nonneg_iff)
  moreover have "a div b \<le> a"
    using a b zdiv_mono2 [of a 1 b] by simp
  ultimately have "0 \<le> a div b \<and> a div b \<le> a" by simp
  with r have "in64 (a div b)" by (auto simp: in64_def)
  with a b show ?thesis
    by (cases "a = 0") (simp_all add: go_div_def i64_id)
qed

section \<open>Decimal renderings\<close>

definition digit_char :: "int \<Rightarrow> char" where
  "digit_char d = ''0123456789'' ! nat d"

definition is_digit :: "char \<Rightarrow> bool" where
  "is_digit c \<longleftrightarrow> 48 \<le> (of_char c :: nat) \<and> (of_char c :: nat) \<le> 57"

definition digit_val :: "char \<Rightarrow> int" where
  "digit_val c = of_char c - 48"

function nat_str :: "int \<Rightarrow> string" where
  "nat_str n = (if n < 10 then [digit_char n] else nat_str (n div 10) @ [digit_char (n mod 10)])"
  by pat_completeness auto
termination
  by (relation "measure nat") auto

declare nat_str.simps [simp del]

text \<open>\<open>strconv.Itoa\<close> and \<open>strconv.FormatInt(_, 10)\<close>.\<close>

definition itoa :: "int \<Rightarrow> string" where
  "itoa n = (if n < 0 then CHR ''-'' # nat_str (- n) else nat_str n)"

definition parse_nat :: "string \<Rightarrow> int option" where
  "parse_nat s = (if s \<noteq> [] \<and> list_all is_digit s
     then Some (foldl (\<lambda>n c. 10 * n + digit_val c) 0 s) else None)"

text \<open>
  \<open>strconv.ParseInt(s, 10, 64)\<close>, which \<open>strconv.Atoi\<close> is on a 64-bit machine: an
  optional sign, decimal digits, an error outside 64 bits.
\<close>

definition ParseInt :: "string \<Rightarrow> int option" where
  "ParseInt s =
     (let (neg, ds) = (case s of [] \<Rightarrow> (False, [])
        | c # t \<Rightarrow> if c = CHR ''-'' then (True, t) else if c = CHR ''+'' then (False, t)
                  else (False, s))
      in case parse_nat ds of None \<Rightarrow> None
         | Some n \<Rightarrow> let v = (if neg then - n else n) in if in64 v then Some v else None)"

lemma digit_char_props [simp]:
  assumes "0 \<le> d" "d < 10"
  shows "is_digit (digit_char d)" and "digit_val (digit_char d) = d"
proof -
  have "list_all (\<lambda>n. is_digit (digit_char n) \<and> digit_val (digit_char n) = n) [0..9]" by code_simp
  moreover have "d \<in> set [0..9]" using assms by simp
  ultimately show "is_digit (digit_char d)" "digit_val (digit_char d) = d"
    unfolding list_all_iff by blast+
qed

lemma nat_str_nonempty [simp]: "nat_str n \<noteq> []"
  by (subst nat_str.simps) simp

lemma nat_str_digits: "0 \<le> n \<Longrightarrow> list_all is_digit (nat_str n)"
proof (induction n rule: nat_str.induct)
  case (1 n)
  then show ?case by (subst nat_str.simps) auto
qed

lemma nat_str_value: "0 \<le> n \<Longrightarrow> foldl (\<lambda>n c. 10 * n + digit_val c) 0 (nat_str n) = n"
proof (induction n rule: nat_str.induct)
  case (1 n)
  show ?case
  proof (cases "n < 10")
    case True
    with 1 show ?thesis by (subst nat_str.simps) simp
  next
    case False
    with 1 have "foldl (\<lambda>n c. 10 * n + digit_val c) 0 (nat_str (n div 10)) = n div 10"
      by simp
    with False show ?thesis by (subst nat_str.simps) simp
  qed
qed

lemma parse_nat_nat_str [num_simps]: "0 \<le> n \<Longrightarrow> parse_nat (nat_str n) = Some n"
  by (simp add: parse_nat_def nat_str_digits nat_str_value)

lemma nat_str_head: "0 \<le> n \<Longrightarrow> nat_str n = c # t \<Longrightarrow> is_digit c"
  using nat_str_digits [of n] by simp

lemma not_digit_sign [simp]: "\<not> is_digit (CHR ''-'')" "\<not> is_digit (CHR ''+'')"
  "\<not> is_digit (CHR '':'')"
  by (simp_all add: is_digit_def)

lemma ParseInt_nat_str: "0 \<le> n \<Longrightarrow> in64 n \<Longrightarrow> ParseInt (nat_str n) = Some n"
proof -
  assume n: "0 \<le> n" and r: "in64 n"
  obtain c t where ct: "nat_str n = c # t" by (meson list.exhaust nat_str_nonempty)
  with n have "is_digit c" by (rule nat_str_head)
  then have "c \<noteq> CHR ''-''" "c \<noteq> CHR ''+''" by auto
  moreover have "parse_nat (c # t) = Some n" using parse_nat_nat_str [OF n] ct by simp
  ultimately show ?thesis using r by (simp add: ParseInt_def ct)
qed

theorem ParseInt_itoa [num_simps]: "in64 n \<Longrightarrow> ParseInt (itoa n) = Some n"
  using ParseInt_nat_str [of n]
  by (cases "n < 0") (simp_all add: itoa_def, simp add: ParseInt_def parse_nat_nat_str)

lemma parse_nat_itoa: "0 \<le> n \<Longrightarrow> parse_nat (itoa n) = Some n"
  by (simp add: itoa_def parse_nat_nat_str)

lemma itoa_nonempty [simp]: "itoa n \<noteq> []"
  by (simp add: itoa_def)

lemma nat_str_inj: "0 \<le> m \<Longrightarrow> 0 \<le> n \<Longrightarrow> nat_str m = nat_str n \<Longrightarrow> m = n"
  by (metis nat_str_value)

lemma itoa_inj [simp]: "itoa m = itoa n \<longleftrightarrow> m = n"
proof
  have head: "0 \<le> k \<Longrightarrow> nat_str k \<noteq> CHR ''-'' # t" for k t
    using nat_str_head [of k "CHR ''-''" t] by auto
  assume "itoa m = itoa n"
  then show "m = n"
    using head [of m] head [of n] head [of n, symmetric] nat_str_inj [of m n]
      nat_str_inj [of "- m" "- n"]
    by (auto simp: itoa_def split: if_splits)
qed simp

lemma itoa_no_colon: "CHR '':'' \<notin> set (itoa n)"
proof -
  have "0 \<le> k \<Longrightarrow> CHR '':'' \<notin> set (nat_str k)" for k
    using nat_str_digits [of k] by (auto simp: list_all_iff)
  then show ?thesis by (auto simp: itoa_def)
qed

text \<open>
  Redis stores counters as strings and reads them back with \<open>string2ll\<close>, which takes
  exactly the canonical rendering.
\<close>

definition redis_int :: "string \<Rightarrow> int option" where
  "redis_int s = (case ParseInt s of None \<Rightarrow> None
     | Some n \<Rightarrow> if itoa n = s then Some n else None)"

lemma redis_int_itoa [num_simps]: "in64 n \<Longrightarrow> redis_int (itoa n) = Some n"
  by (simp add: redis_int_def ParseInt_itoa)

lemma redis_intD: "redis_int s = Some n \<Longrightarrow> s = itoa n \<and> in64 n"
  by (auto simp: redis_int_def ParseInt_def Let_def split: option.splits if_splits prod.splits)

section \<open>Doubles\<close>

text \<open>
  Rounding to 53 significant bits, ties to even: what a Go \<open>float64\<close> conversion or
  division and a Lua number do to a value of the magnitudes met here (no overflow, no
  subnormals). \<open>f64 r\<close> finds the exponent \<open>e\<close> with \<open>2 ^ (e + 52) <= r < 2 ^ (e + 53)\<close>
  and rounds the quotient.
\<close>

function bitlen :: "int \<Rightarrow> nat" where
  "bitlen n = (if n \<le> 0 then 0 else Suc (bitlen (n div 2)))"
  by pat_completeness auto
termination
  by (relation "measure nat") auto

declare bitlen.simps [simp del]

definition round_even :: "rat \<Rightarrow> int" where
  "round_even x = (let n = \<lfloor>x\<rfloor>; d = x - of_int n in
     if d < 1 / 2 then n else if d > 1 / 2 then n + 1 else if even n then n else n + 1)"

definition f64_exp :: "rat \<Rightarrow> int" where
  "f64_exp r = (case quotient_of r of (p, q) \<Rightarrow>
     let k = int (bitlen p) - int (bitlen q)
     in if r < 2 powi k then k - 53 else k - 52)"

definition f64_pos :: "rat \<Rightarrow> rat" where
  "f64_pos r = (let e = f64_exp r in of_int (round_even (r / 2 powi e)) * 2 powi e)"

definition f64 :: "rat \<Rightarrow> rat" where
  "f64 r = (if r = 0 then 0 else if r < 0 then - f64_pos (- r) else f64_pos r)"

definition dbl :: "int \<Rightarrow> int" where
  "dbl n = \<lfloor>f64 (of_int n)\<rfloor>"

lemma bitlen_bounds: "0 < n \<Longrightarrow> 2 ^ (bitlen n - 1) \<le> n \<and> n < 2 ^ bitlen n \<and> 0 < bitlen n"
proof (induction n rule: bitlen.induct)
  case (1 n)
  show ?case
  proof (cases "n div 2 = 0")
    case True
    with 1 have "n = 1" by presburger
    then show ?thesis by (simp add: bitlen.simps [of 1] bitlen.simps [of 0])
  next
    case False
    define b where "b = bitlen (n div 2)"
    from 1 False have "0 < n div 2" by (simp add: pos_imp_zdiv_pos_iff)
    with 1 have ih: "2 ^ (b - 1) \<le> n div 2" "n div 2 < 2 ^ b" "0 < b"
      by (auto simp: b_def)
    from ih(3) have "(2::int) ^ b = 2 * 2 ^ (b - 1)" by (cases b) simp_all
    with ih(1,2) have "2 ^ b \<le> n" "n < 2 * 2 ^ b" by linarith+
    moreover have "bitlen n = Suc b"
      using 1 by (subst bitlen.simps) (simp add: b_def)
    ultimately show ?thesis by simp
  qed
qed

lemma round_even_ge: "of_int n \<le> x \<Longrightarrow> n \<le> round_even x"
proof -
  assume "of_int n \<le> x"
  then have "n \<le> \<lfloor>x\<rfloor>" by (simp add: le_floor_iff)
  then show ?thesis by (auto simp: round_even_def Let_def)
qed

lemma round_even_int [simp]: "round_even (of_int n) = n"
  by (simp add: round_even_def)

lemma f64_exp_bounds:
  assumes "0 < r"
  shows "2 powi (f64_exp r + 52) \<le> r" and "r < 2 powi (f64_exp r + 53)"
proof -
  obtain p q where pq: "quotient_of r = (p, q)" by fastforce
  have q: "0 < q" using quotient_of_denom_pos [OF pq] .
  have r: "r = of_int p / of_int q" using quotient_of_div [OF pq] .
  with assms q have p: "0 < p" by (simp add: zero_less_divide_iff)
  define bp bq where "bp = bitlen p" and "bq = bitlen q"
  have P: "2 ^ (bp - 1) \<le> p" "p < 2 ^ bp" "0 < bp"
    and Q: "2 ^ (bq - 1) \<le> q" "q < 2 ^ bq" "0 < bq"
    using bitlen_bounds [of p] bitlen_bounds [of q] p q by (auto simp: bp_def bq_def)
  have rat: "of_int (2 ^ k) = (2::rat) ^ k" for k by simp
  have P': "(2::rat) ^ (bp - 1) \<le> of_int p" "of_int p < (2::rat) ^ bp"
    using P(1,2) by (simp_all only: of_int_le_iff of_int_less_iff flip: rat)
  have Q': "(2::rat) ^ (bq - 1) \<le> of_int q" "of_int q < (2::rat) ^ bq"
    using Q(1,2) by (simp_all only: of_int_le_iff of_int_less_iff flip: rat)
  have sub: "(2::rat) powi (int a - int b) = 2 ^ a / 2 ^ b" for a b
    by (simp add: power_int_diff power_int_of_nat)
  have lo: "2 powi (int bp - int bq - 1) \<le> r"
  proof -
    have "(2::rat) powi (int bp - int bq - 1) = 2 ^ (bp - 1) / 2 ^ bq"
      using P(3) sub [of "bp - 1" bq] by (simp add: of_nat_diff algebra_simps)
    also have "\<dots> \<le> of_int p / of_int q"
      using P' Q' p q by (intro frac_le) (simp_all add: less_imp_le)
    finally show ?thesis by (simp add: r)
  qed
  have hi: "r < 2 powi (int bp - int bq + 1)"
  proof -
    have "(0::rat) \<le> of_int p" using p by simp
    then have "of_int p / of_int q < (2::rat) ^ bp / 2 ^ (bq - 1)"
      by (rule frac_less [OF _ P'(2) _ Q'(1)]) simp
    also have "\<dots> = 2 powi (int bp - int bq + 1)"
      using Q(3) sub [of bp "bq - 1"] by (simp add: of_nat_diff algebra_simps)
    finally show ?thesis by (simp add: r)
  qed
  show "2 powi (f64_exp r + 52) \<le> r" and "r < 2 powi (f64_exp r + 53)"
    using lo hi by (auto simp: f64_exp_def pq Let_def bp_def bq_def algebra_simps)
qed

lemma f64_pos_ge:
  assumes "2 powi j \<le> r"
  shows "2 powi j \<le> f64_pos r"
proof -
  define e where "e = f64_exp r"
  have r: "0 < r" using assms by (rule less_le_trans [rotated]) (simp add: zero_less_power_int)
  note b = f64_exp_bounds [OF r, folded e_def]
  have "(2::rat) powi j < 2 powi (e + 53)" using assms b(2) by linarith
  then have je: "j \<le> e + 52"
    using power_int_increasing [of "e + 53" j "2::rat"] by fastforce
  have pe: "0 < (2::rat) powi e" by (simp add: zero_less_power_int)
  have "2 powi (e + 52) = 2 powi e * (2::rat) ^ 52"
    by (simp add: power_int_add)
  with b(1) pe have "(of_int (2 ^ 52) :: rat) \<le> r / 2 powi e"
    by (simp add: pos_le_divide_eq mult.commute)
  then have "2 ^ 52 \<le> round_even (r / 2 powi e)" by (rule round_even_ge)
  then have "(of_int (2 ^ 52) :: rat) \<le> of_int (round_even (r / 2 powi e))"
    by (simp only: of_int_le_iff)
  with pe have "(2::rat) ^ 52 * 2 powi e \<le> f64_pos r"
    by (simp add: f64_pos_def e_def Let_def mult_right_mono)
  moreover have "(2::rat) powi j \<le> 2 powi (e + 52)"
    using je by (simp add: power_int_increasing)
  ultimately show ?thesis by (simp add: power_int_add mult.commute)
qed

text \<open>A ratio of at least one never rounds below one.\<close>

lemma f64_ge_1: "1 \<le> r \<Longrightarrow> 1 \<le> f64 r"
  using f64_pos_ge [of 0 r] by (simp add: f64_def)

lemma f64_pos_int:
  assumes "0 < n" "n \<le> 2 ^ 53"
  shows "f64_pos (of_int n) = of_int n"
proof -
  define e where "e = f64_exp (of_int n)"
  from assms have pos: "0 < (of_int n :: rat)" by simp
  note b = f64_exp_bounds [OF pos, folded e_def]
  have le: "(of_int n :: rat) \<le> 2 powi 53" using assms(2) by (simp add: power_int_numeral flip: of_int_power)
  with b(1) have "(2::rat) powi (e + 52) \<le> 2 powi 53" by linarith
  then have e1: "e \<le> 1"
    using power_int_strict_increasing [of 53 "e + 52" "2::rat"] by fastforce
  have "\<exists>m. (of_int n :: rat) / 2 powi e = of_int m"
  proof (cases "e = 1")
    case True
    with b(1) le have "(of_int n :: rat) = 2 ^ 53"
      by (simp add: power_int_numeral)
    with True show ?thesis by (intro exI [of _ "2 ^ 52"]) simp
  next
    case False
    with e1 have "e \<le> 0" by simp
    then obtain k where k: "e = - int k" by (metis zero_le_imp_eq_int neg_0_le_iff_le minus_minus)
    have "(of_int n :: rat) / 2 powi e = of_int (n * 2 ^ k)"
      by (simp add: k power_int_minus field_simps)
    then show ?thesis by blast
  qed
  then obtain m where m: "(of_int n :: rat) / 2 powi e = of_int m" by blast
  have "(0::rat) < 2 powi e" by (simp add: zero_less_power_int)
  with m show ?thesis
    by (simp add: f64_pos_def Let_def flip: e_def) (simp add: field_simps)
qed

lemma dbl_id [num_simps]: "\<bar>n\<bar> \<le> 2 ^ 53 \<Longrightarrow> dbl n = n"
proof -
  assume a: "\<bar>n\<bar> \<le> 2 ^ 53"
  consider "n = 0" | "0 < n" | "n < 0" by linarith
  then show ?thesis
  proof cases
    case 3
    with a have "f64_pos (of_int (- n)) = of_int (- n)" by (intro f64_pos_int) auto
    with 3 show ?thesis by (simp add: dbl_def f64_def)
  qed (use a in \<open>simp_all add: dbl_def f64_def f64_pos_int\<close>)
qed

lemma dbl_ge: "2 ^ 53 \<le> n \<Longrightarrow> 2 ^ 53 \<le> dbl n"
proof -
  assume a: "2 ^ 53 \<le> n"
  then have "(of_int (2 ^ 53) :: rat) \<le> of_int n" by (simp only: of_int_le_iff)
  then have "(2::rat) powi 53 \<le> of_int n" by (simp add: power_int_numeral)
  then have "(2::rat) powi 53 \<le> f64_pos (of_int n)" by (rule f64_pos_ge)
  with a show ?thesis by (simp add: dbl_def f64_def le_floor_iff power_int_numeral)
qed

text \<open>A number that reads as less than \<open>2 ^ 53\<close> was not rounded.\<close>

lemma dbl_small: "0 \<le> n \<Longrightarrow> dbl n < 2 ^ 53 \<Longrightarrow> dbl n = n"
  using dbl_ge [of n] by (cases "n < 2 ^ 53") (simp_all add: dbl_id)

lemma dbl_pos: "0 < n \<Longrightarrow> 0 < dbl n"
  using f64_ge_1 [of "of_int n"] by (simp add: dbl_def)

lemma dbl_neg: "n < 0 \<Longrightarrow> dbl n < 0"
proof -
  assume n: "n < 0"
  then have "(1::rat) \<le> f64 (- of_int n)" by (intro f64_ge_1) (simp flip: of_int_minus)
  with n show ?thesis by (simp add: dbl_def f64_def floor_less_iff)
qed

lemma dbl_sign: "dbl n \<le> 0 \<longleftrightarrow> n \<le> 0" "dbl n < 0 \<longleftrightarrow> n < 0"
  using dbl_pos [of n] dbl_neg [of n] dbl_id [of 0] by (cases "n = 0"; force)+

lemma dbl_below: "m \<le> 2 ^ 53 \<Longrightarrow> dbl n < m \<longleftrightarrow> n < m" if "0 \<le> n"
  using that dbl_small [of n] dbl_ge [of n] dbl_id [of n] by (cases "n < 2 ^ 53") auto

section \<open>Lua numbers and strings\<close>

text \<open>
  \<open>tonumber\<close> on the decimal integers the scripts are given. A text that is not one gives
  \<open>nil\<close>.
\<close>

definition tonumber :: "string \<Rightarrow> int option" where
  "tonumber s = map_option dbl
     (case s of c # t \<Rightarrow> if c = CHR ''-'' then map_option uminus (parse_nat t) else parse_nat s
      | [] \<Rightarrow> None)"

text \<open>
  \<open>tostring\<close> formats with \<open>%.14g\<close>: an integer of at most 14 digits as it is, a
  larger one rounded to 14 significant digits in exponent form.
\<close>

definition exp_g :: "nat \<Rightarrow> int \<Rightarrow> string" where
  "exp_g p n =
     (let d = length (nat_str n);
          m = round_even (of_int n / 10 ^ (d - p));
          (m, d) = (if m = 10 ^ p then (10 ^ (p - 1), d + 1) else (m, d));
          ds = rev (dropWhile (\<lambda>c. c = CHR ''0'') (rev (nat_str m)))
      in hd ds # (if tl ds = [] then [] else CHR ''.'' # tl ds) @ ''e+'' @ nat_str (int d - 1))"

definition tostring :: "int \<Rightarrow> string" where
  "tostring n = (if \<bar>n\<bar> < 10 ^ 14 then itoa n
     else if n < 0 then CHR ''-'' # exp_g 14 (- n) else exp_g 14 n)"

text \<open>A number among the arguments of \<open>redis.call\<close> is formatted with \<open>%.17g\<close>.\<close>

definition number_arg :: "int \<Rightarrow> string" where
  "number_arg n = (if \<bar>n\<bar> < 10 ^ 17 then itoa n
     else if n < 0 then CHR ''-'' # exp_g 17 (- n) else exp_g 17 n)"

lemma tostring_small [num_simps]: "\<bar>n\<bar> < 10 ^ 14 \<Longrightarrow> tostring n = itoa n"
  by (simp add: tostring_def)

lemma number_arg_small [num_simps]: "\<bar>n\<bar> < 10 ^ 17 \<Longrightarrow> number_arg n = itoa n"
  by (simp add: number_arg_def)

lemma tonumber_itoa [num_simps]: "tonumber (itoa n) = Some (dbl n)"
proof (cases "n < 0")
  case True
  then show ?thesis by (simp add: tonumber_def itoa_def parse_nat_nat_str)
next
  case False
  obtain c t where ct: "nat_str n = c # t" by (meson list.exhaust nat_str_nonempty)
  with False have "is_digit c" by (intro nat_str_head) auto
  with False ct show ?thesis
    using parse_nat_nat_str [of n] by (auto simp: tonumber_def itoa_def)
qed

section \<open>Strings\<close>

text \<open>The encodings of the white space \<open>strings.TrimSpace\<close> removes (\<open>unicode.IsSpace\<close>).\<close>

definition space_runes :: "string list" where
  "space_runes = map (map char_of)
     ([[9], [10], [11], [12], [13], [32], [0xC2, 0x85], [0xC2, 0xA0], [0xE1, 0x9A, 0x80]]
      @ map (\<lambda>b. [0xE2, 0x80, b])
          [0x80, 0x81, 0x82, 0x83, 0x84, 0x85, 0x86, 0x87, 0x88, 0x89, 0x8A, 0xA8, 0xA9, 0xAF]
      @ [[0xE2, 0x81, 0x9F], [0xE3, 0x80, 0x80 :: nat]])"

definition is_prefix :: "string \<Rightarrow> string \<Rightarrow> bool" where
  "is_prefix p s \<longleftrightarrow> take (length p) s = p"

fun trim_left_n :: "nat \<Rightarrow> string list \<Rightarrow> string \<Rightarrow> string" where
  "trim_left_n 0 ws s = s"
| "trim_left_n (Suc n) ws s =
     (case find (\<lambda>w. is_prefix w s) ws of None \<Rightarrow> s
      | Some w \<Rightarrow> trim_left_n n ws (drop (length w) s))"

definition TrimSpace :: "string \<Rightarrow> string" where
  "TrimSpace s =
     (let l = trim_left_n (length s) space_runes s
      in rev (trim_left_n (length l) (map rev space_runes) (rev l)))"

lemma trim_left_stay: "\<forall>w\<in>set ws. \<not> is_prefix w s \<Longrightarrow> trim_left_n n ws s = s"
proof (cases n)
  case (Suc m)
  assume "\<forall>w\<in>set ws. \<not> is_prefix w s"
  then have "find (\<lambda>w. is_prefix w s) ws = None" by (auto simp: find_None_iff)
  with Suc show ?thesis by simp
qed simp

lemma is_prefix_hd: "is_prefix w s \<Longrightarrow> w \<noteq> [] \<Longrightarrow> hd w = hd s"
  by (cases w; cases s) (auto simp: is_prefix_def)

lemma space_runes_ends: "w \<in> set space_runes \<Longrightarrow> w \<noteq> [] \<and> (of_char (hd w) \<le> (32 :: nat) \<or> 126 < (of_char (hd w) :: nat))
   \<and> (of_char (last w) \<le> (32 :: nat) \<or> 126 < (of_char (last w) :: nat))"
  by (auto simp: space_runes_def)

text \<open>A text that begins and ends with a visible ASCII character is already trimmed.\<close>

definition printable :: "char \<Rightarrow> bool" where
  "printable c \<longleftrightarrow> 32 < (of_char c :: nat) \<and> (of_char c :: nat) \<le> 126"

lemma TrimSpace_id:
  assumes "s \<noteq> [] \<Longrightarrow> printable (hd s) \<and> printable (last s)"
  shows "TrimSpace s = s"
proof (cases "s = []")
  case True
  then show ?thesis by (simp add: TrimSpace_def)
next
  case False
  have l: "\<forall>w\<in>set space_runes. \<not> is_prefix w s"
  proof (intro ballI notI)
    fix w assume "w \<in> set space_runes" "is_prefix w s"
    with space_runes_ends [of w] is_prefix_hd [of w s] assms [OF False] show False by (auto simp: printable_def)
  qed
  have r: "\<forall>w\<in>set (map rev space_runes). \<not> is_prefix w (rev s)"
  proof (intro ballI notI)
    fix w assume w: "w \<in> set (map rev space_runes)" "is_prefix w (rev s)"
    then obtain v where "v \<in> set space_runes" "w = rev v" by auto
    with w(2) space_runes_ends [of v] is_prefix_hd [of w "rev s"] assms [OF False] False show False
      by (auto simp: printable_def hd_rev)
  qed
  show ?thesis using trim_left_stay [OF l] trim_left_stay [OF r] by (simp add: TrimSpace_def)
qed
text \<open>\<open>strings.LastIndex(s, ":")\<close>, as the two parts around the last colon.\<close>

fun split_last_colon :: "string \<Rightarrow> (string \<times> string) option" where
  "split_last_colon [] = None"
| "split_last_colon (c # s) =
     (case split_last_colon s of Some (a, b) \<Rightarrow> Some (c # a, b)
      | None \<Rightarrow> if c = CHR '':'' then Some ([], s) else None)"

lemma split_last_colon_none: "CHR '':'' \<notin> set s \<Longrightarrow> split_last_colon s = None"
  by (induction s) auto

lemma split_last_colon_append:
  "CHR '':'' \<notin> set b \<Longrightarrow> split_last_colon (a @ CHR '':'' # b) = Some (a, b)"
  by (induction a) (simp_all add: split_last_colon_none)

end
