(* ===== verification/Errors.thy ===== *)
theory Errors
  imports Golang
begin

text \<open>
  The failures the backend can report, one datatype per Go package that declares sentinels,
  and \<open>err\<close> for an error value as the callers see it: the sentinel \<open>errors.Is\<close> finds in
  its chain. The text a message adds around a sentinel is not kept. \<open>RemoteFailure\<close> is an
  error a Redis, Kafka or PostgreSQL client or a script returned (\<open>NoScript\<close> when the server
  does not hold the script a pipelined \<open>EVALSHA\<close> names), \<open>Malformed\<close> a reply or stored value
  the Go code could not decode, \<open>Library\<close> an error of a crypto or encoding library
  or one without a sentinel, \<open>Panic\<close> a panic that unwinds the call, \<open>Hangs\<close> a call that blocks for ever.
\<close>

datatype domain_err =
    ErrInvalidTransition
  | ErrInvalidOutcomeCount
  | ErrInvalidOutcome
  | ErrInvalidBuyIn
  | ErrInvalidStake
  | ErrInsufficientFunds
  | ErrRefillNotEligible
  | ErrRefillQuotaExhausted

datatype store_err =
    ErrNotFound
  | ErrAlreadyExists
  | ErrPoolLocked
  | ErrHostCannotBet
  | ErrNotInRoom
  | ErrRoundTerminal
  | ErrAlreadySettled
  | ErrNotLocked

datatype round_err =
    ErrNotHost
  | ErrRoundInProgress
  | ErrInvalidSpec
  | ErrNoActiveRound

text \<open>
  \<open>wager.ErrNoActiveRound\<close> is a sentinel of its own; \<open>RateLimitError\<close> carries the retry hint
  in nanoseconds and unwraps to \<open>ErrRateLimited\<close>.
\<close>

datatype wager_err =
    WagerNoActiveRound
  | ErrBadIdempotency
  | RateLimitError int

datatype room_err =
    ErrNotJoinable
  | ErrCodeExhausted

datatype auth_err =
    ErrPasswordMismatch
  | ErrMalformedHash
  | ErrInvalidEmail
  | ErrWeakPassword
  | ErrInvalidDisplayName
  | ErrWeakSecret
  | ErrInvalidToken
  | ErrTokenExpired

text \<open>\<open>QuotaError\<close> unwraps to \<open>domain.ErrRefillQuotaExhausted\<close>.\<close>

datatype account_err =
    ErrEmailTaken
  | ErrInvalidCredentials
  | QuotaError int

datatype events_err =
    ErrUnknownEventType
  | ErrInvalidEvent

datatype ledger_err =
    ErrUnbalanced

datatype ws_err =
    ErrMalformed
  | ErrMissingType

datatype err =
    Domain domain_err
  | Store store_err
  | Round round_err
  | Wager wager_err
  | Room room_err
  | Auth auth_err
  | Account account_err
  | Events events_err
  | Ledger ledger_err
  | Ws ws_err
  | RemoteFailure
  | NoScript
  | Malformed
  | Library
  | Panic
  | Hangs

end
