(* ===== verification/Redis.thy ===== *)
theory Redis
  imports Errors "HOL-Library.AList"
begin

text \<open>
  The Redis server as the code uses it. Redis is not part of the repository, so its commands
  are a parameter \<open>R\<close> of every definition that issues one: a record of functions on an
  unknown state \<open>'s\<close>. What the code relies on is the locale \<open>redis_server\<close>: each command's
  documented effect on what can be read back, stated through an abstraction \<open>view\<close> of the
  state. The states are key spaces that hold each key at the one type the schema of \<open>keys.go\<close>
  gives it, so a view keeps one map per Redis type and no command meets a key of another type. The theory \<open>MemRedis\<close> has a complete in-memory
  implementation that satisfies the locale, and \<open>Client\<close> the Go side of a round trip.
\<close>

section \<open>The commands\<close>

text \<open>A Lua script's reply is a table of strings and \<open>false\<close> (a missing value).\<close>

datatype lua_val = LStr string | LFalse

record 's redis =
  GET :: "string \<Rightarrow> 's \<Rightarrow> string option"
  SET :: "string \<Rightarrow> string \<Rightarrow> 's \<Rightarrow> 's"
  SETEX :: "string \<Rightarrow> string \<Rightarrow> int \<Rightarrow> 's \<Rightarrow> 's"
  SETNX :: "string \<Rightarrow> string \<Rightarrow> 's \<Rightarrow> bool \<times> 's"
  DEL :: "string \<Rightarrow> 's \<Rightarrow> 's"
  HGET :: "string \<Rightarrow> string \<Rightarrow> 's \<Rightarrow> string option"
  HGETALL :: "string \<Rightarrow> 's \<Rightarrow> (string \<times> string) list"
  HLEN :: "string \<Rightarrow> 's \<Rightarrow> int"
  HSET :: "string \<Rightarrow> (string \<times> string) list \<Rightarrow> 's \<Rightarrow> 's"
  HSETNX :: "string \<Rightarrow> string \<Rightarrow> string \<Rightarrow> 's \<Rightarrow> 's"
  HDEL :: "string \<Rightarrow> string \<Rightarrow> 's \<Rightarrow> int \<times> 's"
  HINCRBY :: "string \<Rightarrow> string \<Rightarrow> int \<Rightarrow> 's \<Rightarrow> (err + int) \<times> 's"
  SADD :: "string \<Rightarrow> string \<Rightarrow> 's \<Rightarrow> 's"
  SCARD :: "string \<Rightarrow> 's \<Rightarrow> int"
  ZADD :: "string \<Rightarrow> int \<Rightarrow> string \<Rightarrow> 's \<Rightarrow> 's"
  ZREM :: "string \<Rightarrow> string \<Rightarrow> 's \<Rightarrow> 's"
  ZREMRANGEBYSCORE :: "string \<Rightarrow> int \<Rightarrow> int \<Rightarrow> 's \<Rightarrow> 's"
  ZCARD :: "string \<Rightarrow> 's \<Rightarrow> int"
  ZFIRST :: "string \<Rightarrow> 's \<Rightarrow> (string \<times> string) option"
  PEXPIRE :: "string \<Rightarrow> int \<Rightarrow> 's \<Rightarrow> 's"
  XADD :: "string \<Rightarrow> (string \<times> string) list \<Rightarrow> 's \<Rightarrow> 's"
  TIME :: "'s \<Rightarrow> int \<times> int"
  cjson_encode :: "lua_val list \<Rightarrow> string"
  cjson_decode :: "string \<Rightarrow> lua_val list option"

text \<open>
  \<open>cjson_decode\<close> raises an error (\<open>None\<close>) on a text that is not JSON.
  \<open>ZFIRST k\<close> is \<open>ZRANGE k 0 0 WITHSCORES\<close>: the member of least score and its score.\<close>

record rview =
  strs :: "string \<rightharpoonup> string"
  hashes :: "string \<Rightarrow> string \<rightharpoonup> string"
  rsets :: "string \<Rightarrow> string set"
  zsets :: "string \<Rightarrow> string \<rightharpoonup> int"
  streams :: "string \<Rightarrow> (string \<times> string) list list"
  ttls :: "string \<rightharpoonup> int"
  clock :: "int \<times> int"

section \<open>Their effect on what can be read\<close>

definition v_set :: "string \<Rightarrow> string \<Rightarrow> int option \<Rightarrow> rview \<Rightarrow> rview" where
  "v_set k x ttl v = v\<lparr>strs := (strs v)(k \<mapsto> x), ttls := (ttls v)(k := ttl)\<rparr>"

definition v_del :: "string \<Rightarrow> rview \<Rightarrow> rview" where
  "v_del k v = v\<lparr>strs := (strs v)(k := None), hashes := (hashes v)(k := Map.empty),
     rsets := (rsets v)(k := {}), zsets := (zsets v)(k := Map.empty),
     streams := (streams v)(k := []), ttls := (ttls v)(k := None)\<rparr>"

definition v_hash :: "string \<Rightarrow> (string \<rightharpoonup> string) \<Rightarrow> rview \<Rightarrow> rview" where
  "v_hash k h v = v\<lparr>hashes := (hashes v)(k := h)\<rparr>"

definition put_all :: "(string \<times> string) list \<Rightarrow> (string \<rightharpoonup> string) \<Rightarrow> (string \<rightharpoonup> string)" where
  "put_all fvs h = foldl (\<lambda>h (f, x). h(f \<mapsto> x)) h fvs"

definition v_hset :: "string \<Rightarrow> (string \<times> string) list \<Rightarrow> rview \<Rightarrow> rview" where
  "v_hset k fvs v = v_hash k (put_all fvs (hashes v k)) v"

text \<open>
  The number \<open>HINCRBY\<close> leaves: an absent field counts as zero, a field that is not a
  64-bit integer or a sum outside 64 bits is an error.
\<close>

definition incr :: "string option \<Rightarrow> int \<Rightarrow> int option" where
  "incr x d = (case (case x of None \<Rightarrow> Some 0 | Some s \<Rightarrow> redis_int s) of None \<Rightarrow> None
     | Some n \<Rightarrow> if in64 (n + d) then Some (n + d) else None)"

definition v_zset :: "string \<Rightarrow> (string \<rightharpoonup> int) \<Rightarrow> rview \<Rightarrow> rview" where
  "v_zset k z v = v\<lparr>zsets := (zsets v)(k := z),
     ttls := (if z = Map.empty then (ttls v)(k := None) else ttls v)\<rparr>"

definition v_sadd :: "string \<Rightarrow> string \<Rightarrow> rview \<Rightarrow> rview" where
  "v_sadd k m v = v\<lparr>rsets := (rsets v)(k := insert m (rsets v k))\<rparr>"

definition v_xadd :: "string \<Rightarrow> (string \<times> string) list \<Rightarrow> rview \<Rightarrow> rview" where
  "v_xadd k fvs v = v\<lparr>streams := (streams v)(k := streams v k @ [fvs])\<rparr>"

definition drop_range :: "int \<Rightarrow> int \<Rightarrow> (string \<rightharpoonup> int) \<Rightarrow> (string \<rightharpoonup> int)" where
  "drop_range lo hi z = (\<lambda>m. case z m of None \<Rightarrow> None
     | Some sc \<Rightarrow> if lo \<le> sc \<and> sc \<le> hi then None else Some sc)"

text \<open>
  The interface: what the code may assume of the server. \<open>HGETALL\<close> promises every field
  once, in no particular order; sizes are those of finite sets.
\<close>

locale redis_server =
  fixes R :: "'s redis" and view :: "'s \<Rightarrow> rview"
  assumes GET: "GET R k s = strs (view s) k"
    and SET: "view (SET R k x s) = v_set k x None (view s)"
    and SETEX: "view (SETEX R k x secs s) = v_set k x (Some (1000 * secs)) (view s)"
    and SETNX: "SETNX R k x s = (b, s') \<Longrightarrow> b = (strs (view s) k = None)
          \<and> view s' = (if b then v_set k x None (view s) else view s)"
    and DEL: "view (DEL R k s) = v_del k (view s)"
    and HGET: "HGET R k f s = hashes (view s) k f"
    and HGETALL: "map_of (HGETALL R k s) = hashes (view s) k"
    and HGETALL_distinct: "distinct (map fst (HGETALL R k s))"
    and HLEN: "HLEN R k s = int (card (dom (hashes (view s) k)))"
    and HSET: "view (HSET R k fvs s) = v_hset k fvs (view s)"
    and HSETNX: "view (HSETNX R k f x s) =
          (if hashes (view s) k f = None then v_hset k [(f, x)] (view s) else view s)"
    and HDEL: "HDEL R k f s = (n, s') \<Longrightarrow> n = (if hashes (view s) k f = None then 0 else 1)
          \<and> view s' = v_hash k ((hashes (view s) k)(f := None)) (view s)"
    and HINCRBY: "HINCRBY R k f d s = (r, s') \<Longrightarrow>
          (case incr (hashes (view s) k f) d of
             Some n \<Rightarrow> r = Inr n \<and> view s' = v_hset k [(f, itoa n)] (view s)
           | None \<Rightarrow> r = Inl RemoteFailure \<and> view s' = view s)"
    and SADD: "view (SADD R k m s) = v_sadd k m (view s)"
    and SCARD: "SCARD R k s = int (card (rsets (view s) k))"
    and ZADD: "view (ZADD R k sc m s) = v_zset k ((zsets (view s) k)(m \<mapsto> sc)) (view s)"
    and ZREM: "view (ZREM R k m s) = v_zset k ((zsets (view s) k)(m := None)) (view s)"
    and ZREMRANGEBYSCORE: "view (ZREMRANGEBYSCORE R k lo hi s) =
          v_zset k (drop_range lo hi (zsets (view s) k)) (view s)"
    and ZCARD: "ZCARD R k s = int (card (dom (zsets (view s) k)))"
    and ZFIRST_None: "ZFIRST R k s = None \<longleftrightarrow> zsets (view s) k = Map.empty"
    and ZFIRST_Some: "ZFIRST R k s = Some (m, t) \<Longrightarrow> \<exists>sc. zsets (view s) k m = Some sc
          \<and> t = itoa sc \<and> (\<forall>m' sc'. zsets (view s) k m' = Some sc' \<longrightarrow> sc \<le> sc')"
    and PEXPIRE: "zsets (view s) k \<noteq> Map.empty \<Longrightarrow> view (PEXPIRE R k ms s) = (view s)\<lparr>ttls := (ttls (view s))(k \<mapsto> ms)\<rparr>"
    and XADD: "view (XADD R k fvs s) = v_xadd k fvs (view s)"
    and TIME: "TIME R s = clock (view s)"
    and cjson: "cjson_decode R (cjson_encode R vs) = Some vs"
    and finite_hash: "finite (dom (hashes (view s) k))"
    and finite_zset: "finite (dom (zsets (view s) k))"
    and finite_set: "finite (rsets (view s) k)"
begin

lemmas reads = GET HGET HLEN SCARD ZCARD TIME cjson

lemmas writes = SET SETEX DEL HSET HSETNX SADD ZADD ZREM ZREMRANGEBYSCORE PEXPIRE XADD

lemma SETNX_run:
  "\<exists>s'. SETNX R k x s = (strs (view s) k = None, s')
     \<and> view s' = (if strs (view s) k = None then v_set k x None (view s) else view s)"
  using SETNX [of k x s] by (cases "SETNX R k x s") auto

lemma HDEL_run:
  "\<exists>s'. HDEL R k f s = (if hashes (view s) k f = None then 0 else 1, s')
     \<and> view s' = v_hash k ((hashes (view s) k)(f := None)) (view s)"
  using HDEL [of k f s] by (cases "HDEL R k f s") auto

lemma HINCRBY_Some:
  "incr (hashes (view s) k f) d = Some n \<Longrightarrow>
   \<exists>s'. HINCRBY R k f d s = (Inr n, s') \<and> view s' = v_hset k [(f, itoa n)] (view s)"
  using HINCRBY [of k f d s] by (cases "HINCRBY R k f d s") simp

lemma HINCRBY_None:
  "incr (hashes (view s) k f) d = None \<Longrightarrow>
   \<exists>s'. HINCRBY R k f d s = (Inl RemoteFailure, s') \<and> view s' = view s"
  using HINCRBY [of k f d s] by (cases "HINCRBY R k f d s") simp

lemma HGETALL_lookup: "(f, x) \<in> set (HGETALL R k s) \<longleftrightarrow> hashes (view s) k f = Some x"
  using HGETALL [of k s] HGETALL_distinct [of k s] by (metis map_of_eq_Some_iff)

end

section \<open>Reading a view after a write\<close>

lemma put_all_simps [view_simps]:
  "put_all [] h = h" "put_all ((f, x) # fvs) h = put_all fvs (h(f \<mapsto> x))"
  by (simp_all add: put_all_def)

lemma put_all_other: "f \<notin> fst ` set fvs \<Longrightarrow> put_all fvs h f = h f"
  by (induction fvs arbitrary: h) (auto simp: put_all_simps)

lemma v_hset_sel [view_simps]:
  "hashes (v_hset k fvs v) = (hashes v)(k := put_all fvs (hashes v k))"
  "strs (v_hset k fvs v) = strs v" "rsets (v_hset k fvs v) = rsets v"
  "zsets (v_hset k fvs v) = zsets v" "streams (v_hset k fvs v) = streams v"
  "ttls (v_hset k fvs v) = ttls v" "clock (v_hset k fvs v) = clock v"
  by (simp_all add: v_hset_def v_hash_def)

lemma v_hash_sel [view_simps]:
  "hashes (v_hash k h v) = (hashes v)(k := h)"
  "strs (v_hash k h v) = strs v" "rsets (v_hash k h v) = rsets v"
  "zsets (v_hash k h v) = zsets v" "streams (v_hash k h v) = streams v"
  "ttls (v_hash k h v) = ttls v" "clock (v_hash k h v) = clock v"
  by (simp_all add: v_hash_def)

lemma v_set_sel [view_simps]:
  "strs (v_set k x t v) = (strs v)(k \<mapsto> x)" "hashes (v_set k x t v) = hashes v"
  "rsets (v_set k x t v) = rsets v" "zsets (v_set k x t v) = zsets v"
  "streams (v_set k x t v) = streams v" "ttls (v_set k x t v) = (ttls v)(k := t)"
  "clock (v_set k x t v) = clock v"
  by (simp_all add: v_set_def)

lemma v_zset_sel [view_simps]:
  "zsets (v_zset k z v) = (zsets v)(k := z)" "strs (v_zset k z v) = strs v"
  "hashes (v_zset k z v) = hashes v" "rsets (v_zset k z v) = rsets v"
  "streams (v_zset k z v) = streams v" "clock (v_zset k z v) = clock v"
  by (simp_all add: v_zset_def)

lemma v_sadd_sel [view_simps]:
  "rsets (v_sadd k m v) = (rsets v)(k := insert m (rsets v k))" "strs (v_sadd k m v) = strs v"
  "hashes (v_sadd k m v) = hashes v" "zsets (v_sadd k m v) = zsets v"
  "streams (v_sadd k m v) = streams v" "ttls (v_sadd k m v) = ttls v" "clock (v_sadd k m v) = clock v"
  by (simp_all add: v_sadd_def)

lemma v_xadd_sel [view_simps]:
  "streams (v_xadd k fvs v) = (streams v)(k := streams v k @ [fvs])" "strs (v_xadd k fvs v) = strs v"
  "hashes (v_xadd k fvs v) = hashes v" "rsets (v_xadd k fvs v) = rsets v"
  "zsets (v_xadd k fvs v) = zsets v" "ttls (v_xadd k fvs v) = ttls v" "clock (v_xadd k fvs v) = clock v"
  by (simp_all add: v_xadd_def)

lemma v_del_sel [view_simps]:
  "strs (v_del k v) = (strs v)(k := None)" "hashes (v_del k v) = (hashes v)(k := Map.empty)"
  "rsets (v_del k v) = (rsets v)(k := {})" "zsets (v_del k v) = (zsets v)(k := Map.empty)"
  "streams (v_del k v) = (streams v)(k := [])" "clock (v_del k v) = clock v"
  by (simp_all add: v_del_def)

lemma incr_itoa [num_simps]: "in64 n \<Longrightarrow> in64 (n + d) \<Longrightarrow> incr (Some (itoa n)) d = Some (n + d)"
  by (simp add: incr_def redis_int_itoa)

lemma incr_None [num_simps]: "in64 d \<Longrightarrow> incr None d = Some d"
  by (simp add: incr_def)

lemma incr_in64: "incr x d = Some n \<Longrightarrow> in64 n"
  by (auto simp: incr_def split: option.splits if_splits)

end
