(* ===== verification/MemRedis.thy ===== *)
theory MemRedis
  imports Redis
begin

text \<open>
  An in-memory Redis over association lists, with every command the code issues. It shows
  that the interface \<open>redis_server\<close> can be met, and it is the server the witnesses run on.
\<close>

record mem =
  m_strs :: "(string \<times> string) list"
  m_hashes :: "(string \<times> (string \<times> string) list) list"
  m_sets :: "(string \<times> string list) list"
  m_zsets :: "(string \<times> (string \<times> int) list) list"
  m_streams :: "(string \<times> (string \<times> string) list list) list"
  m_ttls :: "(string \<times> int) list"
  m_clock :: "int \<times> int"

definition slot :: "(string \<times> 'a list) list \<Rightarrow> string \<Rightarrow> 'a list" where
  "slot m k = (case map_of m k of None \<Rightarrow> [] | Some xs \<Rightarrow> xs)"

definition mem_view :: "mem \<Rightarrow> rview" where
  "mem_view s = \<lparr>strs = map_of (m_strs s), hashes = (\<lambda>k. map_of (slot (m_hashes s) k)),
     rsets = (\<lambda>k. set (slot (m_sets s) k)), zsets = (\<lambda>k. map_of (slot (m_zsets s) k)),
     streams = slot (m_streams s), ttls = map_of (m_ttls s), clock = m_clock s\<rparr>"

definition empty_mem :: mem where
  "empty_mem = \<lparr>m_strs = [], m_hashes = [], m_sets = [], m_zsets = [], m_streams = [],
     m_ttls = [], m_clock = (0, 0)\<rparr>"

definition mem_set :: "string \<Rightarrow> string \<Rightarrow> int option \<Rightarrow> mem \<Rightarrow> mem" where
  "mem_set k x ttl s = s\<lparr>m_strs := AList.update k x (m_strs s),
     m_ttls := (case ttl of None \<Rightarrow> AList.delete k (m_ttls s) | Some t \<Rightarrow> AList.update k t (m_ttls s))\<rparr>"

definition mem_del :: "string \<Rightarrow> mem \<Rightarrow> mem" where
  "mem_del k s = s\<lparr>m_strs := AList.delete k (m_strs s), m_hashes := AList.update k [] (m_hashes s),
     m_sets := AList.update k [] (m_sets s), m_zsets := AList.update k [] (m_zsets s),
     m_streams := AList.update k [] (m_streams s), m_ttls := AList.delete k (m_ttls s)\<rparr>"

definition mem_hput :: "string \<Rightarrow> (string \<times> string) list \<Rightarrow> mem \<Rightarrow> mem" where
  "mem_hput k h s = s\<lparr>m_hashes := AList.update k h (m_hashes s)\<rparr>"

definition mem_hset :: "string \<Rightarrow> (string \<times> string) list \<Rightarrow> mem \<Rightarrow> mem" where
  "mem_hset k fvs s = mem_hput k (foldl (\<lambda>h (f, x). AList.update f x h) (slot (m_hashes s) k) fvs) s"

definition mem_zput :: "string \<Rightarrow> (string \<times> int) list \<Rightarrow> mem \<Rightarrow> mem" where
  "mem_zput k z s = s\<lparr>m_zsets := AList.update k z (m_zsets s),
     m_ttls := (if z = [] then AList.delete k (m_ttls s) else m_ttls s)\<rparr>"

definition least_score :: "(string \<times> int) list \<Rightarrow> (string \<times> int) option" where
  "least_score z = (case z of [] \<Rightarrow> None
     | p # ps \<Rightarrow> Some (foldl (\<lambda>a b. if snd b < snd a then b else a) p ps))"

text \<open>A stand-in for Redis's \<open>cjson\<close> on a flat table: each byte after an escape, items closed.\<close>

fun enc_vals :: "lua_val list \<Rightarrow> string" where
  "enc_vals [] = []"
| "enc_vals (LFalse # vs) = CHR ''f'' # enc_vals vs"
| "enc_vals (LStr s # vs) = CHR ''s'' # concat (map (\<lambda>c. [CHR ''.'', c]) s) @ CHR '','' # enc_vals vs"

fun dec_vals :: "string option \<Rightarrow> string \<Rightarrow> lua_val list" where
  "dec_vals None (c # s) = (if c = CHR ''f'' then LFalse # dec_vals None s else dec_vals (Some []) s)"
| "dec_vals (Some acc) (c # s) =
     (if c = CHR '','' then LStr (rev acc) # dec_vals None s
      else case s of [] \<Rightarrow> [] | d # t \<Rightarrow> dec_vals (Some (d # acc)) t)"
| "dec_vals _ [] = []"

lemma dec_enc_chars:
  "dec_vals (Some acc) (concat (map (\<lambda>c. [CHR ''.'', c]) s) @ CHR '','' # t) =
   LStr (rev acc @ s) # dec_vals None t"
  by (induction s arbitrary: acc) simp_all

lemma dec_enc: "dec_vals None (enc_vals vs) = vs"
  by (induction vs rule: enc_vals.induct) (simp_all add: dec_enc_chars)

definition mem_redis :: "mem redis" where
  "mem_redis = \<lparr>
     GET = (\<lambda>k s. map_of (m_strs s) k),
     SET = (\<lambda>k x. mem_set k x None),
     SETEX = (\<lambda>k x secs. mem_set k x (Some (1000 * secs))),
     SETNX = (\<lambda>k x s. if map_of (m_strs s) k = None then (True, mem_set k x None s) else (False, s)),
     DEL = mem_del,
     HGET = (\<lambda>k f s. map_of (slot (m_hashes s) k) f),
     HGETALL = (\<lambda>k s. AList.clearjunk (slot (m_hashes s) k)),
     HLEN = (\<lambda>k s. int (length (AList.clearjunk (slot (m_hashes s) k)))),
     HSET = mem_hset,
     HSETNX = (\<lambda>k f x s. if map_of (slot (m_hashes s) k) f = None then mem_hset k [(f, x)] s else s),
     HDEL = (\<lambda>k f s. (if map_of (slot (m_hashes s) k) f = None then 0 else 1,
               mem_hput k (AList.delete f (slot (m_hashes s) k)) s)),
     HINCRBY = (\<lambda>k f d s. case incr (map_of (slot (m_hashes s) k) f) d of
               None \<Rightarrow> (Inl RemoteFailure, s) | Some n \<Rightarrow> (Inr n, mem_hset k [(f, itoa n)] s)),
     SADD = (\<lambda>k m s. s\<lparr>m_sets := AList.update k (List.insert m (slot (m_sets s) k)) (m_sets s)\<rparr>),
     SCARD = (\<lambda>k s. int (length (remdups (slot (m_sets s) k)))),
     ZADD = (\<lambda>k sc m s. mem_zput k (AList.update m sc (slot (m_zsets s) k)) s),
     ZREM = (\<lambda>k m s. mem_zput k (AList.delete m (slot (m_zsets s) k)) s),
     ZREMRANGEBYSCORE = (\<lambda>k lo hi s. mem_zput k
               (filter (\<lambda>p. \<not> (lo \<le> snd p \<and> snd p \<le> hi)) (AList.clearjunk (slot (m_zsets s) k))) s),
     ZCARD = (\<lambda>k s. int (length (AList.clearjunk (slot (m_zsets s) k)))),
     ZFIRST = (\<lambda>k s. map_option (\<lambda>(m, sc). (m, itoa sc)) (least_score (AList.clearjunk (slot (m_zsets s) k)))),
     PEXPIRE = (\<lambda>k ms s. s\<lparr>m_ttls := AList.update k ms (m_ttls s)\<rparr>),
     XADD = (\<lambda>k fvs s. s\<lparr>m_streams := AList.update k (slot (m_streams s) k @ [fvs]) (m_streams s)\<rparr>),
     TIME = m_clock,
     cjson_encode = enc_vals,
     cjson_decode = (\<lambda>x. Some (dec_vals None x))\<rparr>"

lemma slot_update [simp]: "slot (AList.update k x m) = (slot m)(k := x)"
  by (auto simp: slot_def fun_eq_iff update_conv')

lemma mem_view_set [simp]: "mem_view (mem_set k x t s) = v_set k x t (mem_view s)"
  by (simp add: mem_view_def mem_set_def v_set_def update_conv' delete_conv' split: option.split)

lemma mem_view_hput [simp]: "mem_view (mem_hput k h s) = v_hash k (map_of h) (mem_view s)"
  by (auto simp: mem_view_def mem_hput_def v_hash_def fun_eq_iff)

lemma map_of_fold_update:
  "map_of (foldl (\<lambda>h (f, x). AList.update f x h) h fvs) = put_all fvs (map_of h)"
  by (induction fvs arbitrary: h) (auto simp: view_simps update_conv')

lemma mem_view_hset [simp]: "mem_view (mem_hset k fvs s) = v_hset k fvs (mem_view s)"
  by (simp add: mem_hset_def v_hset_def map_of_fold_update) (simp add: mem_view_def)

lemma mem_view_zput [simp]: "mem_view (mem_zput k z s) = v_zset k (map_of z) (mem_view s)"
proof -
  have "map_of z = Map.empty \<longleftrightarrow> z = []" by (cases z) (auto simp: fun_eq_iff)
  then show ?thesis
    by (auto simp: mem_view_def mem_zput_def v_zset_def fun_eq_iff delete_conv')
qed

lemma mem_view_del [simp]: "mem_view (mem_del k s) = v_del k (mem_view s)"
  by (auto simp: mem_view_def mem_del_def v_del_def fun_eq_iff delete_conv')

lemma card_dom_map_of: "int (length (AList.clearjunk h)) = int (card (dom (map_of h)))"
proof -
  have "card (dom (map_of (AList.clearjunk h))) = length (map fst (AList.clearjunk h))"
    by (simp only: dom_map_of_conv_image_fst flip: set_map)
      (rule distinct_card, rule distinct_clearjunk)
  then show ?thesis by (simp add: map_of_clearjunk)
qed

lemma map_of_drop_range:
  "distinct (map fst z) \<Longrightarrow>
   map_of (filter (\<lambda>p. \<not> (lo \<le> snd p \<and> snd p \<le> hi)) z) = drop_range lo hi (map_of z)"
proof (induction z)
  case (Cons p z)
  then have "map_of z (fst p) = None" by (auto simp: map_of_eq_None_iff)
  with Cons show ?case by (auto simp: drop_range_def fun_eq_iff split: option.split)
qed (simp add: drop_range_def fun_eq_iff)

lemma least_score_fold:
  "foldl (\<lambda>a b. if snd b < snd a then b else a) p ps \<in> set (p # ps)
   \<and> (\<forall>q\<in>set (p # ps). snd (foldl (\<lambda>a b. if snd b < snd a then b else (a :: string \<times> int)) p ps) \<le> snd q)"
proof (induction ps arbitrary: p)
  case (Cons q ps)
  from Cons [of "if snd q < snd p then q else p"] show ?case by (fastforce split: if_splits)
qed simp

lemma least_score_Some:
  assumes "least_score z = Some (m, sc)" "distinct (map fst z)"
  shows "map_of z m = Some sc \<and> (\<forall>m' sc'. map_of z m' = Some sc' \<longrightarrow> sc \<le> sc')"
proof -
  obtain p ps where z: "z = p # ps" using assms(1) by (cases z) (auto simp: least_score_def)
  with assms(1) have "(m, sc) \<in> set z" "\<forall>q\<in>set z. sc \<le> snd q"
    using least_score_fold [of p ps] by (auto simp: least_score_def)
  then show ?thesis using assms(2) by (auto simp: map_of_eq_Some_iff dest: map_of_SomeD)
qed

lemma mem_zfirst_None: "least_score (AList.clearjunk z) = None \<longleftrightarrow> map_of z = Map.empty"
proof -
  have "map_of z = Map.empty \<longleftrightarrow> AList.clearjunk z = []"
    by (metis map_of_clearjunk map_of.simps(1) list.exhaust map_of_Cons_code(2) option.distinct(1)
        surj_pair)
  then show ?thesis by (simp add: least_score_def split: list.split)
qed

lemma mem_view_sel [simp]:
  "strs (mem_view s) = map_of (m_strs s)" "hashes (mem_view s) k = map_of (slot (m_hashes s) k)"
  "rsets (mem_view s) k = set (slot (m_sets s) k)" "zsets (mem_view s) k = map_of (slot (m_zsets s) k)"
  "streams (mem_view s) = slot (m_streams s)" "clock (mem_view s) = m_clock s"
  by (simp_all add: mem_view_def)

lemma mem_view_misc:
  "mem_view (s\<lparr>m_sets := AList.update k xs (m_sets s)\<rparr>)
     = (mem_view s)\<lparr>rsets := (rsets (mem_view s))(k := set xs)\<rparr>"
  "mem_view (s\<lparr>m_ttls := AList.update k ms (m_ttls s)\<rparr>)
     = (mem_view s)\<lparr>ttls := (ttls (mem_view s))(k \<mapsto> ms)\<rparr>"
  "mem_view (s\<lparr>m_streams := AList.update k es (m_streams s)\<rparr>)
     = (mem_view s)\<lparr>streams := (streams (mem_view s))(k := es)\<rparr>"
  by (auto simp: mem_view_def fun_eq_iff update_conv')

interpretation mem: redis_server mem_redis mem_view
proof unfold_locales
  show "ZFIRST mem_redis k s = Some (m, t) \<Longrightarrow> \<exists>sc. zsets (mem_view s) k m = Some sc
      \<and> t = itoa sc \<and> (\<forall>m' sc'. zsets (mem_view s) k m' = Some sc' \<longrightarrow> sc \<le> sc')" for k s m t
    using least_score_Some [of "AList.clearjunk (slot (m_zsets s) k)" m]
    by (auto simp: mem_redis_def distinct_clearjunk map_of_clearjunk)
  show "mem_view (ZREMRANGEBYSCORE mem_redis k lo hi s)
      = v_zset k (drop_range lo hi (zsets (mem_view s) k)) (mem_view s)" for k lo hi s
    using map_of_drop_range [of "AList.clearjunk (slot (m_zsets s) k)" lo hi]
    by (simp add: mem_redis_def distinct_clearjunk map_of_clearjunk)
qed (auto simp: mem_redis_def card_dom_map_of map_of_clearjunk distinct_clearjunk delete_conv'
      update_conv' map_of_drop_range mem_zfirst_None dec_enc mem_view_misc v_sadd_def v_xadd_def v_hset_def put_all_def
      length_remdups_card_conv finite_dom_map_of split: option.splits if_splits)

end
