(* ===== verification/Client.thy ===== *)
theory Client
  imports MemRedis
begin

text \<open>
  The Go side of a round trip to Redis. A Go method runs in a \<open>world\<close>: the database and the
  turns the environment will take, one per round trip. In a turn other clients change the
  data before the command executes, the reply may get lost after the command has executed
  (go-redis then sends the command again), and the method may never see a reply. With no
  turns left nothing interferes.
\<close>

section \<open>Round trips\<close>

datatype answer = Answered | Unanswered | ScriptFlushed

text \<open>
  \<open>Turn gs g a\<close>: for each \<open>h\<close> of \<open>gs\<close>, other clients do \<open>h\<close> and the command executes with its
  reply lost; then other clients do \<open>g\<close> and the command is answered, or the client gives
  up. \<open>ScriptFlushed\<close> is an answer too: the server has lost its script cache.
\<close>

datatype 's turn = Turn "('s \<Rightarrow> 's) list" "'s \<Rightarrow> 's" answer

record 's world =
  db :: 's
  turns :: "'s turn list"

type_synonym ('s, 'x, 'a) go = "(('s, 'x) world_scheme, err, 'a) eff"

definition resend :: "('s, err, 'a) eff \<Rightarrow> ('s \<Rightarrow> 's) list \<Rightarrow> 's \<Rightarrow> 's" where
  "resend f gs s = foldl (\<lambda>s h. snd (f (h s))) s gs"

definition delivered :: "('s, err, 'a) eff \<Rightarrow> ('s, 'x, 'a) go" where
  "delivered f w = (case f (db w) of (r, s') \<Rightarrow> (r, w\<lparr>db := s'\<rparr>))"

text \<open>
  \<open>roundtrip f\<close> is one command, one script run by \<open>Script.Run\<close> (which falls back to
  \<open>EVAL\<close> when the cache is flushed) or one \<open>MULTI\<close>/\<open>EXEC\<close>; \<open>evalsha f\<close> is a script queued
  in a pipeline, for which a flushed cache is an error.
\<close>

definition roundtrip :: "('s, err, 'a) eff \<Rightarrow> ('s, 'x, 'a) go" where
  "roundtrip f w = (case turns w of [] \<Rightarrow> delivered f w
     | Turn gs g a # ts \<Rightarrow>
         let w' = w\<lparr>db := g (resend f gs (db w)), turns := ts\<rparr>
         in if a = Unanswered then (Inl RemoteFailure, w') else delivered f w')"

definition evalsha :: "('s, err, 'a) eff \<Rightarrow> ('s, 'x, 'a) go" where
  "evalsha f w = (case turns w of [] \<Rightarrow> delivered f w
     | Turn gs g a # ts \<Rightarrow>
         let w' = w\<lparr>db := g (resend f gs (db w)), turns := ts\<rparr>
         in case a of Answered \<Rightarrow> delivered f w' | Unanswered \<Rightarrow> (Inl RemoteFailure, w')
            | ScriptFlushed \<Rightarrow> (Inl NoScript, w'))"

lemma roundtrip_quiet [eff_simps]:
  "turns w = [] \<Longrightarrow> f (db w) = (r, s') \<Longrightarrow> roundtrip f w = (r, w\<lparr>db := s'\<rparr>)"
  "turns w = [] \<Longrightarrow> f (db w) = (r, s') \<Longrightarrow> evalsha f w = (r, w\<lparr>db := s'\<rparr>)"
  by (simp_all add: roundtrip_def evalsha_def delivered_def)

text \<open>
  Every answered round trip ran the command on the database as it was at that moment and
  returned what the command returned.
\<close>

lemma roundtrip_Inr:
  assumes "roundtrip f w = (Inr a, w')"
  obtains s where "f s = (Inr a, db w')" "turns w = [] \<Longrightarrow> s = db w"
  using assms
  by (auto simp: roundtrip_def delivered_def Let_def split: list.splits turn.splits prod.splits if_splits)

text \<open>\<open>acts view f F\<close>: a command does to the state what \<open>F\<close> says.\<close>

definition acts :: "('s \<Rightarrow> 'v) \<Rightarrow> ('s, err, 'a) eff \<Rightarrow> ('v \<Rightarrow> (err + 'a) \<times> 'v) \<Rightarrow> bool" where
  "acts view f F \<longleftrightarrow> (\<forall>s. fst (f s) = fst (F (view s)) \<and> view (snd (f s)) = snd (F (view s)))"

lemma actsD: "acts view f F \<Longrightarrow> f s = (r, s') \<Longrightarrow> F (view s) = (r, view s')"
  by (simp add: acts_def prod_eq_iff) (metis fst_conv snd_conv)

section \<open>Rely and guarantee\<close>

text \<open>
  Reasoning under interference: a relation between database states that every step of the
  environment respects (\<open>rely\<close>), and that a method's own steps then respect too
  (\<open>guar\<close>), each at the moment it happens.
\<close>

definition rely :: "('s \<Rightarrow> 's \<Rightarrow> bool) \<Rightarrow> ('s, 'x) world_scheme \<Rightarrow> bool" where
  "rely Q w \<longleftrightarrow> (\<forall>gs g a. Turn gs g a \<in> set (turns w) \<longrightarrow> (\<forall>h\<in>insert g (set gs). \<forall>s. Q s (h s)))"

definition guar :: "('s \<Rightarrow> 's \<Rightarrow> bool) \<Rightarrow> ('s, 'x, 'a) go \<Rightarrow> bool" where
  "guar Q m \<longleftrightarrow> (\<forall>w. rely Q w \<longrightarrow> Q (db w) (db (snd (m w))) \<and> rely Q (snd (m w)))"

definition step_guar :: "('s \<Rightarrow> 's \<Rightarrow> bool) \<Rightarrow> ('s, err, 'a) eff \<Rightarrow> bool" where
  "step_guar Q f \<longleftrightarrow> (\<forall>s. Q s (snd (f s)))"

lemma guarD: "guar Q m \<Longrightarrow> rely Q w \<Longrightarrow> Q (db w) (db (snd (m w))) \<and> rely Q (snd (m w))"
  by (simp add: guar_def)

lemma relyD: "rely Q w \<Longrightarrow> Turn gs g a \<in> set (turns w) \<Longrightarrow> h = g \<or> h \<in> set gs \<Longrightarrow> Q s (h s)"
  unfolding rely_def by (metis insert_iff)

lemma rely_upd: "rely Q w \<Longrightarrow> set ts \<subseteq> set (turns w) \<Longrightarrow> rely Q (w\<lparr>db := z, turns := ts\<rparr>)"
  "rely Q w \<Longrightarrow> rely Q (w\<lparr>db := z\<rparr>)"
  unfolding rely_def by (simp_all add: subset_iff) blast

lemma resend_guar:
  "reflp Q \<Longrightarrow> transp Q \<Longrightarrow> step_guar Q f \<Longrightarrow> (\<forall>h\<in>set gs. \<forall>s. Q s (h s)) \<Longrightarrow> Q s (resend f gs s)"
proof (induction gs arbitrary: s)
  case (Cons h gs)
  have "Q s (h s)" "Q (h s) (snd (f (h s)))" "Q (snd (f (h s))) (resend f gs (snd (f (h s))))"
    using Cons by (auto simp: step_guar_def)
  then have "Q s (resend f gs (snd (f (h s))))" using Cons.prems(2) by (meson transpD)
  then show ?case by (simp add: resend_def)
qed (simp add: resend_def reflpD)

lemma trips_guar:
  fixes f :: "('s, err, 'a) eff"
  assumes "reflp Q" "transp Q" "step_guar Q f"
  shows "guar Q (roundtrip f :: ('s, 'x, 'a) go)" "guar Q (evalsha f :: ('s, 'x, 'a) go)"
proof -
  have turn: "Q (db w) (g (resend f gs (db w))) \<and> Q (db w) (snd (f (g (resend f gs (db w)))))
      \<and> rely Q (w\<lparr>db := z, turns := ts\<rparr>)"
    if "rely Q w" "turns w = Turn gs g a # ts" for w :: "('s, 'x) world_scheme" and gs g a ts z
  proof -
    have "Turn gs g a \<in> set (turns w)" using that(2) by simp
    note env = relyD [OF that(1) this]
    have "Q (db w) (resend f gs (db w))" by (rule resend_guar [OF assms]) (intro ballI allI, rule env, simp)
    moreover have "Q (resend f gs (db w)) (g (resend f gs (db w)))" by (rule env [where h = g]) simp
    ultimately have "Q (db w) (g (resend f gs (db w)))" using assms(2) by (meson transpD)
    moreover have "Q (g (resend f gs (db w))) (snd (f (g (resend f gs (db w)))))"
      using assms(3) by (simp add: step_guar_def)
    moreover have "rely Q (w\<lparr>db := z, turns := ts\<rparr>)" by (rule rely_upd) (use that in auto)
    ultimately show ?thesis using assms(2) by (meson transpD)
  qed
  have quiet: "Q (db w) (snd (f (db w)))" for w :: "('s, 'x) world_scheme"
    using assms(3) by (simp add: step_guar_def)
  have sel: "db (snd (delivered f w)) = snd (f (db w))"
    "snd (delivered f w) = w\<lparr>db := snd (f (db w))\<rparr>" for w :: "('s, 'x) world_scheme"
    by (simp_all add: delivered_def split: prod.split)
  have comm: "w\<lparr>turns := ts, db := z\<rparr> = w\<lparr>db := z, turns := ts\<rparr>"
    for w :: "('s, 'x) world_scheme" and ts z by simp
  show "guar Q (roundtrip f :: ('s, 'x, 'a) go)" unfolding guar_def
  proof (intro allI impI)
    fix w :: "('s, 'x) world_scheme" assume w: "rely Q w"
    show "Q (db w) (db (snd (roundtrip f w))) \<and> rely Q (snd (roundtrip f w))"
    proof (cases "turns w")
      case (Cons t ts)
      then show ?thesis using turn [OF w, of _ _ _ ts]
        by (cases t) (auto simp: roundtrip_def Let_def sel comm)
    qed (use w in \<open>simp add: roundtrip_def sel quiet rely_upd\<close>)
  qed
  show "guar Q (evalsha f :: ('s, 'x, 'a) go)" unfolding guar_def
  proof (intro allI impI)
    fix w :: "('s, 'x) world_scheme" assume w: "rely Q w"
    show "Q (db w) (db (snd (evalsha f w))) \<and> rely Q (snd (evalsha f w))"
    proof (cases "turns w")
      case (Cons t ts)
      then show ?thesis using turn [OF w, of _ _ _ ts]
        by (cases t) (auto simp: evalsha_def Let_def sel comm split: answer.split)
    qed (use w in \<open>simp add: evalsha_def sel quiet rely_upd\<close>)
  qed
qed

lemma guar_pure:
  assumes "reflp Q"
  shows "guar Q (ret x)" "guar Q (raise e)" "guar Q (lift_sum r)"
  using assms by (simp_all add: guar_def eff_simps reflpD)

lemma guar_andThen:
  assumes "transp Q" "guar Q m" "\<And>x. guar Q (k x)"
  shows "guar Q (andThen m k)"
  unfolding guar_def
proof (intro allI impI)
  fix w :: "('a, 'b) world_scheme" assume "rely Q w"
  obtain r u where m: "m w = (r, u)" by (cases "m w")
  with guarD [OF assms(2) \<open>rely Q w\<close>] have u: "Q (db w) (db u)" "rely Q u" by simp_all
  show "Q (db w) (db (snd (andThen m k w))) \<and> rely Q (snd (andThen m k w))"
  proof (cases r)
    case (Inr x)
    with guarD [OF assms(3) u(2), of x] u(1) assms(1) m show ?thesis
      by (auto simp: eff_simps dest: transpD)
  qed (simp add: eff_simps m u)
qed

lemma guar_attempt:
  assumes "transp Q" "guar Q m" "\<And>x. guar Q (k x)"
  shows "guar Q (attempt m k)"
  unfolding guar_def
proof (intro allI impI)
  fix w :: "('a, 'b) world_scheme" assume "rely Q w"
  obtain r u where m: "m w = (r, u)" by (cases "m w")
  with guarD [OF assms(2) \<open>rely Q w\<close>] have u: "Q (db w) (db u)" "rely Q u" by simp_all
  with guarD [OF assms(3) u(2), of r] assms(1) m
  show "Q (db w) (db (snd (attempt m k w))) \<and> rely Q (snd (attempt m k w))"
    by (auto simp: eff_simps dest: transpD)
qed

end
