(* ===== verification/Keys.thy ===== *)
theory Keys
  imports Errors
begin

text \<open>
  \<open>redisstore/keys.go\<close>: the key schema. Identifiers are UUIDs, so they contain no colon
  (\<open>plain_id\<close>); the lemmas of \<open>key_simps\<close> say that keys of one Redis type then never
  coincide unless they are built alike from the same identifier.
\<close>

section \<open>Key builders\<close>

definition OutboxStream :: string where "OutboxStream = ''wager-outbox''"
definition OutboxGroup :: string where "OutboxGroup = ''relay''"
definition PoolTotalField :: string where "PoolTotalField = ''total''"

definition RoomKey :: "string \<Rightarrow> string" where "RoomKey r = ''room:'' @ r"
definition RoomWalletsKey :: "string \<Rightarrow> string" where "RoomWalletsKey r = ''room:'' @ r @ '':wallets''"
definition RoomCodeKey :: "string \<Rightarrow> string" where "RoomCodeKey c = ''code:'' @ c"
definition RoundKey :: "string \<Rightarrow> string" where "RoundKey r = ''round:'' @ r"
definition RoomRoundKey :: "string \<Rightarrow> string" where "RoomRoundKey r = ''room:'' @ r @ '':round''"
definition RoomOpeningKey :: "string \<Rightarrow> string" where "RoomOpeningKey r = ''room:'' @ r @ '':opening''"
definition RoundPoolsKey :: "string \<Rightarrow> string" where "RoundPoolsKey r = ''round:'' @ r @ '':pools''"
definition RoundWagersKey :: "string \<Rightarrow> string" where "RoundWagersKey r = ''round:'' @ r @ '':wagers''"
definition RoundBettorsKey :: "string \<Rightarrow> string" where "RoundBettorsKey r = ''round:'' @ r @ '':bettors''"
definition IdemKey :: "string \<Rightarrow> string" where "IdemKey k = ''idem:'' @ k"
definition UserKey :: "string \<Rightarrow> string" where "UserKey u = ''user:'' @ u"
definition EmailKey :: "string \<Rightarrow> string" where "EmailKey e = ''email:'' @ e"
definition RateLimitKey :: "string \<Rightarrow> string \<Rightarrow> string" where
  "RateLimitKey scope ident = ''ratelimit:'' @ scope @ '':'' @ ident"

lemmas key_defs = RoomKey_def RoomWalletsKey_def RoomCodeKey_def RoundKey_def RoomRoundKey_def
  RoomOpeningKey_def RoundPoolsKey_def RoundWagersKey_def RoundBettorsKey_def IdemKey_def
  UserKey_def EmailKey_def RateLimitKey_def

definition plain_id :: "string \<Rightarrow> bool" where
  "plain_id r \<longleftrightarrow> CHR '':'' \<notin> set r"

lemma plain_ne_append [key_simps]:
  "plain_id r \<Longrightarrow> r \<noteq> a @ CHR '':'' # b" "plain_id r \<Longrightarrow> a @ CHR '':'' # b \<noteq> r"
  by (auto simp: plain_id_def)

section \<open>Keys of one type\<close>

lemma key_inj [key_simps]:
  "RoomKey r = RoomKey r' \<longleftrightarrow> r = r'" "RoomWalletsKey r = RoomWalletsKey r' \<longleftrightarrow> r = r'"
  "RoomCodeKey c = RoomCodeKey c' \<longleftrightarrow> c = c'" "RoundKey r = RoundKey r' \<longleftrightarrow> r = r'"
  "RoomRoundKey r = RoomRoundKey r' \<longleftrightarrow> r = r'" "RoomOpeningKey r = RoomOpeningKey r' \<longleftrightarrow> r = r'"
  "RoundPoolsKey r = RoundPoolsKey r' \<longleftrightarrow> r = r'" "RoundWagersKey r = RoundWagersKey r' \<longleftrightarrow> r = r'"
  "RoundBettorsKey r = RoundBettorsKey r' \<longleftrightarrow> r = r'" "IdemKey k = IdemKey k' \<longleftrightarrow> k = k'"
  "UserKey u = UserKey u' \<longleftrightarrow> u = u'" "EmailKey e = EmailKey e' \<longleftrightarrow> e = e'"
  "RateLimitKey sc i = RateLimitKey sc i' \<longleftrightarrow> i = i'"
  by (auto simp: key_defs)

text \<open>Hash keys of different families: across rooms, rounds and users without any condition.\<close>

lemma hash_keys_families [key_simps]:
  "RoomKey r \<noteq> RoundKey x" "RoomKey r \<noteq> RoundPoolsKey x" "RoomKey r \<noteq> RoundWagersKey x"
  "RoomWalletsKey r \<noteq> RoundKey x" "RoomWalletsKey r \<noteq> RoundPoolsKey x"
  "RoomWalletsKey r \<noteq> RoundWagersKey x" "RoomOpeningKey r \<noteq> RoundKey x"
  "RoomOpeningKey r \<noteq> RoundPoolsKey x" "RoomOpeningKey r \<noteq> RoundWagersKey x"
  "UserKey u \<noteq> RoomKey r" "UserKey u \<noteq> RoomWalletsKey r" "UserKey u \<noteq> RoomOpeningKey r"
  "UserKey u \<noteq> RoundKey x" "UserKey u \<noteq> RoundPoolsKey x" "UserKey u \<noteq> RoundWagersKey x"
  by (simp_all add: key_defs)

lemma append_last_ne: "last a \<noteq> last b \<Longrightarrow> a \<noteq> [] \<Longrightarrow> b \<noteq> [] \<Longrightarrow> x @ a \<noteq> y @ b"
  by (metis last_appendR)

lemma hash_keys_suffixes [key_simps]:
  "RoomWalletsKey r \<noteq> RoomOpeningKey r'" "RoundPoolsKey x \<noteq> RoundWagersKey x'"
proof -
  show "RoomWalletsKey r \<noteq> RoomOpeningKey r'"
    using append_last_ne [of "'':wallets''" "'':opening''" r r'] by (simp add: key_defs)
  have "(x @ '':po'') @ ''ols'' \<noteq> (x' @ '':wag'') @ ''ers''"
    by (subst append_eq_append_conv) auto
  then show "RoundPoolsKey x \<noteq> RoundWagersKey x'" by (simp add: key_defs)
qed

lemma hash_keys_plain [key_simps]:
  "plain_id r \<Longrightarrow> RoomKey r \<noteq> RoomWalletsKey r'" "plain_id r \<Longrightarrow> RoomKey r \<noteq> RoomOpeningKey r'"
  "plain_id x \<Longrightarrow> RoundKey x \<noteq> RoundPoolsKey x'" "plain_id x \<Longrightarrow> RoundKey x \<noteq> RoundWagersKey x'"
  by (simp_all add: key_defs plain_ne_append)

lemma hash_keys_same [key_simps]:
  "RoomKey r \<noteq> RoomWalletsKey r" "RoomKey r \<noteq> RoomOpeningKey r"
  "RoundKey x \<noteq> RoundPoolsKey x" "RoundKey x \<noteq> RoundWagersKey x"
  by (simp_all add: key_defs)

lemmas hash_keys_sym [key_simps] = hash_keys_families [symmetric] hash_keys_suffixes [symmetric]
  hash_keys_plain [symmetric] hash_keys_same [symmetric]

text \<open>String keys.\<close>

lemma str_keys [key_simps]:
  "RoomCodeKey c \<noteq> RoomRoundKey r" "RoomCodeKey c \<noteq> IdemKey k" "RoomCodeKey c \<noteq> EmailKey e"
  "RoomRoundKey r \<noteq> IdemKey k" "RoomRoundKey r \<noteq> EmailKey e" "IdemKey k \<noteq> EmailKey e"
  by (simp_all add: key_defs)

lemmas str_keys_sym [key_simps] = str_keys [symmetric]

section \<open>Wager fields\<close>

definition WagerField :: "string \<Rightarrow> int \<Rightarrow> string" where
  "WagerField userID outcome = userID @ '':'' @ itoa outcome"

definition ParseWagerField :: "string \<Rightarrow> err + string \<times> int" where
  "ParseWagerField field = (case split_last_colon field of None \<Rightarrow> Inl Malformed
     | Some (userID, outcomeStr) \<Rightarrow>
         (case ParseInt outcomeStr of None \<Rightarrow> Inl Malformed
          | Some outcome \<Rightarrow> Inr (userID, outcome)))"

lemma ParseWagerField_WagerField [simp]:
  "in64 n \<Longrightarrow> ParseWagerField (WagerField u n) = Inr (u, n)"
  by (simp add: ParseWagerField_def WagerField_def split_last_colon_append itoa_no_colon ParseInt_itoa)

lemma WagerField_inj [key_simps]: "WagerField u n = WagerField u' n' \<longleftrightarrow> u = u' \<and> n = n'"
proof
  assume "WagerField u n = WagerField u' n'"
  then have "split_last_colon (WagerField u n) = split_last_colon (WagerField u' n')" by simp
  then show "u = u' \<and> n = n'"
    by (simp add: WagerField_def split_last_colon_append itoa_no_colon)
qed simp

end
