(* ===== verification/Scripts.thy ===== *)
theory Scripts
  imports Client Keys
begin

text \<open>
  The Lua scripts of \<open>scripts/lua\<close>, each one atomic step of the server. Their keys and
  arguments are parameters in the order of \<open>KEYS\<close> and \<open>ARGV\<close>. An error a command or the
  interpreter raises aborts the script and keeps the writes made before it, as Redis does:
  comparing or adding \<open>nil\<close>, \<open>HINCRBY\<close> on a text that is not an integer. A missing hash
  field reads as \<open>false\<close>.
\<close>

section \<open>What the scripts use of Lua\<close>

text \<open>A value an operator cannot take (\<open>nil\<close>) is an error.\<close>

definition lua_need :: "'a option \<Rightarrow> ('s, err, 'a) eff" where
  "lua_need x = (case x of None \<Rightarrow> raise RemoteFailure | Some a \<Rightarrow> ret a)"

definition lua_of :: "string option \<Rightarrow> lua_val" where
  "lua_of x = (case x of None \<Rightarrow> LFalse | Some s \<Rightarrow> LStr s)"

definition lua_num :: "string option \<Rightarrow> int option" where
  "lua_num x = Option.bind x tonumber"

definition hget :: "'s redis \<Rightarrow> string \<Rightarrow> string \<Rightarrow> ('s, err, string option) eff" where
  "hget R k f = asks (HGET R k f)"

text \<open>
  A number argument is sent as \<open>%.17g\<close>, which \<open>HINCRBY\<close> refuses from \<open>10 ^ 17\<close> on; its reply
  becomes a Lua number, a double.
\<close>

definition hincrby :: "'s redis \<Rightarrow> string \<Rightarrow> string \<Rightarrow> int \<Rightarrow> ('s, err, int) eff" where
  "hincrby R k f n = (if \<bar>n\<bar> < 10 ^ 17 then andThen (HINCRBY R k f n) (\<lambda>m. ret (dbl m))
     else raise RemoteFailure)"

definition now_ms :: "int \<times> int \<Rightarrow> int" where
  "now_ms t = fst t * 1000 + snd t div 1000"

type_synonym redis_key = string
type_synonym lua_text = string

definition table :: "string list \<Rightarrow> lua_val list" where
  "table xs = map LStr xs"

section \<open>\<open>place_wager.lua\<close>\<close>

definition wager_apply :: "'s redis \<Rightarrow> redis_key \<Rightarrow> redis_key \<Rightarrow> redis_key \<Rightarrow> redis_key \<Rightarrow> redis_key \<Rightarrow> redis_key \<Rightarrow>
    lua_text \<Rightarrow> lua_text \<Rightarrow> int \<Rightarrow> lua_text \<Rightarrow> lua_text \<Rightarrow> lua_text \<Rightarrow> int \<Rightarrow> ('s, err, lua_val list) eff" where
  "wager_apply R walletsKey poolsKey wagersKey bettorsKey idemKey outboxKey
       userID outcome amount idempotencyKey roomID roundID outcomeCount =
     andThen (hincrby R walletsKey userID (- amount)) (\<lambda>newBalance.
     andThen (hincrby R poolsKey outcome amount) (\<lambda>_.
     andThen (hincrby R poolsKey ''total'' amount) (\<lambda>tot.
     andThen (hincrby R wagersKey (userID @ '':'' @ outcome) amount) (\<lambda>_.
     andThen (exec (SADD R bettorsKey userID)) (\<lambda>_.
     andThen (asks (SCARD R bettorsKey)) (\<lambda>bettorCount.
     andThen (exec (XADD R outboxKey
       [(''type'', ''wager_placed''), (''user'', userID), (''outcome'', outcome),
        (''amount'', tostring amount), (''balance'', tostring newBalance),
        (''idempotency_key'', idempotencyKey), (''room_id'', roomID), (''round_id'', roundID)])) (\<lambda>_.
     andThen (asks (\<lambda>s. table [''OK'', tostring newBalance, tostring bettorCount, tostring tot] @
       map (\<lambda>i. lua_of (HGET R poolsKey (tostring i) s)) [0..outcomeCount - 1])) (\<lambda>reply.
     andThen (exec (SETEX R idemKey (cjson_encode R reply) 86400)) (\<lambda>_.
     ret reply)))))))))"

definition wager_guarded :: "'s redis \<Rightarrow> redis_key \<Rightarrow> redis_key \<Rightarrow> redis_key \<Rightarrow> lua_text \<Rightarrow> lua_text \<Rightarrow> int \<Rightarrow>
    (int \<Rightarrow> ('s, err, lua_val list) eff) \<Rightarrow> ('s, err, lua_val list) eff" where
  "wager_guarded R roomKey walletsKey roundKey userID outcome amount apply_wager =
     andThen (hget R roundKey ''status'') (\<lambda>status.
     if status \<noteq> Some ''open'' then ret (table [''POOL_LOCKED''])
     else andThen (hget R roundKey ''lock_at_ms'') (\<lambda>lockAt.
     andThen (asks (TIME R)) (\<lambda>t.
     andThen (lua_need (lua_num lockAt)) (\<lambda>lockAtMS.
     if now_ms t \<ge> lockAtMS then ret (table [''POOL_LOCKED''])
     else andThen (hget R roundKey ''outcome_count'') (\<lambda>cnt.
     case tonumber outcome of None \<Rightarrow> ret (table [''INVALID_OUTCOME''])
     | Some outcomeNum \<Rightarrow>
       if outcomeNum < 0 then ret (table [''INVALID_OUTCOME''])
       else andThen (lua_need (lua_num cnt)) (\<lambda>outcomeCount.
       if outcomeNum \<ge> outcomeCount then ret (table [''INVALID_OUTCOME''])
       else andThen (hget R roomKey ''host_id'') (\<lambda>hostID.
       if hostID = Some userID then ret (table [''HOST_CANNOT_BET''])
       else andThen (hget R walletsKey userID) (\<lambda>existingBalance.
       case existingBalance of None \<Rightarrow> ret (table [''NOT_IN_ROOM''])
       | Some b \<Rightarrow>
         andThen (lua_need (tonumber b)) (\<lambda>bal.
         if bal < amount then ret (table [''INSUFFICIENT_FUNDS''])
         else apply_wager outcomeCount)))))))))"

definition place_wager :: "'s redis \<Rightarrow> redis_key \<Rightarrow> redis_key \<Rightarrow> redis_key \<Rightarrow> redis_key \<Rightarrow> redis_key \<Rightarrow> redis_key \<Rightarrow>
    redis_key \<Rightarrow> redis_key \<Rightarrow> lua_text \<Rightarrow> lua_text \<Rightarrow> lua_text \<Rightarrow> lua_text \<Rightarrow> lua_text \<Rightarrow> lua_text \<Rightarrow>
    ('s, err, lua_val list) eff" where
  "place_wager R roomKey walletsKey roundKey poolsKey wagersKey bettorsKey idemKey outboxKey
       userID outcome amountText idempotencyKey roomID roundID =
     andThen (asks (GET R idemKey)) (\<lambda>cached.
     case cached of Some x \<Rightarrow> lua_need (cjson_decode R x)
     | None \<Rightarrow>
       (case tonumber amountText of None \<Rightarrow> ret (table [''INVALID_STAKE''])
        | Some amount \<Rightarrow>
          if amount \<le> 0 then ret (table [''INVALID_STAKE''])
          else wager_guarded R roomKey walletsKey roundKey userID outcome amount
                 (wager_apply R walletsKey poolsKey wagersKey bettorsKey idemKey outboxKey
                    userID outcome amount idempotencyKey roomID roundID)))"

section \<open>\<open>lock_round.lua\<close>, \<open>settle_round.lua\<close>, \<open>refund_round.lua\<close>\<close>

definition lock_round :: "'s redis \<Rightarrow> string \<Rightarrow> ('s, err, lua_val list) eff" where
  "lock_round R roundKey =
     andThen (hget R roundKey ''status'') (\<lambda>status.
     if status = Some ''locked'' then ret (table [''ALREADY_LOCKED''])
     else if status \<noteq> Some ''open'' then ret [LStr ''ROUND_TERMINAL'', lua_of status]
     else andThen (exec (HSET R roundKey [(''status'', ''locked'')])) (\<lambda>_.
       ret (table [''OK''])))"

text \<open>
  The crediting loop over the arguments after the fixed ones: pairs of user and amount, an
  error at a pair with no number. It returns how many users it credited.
\<close>

fun credit_loop :: "'s redis \<Rightarrow> string \<Rightarrow> string list \<Rightarrow> int \<Rightarrow> ('s, err, int) eff" where
  "credit_loop R walletsKey [] n = ret n"
| "credit_loop R walletsKey [userID] n = raise RemoteFailure"
| "credit_loop R walletsKey (userID # amount # rest) n =
     andThen (lua_need (tonumber amount)) (\<lambda>a.
     andThen (hincrby R walletsKey userID a) (\<lambda>_.
     credit_loop R walletsKey rest (n + 1)))"

definition settle_round :: "'s redis \<Rightarrow> redis_key \<Rightarrow> redis_key \<Rightarrow> redis_key \<Rightarrow> lua_text \<Rightarrow> lua_text \<Rightarrow> lua_text \<Rightarrow>
    lua_text \<Rightarrow> lua_text \<Rightarrow> lua_text \<Rightarrow> lua_text \<Rightarrow> lua_text \<Rightarrow> string list \<Rightarrow> ('s, err, lua_val list) eff" where
  "settle_round R roundKey walletsKey outboxKey terminalStatus resolvedOutcome dust
       idempotencyKey roundID roomID tot payoutsJSON credits =
     andThen (hget R roundKey ''status'') (\<lambda>currentStatus.
     if currentStatus = Some ''resolved'' \<or> currentStatus = Some ''refunded''
     then ret [LStr ''ALREADY_RESOLVED'', lua_of currentStatus]
     else if currentStatus \<noteq> Some ''locked'' then ret [LStr ''NOT_LOCKED'', lua_of currentStatus]
     else andThen (credit_loop R walletsKey credits 0) (\<lambda>creditedCount.
     andThen (exec (HSET R roundKey [(''status'', terminalStatus)])) (\<lambda>_.
     andThen (exec (if resolvedOutcome \<noteq> '''' then HSET R roundKey [(''resolved_outcome'', resolvedOutcome)]
                    else id)) (\<lambda>_.
     andThen (exec (XADD R outboxKey
       [(''type'', if terminalStatus = ''refunded'' then ''round_refunded'' else ''round_settled''),
        (''round_id'', roundID), (''room_id'', roomID), (''total'', tot), (''dust'', dust),
        (''winning_outcome'', resolvedOutcome), (''payouts'', payoutsJSON),
        (''idempotency_key'', idempotencyKey)])) (\<lambda>_.
     ret (table [''OK'', tostring creditedCount]))))))"

definition refund_round :: "'s redis \<Rightarrow> redis_key \<Rightarrow> redis_key \<Rightarrow> redis_key \<Rightarrow> lua_text \<Rightarrow> lua_text \<Rightarrow> lua_text \<Rightarrow>
    lua_text \<Rightarrow> lua_text \<Rightarrow> string list \<Rightarrow> ('s, err, lua_val list) eff" where
  "refund_round R roundKey walletsKey outboxKey idempotencyKey roundID roomID tot payoutsJSON credits =
     andThen (hget R roundKey ''status'') (\<lambda>status.
     if status = Some ''resolved'' \<or> status = Some ''refunded''
     then ret [LStr ''ALREADY_RESOLVED'', lua_of status]
     else if status \<noteq> Some ''locked'' then ret [LStr ''NOT_LOCKED'', lua_of status]
     else andThen (credit_loop R walletsKey credits 0) (\<lambda>_.
     andThen (exec (HSET R roundKey [(''status'', ''refunded'')])) (\<lambda>_.
     andThen (exec (XADD R outboxKey
       [(''type'', ''round_refunded''), (''round_id'', roundID), (''room_id'', roomID),
        (''total'', tot), (''dust'', ''0''), (''winning_outcome'', ''''),
        (''payouts'', payoutsJSON), (''idempotency_key'', idempotencyKey)])) (\<lambda>_.
     ret (table [''OK'', tot])))))"

section \<open>\<open>claim_unique.lua\<close> and \<open>top_up_balance.lua\<close>\<close>

fun pairs_of :: "string list \<Rightarrow> (string \<times> string) list option" where
  "pairs_of [] = Some []"
| "pairs_of [x] = None"
| "pairs_of (f # x # rest) = map_option ((#) (f, x)) (pairs_of rest)"

definition claim_unique :: "'s redis \<Rightarrow> string \<Rightarrow> string \<Rightarrow> string \<Rightarrow> string list \<Rightarrow>
    ('s, err, lua_val list) eff" where
  "claim_unique R indexKey entityKey ident fieldArgs =
     andThen (runs (SETNX R indexKey ident)) (\<lambda>claimed.
     if \<not> claimed
     then andThen (asks (GET R indexKey)) (\<lambda>existingID. ret [LStr ''TAKEN'', lua_of existingID])
     else andThen (lua_need (if fieldArgs = [] then None else pairs_of fieldArgs)) (\<lambda>fvs.
       andThen (exec (HSET R entityKey fvs)) (\<lambda>_.
       ret (table [''OK'']))))"

definition top_up_balance :: "'s redis \<Rightarrow> string \<Rightarrow> string \<Rightarrow> ('s, err, lua_val list) eff" where
  "top_up_balance R userKey targetText =
     andThen (hget R userKey ''balance'') (\<lambda>balanceStr.
     case balanceStr of None \<Rightarrow> ret (table [''NOT_FOUND''])
     | Some b \<Rightarrow>
       andThen (lua_need (tonumber b)) (\<lambda>bal.
       andThen (lua_need (tonumber targetText)) (\<lambda>target.
       if bal \<ge> target then ret (table [''OK'', ''0'', tostring bal])
       else andThen (exec (HSET R userKey [(''balance'', number_arg target)])) (\<lambda>_.
         ret (table [''OK'', tostring (target - bal), tostring target])))))"

section \<open>\<open>rate_limit.lua\<close>\<close>

definition rate_denied :: "'s redis \<Rightarrow> string \<Rightarrow> int \<Rightarrow> int \<Rightarrow> ('s, err, lua_val list) eff" where
  "rate_denied R key now window =
     andThen (asks (ZFIRST R key)) (\<lambda>oldest.
     case oldest of
       None \<Rightarrow> ret (table [''DENIED'', ''0'', '''', tostring window, tostring (now + window)])
     | Some (_, sc) \<Rightarrow>
         andThen (lua_need (tonumber sc)) (\<lambda>oldestScore.
         let resetAt = oldestScore + window;
             retryAfter = (if resetAt - now < 1 then 1 else resetAt - now)
         in ret (table [''DENIED'', ''0'', '''', tostring retryAfter, tostring resetAt])))"

definition rate_allowed :: "'s redis \<Rightarrow> string \<Rightarrow> int \<Rightarrow> int \<Rightarrow> string \<Rightarrow> int \<Rightarrow>
    ('s, err, lua_val list) eff" where
  "rate_allowed R key now window member remaining =
     andThen (exec (ZADD R key now member)) (\<lambda>_.
     andThen (exec (PEXPIRE R key window)) (\<lambda>_.
     andThen (asks (ZFIRST R key)) (\<lambda>oldest.
     case oldest of
       None \<Rightarrow> ret (table [''ALLOWED'', tostring remaining, member, tostring (now + window)])
     | Some (_, sc) \<Rightarrow>
         andThen (lua_need (tonumber sc)) (\<lambda>oldestScore.
         ret (table [''ALLOWED'', tostring remaining, member, tostring (oldestScore + window)])))))"

definition rate_limit :: "'s redis \<Rightarrow> string \<Rightarrow> string \<Rightarrow> string \<Rightarrow> string \<Rightarrow>
    ('s, err, lua_val list) eff" where
  "rate_limit R key windowText limitText member =
     andThen (asks (TIME R)) (\<lambda>t.
     andThen (lua_need (tonumber windowText)) (\<lambda>window.
     andThen (exec (ZREMRANGEBYSCORE R key 0 (now_ms t - window))) (\<lambda>_.
     andThen (asks (ZCARD R key)) (\<lambda>n.
     andThen (lua_need (tonumber limitText)) (\<lambda>limit.
     if n \<ge> limit then rate_denied R key (now_ms t) window
     else rate_allowed R key (now_ms t) window member (limit - n - 1))))))"

end
