(* ===== verification/Json.thy ===== *)
theory Json
  imports Errors
begin

text \<open>
  What the code uses of \<open>encoding/json\<close>: the text \<open>Marshal\<close> writes for arrays, objects,
  strings and 64-bit integers, and the value \<open>Unmarshal\<close> reads. Strings are bytes. The
  encoder escapes as Go does (quotes, control characters, the HTML characters, the line
  separators U+2028 and U+2029, invalid UTF-8 as U+FFFD); the decoder reads any JSON text.
\<close>

section \<open>UTF-8\<close>

definition byte :: "char \<Rightarrow> nat" where
  "byte c = of_char c"

definition between :: "nat \<Rightarrow> nat \<Rightarrow> char \<Rightarrow> bool" where
  "between lo hi c \<longleftrightarrow> lo \<le> byte c \<and> byte c \<le> hi"

text \<open>
  The length of the encoding a string starts with, as \<open>utf8.DecodeRune\<close> accepts it; 0 for an
  invalid one.
\<close>

definition second_ok :: "char \<Rightarrow> char \<Rightarrow> bool" where
  "second_ok c d \<longleftrightarrow>
     (if byte c = 0xE0 then between 0xA0 0xBF d
      else if byte c = 0xED then between 0x80 0x9F d
      else if byte c = 0xF0 then between 0x90 0xBF d
      else if byte c = 0xF4 then between 0x80 0x8F d
      else between 0x80 0xBF d)"

definition rune_len :: "string \<Rightarrow> nat" where
  "rune_len s = (case s of [] \<Rightarrow> 0
     | c # t \<Rightarrow>
        if byte c < 0x80 then 1
        else case t of [] \<Rightarrow> 0
        | d # t \<Rightarrow>
          if \<not> (between 0xC2 0xF4 c \<and> second_ok c d) then 0
          else if byte c < 0xE0 then 2
          else case t of [] \<Rightarrow> 0
          | e # t \<Rightarrow>
            if \<not> between 0x80 0xBF e then 0
            else if byte c < 0xF0 then 3
            else case t of [] \<Rightarrow> 0
            | f # _ \<Rightarrow> if between 0x80 0xBF f then 4 else 0)"

definition bytes :: "nat list \<Rightarrow> string" where
  "bytes = map char_of"

definition utf8 :: "nat \<Rightarrow> string" where
  "utf8 u = bytes
     (if u < 0x80 then [u]
      else if u < 0x800 then [0xC0 + u div 64, 0x80 + u mod 64]
      else if u < 0x10000 then [0xE0 + u div 4096, 0x80 + u div 64 mod 64, 0x80 + u mod 64]
      else [0xF0 + u div 262144, 0x80 + u div 4096 mod 64, 0x80 + u div 64 mod 64, 0x80 + u mod 64])"

text \<open>The runes \<open>range\<close> visits; an invalid byte is visited as U+FFFD.\<close>

function runes :: "string \<Rightarrow> string list" where
  "runes [] = []"
| "runes (c # s) =
     (let n = rune_len (c # s)
      in if n = 0 then utf8 0xFFFD # runes s else take n (c # s) # runes (drop (n - 1) s))"
  by pat_completeness auto
termination by (relation "measure length") auto

section \<open>Strings\<close>

definition hex_digit :: "nat \<Rightarrow> char" where
  "hex_digit d = ''0123456789abcdef'' ! d"

definition hex_val :: "char \<Rightarrow> nat option" where
  "hex_val c = (if between 48 57 c then Some (byte c - 48)
     else if between 97 102 c then Some (byte c - 87)
     else if between 65 70 c then Some (byte c - 55) else None)"

text \<open>One byte below 128; \<open>appendString\<close> writes \<open>\u00..\<close> where there is no short form.\<close>

definition esc_byte :: "char \<Rightarrow> string" where
  "esc_byte c = (if byte c = 34 \<or> byte c = 92 then [CHR 0x5C, c]
     else if byte c = 8 then [CHR 0x5C, CHR ''b''] else if byte c = 12 then [CHR 0x5C, CHR ''f'']
     else if byte c = 10 then [CHR 0x5C, CHR ''n''] else if byte c = 13 then [CHR 0x5C, CHR ''r'']
     else if byte c = 9 then [CHR 0x5C, CHR ''t'']
     else if byte c < 32 \<or> byte c = 60 \<or> byte c = 62 \<or> byte c = 38
     then [CHR 0x5C, CHR ''u'', CHR ''0'', CHR ''0'', hex_digit (byte c div 16), hex_digit (byte c mod 16)]
     else [c])"

definition esc_rune :: "string \<Rightarrow> string" where
  "esc_rune r = (if r = utf8 0x2028 then CHR 0x5C # ''u2028''
     else if r = utf8 0x2029 then CHR 0x5C # ''u2029'' else r)"

function esc :: "string \<Rightarrow> string" where
  "esc [] = []"
| "esc (c # s) =
     (let n = rune_len (c # s)
      in if n = 0 then CHR 0x5C # ''ufffd'' @ esc s
         else if n = 1 then esc_byte c @ esc s
         else esc_rune (take n (c # s)) @ esc (drop (n - 1) s))"
  by pat_completeness auto
termination by (relation "measure length") auto

definition quote :: "string \<Rightarrow> string" where
  "quote s = CHR 0x22 # esc s @ [CHR 0x22]"

text \<open>A string literal after its opening quote: the value and the text after the closing one.\<close>

definition hex4 :: "string \<Rightarrow> (nat \<times> string) option" where
  "hex4 s = (case s of a # b # c # d # t \<Rightarrow>
       (case (hex_val a, hex_val b, hex_val c, hex_val d) of
          (Some a, Some b, Some c, Some d) \<Rightarrow> Some (a * 4096 + b * 256 + c * 16 + d, t)
        | _ \<Rightarrow> None)
     | _ \<Rightarrow> None)"

text \<open>A \<open>\u\<close> escape; a high surrogate takes the low one that follows it, a lone one is U+FFFD.\<close>

definition unicode_escape :: "string \<Rightarrow> (string \<times> string) option" where
  "unicode_escape s = (case hex4 s of None \<Rightarrow> None
     | Some (u, t) \<Rightarrow>
        if u < 0xD800 \<or> 0xDFFF < u then Some (utf8 u, t)
        else (case t of a # b # t' \<Rightarrow>
               (if u < 0xDC00 \<and> byte a = 92 \<and> b = CHR ''u'' then
                  (case hex4 t' of
                     Some (v, t'') \<Rightarrow> if 0xDC00 \<le> v \<and> v \<le> 0xDFFF
                       then Some (utf8 (0x10000 + (u - 0xD800) * 1024 + (v - 0xDC00)), t'')
                       else Some (utf8 0xFFFD, t)
                   | None \<Rightarrow> Some (utf8 0xFFFD, t))
                else Some (utf8 0xFFFD, t))
             | _ \<Rightarrow> Some (utf8 0xFFFD, t)))"

definition escape :: "string \<Rightarrow> (string \<times> string) option" where
  "escape s = (case s of [] \<Rightarrow> None
     | c # t \<Rightarrow> if byte c = 34 \<or> byte c = 92 \<or> c = CHR ''/'' then Some ([c], t)
         else if c = CHR ''b'' then Some (bytes [8], t) else if c = CHR ''f'' then Some (bytes [12], t)
         else if c = CHR ''n'' then Some (bytes [10], t) else if c = CHR ''r'' then Some (bytes [13], t)
         else if c = CHR ''t'' then Some (bytes [9], t)
         else if c = CHR ''u'' then unicode_escape t else None)"

text \<open>The first argument bounds the number of steps; the length of the text is enough.\<close>

fun unq :: "nat \<Rightarrow> string \<Rightarrow> (string \<times> string) option" where
  "unq 0 s = None"
| "unq (Suc n) [] = None"
| "unq (Suc n) (c # s) =
     (if byte c = 34 then Some ([], s)
      else if byte c = 92 then
        (case escape s of None \<Rightarrow> None
         | Some (x, t) \<Rightarrow> map_option (\<lambda>(y, z). (x @ y, z)) (unq n t))
      else if byte c < 32 then None
      else let k = rune_len (c # s)
           in if k = 0 then map_option (\<lambda>(y, z). (utf8 0xFFFD @ y, z)) (unq n s)
              else map_option (\<lambda>(y, z). (take k (c # s) @ y, z)) (unq n (drop (k - 1) s)))"

section \<open>Values\<close>

text \<open>A number is kept as its literal.\<close>

datatype json = JNull | JBool bool | JNum string | JStr string | JArr "json list"
  | JObj "(string \<times> json) list"

fun commas :: "string list \<Rightarrow> string" where
  "commas [] = []"
| "commas [x] = x"
| "commas (x # y # xs) = x @ CHR '','' # commas (y # xs)"

fun render :: "json \<Rightarrow> string" where
  "render JNull = ''null''"
| "render (JBool b) = (if b then ''true'' else ''false'')"
| "render (JNum x) = x"
| "render (JStr s) = quote s"
| "render (JArr vs) = CHR ''['' # commas (map render vs) @ '']''"
| "render (JObj ms) = CHR ''{'' # commas (map (\<lambda>(k, v). quote k @ CHR '':'' # render v) ms) @ ''}''"

definition is_ws :: "char \<Rightarrow> bool" where
  "is_ws c \<longleftrightarrow> byte c = 32 \<or> byte c = 9 \<or> byte c = 10 \<or> byte c = 13"

definition skip_ws :: "string \<Rightarrow> string" where
  "skip_ws = dropWhile is_ws"

definition num_char :: "char \<Rightarrow> bool" where
  "num_char c \<longleftrightarrow> is_digit c \<or> c \<in> set ''+-.eE''"

definition digits :: "string \<Rightarrow> bool" where
  "digits s \<longleftrightarrow> s \<noteq> [] \<and> list_all is_digit s"

definition exp_ok :: "string \<Rightarrow> bool" where
  "exp_ok s = (case s of [] \<Rightarrow> True
     | c # t \<Rightarrow> c \<in> set ''eE'' \<and> digits (case t of d # u \<Rightarrow> if d \<in> set ''+-'' then u else t | [] \<Rightarrow> []))"

definition valid_num :: "string \<Rightarrow> bool" where
  "valid_num s =
     (let s = (case s of c # t \<Rightarrow> if c = CHR ''-'' then t else s | [] \<Rightarrow> []);
          whole = takeWhile is_digit s; s = dropWhile is_digit s
      in digits whole \<and> (length whole = 1 \<or> hd whole \<noteq> CHR ''0'') \<and>
         (case s of c # t \<Rightarrow>
            if c = CHR ''.'' then digits (takeWhile is_digit t) \<and> exp_ok (dropWhile is_digit t)
            else exp_ok s
          | [] \<Rightarrow> True))"

fun val :: "nat \<Rightarrow> string \<Rightarrow> (json \<times> string) option"
and elems :: "nat \<Rightarrow> string \<Rightarrow> (json list \<times> string) option"
and members :: "nat \<Rightarrow> string \<Rightarrow> ((string \<times> json) list \<times> string) option" where
  "val 0 s = None"
| "val (Suc n) s = (case skip_ws s of [] \<Rightarrow> None
     | c # t \<Rightarrow>
        if byte c = 34 then map_option (\<lambda>(x, r). (JStr x, r)) (unq (Suc (length t)) t)
        else if c = CHR ''['' then
          (if take 1 (skip_ws t) = '']'' then Some (JArr [], drop 1 (skip_ws t))
           else map_option (\<lambda>(vs, r). (JArr vs, r)) (elems n t))
        else if c = CHR ''{'' then
          (if take 1 (skip_ws t) = ''}'' then Some (JObj [], drop 1 (skip_ws t))
           else map_option (\<lambda>(ms, r). (JObj ms, r)) (members n t))
        else if is_prefix ''null'' (c # t) then Some (JNull, drop 4 (c # t))
        else if is_prefix ''true'' (c # t) then Some (JBool True, drop 4 (c # t))
        else if is_prefix ''false'' (c # t) then Some (JBool False, drop 5 (c # t))
        else (let x = takeWhile num_char (c # t)
              in if valid_num x then Some (JNum x, dropWhile num_char (c # t)) else None))"
| "elems 0 s = None"
| "elems (Suc n) s = (case val n s of None \<Rightarrow> None
     | Some (v, t) \<Rightarrow> (case skip_ws t of [] \<Rightarrow> None
        | c # r \<Rightarrow> if c = CHR '']'' then Some ([v], r)
            else if c = CHR '','' then map_option (\<lambda>(vs, q). (v # vs, q)) (elems n r) else None))"
| "members 0 s = None"
| "members (Suc n) s = (case skip_ws s of [] \<Rightarrow> None
     | c # t \<Rightarrow> if byte c \<noteq> 34 then None
        else (case unq (Suc (length t)) t of None \<Rightarrow> None
        | Some (k, t) \<Rightarrow> if take 1 (skip_ws t) \<noteq> '':'' then None
           else (case val n (drop 1 (skip_ws t)) of None \<Rightarrow> None
           | Some (v, t) \<Rightarrow> (case skip_ws t of [] \<Rightarrow> None
              | c # r \<Rightarrow> if c = CHR ''}'' then Some ([(k, v)], r)
                  else if c = CHR '','' then map_option (\<lambda>(ms, q). ((k, v) # ms, q)) (members n r)
                  else None))))"

definition parse :: "string \<Rightarrow> json option" where
  "parse s = (case val (Suc (length s)) s of None \<Rightarrow> None
     | Some (v, t) \<Rightarrow> if skip_ws t = [] then Some v else None)"

text \<open>\<open>Unmarshal\<close> into a \<open>[]string\<close>: \<open>null\<close> leaves the zero value.\<close>

fun string_elems :: "json list \<Rightarrow> string list option" where
  "string_elems [] = Some []"
| "string_elems (JStr x # vs) = map_option ((#) x) (string_elems vs)"
| "string_elems (JNull # vs) = map_option ((#) []) (string_elems vs)"
| "string_elems (_ # vs) = None"

definition unmarshal_strings :: "string \<Rightarrow> string list option" where
  "unmarshal_strings s = (case parse s of Some (JArr vs) \<Rightarrow> string_elems vs
     | Some JNull \<Rightarrow> Some [] | _ \<Rightarrow> None)"

definition marshal_strings :: "string list \<Rightarrow> string" where
  "marshal_strings xs = render (JArr (map JStr xs))"

section \<open>Strings are read back as they were written\<close>

function valid_utf8 :: "string \<Rightarrow> bool" where
  "valid_utf8 [] = True"
| "valid_utf8 (c # s) = (let n = rune_len (c # s) in n \<noteq> 0 \<and> valid_utf8 (drop (n - 1) s))"
  by pat_completeness auto
termination by (relation "measure length") auto

lemma char_of_byte: "char_of (byte c) = c"
  by (simp add: byte_def)

lemma byte_eq: "byte c = n \<Longrightarrow> c = char_of n"
  by (metis char_of_byte)

lemma rune_len_prefix:
  "rune_len s \<noteq> 0 \<Longrightarrow> rune_len s \<le> length s \<and> rune_len (take (rune_len s) s @ t) = rune_len s"
proof (cases s)
  case (Cons c u)
  assume n: "rune_len s \<noteq> 0"
  show ?thesis
  proof (cases u)
    case Nil
    then show ?thesis using n Cons by (simp add: rune_len_def split: if_splits)
  next
    case u: (Cons d v)
    show ?thesis
    proof (cases v)
      case Nil
      then show ?thesis using n Cons u by (simp add: rune_len_def split: if_splits)
    next
      case v: (Cons e x)
      show ?thesis
      proof (cases x)
        case Nil
        then show ?thesis using n Cons u v by (simp add: rune_len_def split: if_splits)
      next
        case x: (Cons f y)
        then show ?thesis using n Cons u v by (simp add: rune_len_def split: if_splits)
      qed
    qed
  qed
qed (simp add: rune_len_def)

lemma rune_len_ascii: "rune_len (c # s) = 1 \<longleftrightarrow> byte c < 0x80"
  by (simp add: rune_len_def split: list.splits)

lemma hex_val_digit: "d < 16 \<Longrightarrow> hex_val (hex_digit d) = Some d"
proof -
  assume "d < 16"
  moreover have "\<forall>d\<in>{..<16}. hex_val (hex_digit d) = Some d" by code_simp
  ultimately show ?thesis by simp
qed

lemma hex4_digits: "b < 256 \<Longrightarrow>
  hex4 (CHR ''0'' # CHR ''0'' # hex_digit (b div 16) # hex_digit (b mod 16) # t) = Some (b, t)"
proof -
  assume "b < 256"
  then have "b div 16 < 16" by auto
  moreover have "hex_val CHR ''0'' = Some 0" by code_simp
  ultimately show ?thesis by (simp add: hex4_def hex_val_digit)
qed

lemma unq_esc_byte:
  assumes "byte c < 0x80"
  shows "unq (Suc n) (esc_byte c @ s) = map_option (\<lambda>(y, z). (c # y, z)) (unq n s)"
proof -
  have bs: "byte CHR 0x5C = 92" by code_simp
  consider (quoted) "byte c = 34 \<or> byte c = 92" | (short) "byte c \<in> {8, 12, 10, 13, 9}"
    | (hex) "byte c \<notin> {34, 92, 8, 12, 10, 13, 9}" "byte c < 32 \<or> byte c = 60 \<or> byte c = 62 \<or> byte c = 38"
    | (plain) "byte c \<notin> {34, 92, 8, 12, 10, 13, 9}" "\<not> (byte c < 32 \<or> byte c = 60 \<or> byte c = 62 \<or> byte c = 38)"
    by blast
  then show ?thesis
  proof cases
    case quoted
    then show ?thesis by (auto simp: esc_byte_def bs escape_def)
  next
    case short
    then have "c \<in> {char_of (8 :: nat), char_of (12 :: nat), char_of (10 :: nat), char_of (13 :: nat), char_of (9 :: nat)}"
      by (auto dest: byte_eq)
    then show ?thesis by (auto simp: esc_byte_def escape_def bytes_def byte_def)
  next
    case hex
    then show ?thesis using assms
      by (auto simp: esc_byte_def bs escape_def unicode_escape_def hex4_digits utf8_def bytes_def
          char_of_byte byte_def)
  next
    case plain
    then show ?thesis using assms rune_len_ascii [of c s] by (simp add: esc_byte_def)
  qed
qed

text \<open>A valid rune of more than one byte: nothing in it is taken for an escape or a quote.\<close>

lemma rune_head: "1 < rune_len (c # s) \<Longrightarrow> 0x80 \<le> byte c"
  by (simp add: rune_len_def split: list.splits if_splits)

lemma unq_escaped_separators:
  "unq (Suc n) (CHR 0x5C # ''u2028'' @ s) = map_option (\<lambda>(y, z). (utf8 0x2028 @ y, z)) (unq n s)"
  "unq (Suc n) (CHR 0x5C # ''u2029'' @ s) = map_option (\<lambda>(y, z). (utf8 0x2029 @ y, z)) (unq n s)"
proof -
  have hex: "hex4 (CHR ''2'' # CHR ''0'' # CHR ''2'' # CHR ''8'' # s) = Some (0x2028, s)"
    "hex4 (CHR ''2'' # CHR ''0'' # CHR ''2'' # CHR ''9'' # s) = Some (0x2029, s)"
    by (simp_all add: hex4_def hex_val_def between_def byte_def)
  show "unq (Suc n) (CHR 0x5C # ''u2028'' @ s) = map_option (\<lambda>(y, z). (utf8 0x2028 @ y, z)) (unq n s)"
    "unq (Suc n) (CHR 0x5C # ''u2029'' @ s) = map_option (\<lambda>(y, z). (utf8 0x2029 @ y, z)) (unq n s)"
    by (simp_all add: escape_def unicode_escape_def hex byte_def split: option.split)
qed

lemma unq_esc_rune:
  assumes "1 < rune_len (c # s)"
  shows "unq (Suc n) (esc_rune (take (rune_len (c # s)) (c # s)) @ t)
    = map_option (\<lambda>(y, z). (take (rune_len (c # s)) (c # s) @ y, z)) (unq n t)"
proof -
  define k where "k = rune_len (c # s)"
  define r where "r = take k (c # s)"
  have k: "k = Suc (k - 1)" using assms by (simp add: k_def)
  have rc: "r = c # take (k - 1) s" unfolding r_def by (subst k) simp
  have len: "rune_len (r @ t) = k" "length r = k"
    using rune_len_prefix [of "c # s" t] assms by (simp_all add: r_def k_def)
  show ?thesis
  proof (cases "r = utf8 0x2028 \<or> r = utf8 0x2029")
    case True
    then show ?thesis unfolding k_def [symmetric] r_def [symmetric]
      by (auto simp: esc_rune_def unq_escaped_separators [simplified])
  next
    case False
    have c: "0x80 \<le> byte c" by (rule rune_head [OF assms])
    have "unq (Suc n) (r @ t) = map_option (\<lambda>(y, z). (take k (r @ t) @ y, z)) (unq n (drop k (r @ t)))"
      using c len k by (simp add: rc drop_Cons')
    with len False show ?thesis unfolding k_def [symmetric] r_def [symmetric]
      by (simp add: esc_rune_def)
  qed
qed

theorem unq_esc:
  "valid_utf8 s \<Longrightarrow> length s < n \<Longrightarrow> unq n (esc s @ CHR 0x22 # t) = Some (s, t)"
proof (induction s arbitrary: n rule: esc.induct)
  case 1
  then show ?case by (cases n) (simp_all add: byte_def)
next
  case (2 c s)
  then obtain m where n: "n = Suc m" by (cases n) auto
  define k where "k = rune_len (c # s)"
  have v: "k \<noteq> 0" "valid_utf8 (drop (k - 1) s)" using 2 by (simp_all add: k_def Let_def)
  show ?case
  proof (cases "k = 1")
    case True
    with 2 v n rune_len_ascii [of c s] show ?thesis
      by (simp add: k_def unq_esc_byte Let_def)
  next
    case False
    with v have k: "1 < k" by simp
    then have "take k (c # s) @ drop (k - 1) s = c # s" by (cases k) auto
    moreover have "unq m (esc (drop (k - 1) s) @ CHR 0x22 # t) = Some (drop (k - 1) s, t)"
      using 2 v k n False by (auto simp: k_def)
    ultimately show ?thesis
      using k unq_esc_rune [of c s m] n by (simp add: k_def Let_def)
  qed
qed

section \<open>Values are read back as they were written\<close>

fun wf_json :: "json \<Rightarrow> bool" where
  "wf_json JNull = True"
| "wf_json (JBool b) = True"
| "wf_json (JNum x) = (valid_num x \<and> list_all num_char x)"
| "wf_json (JStr s) = valid_utf8 s"
| "wf_json (JArr vs) = (\<forall>v\<in>set vs. wf_json v)"
| "wf_json (JObj ms) = (\<forall>m\<in>set ms. valid_utf8 (fst m) \<and> wf_json (snd m))"

lemma literal_chars:
  "\<not> is_ws CHR ''n''" "\<not> is_ws CHR ''t''" "\<not> is_ws CHR ''f''" "\<not> is_ws CHR 0x22" "\<not> is_ws CHR ''[''"
  "\<not> is_ws CHR ''{''" "\<not> is_ws CHR '',''" "\<not> is_ws CHR '':''" "\<not> is_ws CHR '']''" "\<not> is_ws CHR ''}''"
  "\<not> num_char CHR '',''" "\<not> num_char CHR '']''" "\<not> num_char CHR ''}''"
  "byte CHR 0x22 = 34" "byte CHR ''['' \<noteq> 34" "byte CHR ''{'' \<noteq> 34" "byte CHR ''n'' \<noteq> 34"
  "byte CHR ''t'' \<noteq> 34" "byte CHR ''f'' \<noteq> 34"
  by (simp_all add: is_ws_def num_char_def is_digit_def byte_def)

lemma skip_ws_simps [simp]: "skip_ws [] = []" "\<not> is_ws c \<Longrightarrow> skip_ws (c # s) = c # s"
  by (simp_all add: skip_ws_def)

lemma num_char_head: "num_char c \<Longrightarrow> \<not> is_ws c \<and> byte c \<noteq> 34 \<and> c \<notin> set ''[]{},:ntf''"
  by (auto simp: num_char_def is_digit_def is_ws_def byte_def)

lemma valid_num_nonempty: "valid_num x \<Longrightarrow> x \<noteq> []"
  by (auto simp: valid_num_def digits_def)

lemma render_head:
  "wf_json v \<Longrightarrow> \<exists>c r. render v = c # r \<and> \<not> is_ws c \<and> c \<noteq> CHR '']'' \<and> c \<noteq> CHR ''}''"
proof (cases v)
  case (JNum x)
  assume "wf_json v"
  with JNum show ?thesis using valid_num_nonempty [of x] num_char_head by (cases x) auto
qed (auto simp: quote_def literal_chars)

definition stops :: "string \<Rightarrow> bool" where
  "stops t \<longleftrightarrow> t = [] \<or> \<not> num_char (hd t)"

lemma stops_simps [simp]: "stops []" "stops (c # t) \<longleftrightarrow> \<not> num_char c"
  by (simp_all add: stops_def)

definition reads_back :: "json \<Rightarrow> bool" where
  "reads_back v \<longleftrightarrow> (\<forall>n t. length (render v) \<le> n \<longrightarrow> stops t \<longrightarrow> val n (render v @ t) = Some (v, t))"

lemma unq_quote: "valid_utf8 s \<Longrightarrow> unq (Suc (length (esc s @ CHR 0x22 # t))) (esc s @ CHR 0x22 # t) = Some (s, t)"
proof -
  assume v: "valid_utf8 s"
  have "length s \<le> length (esc s)" using v
  proof (induction s rule: esc.induct)
    case (2 c s)
    define k where "k = rune_len (c # s)"
    have "k \<le> Suc (length s)" using rune_len_prefix [of "c # s"] 2 by (simp add: k_def Let_def)
    moreover have "1 \<le> length (esc_byte c)" by (simp add: esc_byte_def)
    moreover have "length (esc_rune (take k (c # s))) \<ge> min k 6"
      using \<open>k \<le> Suc (length s)\<close> by (auto simp: esc_rune_def)
    moreover have "k \<le> 4" by (simp add: k_def rune_len_def split: list.split)
    ultimately show ?case using 2 by (auto simp: Let_def simp flip: k_def)
  qed simp
  then show ?thesis by (intro unq_esc [OF v]) simp
qed

lemma elems_render:
  assumes "vs \<noteq> []" "\<forall>v\<in>set vs. wf_json v \<and> reads_back v" "length (commas (map render vs)) < n"
  shows "elems n (commas (map render vs) @ CHR '']'' # t) = Some (vs, t)"
  using assms
proof (induction vs arbitrary: n)
  case (Cons v vs)
  then obtain m where n: "n = Suc m" by (cases n) auto
  have rb: "val m (render v @ u) = Some (v, u)" if "stops u" for u
    using Cons that n by (cases vs) (auto simp: reads_back_def)
  show ?case
  proof (cases vs)
    case Nil
    with rb [of "CHR '']'' # t"] n show ?thesis by (simp add: literal_chars)
  next
    case (Cons w ws)
    have "elems m (commas (map render vs) @ CHR '']'' # t) = Some (vs, t)"
      using Cons.IH Cons.prems n Cons by auto
    with rb [of "CHR '','' # commas (map render vs) @ CHR '']'' # t"] n Cons show ?thesis
      by (simp add: literal_chars)
  qed
qed simp

definition render_member :: "string \<times> json \<Rightarrow> string" where
  "render_member m = (case m of (k, v) \<Rightarrow> quote k @ CHR '':'' # render v)"

lemma render_JObj: "render (JObj ms) = CHR ''{'' # commas (map render_member ms) @ ''}''"
proof -
  have "render_member = (\<lambda>(k, v). quote k @ CHR '':'' # render v)" by (simp add: fun_eq_iff render_member_def)
  then show ?thesis by simp
qed

lemma render_member_Cons: "render_member (k, v) = CHR 0x22 # esc k @ CHR 0x22 # CHR '':'' # render v"
  by (simp add: render_member_def quote_def)

lemma members_render:
  assumes "ms \<noteq> []" "\<forall>m\<in>set ms. valid_utf8 (fst m) \<and> wf_json (snd m) \<and> reads_back (snd m)"
    "length (commas (map render_member ms)) < n"
  shows "members n (commas (map render_member ms) @ CHR ''}'' # t) = Some (ms, t)"
  using assms
proof (induction ms arbitrary: n)
  case (Cons m ms)
  then obtain i where n: "n = Suc i" by (cases n) auto
  obtain k v where m: "m = (k, v)" by (cases m)
  have rb: "val i (render v @ u) = Some (v, u)" if "stops u" for u
    using Cons that n m by (cases ms) (auto simp: reads_back_def render_member_Cons)
  have key: "unq (Suc (length (esc k @ CHR 0x22 # u))) (esc k @ CHR 0x22 # u) = Some (k, u)" for u
    by (rule unq_quote) (use Cons.prems m in auto)
  from Cons.prems m obtain c r where head: "render v = c # r" "\<not> is_ws c"
    using render_head [of v] by auto
  show ?case
  proof (cases ms)
    case Nil
    with rb [of "CHR ''}'' # t"] key [of "CHR '':'' # render v @ CHR ''}'' # t"] n m head show ?thesis
      by (simp add: literal_chars render_member_Cons)
  next
    case (Cons w ws)
    have "members i (commas (map render_member ms) @ CHR ''}'' # t) = Some (ms, t)"
      using Cons.IH Cons.prems n Cons by auto
    with rb [of "CHR '','' # commas (map render_member ms) @ CHR ''}'' # t"] n m head Cons
      key [of "CHR '':'' # render v @ CHR '','' # commas (map render_member ms) @ CHR ''}'' # t"]
    show ?thesis by (simp add: literal_chars render_member_Cons)
  qed
qed simp

lemma commas_head: "xs \<noteq> [] \<Longrightarrow> \<forall>x\<in>set xs. \<exists>c r. x = c # r \<and> P c \<Longrightarrow> \<exists>c r. commas xs = c # r \<and> P c"
  by (cases xs rule: commas.cases) auto

lemma val_JNum:
  assumes "valid_num x" "list_all num_char x" "stops t"
  shows "val (Suc n) (x @ t) = Some (JNum x, t)"
proof -
  obtain c y where x: "x = c # y" using valid_num_nonempty [OF assms(1)] by (cases x) auto
  have "takeWhile num_char (x @ t) = x" "dropWhile num_char (x @ t) = t"
    using assms(2,3) by (induction x) (auto simp: stops_def takeWhile_eq_Nil_iff dropWhile_eq_self_iff)
  with assms(1,2) num_char_head [of c] x show ?thesis by (auto simp: is_prefix_def)
qed

lemma val_render: "wf_json v \<Longrightarrow> reads_back v"
proof (induction v)
  case (JNum x)
  show ?case unfolding reads_back_def
  proof (intro allI impI)
    fix n t assume "length (render (JNum x)) \<le> n" "stops t"
    moreover have "x \<noteq> []" using JNum valid_num_nonempty by simp
    ultimately obtain m where "n = Suc m" "stops t" by (cases n) auto
    with JNum val_JNum show "val n (render (JNum x) @ t) = Some (JNum x, t)" by simp
  qed
next
  case (JStr s)
  show ?case unfolding reads_back_def
  proof (intro allI impI)
    fix n t assume "length (render (JStr s)) \<le> n"
    then obtain m where "n = Suc m" by (cases n) (auto simp: quote_def)
    with JStr unq_quote [of s t] show "val n (render (JStr s) @ t) = Some (JStr s, t)"
      by (simp add: quote_def literal_chars)
  qed
next
  case (JArr vs)
  then have vs: "\<forall>v\<in>set vs. wf_json v \<and> reads_back v" by auto
  show ?case unfolding reads_back_def
  proof (intro allI impI)
    fix n t assume "length (render (JArr vs)) \<le> n"
    then obtain m where n: "n = Suc m" "length (commas (map render vs)) < m" by (cases n) auto
    show "val n (render (JArr vs) @ t) = Some (JArr vs, t)"
    proof (cases "vs = []")
      case False
      have "\<forall>x\<in>set (map render vs). \<exists>c r. x = c # r \<and> \<not> is_ws c \<and> c \<noteq> CHR '']''"
      proof
        fix x assume "x \<in> set (map render vs)"
        then obtain v where "x = render v" "wf_json v" using vs by auto
        then show "\<exists>c r. x = c # r \<and> \<not> is_ws c \<and> c \<noteq> CHR '']''" using render_head [of v] by blast
      qed
      with False have "\<exists>c r. commas (map render vs) = c # r \<and> \<not> is_ws c \<and> c \<noteq> CHR '']''"
        by (intro commas_head) simp_all
      then obtain c r where "commas (map render vs) = c # r" "\<not> is_ws c" "c \<noteq> CHR '']''" by blast
      with elems_render [OF False vs n(2), of t] n show ?thesis by (simp add: literal_chars)
    qed (use n in \<open>simp add: literal_chars\<close>)
  qed
next
  case (JObj ms)
  then have ms: "\<forall>m\<in>set ms. valid_utf8 (fst m) \<and> wf_json (snd m) \<and> reads_back (snd m)"
  proof (intro ballI)
    fix m assume m: "m \<in> set ms"
    then have "valid_utf8 (fst m)" "wf_json (snd m)" using JObj.prems by auto
    moreover have "reads_back (snd m)" if "wf_json (snd m)"
      by (rule JObj.IH [OF m _ that]) (cases m, simp)
    ultimately show "valid_utf8 (fst m) \<and> wf_json (snd m) \<and> reads_back (snd m)" by simp
  qed
  show ?case unfolding reads_back_def
  proof (intro allI impI)
    fix n t assume "length (render (JObj ms)) \<le> n"
    then obtain m where n: "n = Suc m" "length (commas (map render_member ms)) < m"
      by (cases n) (auto simp: render_JObj simp del: render.simps)
    show "val n (render (JObj ms) @ t) = Some (JObj ms, t)"
    proof (cases "ms = []")
      case False
      have "\<exists>c r. commas (map render_member ms) = c # r \<and> \<not> is_ws c \<and> c \<noteq> CHR ''}''"
        using False by (intro commas_head) (auto simp: render_member_Cons literal_chars)
      with members_render [OF False ms n(2), of t] n show ?thesis
        by (auto simp: literal_chars render_JObj simp del: render.simps)
    qed (use n in \<open>simp add: literal_chars\<close>)
  qed
next
  case JNull
  show ?case unfolding reads_back_def
  proof (intro allI impI)
    fix n t assume "length (render JNull) \<le> n"
    then show "val n (render JNull @ t) = Some (JNull, t)"
      by (cases n) (simp_all add: literal_chars is_prefix_def)
  qed
next
  case (JBool b)
  show ?case unfolding reads_back_def
  proof (intro allI impI)
    fix n t assume "length (render (JBool b)) \<le> n"
    then show "val n (render (JBool b) @ t) = Some (JBool b, t)"
      by (cases n; cases b) (simp_all add: literal_chars is_prefix_def)
  qed
qed

lemma parse_render: "wf_json v \<Longrightarrow> parse (render v) = Some v"
proof -
  assume "wf_json v"
  then have "\<forall>n t. length (render v) \<le> n \<longrightarrow> stops t \<longrightarrow> val n (render v @ t) = Some (v, t)"
    using val_render [of v] by (simp add: reads_back_def del: val.simps)
  then have "val (Suc (length (render v))) (render v @ []) = Some (v, [])"
    by (simp del: val.simps append_Nil2)
  then show ?thesis by (simp add: parse_def del: val.simps)
qed

text \<open>The decimal numbers \<open>Marshal\<close> writes are literals.\<close>

lemma nat_str_lead: "0 \<le> n \<Longrightarrow> length (nat_str n) = 1 \<or> hd (nat_str n) \<noteq> CHR ''0''"
proof (induction n rule: nat_str.induct)
  case (1 n)
  show ?case
  proof (cases "n < 10")
    case False
    with 1 have IH: "length (nat_str (n div 10)) = 1 \<or> hd (nat_str (n div 10)) \<noteq> CHR ''0''" by simp
    have "hd (nat_str (n div 10)) \<noteq> CHR ''0''" if "length (nat_str (n div 10)) = 1"
    proof -
      have "n div 10 < 10" using that by (subst (asm) nat_str.simps) (auto split: if_splits)
      moreover have "1 \<le> n div 10" using False by simp
      ultimately have "n div 10 \<in> {1, 2, 3, 4, 5, 6, 7, 8, 9}" by auto
      moreover have "nat_str (n div 10) = [digit_char (n div 10)]"
        using \<open>n div 10 < 10\<close> by (subst nat_str.simps) simp
      ultimately show ?thesis by (auto simp: digit_char_def)
    qed
    with IH False show ?thesis by (subst nat_str.simps [of n], subst nat_str.simps [of n]) auto
  qed (subst nat_str.simps, simp)
qed

lemma num_nat_str: "0 \<le> n \<Longrightarrow> valid_num (nat_str n) \<and> list_all num_char (nat_str n)"
proof -
  assume n: "0 \<le> n"
  then have d: "list_all is_digit (nat_str n)" by (rule nat_str_digits)
  obtain c t where c: "nat_str n = c # t" by (meson list.exhaust nat_str_nonempty)
  with d have rest: "takeWhile is_digit t = t" "dropWhile is_digit t = []"
    by (simp_all add: list_all_iff takeWhile_eq_all_conv dropWhile_eq_Nil_conv)
  from c n have "is_digit c" "c \<noteq> CHR ''-''" using nat_str_head [of n c t] by auto
  moreover have "list_all num_char (nat_str n)"
    using d by (auto simp: list_all_iff num_char_def)
  ultimately show ?thesis
    using d nat_str_lead [OF n] by (auto simp: valid_num_def digits_def c rest)
qed

lemma valid_num_neg: "is_digit c \<Longrightarrow> valid_num (CHR ''-'' # c # t) = valid_num (c # t)"
  by (cases "c = CHR ''-''") (simp_all add: valid_num_def)

lemma num_itoa: "valid_num (itoa n) \<and> list_all num_char (itoa n)"
proof (cases "n < 0")
  case True
  with num_nat_str [of "- n"] show ?thesis
    using nat_str_head [of "- n"]
    by (cases "nat_str (- n)") (auto simp: itoa_def valid_num_neg num_char_def)
qed (simp add: itoa_def num_nat_str)

lemma strings_round_trip:
  "\<forall>x\<in>set xs. valid_utf8 x \<Longrightarrow> unmarshal_strings (marshal_strings xs) = Some xs"
proof -
  assume v: "\<forall>x\<in>set xs. valid_utf8 x"
  have "string_elems (map JStr xs) = Some xs" by (induction xs) simp_all
  with v parse_render [of "JArr (map JStr xs)"] show ?thesis
    by (simp add: unmarshal_strings_def marshal_strings_def)
qed

declare esc.simps [simp del] unq.simps [simp del] valid_utf8.simps [simp del]
  val.simps [simp del] elems.simps [simp del] members.simps [simp del]

end
