(* ===== verification/Domain.thy ===== *)
theory Domain
  imports Errors
begin

text \<open>
  \<open>internal/domain\<close> but for settlement: the token type, the economy's constants, the
  round's state machine, wallets, refills and odds. \<open>Tokens\<close> is a Go \<open>int64\<close>: every sum,
  difference and product goes through \<open>i64\<close>.
\<close>

type_synonym tokens = int

section \<open>Economy constants\<close>

definition StartingBalance :: tokens where "StartingBalance = 1000"
definition RefillTarget :: tokens where "RefillTarget = 1000"
definition RefillQuota :: int where "RefillQuota = 3"
definition MinBuyIn :: tokens where "MinBuyIn = 100"
definition MaxBuyIn :: tokens where "MaxBuyIn = 10000"
definition StakeCapMultiple :: tokens where "StakeCapMultiple = 3"

lemmas economy_defs = StartingBalance_def RefillTarget_def RefillQuota_def MinBuyIn_def
  MaxBuyIn_def StakeCapMultiple_def

section \<open>Round status\<close>

text \<open>A status is the string stored in the round hash, so an unknown one can be met.\<close>

type_synonym round_status = string

definition RoundOpen :: round_status where "RoundOpen = ''open''"
definition RoundLocked :: round_status where "RoundLocked = ''locked''"
definition RoundResolved :: round_status where "RoundResolved = ''resolved''"
definition RoundRefunded :: round_status where "RoundRefunded = ''refunded''"

lemmas status_defs = RoundOpen_def RoundLocked_def RoundResolved_def RoundRefunded_def

definition validTransitions :: "round_status \<Rightarrow> round_status list" where
  "validTransitions s =
     (if s = RoundOpen then [RoundLocked]
      else if s = RoundLocked then [RoundResolved, RoundRefunded] else [])"

definition Transition :: "round_status \<Rightarrow> round_status \<Rightarrow> round_status \<times> err option" where
  "Transition s next =
     (if next \<in> set (validTransitions s) then (next, None)
      else (s, Some (Domain ErrInvalidTransition)))"

definition IsTerminal :: "round_status \<Rightarrow> bool" where
  "IsTerminal s \<longleftrightarrow> length (validTransitions s) = 0"

definition AcceptsWagers :: "round_status \<Rightarrow> bool" where
  "AcceptsWagers s \<longleftrightarrow> s = RoundOpen"

definition MinOutcomes :: int where "MinOutcomes = 2"
definition MaxOutcomes :: int where "MaxOutcomes = 4"

definition ValidateOutcomeCount :: "int \<Rightarrow> err option" where
  "ValidateOutcomeCount n =
     (if n < MinOutcomes \<or> n > MaxOutcomes then Some (Domain ErrInvalidOutcomeCount) else None)"

definition ValidateOutcomeIndex :: "int \<Rightarrow> int \<Rightarrow> err option" where
  "ValidateOutcomeIndex idx n =
     (if idx < 0 \<or> idx \<ge> n then Some (Domain ErrInvalidOutcome) else None)"

text \<open>Moves of the status, and the statuses a round can get to.\<close>

inductive status_step :: "round_status \<Rightarrow> round_status \<Rightarrow> bool" where
  "Transition s t = (t, None) \<Longrightarrow> status_step s t"

inductive_simps status_step_iff: "status_step s t"

lemma Transition_ok [simp]: "Transition s t = (t, None) \<longleftrightarrow> t \<in> set (validTransitions s)"
  by (simp add: Transition_def)

lemma status_step_edges:
  "status_step s t \<longleftrightarrow> (s = RoundOpen \<and> t = RoundLocked) \<or>
     (s = RoundLocked \<and> (t = RoundResolved \<or> t = RoundRefunded))"
  by (auto simp: status_step_iff validTransitions_def status_defs split: if_splits)

lemma IsTerminal_iff: "IsTerminal s \<longleftrightarrow> s \<noteq> RoundOpen \<and> s \<noteq> RoundLocked"
  by (simp add: IsTerminal_def validTransitions_def status_defs)

lemma terminal_no_step: "IsTerminal s \<longleftrightarrow> (\<forall>t. \<not> status_step s t)"
  by (auto simp: IsTerminal_iff status_step_edges)

section \<open>Wallets\<close>

definition ValidateBuyIn :: "tokens \<Rightarrow> err option" where
  "ValidateBuyIn buyIn =
     (if buyIn < MinBuyIn \<or> buyIn > MaxBuyIn then Some (Domain ErrInvalidBuyIn) else None)"

definition GuestSessionBalance :: "tokens \<Rightarrow> tokens" where
  "GuestSessionBalance roomBuyIn = roomBuyIn"

definition AccountSessionBalance :: "tokens \<Rightarrow> tokens \<Rightarrow> tokens" where
  "AccountSessionBalance accountBalance roomBuyIn =
     (let limit = i64 (roomBuyIn * StakeCapMultiple)
      in if accountBalance < limit then accountBalance else limit)"

definition IsPartialBuyIn :: "tokens \<Rightarrow> tokens \<Rightarrow> bool" where
  "IsPartialBuyIn accountBalance roomBuyIn \<longleftrightarrow> accountBalance < roomBuyIn"

definition ValidateStakeAmount :: "tokens \<Rightarrow> err option" where
  "ValidateStakeAmount amount = (if amount \<le> 0 then Some (Domain ErrInvalidStake) else None)"

definition ValidateStake :: "tokens \<Rightarrow> tokens \<Rightarrow> err option" where
  "ValidateStake amount sessionBalance =
     (case ValidateStakeAmount amount of Some e \<Rightarrow> Some e
      | None \<Rightarrow> if amount > sessionBalance then Some (Domain ErrInsufficientFunds) else None)"

definition ApplySessionResult :: "tokens \<Rightarrow> tokens \<Rightarrow> tokens \<Rightarrow> tokens" where
  "ApplySessionResult accountBalance sessionStart sessionEnd =
     (let updated = i64 (accountBalance + i64 (sessionEnd - sessionStart))
      in if updated < 0 then 0 else updated)"

section \<open>Refills\<close>

definition CanRefill :: "tokens \<Rightarrow> int \<Rightarrow> err option" where
  "CanRefill balance claimsInWindow =
     (if balance \<ge> RefillTarget then Some (Domain ErrRefillNotEligible)
      else if claimsInWindow \<ge> RefillQuota then Some (Domain ErrRefillQuotaExhausted)
      else None)"

definition RefillAmount :: "tokens \<Rightarrow> tokens" where
  "RefillAmount balance =
     (if balance \<ge> RefillTarget then 0 else i64 (RefillTarget - balance))"

section \<open>Odds\<close>

definition Multiplier :: "tokens \<Rightarrow> tokens \<Rightarrow> rat" where
  "Multiplier tot pool =
     (if pool \<le> 0 then 0 else f64 (f64 (of_int tot) / f64 (of_int pool)))"

definition Multipliers :: "tokens \<Rightarrow> tokens list \<Rightarrow> rat list" where
  "Multipliers tot pools = map (Multiplier tot) pools"

lemma f64_nat: "0 \<le> n \<Longrightarrow> n \<le> 2 ^ 53 \<Longrightarrow> f64 (of_int n) = of_int n"
  by (cases "n = 0") (simp_all add: f64_def f64_pos_int)

section \<open>Properties\<close>

text \<open>
  The round's state machine: \<open>Transition\<close> allows open to locked, locked to resolved and
  locked to refunded, and nothing else; a refused move returns the status unchanged; exactly
  the statuses other than open and locked are terminal; every status reachable from open is
  one of the four, and only an open round takes wagers, so no terminal round is left again.
\<close>

theorem transition_machine:
  "(\<forall>s t. snd (Transition s t) = None \<longleftrightarrow>
      (s = RoundOpen \<and> t = RoundLocked) \<or> (s = RoundLocked \<and> t \<in> {RoundResolved, RoundRefunded}))
   \<and> (\<forall>s t. fst (Transition s t) = (if snd (Transition s t) = None then t else s))
   \<and> (\<forall>t. status_step\<^sup>*\<^sup>* RoundOpen t \<longleftrightarrow> t \<in> {RoundOpen, RoundLocked, RoundResolved, RoundRefunded})
   \<and> (\<forall>s t. IsTerminal s \<and> status_step\<^sup>*\<^sup>* s t \<longrightarrow> t = s \<and> \<not> AcceptsWagers t)"
proof -
  have reach: "t \<in> {RoundOpen, RoundLocked, RoundResolved, RoundRefunded}"
    if "status_step\<^sup>*\<^sup>* RoundOpen t" for t
    using that by (induction rule: rtranclp_induct) (simp, simp only: status_step_edges, blast)
  have ol: "status_step RoundOpen RoundLocked" and lr: "status_step RoundLocked RoundResolved"
    and lf: "status_step RoundLocked RoundRefunded"
    by (simp_all add: status_step_edges)
  from ol lr lf have "status_step\<^sup>*\<^sup>* RoundOpen t"
    if "t \<in> {RoundOpen, RoundLocked, RoundResolved, RoundRefunded}" for t
    using that rtranclp.rtrancl_refl [of status_step RoundOpen]
      r_into_rtranclp [of status_step, OF ol] converse_rtranclp_into_rtranclp [of status_step, OF ol]
    by blast
  then have all: "status_step\<^sup>*\<^sup>* RoundOpen t \<longleftrightarrow>
      t \<in> {RoundOpen, RoundLocked, RoundResolved, RoundRefunded}" for t
    using reach by blast
  have stuck: "t = s" if "IsTerminal s" "status_step\<^sup>*\<^sup>* s t" for s t
    using that(2,1) by (induction rule: rtranclp_induct) (simp, metis terminal_no_step)
  have edges: "snd (Transition s t) = None \<longleftrightarrow>
      (s = RoundOpen \<and> t = RoundLocked) \<or> (s = RoundLocked \<and> t \<in> {RoundResolved, RoundRefunded})" for s t
    by (simp add: Transition_def validTransitions_def status_defs)
  have unchanged: "fst (Transition s t) = (if snd (Transition s t) = None then t else s)" for s t
    by (simp add: Transition_def)
  have fin: "IsTerminal s \<and> status_step\<^sup>*\<^sup>* s t \<longrightarrow> t = s \<and> \<not> AcceptsWagers t" for s t
    using stuck [of s t] by (auto simp: IsTerminal_iff AcceptsWagers_def)
  show ?thesis by (intro conjI allI edges unchanged all fin)
qed

theorem transition_machine_witness: "\<not> AcceptsWagers RoundResolved"
proof -
  have "IsTerminal RoundResolved" by (simp add: IsTerminal_iff status_defs)
  then show ?thesis
    using conjunct2 [OF conjunct2 [OF conjunct2 [OF transition_machine]], rule_format,
        of RoundResolved RoundResolved] by simp
qed

text \<open>
  The wallet an account holder joins with is the smaller of three buy-ins and what the
  account holds: never more than the account, never more than 30000 tokens, never negative,
  and below the buy-in exactly when the join is reported as partial.
\<close>

theorem account_session_balance:
  assumes "ValidateBuyIn buyIn = None" and "0 \<le> acct"
  shows "AccountSessionBalance acct buyIn = min acct (3 * buyIn)
    \<and> 0 \<le> AccountSessionBalance acct buyIn \<and> AccountSessionBalance acct buyIn \<le> acct
    \<and> AccountSessionBalance acct buyIn \<le> 30000
    \<and> (IsPartialBuyIn acct buyIn \<longleftrightarrow> AccountSessionBalance acct buyIn < GuestSessionBalance buyIn)"
proof (intro conjI)
  have b: "100 \<le> buyIn" "buyIn \<le> 10000"
    using assms(1) by (auto simp: ValidateBuyIn_def economy_defs split: if_splits)
  then have "i64 (buyIn * 3) = buyIn * 3" by (simp add: i64_id in64_def)
  then show eq: "AccountSessionBalance acct buyIn = min acct (3 * buyIn)"
    by (simp add: AccountSessionBalance_def economy_defs Let_def min_def)
  show "0 \<le> AccountSessionBalance acct buyIn" "AccountSessionBalance acct buyIn \<le> acct"
    "AccountSessionBalance acct buyIn \<le> 30000"
    "IsPartialBuyIn acct buyIn \<longleftrightarrow> AccountSessionBalance acct buyIn < GuestSessionBalance buyIn"
    using b assms(2) by (auto simp: eq IsPartialBuyIn_def GuestSessionBalance_def)
qed

theorem account_session_balance_witness:
  "ValidateBuyIn 500 = None \<and> AccountSessionBalance 10000 500 = 1500 \<and> 1500 \<le> (10000::int)"
  using account_session_balance [of 500 10000]
  by (simp add: ValidateBuyIn_def economy_defs)

text \<open>
  Folding a session into an account: with amounts below 2^62 the result is the account
  plus the session's net change, floored at zero; it is never negative, and the floor is not
  reached when the session began with no more than the account held.
\<close>

theorem apply_session_result:
  assumes "0 \<le> acct" "acct < 2 ^ 62" "0 \<le> opening" "opening < 2 ^ 62" "0 \<le> final" "final < 2 ^ 62"
  shows "ApplySessionResult acct opening final = max 0 (acct + (final - opening))
    \<and> (opening \<le> acct \<longrightarrow> ApplySessionResult acct opening final = acct + (final - opening))"
proof (intro conjI impI)
  have "in64 (final - opening)" "in64 (acct + (final - opening))"
    using assms by (auto simp: in64_def)
  then show "ApplySessionResult acct opening final = max 0 (acct + (final - opening))"
    by (simp add: ApplySessionResult_def i64_id max_def)
  then show "ApplySessionResult acct opening final = acct + (final - opening)" if "opening \<le> acct"
    using that assms by simp
qed

theorem apply_session_result_witness: "ApplySessionResult 10000 1500 2400 = 10900"
  using apply_session_result [of 10000 1500 2400] by simp

text \<open>
  The zero the odds board shows for an unbacked outcome is unambiguous: with pools that
  are part of the total (at most 2^53), an outcome's multiplier is at least 1 when it is backed
  and 0 when it is not, in spite of the two roundings to \<open>float64\<close>.
\<close>

theorem multiplier_sentinel:
  assumes "tot \<le> 2 ^ 53" and "\<forall>p\<in>set pools. p \<le> tot" and "i < length pools"
  shows "if 0 < pools ! i then 1 \<le> Multipliers tot pools ! i else Multipliers tot pools ! i = 0"
proof (cases "0 < pools ! i")
  case True
  have le: "pools ! i \<le> tot" using assms(2,3) by simp
  with True assms(1) have "Multipliers tot pools ! i = f64 (of_int tot / of_int (pools ! i))"
    using assms(3) by (simp add: Multipliers_def Multiplier_def f64_nat)
  moreover have "(1::rat) \<le> of_int tot / of_int (pools ! i)"
    using True le by (simp add: pos_le_divide_eq)
  ultimately show ?thesis using True by (simp add: f64_ge_1)
next
  case False
  with assms(3) show ?thesis by (simp add: Multipliers_def Multiplier_def)
qed

theorem multiplier_sentinel_witness: "1 \<le> Multipliers 300 [100, 0, 200] ! 2"
  using multiplier_sentinel [of 300 "[100, 0, 200]" 2] by simp

end
