(* ===== verification/Store.thy ===== *)
theory Store
  imports Scripts Json Domain
begin

text \<open>
  \<open>redisstore\<close>: the typed operations on accounts, rooms, rounds and rate limits
  (\<open>user.go\<close>, \<open>room.go\<close>, \<open>round.go\<close>, \<open>ratelimit.go\<close>), each a Go method that makes one or
  more round trips. Instants are Unix milliseconds; the clock readings and fresh
  identifiers a method draws are arguments.
\<close>

section \<open>Replies\<close>

definition toStringSlice :: "lua_val list \<Rightarrow> err + string list" where
  "toStringSlice vs = (if LFalse \<in> set vs then Inl Malformed
     else Inr (map (\<lambda>v. case v of LStr s \<Rightarrow> s | LFalse \<Rightarrow> []) vs))"

lemma toStringSlice_table [simp]: "toStringSlice (table xs) = Inr xs"
  by (auto simp: toStringSlice_def table_def comp_def)

text \<open>The prologue every script call has: run it, decode its reply, refuse an empty one.\<close>

definition call_script :: "('s, err, lua_val list) eff \<Rightarrow> ('s, 'x, string list) go" where
  "call_script f = andThen (roundtrip f) (\<lambda>res. andThen (lift_sum (toStringSlice res)) (\<lambda>reply.
     if reply = [] then raise Malformed else ret reply))"

definition want :: "'a option \<Rightarrow> ('s, err, 'a) eff" where
  "want x = (case x of None \<Rightarrow> raise Malformed | Some a \<Rightarrow> ret a)"

text \<open>A Go map read: a missing key gives the empty string.\<close>

definition field :: "(string \<times> string) list \<Rightarrow> string \<Rightarrow> string" where
  "field fs k = (case map_of fs k of None \<Rightarrow> [] | Some x \<Rightarrow> x)"

definition hgetall :: "'s redis \<Rightarrow> string \<Rightarrow> ('s, 'x, (string \<times> string) list) go" where
  "hgetall R k = roundtrip (asks (HGETALL R k))"

section \<open>Accounts\<close>

record User =
  UserIDOf :: string
  Email :: string
  DisplayName :: string
  PasswordHash :: string
  UserBalance :: tokens
  UserCreatedAt :: int

definition CreateUser :: "'s redis \<Rightarrow> int \<Rightarrow> User \<Rightarrow> ('s, 'x, unit) go" where
  "CreateUser R nowMs u =
     andThen (call_script (claim_unique R (EmailKey (Email u)) (UserKey (UserIDOf u)) (UserIDOf u)
       [''email'', Email u, ''display_name'', DisplayName u, ''password_hash'', PasswordHash u,
        ''balance'', itoa (UserBalance u), ''created_at'', itoa nowMs])) (\<lambda>reply.
     if hd reply = ''OK'' then ret ()
     else if hd reply = ''TAKEN'' then raise (Store ErrAlreadyExists) else raise Malformed)"

definition GetUser :: "'s redis \<Rightarrow> string \<Rightarrow> ('s, 'x, User) go" where
  "GetUser R userID =
     andThen (hgetall R (UserKey userID)) (\<lambda>fs.
     if fs = [] then raise (Store ErrNotFound)
     else andThen (want (ParseInt (field fs ''balance''))) (\<lambda>bal.
     andThen (want (ParseInt (field fs ''created_at''))) (\<lambda>createdAtMs.
     ret \<lparr>UserIDOf = userID, Email = field fs ''email'', DisplayName = field fs ''display_name'',
          PasswordHash = field fs ''password_hash'', UserBalance = bal,
          UserCreatedAt = createdAtMs\<rparr>)))"

definition UserByEmail :: "'s redis \<Rightarrow> string \<Rightarrow> ('s, 'x, User) go" where
  "UserByEmail R email =
     andThen (roundtrip (asks (GET R (EmailKey email)))) (\<lambda>userID.
     case userID of None \<Rightarrow> raise (Store ErrNotFound) | Some u \<Rightarrow> GetUser R u)"

definition SetBalance :: "'s redis \<Rightarrow> string \<Rightarrow> tokens \<Rightarrow> ('s, 'x, unit) go" where
  "SetBalance R userID bal =
     andThen (roundtrip (asks (\<lambda>s. HGET R (UserKey userID) ''balance'' s \<noteq> None))) (\<lambda>n.
     if \<not> n then raise (Store ErrNotFound)
     else roundtrip (exec (HSET R (UserKey userID) [(''balance'', itoa bal)])))"

definition TopUpBalance :: "'s redis \<Rightarrow> string \<Rightarrow> tokens \<Rightarrow> ('s, 'x, tokens \<times> tokens) go" where
  "TopUpBalance R userID target =
     andThen (call_script (top_up_balance R (UserKey userID) (itoa target))) (\<lambda>reply.
     if hd reply = ''OK'' then
       (if length reply < 3 then raise Malformed
        else andThen (want (ParseInt (reply ! 1))) (\<lambda>c.
             andThen (want (ParseInt (reply ! 2))) (\<lambda>nb. ret (c, nb))))
     else if hd reply = ''NOT_FOUND'' then raise (Store ErrNotFound) else raise Malformed)"

section \<open>Rooms\<close>

record Room =
  RoomIDOf :: string
  HostID :: string
  BuyIn :: tokens
  RoomStatus :: string
  RoomCreatedAt :: int

definition CreateRoom :: "'s redis \<Rightarrow> int \<Rightarrow> string \<Rightarrow> string \<Rightarrow> string \<Rightarrow> tokens \<Rightarrow> ('s, 'x, unit) go" where
  "CreateRoom R nowMs roomID code hostID buyIn =
     (case ValidateBuyIn buyIn of Some e \<Rightarrow> raise e
      | None \<Rightarrow>
        andThen (call_script (claim_unique R (RoomCodeKey code) (RoomKey roomID) roomID
          [''host_id'', hostID, ''buy_in'', itoa buyIn, ''status'', ''open'',
           ''created_at'', itoa nowMs])) (\<lambda>reply.
        if hd reply = ''OK'' then ret ()
        else if hd reply = ''TAKEN'' then raise (Store ErrAlreadyExists) else raise Malformed))"

definition RoomByCode :: "'s redis \<Rightarrow> string \<Rightarrow> ('s, 'x, string) go" where
  "RoomByCode R code =
     andThen (roundtrip (asks (GET R (RoomCodeKey code)))) (\<lambda>roomID.
     case roomID of None \<Rightarrow> raise (Store ErrNotFound) | Some r \<Rightarrow> ret r)"

definition GetRoom :: "'s redis \<Rightarrow> string \<Rightarrow> ('s, 'x, Room) go" where
  "GetRoom R roomID =
     andThen (hgetall R (RoomKey roomID)) (\<lambda>fs.
     if fs = [] then raise (Store ErrNotFound)
     else andThen (want (ParseInt (field fs ''buy_in''))) (\<lambda>buyIn.
     andThen (want (ParseInt (field fs ''created_at''))) (\<lambda>createdAtMs.
     ret \<lparr>RoomIDOf = roomID, HostID = field fs ''host_id'', BuyIn = buyIn,
          RoomStatus = field fs ''status'', RoomCreatedAt = createdAtMs\<rparr>)))"

definition JoinRoom :: "'s redis \<Rightarrow> string \<Rightarrow> string \<Rightarrow> tokens \<Rightarrow> ('s, 'x, tokens) go" where
  "JoinRoom R roomID userID bal =
     (if bal \<le> 0 then raise (Domain ErrInvalidStake)
      else andThen (roundtrip (exec (\<lambda>s.
             HSETNX R (RoomOpeningKey roomID) userID (itoa bal)
               (HSETNX R (RoomWalletsKey roomID) userID (itoa bal) s)))) (\<lambda>_.
           andThen (roundtrip (asks (HGET R (RoomWalletsKey roomID) userID))) (\<lambda>v.
           case v of None \<Rightarrow> raise RemoteFailure
           | Some x \<Rightarrow> want (ParseInt x))))"

definition ClearSession :: "'s redis \<Rightarrow> string \<Rightarrow> string \<Rightarrow> ('s, 'x, bool) go" where
  "ClearSession R roomID userID =
     andThen (roundtrip (andThen (runs (HDEL R (RoomOpeningKey roomID) userID)) (\<lambda>openingDeleted.
       andThen (runs (HDEL R (RoomWalletsKey roomID) userID)) (\<lambda>_. ret openingDeleted)))) (\<lambda>n.
     ret (n = 1))"

definition read_tokens :: "'s redis \<Rightarrow> string \<Rightarrow> string \<Rightarrow> ('s, 'x, tokens) go" where
  "read_tokens R k f =
     andThen (roundtrip (asks (HGET R k f))) (\<lambda>v.
     case v of None \<Rightarrow> raise (Store ErrNotFound) | Some x \<Rightarrow> want (ParseInt x))"

definition Balance :: "'s redis \<Rightarrow> string \<Rightarrow> string \<Rightarrow> ('s, 'x, tokens) go" where
  "Balance R roomID userID = read_tokens R (RoomWalletsKey roomID) userID"

definition OpeningStake :: "'s redis \<Rightarrow> string \<Rightarrow> string \<Rightarrow> ('s, 'x, tokens) go" where
  "OpeningStake R roomID userID = read_tokens R (RoomOpeningKey roomID) userID"

definition players_of :: "int \<Rightarrow> int" where
  "players_of n = (if n - 1 < 0 then 0 else n - 1)"

definition PlayerCount :: "'s redis \<Rightarrow> string \<Rightarrow> ('s, 'x, int) go" where
  "PlayerCount R roomID =
     andThen (roundtrip (asks (HLEN R (RoomWalletsKey roomID)))) (\<lambda>n. ret (players_of n))"

section \<open>Rounds\<close>

record Round =
  RoundIDOf :: string
  RoundRoom :: string
  Question :: string
  Outcomes :: "string list"
  Status :: round_status
  LockAtMS :: int
  OutcomeCount :: int
  ResolvedOutcome :: int

definition round_fields :: "string \<Rightarrow> string \<Rightarrow> string list \<Rightarrow> int \<Rightarrow> (string \<times> string) list" where
  "round_fields roomID question outcomes lockAtMs =
     [(''room_id'', roomID), (''question'', question), (''outcomes'', marshal_strings outcomes),
      (''status'', RoundOpen), (''outcome_count'', itoa (int (length outcomes))),
      (''lock_at_ms'', itoa lockAtMs)]"

definition zero_pools :: "int \<Rightarrow> (string \<times> string) list" where
  "zero_pools n = map (\<lambda>i. (itoa i, ''0'')) [0..n - 1] @ [(PoolTotalField, ''0'')]"

definition CreateRound :: "'s redis \<Rightarrow> string \<Rightarrow> string \<Rightarrow> string \<Rightarrow> string list \<Rightarrow> int \<Rightarrow>
    ('s, 'x, unit) go" where
  "CreateRound R roundID roomID question outcomes lockAtMs =
     (case ValidateOutcomeCount (int (length outcomes)) of Some e \<Rightarrow> raise e
      | None \<Rightarrow> roundtrip (exec (\<lambda>s.
          SET R (RoomRoundKey roomID) roundID
            (HSET R (RoundPoolsKey roundID) (zero_pools (int (length outcomes)))
              (HSET R (RoundKey roundID) (round_fields roomID question outcomes lockAtMs) s)))))"

definition CurrentRound :: "'s redis \<Rightarrow> string \<Rightarrow> ('s, 'x, string) go" where
  "CurrentRound R roomID =
     andThen (roundtrip (asks (GET R (RoomRoundKey roomID)))) (\<lambda>roundID.
     case roundID of None \<Rightarrow> raise (Store ErrNotFound) | Some r \<Rightarrow> ret r)"

definition ClearCurrentRound :: "'s redis \<Rightarrow> string \<Rightarrow> ('s, 'x, unit) go" where
  "ClearCurrentRound R roomID = roundtrip (exec (DEL R (RoomRoundKey roomID)))"

definition decode_round :: "string \<Rightarrow> (string \<times> string) list \<Rightarrow> err + Round" where
  "decode_round roundID fs =
     (if fs = [] then Inl (Store ErrNotFound)
      else case ParseInt (field fs ''outcome_count'') of None \<Rightarrow> Inl Malformed
      | Some outcomeCount \<Rightarrow>
        (case ParseInt (field fs ''lock_at_ms'') of None \<Rightarrow> Inl Malformed
         | Some lockAtMS \<Rightarrow>
           (case (case map_of fs ''resolved_outcome'' of None \<Rightarrow> Some (- 1) | Some v \<Rightarrow> ParseInt v) of
              None \<Rightarrow> Inl Malformed
            | Some resolvedOutcome \<Rightarrow>
              (case unmarshal_strings (field fs ''outcomes'') of None \<Rightarrow> Inl Malformed
               | Some outcomes \<Rightarrow>
                 Inr \<lparr>RoundIDOf = roundID, RoundRoom = field fs ''room_id'',
                      Question = field fs ''question'', Outcomes = outcomes,
                      Status = field fs ''status'', LockAtMS = lockAtMS,
                      OutcomeCount = outcomeCount, ResolvedOutcome = resolvedOutcome\<rparr>))))"

definition GetRound :: "'s redis \<Rightarrow> string \<Rightarrow> ('s, 'x, Round) go" where
  "GetRound R roundID =
     andThen (hgetall R (RoundKey roundID)) (\<lambda>fs. lift_sum (decode_round roundID fs))"

text \<open>The loop of \<open>Pools\<close>, from index \<open>i\<close> on; it ends because a map has finitely many keys.\<close>

function pools_from :: "(string \<times> string) list \<Rightarrow> int \<Rightarrow> err + tokens list" where
  "pools_from fs i = (case map_of fs (itoa i) of None \<Rightarrow> Inr []
     | Some v \<Rightarrow> (case ParseInt v of None \<Rightarrow> Inl Malformed
        | Some a \<Rightarrow> (case pools_from fs (i + 1) of Inl e \<Rightarrow> Inl e | Inr ps \<Rightarrow> Inr (a # ps))))"
  by pat_completeness auto
termination
proof (relation "measure (\<lambda>(fs, i). card {k \<in> fst ` set fs. \<exists>j\<ge>i. k = itoa j})")
  fix fs :: "(string \<times> string) list" and i :: int and v :: string
  assume "map_of fs (itoa i) = Some v"
  then have "itoa i \<in> {k \<in> fst ` set fs. \<exists>j\<ge>i. k = itoa j}"
    by (auto dest: map_of_SomeD intro!: image_eqI [where x = "(itoa i, v)"])
  moreover have "{k \<in> fst ` set fs. \<exists>j\<ge>i + 1. k = itoa j} \<subseteq> {k \<in> fst ` set fs. \<exists>j\<ge>i. k = itoa j} - {itoa i}"
    by auto
  ultimately have "card {k \<in> fst ` set fs. \<exists>j\<ge>i + 1. k = itoa j} < card {k \<in> fst ` set fs. \<exists>j\<ge>i. k = itoa j}"
    by (intro psubset_card_mono) (simp, blast)
  then show "((fs, i + 1), (fs, i)) \<in> measure (\<lambda>(fs, i). card {k \<in> fst ` set fs. \<exists>j\<ge>i. k = itoa j})"
    by simp
qed simp

declare pools_from.simps [simp del]

definition Pools :: "'s redis \<Rightarrow> string \<Rightarrow> ('s, 'x, tokens list \<times> tokens) go" where
  "Pools R roundID =
     andThen (hgetall R (RoundPoolsKey roundID)) (\<lambda>fs.
     if fs = [] then raise (Store ErrNotFound)
     else andThen (want (ParseInt (field fs PoolTotalField))) (\<lambda>tot.
     andThen (lift_sum (pools_from fs 0)) (\<lambda>ps. ret (ps, tot))))"

definition LockRound :: "'s redis \<Rightarrow> string \<Rightarrow> ('s, 'x, unit) go" where
  "LockRound R roundID =
     andThen (call_script (lock_round R (RoundKey roundID))) (\<lambda>reply.
     if hd reply = ''OK'' \<or> hd reply = ''ALREADY_LOCKED'' then ret ()
     else if hd reply = ''ROUND_TERMINAL'' then raise (Store ErrRoundTerminal)
     else raise Malformed)"

section \<open>Rate limits\<close>

record Decision =
  Allowed :: bool
  Remaining :: int
  RetryAfter :: int
  Member :: string
  ResetAt :: int

text \<open>Durations are nanoseconds, as \<open>time.Duration\<close> has them.\<close>

definition Millisecond :: int where "Millisecond = 1000000"

definition decodeRateLimitReply :: "lua_val list \<Rightarrow> err + Decision" where
  "decodeRateLimitReply res = (case toStringSlice res of Inl e \<Rightarrow> Inl e
     | Inr reply \<Rightarrow>
       if length reply < 4 then Inl Malformed
       else if hd reply = ''ALLOWED'' then
         (case (ParseInt (reply ! 1), ParseInt (reply ! 3)) of
            (Some remaining, Some resetAtMs) \<Rightarrow>
              Inr \<lparr>Allowed = True, Remaining = remaining, RetryAfter = 0, Member = reply ! 2,
                   ResetAt = resetAtMs\<rparr>
          | _ \<Rightarrow> Inl Malformed)
       else if hd reply = ''DENIED'' then
         (if length reply < 5 then Inl Malformed
          else case (ParseInt (reply ! 3), ParseInt (reply ! 4)) of
            (Some retryAfterMs, Some resetAtMs) \<Rightarrow>
              Inr \<lparr>Allowed = False, Remaining = 0, RetryAfter = i64 (retryAfterMs * Millisecond),
                   Member = [], ResetAt = resetAtMs\<rparr>
          | _ \<Rightarrow> Inl Malformed)
       else Inl Malformed)"

definition rate_call :: "'s redis \<Rightarrow> string \<Rightarrow> string \<Rightarrow> string \<Rightarrow> int \<Rightarrow> int \<Rightarrow>
    ('s, err, lua_val list) eff" where
  "rate_call R member scope ident limit window =
     rate_limit R (RateLimitKey scope ident) (itoa (go_div window Millisecond)) (itoa limit) member"

definition Allow :: "'s redis \<Rightarrow> string \<Rightarrow> string \<Rightarrow> string \<Rightarrow> int \<Rightarrow> int \<Rightarrow> ('s, 'x, Decision) go" where
  "Allow R member scope ident limit window =
     andThen (roundtrip (rate_call R member scope ident limit window)) (\<lambda>res.
     lift_sum (decodeRateLimitReply res))"

definition Revoke :: "'s redis \<Rightarrow> string \<Rightarrow> string \<Rightarrow> string \<Rightarrow> ('s, 'x, unit) go" where
  "Revoke R scope ident member = roundtrip (exec (ZREM R (RateLimitKey scope ident) member))"

end
