(* ===== verification/WagerStore.thy ===== *)
theory WagerStore
  imports Store
begin

text \<open>
  \<open>redisstore/wager.go\<close>: placing a wager through \<open>place_wager.lua\<close>, and the pipelined
  reads that come before it.
\<close>

section \<open>Placing a wager\<close>

record WagerRequest =
  ReqRoom :: string
  ReqRound :: string
  ReqUser :: string
  ReqOutcome :: int
  ReqAmount :: tokens
  ReqKey :: string

record WagerResult =
  NewBalance :: tokens
  NewPools :: "tokens list"
  NewTotal :: tokens
  BettorCount :: int

definition wager_call :: "'s redis \<Rightarrow> string \<Rightarrow> WagerRequest \<Rightarrow> ('s, err, lua_val list) eff" where
  "wager_call R outbox rq = place_wager R
     (RoomKey (ReqRoom rq)) (RoomWalletsKey (ReqRoom rq)) (RoundKey (ReqRound rq))
     (RoundPoolsKey (ReqRound rq)) (RoundWagersKey (ReqRound rq)) (RoundBettorsKey (ReqRound rq))
     (IdemKey (ReqKey rq)) outbox
     (ReqUser rq) (itoa (ReqOutcome rq)) (itoa (ReqAmount rq)) (ReqKey rq) (ReqRoom rq) (ReqRound rq)"

definition mapWagerStatus :: "string \<Rightarrow> err" where
  "mapWagerStatus code =
     (if code = ''INVALID_STAKE'' then Domain ErrInvalidStake
      else if code = ''POOL_LOCKED'' then Store ErrPoolLocked
      else if code = ''INVALID_OUTCOME'' then Domain ErrInvalidOutcome
      else if code = ''HOST_CANNOT_BET'' then Store ErrHostCannotBet
      else if code = ''NOT_IN_ROOM'' then Store ErrNotInRoom
      else if code = ''INSUFFICIENT_FUNDS'' then Domain ErrInsufficientFunds
      else Malformed)"

fun parse_all :: "string list \<Rightarrow> err + tokens list" where
  "parse_all [] = Inr []"
| "parse_all (p # ps) = (case ParseInt p of None \<Rightarrow> Inl Malformed
     | Some a \<Rightarrow> (case parse_all ps of Inl e \<Rightarrow> Inl e | Inr as \<Rightarrow> Inr (a # as)))"

definition parseWagerReply :: "string list \<Rightarrow> err + WagerResult" where
  "parseWagerReply reply =
     (if length reply < 4 then Inl Malformed
      else case (ParseInt (reply ! 1), ParseInt (reply ! 2), ParseInt (reply ! 3)) of
        (Some bal, Some bettorCount, Some tot) \<Rightarrow>
          (case parse_all (drop 4 reply) of Inl e \<Rightarrow> Inl e
           | Inr ps \<Rightarrow> Inr \<lparr>NewBalance = bal, NewPools = ps, NewTotal = tot,
                            BettorCount = bettorCount\<rparr>)
      | _ \<Rightarrow> Inl Malformed)"

definition PlaceWager :: "'s redis \<Rightarrow> string \<Rightarrow> WagerRequest \<Rightarrow> ('s, 'x, WagerResult) go" where
  "PlaceWager R outbox rq =
     andThen (call_script (wager_call R outbox rq)) (\<lambda>reply.
     if hd reply \<noteq> ''OK'' then raise (mapWagerStatus (hd reply))
     else lift_sum (parseWagerReply reply))"

section \<open>The reads before a wager\<close>

record Preflight =
  PreDecision :: Decision
  PreRound :: string
  PrePlayers :: int

text \<open>
  The pipeline's three commands are three separate turns: a pipeline is not a transaction,
  other clients' commands may come between. Each is read on its own, errors included.
\<close>

definition runWagerPreflightPipeline :: "'s redis \<Rightarrow> string \<Rightarrow> string \<Rightarrow> string \<Rightarrow> string \<Rightarrow> int \<Rightarrow> int \<Rightarrow>
    ('s, 'x, (err + lua_val list) \<times> (err + string option) \<times> (err + int)) go" where
  "runWagerPreflightPipeline R member scope userID roomID limit window =
     attempt (evalsha (rate_call R member scope userID limit window)) (\<lambda>rlCmd.
     attempt (roundtrip (asks (GET R (RoomRoundKey roomID)))) (\<lambda>roundCmd.
     attempt (roundtrip (asks (HLEN R (RoomWalletsKey roomID)))) (\<lambda>playersCmd.
     ret (rlCmd, roundCmd, playersCmd))))"

text \<open>\<open>member1\<close> and \<open>member2\<close> are the identifiers drawn by the first run and by the second.\<close>

definition WagerPreflight :: "'s redis \<Rightarrow> string \<Rightarrow> string \<Rightarrow> string \<Rightarrow> string \<Rightarrow> string \<Rightarrow> int \<Rightarrow> int \<Rightarrow>
    ('s, 'x, Preflight) go" where
  "WagerPreflight R member1 member2 scope userID roomID limit window =
     andThen (runWagerPreflightPipeline R member1 scope userID roomID limit window) (\<lambda>first.
     andThen (if fst first = Inl NoScript
              then andThen (roundtrip (ret ())) (\<lambda>_.
                     runWagerPreflightPipeline R member2 scope userID roomID limit window)
              else ret first) (\<lambda>(rlCmd, roundCmd, playersCmd).
     andThen (lift_sum rlCmd) (\<lambda>rl.
     andThen (lift_sum (decodeRateLimitReply rl)) (\<lambda>decision.
     andThen (lift_sum roundCmd) (\<lambda>roundID.
     andThen (lift_sum playersCmd) (\<lambda>n.
     ret \<lparr>PreDecision = decision, PreRound = (case roundID of None \<Rightarrow> [] | Some r \<Rightarrow> r),
          PrePlayers = players_of n\<rparr>))))))"

end
