(* ===== verification/Payout.thy ===== *)
theory Payout
  imports Domain
begin

text \<open>
  \<open>internal/domain/payout.go\<close>: the pari-mutuel settlement of a round. The loops are
  recursive functions over the stakes; the totals are \<open>int64\<close> accumulators and wrap.
\<close>

record stake =
  UserID :: string
  Outcome :: int
  Amount :: tokens

record payout =
  PayUserID :: string
  PayAmount :: tokens

record player_result =
  ResUserID :: string
  Staked :: tokens
  Returned :: tokens
  Net :: tokens

record settlement =
  Payouts :: "payout list"
  Results :: "player_result list"
  Dust :: tokens
  Refunded :: bool

section \<open>playerResults\<close>

text \<open>The first loop: a row per user in order of first stake, found again through the index map.\<close>

fun fold_stakes ::
  "stake list \<Rightarrow> (string \<rightharpoonup> nat) \<Rightarrow> player_result list \<Rightarrow> (string \<rightharpoonup> nat) \<times> player_result list" where
  "fold_stakes [] index results = (index, results)"
| "fold_stakes (s # ss) index results =
     (let (i, index, results) =
        (case index (UserID s) of
           Some i \<Rightarrow> (i, index, results)
         | None \<Rightarrow> (length results, index(UserID s \<mapsto> length results),
             results @ [\<lparr>ResUserID = UserID s, Staked = 0, Returned = 0, Net = 0\<rparr>]));
          r = results ! i
      in fold_stakes ss index (results[i := r\<lparr>Staked := i64 (Staked r + Amount s)\<rparr>]))"

text \<open>
  The second loop credits each payout to its user's row. \<open>index[p.UserID]\<close> on an unknown
  user is Go's zero value, the first row; on an empty slice that would be a panic, which the
  model shows as no change (no payout exists then).
\<close>

fun fold_payouts ::
  "payout list \<Rightarrow> (string \<rightharpoonup> nat) \<Rightarrow> player_result list \<Rightarrow> player_result list" where
  "fold_payouts [] index results = results"
| "fold_payouts (p # ps) index results =
     (let i = (case index (PayUserID p) of Some i \<Rightarrow> i | None \<Rightarrow> 0); r = results ! i
      in fold_payouts ps index (results[i := r\<lparr>Returned := i64 (Returned r + PayAmount p)\<rparr>]))"

definition playerResults :: "stake list \<Rightarrow> payout list \<Rightarrow> player_result list" where
  "playerResults stakes payouts =
     (let (index, results) = fold_stakes stakes Map.empty [];
          results = fold_payouts payouts index results
      in map (\<lambda>r. r\<lparr>Net := i64 (Returned r - Staked r)\<rparr>) results)"

section \<open>Settle\<close>

text \<open>The validation loop: it stops at the first bad stake, else gives total and winning pool.\<close>

fun settle_totals ::
  "stake list \<Rightarrow> int \<Rightarrow> int \<Rightarrow> tokens \<Rightarrow> tokens \<Rightarrow> err + (tokens \<times> tokens)" where
  "settle_totals [] w n tot winningPool = Inr (tot, winningPool)"
| "settle_totals (s # ss) w n tot winningPool =
     (if Amount s \<le> 0 then Inl (Domain ErrInvalidStake)
      else case ValidateOutcomeIndex (Outcome s) n of Some e \<Rightarrow> Inl e
      | None \<Rightarrow> settle_totals ss w n (i64 (tot + Amount s))
          (if Outcome s = w then i64 (winningPool + Amount s) else winningPool))"

text \<open>The payout loops, with the running sum \<open>paid\<close>.\<close>

fun refund_payouts :: "stake list \<Rightarrow> payout list \<Rightarrow> tokens \<Rightarrow> payout list \<times> tokens" where
  "refund_payouts [] ps paid = (ps, paid)"
| "refund_payouts (s # ss) ps paid =
     refund_payouts ss (ps @ [\<lparr>PayUserID = UserID s, PayAmount = Amount s\<rparr>])
       (i64 (paid + Amount s))"

fun winner_payouts ::
  "stake list \<Rightarrow> int \<Rightarrow> tokens \<Rightarrow> tokens \<Rightarrow> payout list \<Rightarrow> tokens \<Rightarrow> payout list \<times> tokens" where
  "winner_payouts [] w tot winningPool ps paid = (ps, paid)"
| "winner_payouts (s # ss) w tot winningPool ps paid =
     (if Outcome s \<noteq> w then winner_payouts ss w tot winningPool ps paid
      else let amount = go_div (i64 (Amount s * tot)) winningPool
           in winner_payouts ss w tot winningPool
                (ps @ [\<lparr>PayUserID = UserID s, PayAmount = amount\<rparr>]) (i64 (paid + amount)))"

definition Settle :: "stake list \<Rightarrow> int \<Rightarrow> int \<Rightarrow> err + settlement" where
  "Settle stakes winningOutcome outcomeCount =
     (case ValidateOutcomeIndex winningOutcome outcomeCount of Some e \<Rightarrow> Inl e
      | None \<Rightarrow>
        (case settle_totals stakes winningOutcome outcomeCount 0 0 of Inl e \<Rightarrow> Inl e
         | Inr (tot, winningPool) \<Rightarrow>
           let refunded = (winningPool = 0);
               (payouts, paid) =
                 (if refunded then refund_payouts stakes [] 0
                  else winner_payouts stakes winningOutcome tot winningPool [] 0)
           in Inr \<lparr>Payouts = payouts, Results = playerResults stakes payouts,
                   Dust = i64 (tot - paid), Refunded = refunded\<rparr>))"

section \<open>What the loops compute\<close>

definition staked :: "stake list \<Rightarrow> int" where
  "staked stakes = (\<Sum>s\<leftarrow>stakes. Amount s)"

definition paid_out :: "payout list \<Rightarrow> int" where
  "paid_out ps = (\<Sum>p\<leftarrow>ps. PayAmount p)"

definition on_outcome :: "int \<Rightarrow> stake list \<Rightarrow> stake list" where
  "on_outcome w stakes = filter (\<lambda>s. Outcome s = w) stakes"

text \<open>
  The inputs settlement accepts, and the size of round in which no product leaves 64 bits:
  the largest product is \<open>stake * total\<close>, at most the square of the total.
\<close>

definition valid_stakes :: "stake list \<Rightarrow> int \<Rightarrow> bool" where
  "valid_stakes stakes n \<longleftrightarrow> (\<forall>s\<in>set stakes. 0 < Amount s \<and> 0 \<le> Outcome s \<and> Outcome s < n)"

definition max_total :: int where "max_total = 3000000000"

definition small_round :: "stake list \<Rightarrow> bool" where
  "small_round stakes \<longleftrightarrow> staked stakes \<le> max_total"

lemma valid_stakes_Cons [simp]:
  "valid_stakes (s # ss) n \<longleftrightarrow> 0 < Amount s \<and> 0 \<le> Outcome s \<and> Outcome s < n \<and> valid_stakes ss n"
  by (auto simp: valid_stakes_def)

lemma staked_simps [simp]:
  "staked [] = 0" "staked (s # ss) = Amount s + staked ss"
  by (simp_all add: staked_def)

lemma paid_out_simps [simp]:
  "paid_out [] = 0" "paid_out (p # ps) = PayAmount p + paid_out ps"
  "paid_out (ps @ qs) = paid_out ps + paid_out qs"
  by (simp_all add: paid_out_def)

lemma on_outcome_simps [simp]:
  "on_outcome w [] = []"
  "on_outcome w (s # ss) = (if Outcome s = w then s # on_outcome w ss else on_outcome w ss)"
  by (simp_all add: on_outcome_def)

lemma staked_nonneg: "valid_stakes ss n \<Longrightarrow> 0 \<le> staked ss"
  by (induction ss) auto

lemma winning_le_total:
  "valid_stakes ss n \<Longrightarrow> 0 \<le> staked (on_outcome w ss) \<and> staked (on_outcome w ss) \<le> staked ss"
  by (induction ss) auto

lemma stake_le_total: "valid_stakes ss n \<Longrightarrow> s \<in> set ss \<Longrightarrow> Amount s \<le> staked ss"
  by (induction ss) (auto dest: staked_nonneg)

lemma in64_small: "0 \<le> x \<Longrightarrow> x \<le> max_total \<Longrightarrow> in64 x"
  by (simp add: in64_def max_total_def)

lemma in64_product:
  assumes "0 \<le> a" "a \<le> t" "0 \<le> t" "t \<le> max_total"
  shows "in64 (a * t)"
proof -
  have "a * t \<le> max_total * max_total" using assms by (intro mult_mono) auto
  moreover have "0 \<le> a * t" using assms by simp
  ultimately show ?thesis by (simp add: in64_def max_total_def)
qed

lemma settle_totals_eq:
  "valid_stakes ss n \<Longrightarrow> 0 \<le> t \<Longrightarrow> 0 \<le> p \<Longrightarrow> t + staked ss \<le> max_total \<Longrightarrow>
   p + staked ss \<le> max_total \<Longrightarrow>
   settle_totals ss w n t p = Inr (t + staked ss, p + staked (on_outcome w ss))"
proof (induction ss arbitrary: t p)
  case (Cons s ss)
  from Cons.prems have nn: "0 \<le> staked ss" by (auto intro: staked_nonneg)
  with Cons.prems have "in64 (t + Amount s)" "in64 (p + Amount s)"
    by (auto intro!: in64_small)
  with Cons nn show ?case
    by (simp add: ValidateOutcomeIndex_def i64_id algebra_simps)
qed simp

lemma settle_totals_Inr:
  "settle_totals ss w n t p = Inr r \<Longrightarrow> valid_stakes ss n"
  by (induction ss arbitrary: t p)
    (auto simp: ValidateOutcomeIndex_def valid_stakes_def split: if_splits)

lemma refund_payouts_eq:
  "valid_stakes ss n \<Longrightarrow> 0 \<le> a \<Longrightarrow> a + staked ss \<le> max_total \<Longrightarrow>
   refund_payouts ss ps a =
     (ps @ map (\<lambda>s. \<lparr>PayUserID = UserID s, PayAmount = Amount s\<rparr>) ss, a + staked ss)"
proof (induction ss arbitrary: ps a)
  case (Cons s ss)
  from Cons.prems have "0 \<le> staked ss" by (auto intro: staked_nonneg)
  with Cons.prems have "in64 (a + Amount s)" by (auto intro!: in64_small)
  with Cons show ?case by (simp add: i64_id algebra_simps)
qed simp

text \<open>The share of a winning stake.\<close>

definition share :: "int \<Rightarrow> int \<Rightarrow> stake \<Rightarrow> int" where
  "share tot winningPool s = Amount s * tot div winningPool"

definition share_payout :: "int \<Rightarrow> int \<Rightarrow> stake \<Rightarrow> payout" where
  "share_payout tot winningPool s =
     \<lparr>PayUserID = UserID s, PayAmount = share tot winningPool s\<rparr>"

lemma share_bounds:
  assumes "0 < Amount s" "0 < p" "p \<le> t"
  shows "Amount s \<le> share t p s"
proof -
  have "Amount s * p \<le> Amount s * t" using assms by simp
  then have "Amount s * p div p \<le> Amount s * t div p" using assms by (intro zdiv_mono1)
  with assms show ?thesis by (simp add: share_def)
qed

text \<open>The shares of the winners add up to at most the total, and miss it by less than their number.\<close>

lemma shares_sum:
  assumes "0 < p"
  shows "p * (\<Sum>s\<leftarrow>ss. share t p s) \<le> staked ss * t"
    and "staked ss * t \<le> p * (\<Sum>s\<leftarrow>ss. share t p s) + (p - 1) * int (length ss)"
proof (induction ss)
  case (Cons s ss)
  have "p * share t p s = Amount s * t - Amount s * t mod p"
    by (simp add: share_def minus_mod_eq_mult_div)
  moreover have "0 \<le> Amount s * t mod p" "Amount s * t mod p \<le> p - 1"
    using assms by simp_all
  ultimately have q: "p * share t p s \<le> Amount s * t" "Amount s * t \<le> p * share t p s + (p - 1)"
    by linarith+
  { case 1 show ?case using q Cons by (simp add: distrib_left distrib_right) }
  { case 2 show ?case using q Cons by (simp add: distrib_left distrib_right algebra_simps) }
qed simp_all

lemma winner_payouts_eq:
  assumes "valid_stakes ss n" "0 < p" "p \<le> t" "t \<le> max_total" "staked ss \<le> t"
    and "0 \<le> a" "a + (\<Sum>s\<leftarrow>on_outcome w ss. share t p s) \<le> max_total"
  shows "winner_payouts ss w t p ps a =
     (ps @ map (share_payout t p) (on_outcome w ss),
      a + (\<Sum>s\<leftarrow>on_outcome w ss. share t p s))"
  using assms
proof (induction ss arbitrary: ps a)
  case (Cons s ss)
  note prems = Cons.prems
  have ss: "0 \<le> staked ss" "valid_stakes ss n" using prems by (auto intro: staked_nonneg)
  show ?case
  proof (cases "Outcome s = w")
    case True
    have sh: "0 < share t p s" using prems share_bounds [of s p t] by simp
    have tail: "0 \<le> (\<Sum>s\<leftarrow>on_outcome w ss. share t p s)"
      using prems ss(2) by (intro sum_list_nonneg_int)
        (auto simp: share_def on_outcome_def valid_stakes_def pos_imp_zdiv_nonneg_iff)
    have "Amount s \<le> t" using prems ss by simp
    with prems have prod: "in64 (Amount s * t)" by (intro in64_product) auto
    then have "go_div (i64 (Amount s * t)) p = share t p s"
      using prems by (simp add: i64_id go_div_nonneg share_def)
    moreover have "in64 (a + share t p s)"
      using prems True sh tail by (intro in64_small) auto
    moreover have "winner_payouts ss w t p (ps @ [share_payout t p s]) (a + share t p s) =
        ((ps @ [share_payout t p s]) @ map (share_payout t p) (on_outcome w ss),
         (a + share t p s) + (\<Sum>s\<leftarrow>on_outcome w ss. share t p s))"
      by (rule Cons.IH) (use True prems sh ss in simp_all)
    ultimately show ?thesis
      using True by (simp add: i64_id Let_def share_payout_def)
  next
    case False
    then show ?thesis using prems ss by (simp add: Cons.IH)
  qed
qed simp

text \<open>
  What \<open>Settle\<close> returns on an accepted round of bounded size, as a closed formula.
\<close>

definition settle_spec :: "stake list \<Rightarrow> int \<Rightarrow> settlement" where
  "settle_spec stakes w =
     (let t = staked stakes; p = staked (on_outcome w stakes);
          ps = (if p = 0 then map (\<lambda>s. \<lparr>PayUserID = UserID s, PayAmount = Amount s\<rparr>) stakes
                else map (share_payout t p) (on_outcome w stakes))
      in \<lparr>Payouts = ps, Results = playerResults stakes ps,
          Dust = t - paid_out ps, Refunded = (p = 0)\<rparr>)"

lemma paid_out_identity [simp]:
  "paid_out (map (\<lambda>s. \<lparr>PayUserID = UserID s, PayAmount = Amount s\<rparr>) ss) = staked ss"
  by (induction ss) auto

lemma paid_out_shares [simp]:
  "paid_out (map (share_payout t p) ss) = (\<Sum>s\<leftarrow>ss. share t p s)"
  by (induction ss) (auto simp: share_payout_def)

lemma winners_paid:
  assumes "0 < p" "p = staked (on_outcome w ss)" "valid_stakes ss n"
  shows "(\<Sum>s\<leftarrow>on_outcome w ss. share (staked ss) p s) \<le> staked ss"
    and "staked ss - (\<Sum>s\<leftarrow>on_outcome w ss. share (staked ss) p s) < int (length (on_outcome w ss))"
proof -
  let ?sum = "(\<Sum>s\<leftarrow>on_outcome w ss. share (staked ss) p s)" and ?k = "length (on_outcome w ss)"
  have 1: "p * ?sum \<le> p * staked ss"
    using shares_sum(1) [OF assms(1), of "staked ss" "on_outcome w ss"] assms(2) by simp
  with assms(1) show "?sum \<le> staked ss" by simp
  have k: "0 < ?k" using assms(1,2) by (cases "on_outcome w ss") auto
  have "p * staked ss \<le> p * ?sum + (p - 1) * int ?k"
    using shares_sum(2) [OF assms(1), of "on_outcome w ss" "staked ss"] assms(2) by simp
  also have "\<dots> < p * ?sum + p * int ?k" using k by (simp add: algebra_simps)
  finally have "p * (staked ss - ?sum) < p * int ?k" by (simp add: algebra_simps)
  with assms(1) show "staked ss - ?sum < int ?k" by simp
qed

theorem Settle_eq_spec:
  assumes "ValidateOutcomeIndex w n = None" "valid_stakes ss n" "small_round ss"
  shows "Settle ss w n = Inr (settle_spec ss w)"
proof -
  let ?t = "staked ss" and ?p = "staked (on_outcome w ss)"
  have t: "0 \<le> ?t" "?t \<le> max_total" "0 \<le> ?p" "?p \<le> ?t"
    using assms staked_nonneg winning_le_total by (auto simp: small_round_def)
  have totals: "settle_totals ss w n 0 0 = Inr (?t, ?p)"
    using settle_totals_eq [OF assms(2), of 0 0 w] t by simp
  show ?thesis
  proof (cases "?p = 0")
    case True
    with assms t totals show ?thesis
      by (simp add: Settle_def settle_spec_def refund_payouts_eq [OF assms(2)] Let_def
          i64_id in64_def)
  next
    case False
    with t have p: "0 < ?p" by simp
    note paid = winners_paid [OF p refl assms(2)]
    have nn: "0 \<le> (\<Sum>s\<leftarrow>on_outcome w ss. share ?t ?p s)"
      using assms(2) p t by (intro sum_list_nonneg_int)
        (auto simp: share_def on_outcome_def valid_stakes_def pos_imp_zdiv_nonneg_iff)
    have "winner_payouts ss w ?t ?p [] 0 =
       (map (share_payout ?t ?p) (on_outcome w ss), (\<Sum>s\<leftarrow>on_outcome w ss. share ?t ?p s))"
      using winner_payouts_eq [OF assms(2) p t(4) t(2), of 0 w "[]"] paid(1) t by simp
    moreover have "in64 (?t - (\<Sum>s\<leftarrow>on_outcome w ss. share ?t ?p s))"
      using nn paid(1) t by (intro in64_small) auto
    ultimately show ?thesis
      using False assms totals by (simp add: Settle_def settle_spec_def Let_def i64_id)
  qed
qed

section \<open>What the reveal shows\<close>

definition user_staked :: "stake list \<Rightarrow> string \<Rightarrow> int" where
  "user_staked stakes u = (\<Sum>s\<leftarrow>filter (\<lambda>s. UserID s = u) stakes. Amount s)"

definition user_paid :: "payout list \<Rightarrow> string \<Rightarrow> int" where
  "user_paid ps u = (\<Sum>p\<leftarrow>filter (\<lambda>p. PayUserID p = u) ps. PayAmount p)"

definition first_users :: "stake list \<Rightarrow> string list" where
  "first_users stakes = add_new [] (map UserID stakes)"

definition row :: "(string \<Rightarrow> int) \<Rightarrow> (string \<Rightarrow> int) \<Rightarrow> string \<Rightarrow> player_result" where
  "row f g u = \<lparr>ResUserID = u, Staked = f u, Returned = g u, Net = 0\<rparr>"

lemma row_sel [simp]:
  "ResUserID (row f g u) = u" "Staked (row f g u) = f u" "Returned (row f g u) = g u"
  "(row f g u)\<lparr>Staked := x\<rparr> = row (f(u := x)) g u"
  "(row f g u)\<lparr>Returned := y\<rparr> = row f (g(u := y)) u"
  by (simp_all add: row_def)

lemma user_staked_simps [simp]:
  "user_staked [] u = 0"
  "user_staked (s # ss) u = (if UserID s = u then Amount s else 0) + user_staked ss u"
  by (simp_all add: user_staked_def)

lemma user_paid_simps [simp]:
  "user_paid [] u = 0"
  "user_paid (p # ps) u = (if PayUserID p = u then PayAmount p else 0) + user_paid ps u"
  by (simp_all add: user_paid_def)

lemma user_staked_bounds:
  "valid_stakes ss n \<Longrightarrow> 0 \<le> user_staked ss u \<and> user_staked ss u \<le> staked ss"
  by (induction ss) auto

lemma user_paid_bounds:
  "\<forall>p\<in>set ps. 0 \<le> PayAmount p \<Longrightarrow> 0 \<le> user_paid ps u \<and> user_paid ps u \<le> paid_out ps"
  by (induction ps) auto

text \<open>Writing one user's row of the slice is updating the function the rows show.\<close>

lemma rows_update:
  assumes "distinct us" "i < length us" "us ! i = u"
  shows "(map (row f g) us)[i := row (f(u := x)) g u] = map (row (f(u := x)) g) us"
    and "(map (row f g) us)[i := row f (g(u := x)) u] = map (row f (g(u := x))) us"
  using assms by (auto simp: map_update_distinct row_def)

lemma fold_stakes_rows:
  assumes "distinct us" "\<And>u. u \<notin> set us \<Longrightarrow> f u = 0 \<and> g u = 0"
    and "\<And>u. 0 \<le> f u \<and> f u + user_staked ss u \<le> max_total" "valid_stakes ss n"
  shows "fold_stakes ss (idx_of us) (map (row f g) us) =
    (idx_of (add_new us (map UserID ss)),
     map (row (\<lambda>u. f u + user_staked ss u) g) (add_new us (map UserID ss)))"
  using assms
proof (induction ss arbitrary: us f)
  case (Cons s ss)
  let ?u = "UserID s" and ?f = "f(UserID s := f (UserID s) + Amount s)"
  define vs where "vs = (if ?u \<in> set us then us else us @ [?u])"
  have vs: "distinct vs" "?u \<in> set vs" using Cons.prems(1) by (auto simp: vs_def)
  obtain i where i: "i < length vs" "vs ! i = ?u" "idx_of vs ?u = Some i"
    using idx_of_in [OF vs] .
  have "0 \<le> user_staked ss ?u"
    using Cons.prems(4) user_staked_bounds [of ss n] by simp
  then have "in64 (f ?u + Amount s)"
    using Cons.prems(3) [of ?u] Cons.prems(4) by (intro in64_small) auto
  then have upd: "(map (row f g) vs)[i := (map (row f g) vs ! i)
      \<lparr>Staked := i64 (Staked (map (row f g) vs ! i) + Amount s)\<rparr>] = map (row ?f g) vs"
    using i vs by (simp add: i64_id rows_update(1))
  have step: "fold_stakes (s # ss) (idx_of us) (map (row f g) us) =
      fold_stakes ss (idx_of vs) (map (row ?f g) vs)"
  proof (cases "?u \<in> set us")
    case True
    then have "vs = us" by (simp add: vs_def)
    with i upd show ?thesis by (simp add: Let_def)
  next
    case False
    then have new: "vs = us @ [?u]" by (simp add: vs_def)
    then have rows: "map (row f g) us @ [\<lparr>ResUserID = ?u, Staked = 0, Returned = 0, Net = 0\<rparr>] =
        map (row f g) vs"
      using Cons.prems(2) [OF False] by (simp add: row_def)
    have "idx_of vs = (idx_of us)(?u \<mapsto> length us)" "idx_of us ?u = None"
      using False new by (simp_all add: idx_of_snoc idx_of_None)
    with i upd rows show ?thesis by (simp add: Let_def)
  qed
  have "fold_stakes ss (idx_of vs) (map (row ?f g) vs) =
      (idx_of (add_new vs (map UserID ss)),
       map (row (\<lambda>u. ?f u + user_staked ss u) g) (add_new vs (map UserID ss)))"
  proof (rule Cons.IH)
    show "0 \<le> ?f u \<and> ?f u + user_staked ss u \<le> max_total" for u
      using Cons.prems(3) [of u] Cons.prems(4) by (auto split: if_splits)
    show "u \<notin> set vs \<Longrightarrow> ?f u = 0 \<and> g u = 0" for u
      using Cons.prems(2) vs by (auto simp: vs_def split: if_splits)
  qed (use vs Cons.prems in auto)
  moreover have "(\<lambda>u. ?f u + user_staked ss u) = (\<lambda>u. f u + user_staked (s # ss) u)"
    by auto
  ultimately show ?case using step by (simp add: vs_def)
qed simp

lemma fold_payouts_rows:
  assumes "distinct us" "PayUserID ` set ps \<subseteq> set us" "\<forall>p\<in>set ps. 0 \<le> PayAmount p"
    and "\<And>u. 0 \<le> g u \<and> g u + user_paid ps u \<le> max_total"
  shows "fold_payouts ps (idx_of us) (map (row f g) us) =
    map (row f (\<lambda>u. g u + user_paid ps u)) us"
  using assms
proof (induction ps arbitrary: g)
  case (Cons p ps)
  let ?u = "PayUserID p" and ?g = "g(PayUserID p := g (PayUserID p) + PayAmount p)"
  from Cons.prems have "?u \<in> set us" by simp
  then obtain i where i: "i < length us" "us ! i = ?u" "idx_of us ?u = Some i"
    using idx_of_in [OF Cons.prems(1)] by metis
  have "0 \<le> user_paid ps ?u" using Cons.prems(3) user_paid_bounds by simp
  then have "in64 (g ?u + PayAmount p)"
    using Cons.prems(3) Cons.prems(4) [of ?u] by (intro in64_small) auto
  then have step: "fold_payouts (p # ps) (idx_of us) (map (row f g) us) =
      fold_payouts ps (idx_of us) (map (row f ?g) us)"
    using i Cons.prems(1) by (simp add: i64_id rows_update Let_def)
  have "fold_payouts ps (idx_of us) (map (row f ?g) us) =
      map (row f (\<lambda>u. ?g u + user_paid ps u)) us"
  proof (rule Cons.IH)
    show "0 \<le> ?g u \<and> ?g u + user_paid ps u \<le> max_total" for u
      using Cons.prems(3) Cons.prems(4) [of u] by (auto split: if_splits)
  qed (use Cons.prems in auto)
  moreover have "(\<lambda>u. ?g u + user_paid ps u) = (\<lambda>u. g u + user_paid (p # ps) u)"
    by auto
  ultimately show ?case using step by simp
qed simp

lemma playerResults_eq:
  assumes "valid_stakes ss n" "small_round ss"
    and "PayUserID ` set ps \<subseteq> UserID ` set ss" "\<forall>p\<in>set ps. 0 \<le> PayAmount p"
    and "paid_out ps \<le> staked ss"
  shows "playerResults ss ps =
    map (\<lambda>u. \<lparr>ResUserID = u, Staked = user_staked ss u, Returned = user_paid ps u,
              Net = user_paid ps u - user_staked ss u\<rparr>) (first_users ss)"
proof -
  let ?us = "first_users ss"
  have us: "distinct ?us" "set ?us = UserID ` set ss"
    by (simp_all add: first_users_def distinct_add_new set_add_new)
  have st: "0 \<le> user_staked ss u \<and> user_staked ss u \<le> max_total" for u
    using user_staked_bounds [OF assms(1), of u] assms(2) by (simp add: small_round_def)
  have pd: "0 \<le> user_paid ps u \<and> user_paid ps u \<le> max_total" for u
    using user_paid_bounds [OF assms(4), of u] assms(2,5) by (simp add: small_round_def)
  have 1: "fold_stakes ss Map.empty [] = (idx_of ?us, map (row (user_staked ss) (\<lambda>u. 0)) ?us)"
    using fold_stakes_rows [of "[]" "\<lambda>u. 0" "\<lambda>u. 0" ss n] st assms(1)
    by (simp add: first_users_def)
  have 2: "fold_payouts ps (idx_of ?us) (map (row (user_staked ss) (\<lambda>u. 0)) ?us) =
      map (row (user_staked ss) (user_paid ps)) ?us"
    using fold_payouts_rows [of ?us ps "\<lambda>u. 0"] us assms(3,4) pd by simp
  have "in64 (user_paid ps u - user_staked ss u)" for u
    using st [of u] pd [of u] by (simp add: in64_def max_total_def)
  then show ?thesis by (simp add: playerResults_def 1 2 row_def i64_id)
qed

lemma settle_spec_payouts:
  assumes "valid_stakes ss n"
  shows "PayUserID ` set (Payouts (settle_spec ss w)) \<subseteq> UserID ` set ss"
    and "\<forall>p\<in>set (Payouts (settle_spec ss w)). 0 < PayAmount p"
    and "paid_out (Payouts (settle_spec ss w)) \<le> staked ss"
proof -
  let ?p = "staked (on_outcome w ss)"
  have p: "0 \<le> ?p" "?p \<le> staked ss" using winning_le_total [OF assms] by auto
  show "PayUserID ` set (Payouts (settle_spec ss w)) \<subseteq> UserID ` set ss"
    by (auto simp: settle_spec_def Let_def share_payout_def on_outcome_def)
  show "\<forall>p\<in>set (Payouts (settle_spec ss w)). 0 < PayAmount p"
  proof (cases "?p = 0")
    case True
    with assms show ?thesis by (auto simp: settle_spec_def Let_def valid_stakes_def)
  next
    case False
    have "0 < share (staked ss) ?p s" if "s \<in> set ss" for s
      using that assms False p share_bounds [of s ?p "staked ss"]
      by (auto simp: valid_stakes_def)
    with False show ?thesis
      by (auto simp: settle_spec_def Let_def share_payout_def on_outcome_def)
  qed
  show "paid_out (Payouts (settle_spec ss w)) \<le> staked ss"
    using p winners_paid(1) [OF _ refl assms, of w] by (auto simp: settle_spec_def Let_def)
qed

lemmas settle_spec_results = playerResults_eq [OF _ _ settle_spec_payouts(1)]

lemma Settle_Inr_valid:
  "Settle ss w n = Inr r \<Longrightarrow> ValidateOutcomeIndex w n = None \<and> valid_stakes ss n"
  by (auto simp: Settle_def split: option.splits sum.splits prod.splits
      dest: settle_totals_Inr)

lemma Settle_InrD:
  "Settle ss w n = Inr r \<Longrightarrow> small_round ss \<Longrightarrow>
   r = settle_spec ss w \<and> ValidateOutcomeIndex w n = None \<and> valid_stakes ss n"
  using Settle_Inr_valid [of ss w n r] Settle_eq_spec [of w n ss] by simp

section \<open>Properties of settlement\<close>


definition stakes_eg :: "stake list" where
  "stakes_eg = [\<lparr>UserID = ''ann'', Outcome = 0, Amount = 100\<rparr>,
     \<lparr>UserID = ''bob'', Outcome = 1, Amount = 50\<rparr>, \<lparr>UserID = ''cat'', Outcome = 0, Amount = 200\<rparr>,
     \<lparr>UserID = ''ann'', Outcome = 1, Amount = 17\<rparr>]"

lemma stakes_eg_settles: "Settle stakes_eg 0 3 = Inr (settle_spec stakes_eg 0)"
  by (rule Settle_eq_spec)
    (simp_all add: ValidateOutcomeIndex_def stakes_eg_def valid_stakes_def small_round_def
      max_total_def)

lemma stakes_eg_small: "small_round stakes_eg"
  by (simp add: stakes_eg_def small_round_def max_total_def)




text \<open>
  The reveal has exactly one row per player, in the order of first stake; a row shows what
  the player staked and got back over the whole round, \<open>Net\<close> is the difference, and the nets
  of all players add up to minus the dust (a zero-sum game but for the rounding).
\<close>

theorem settle_results:
  assumes "Settle stakes w n = Inr r" and "small_round stakes"
  shows "map ResUserID (Results r) = first_users stakes \<and> distinct (first_users stakes)
    \<and> set (first_users stakes) = UserID ` set stakes
    \<and> (\<forall>row\<in>set (Results r). Staked row = user_staked stakes (ResUserID row)
       \<and> Returned row = user_paid (Payouts r) (ResUserID row) \<and> Net row = Returned row - Staked row)
    \<and> (\<Sum>row\<leftarrow>Results r. Net row) = - Dust r"
proof (intro conjI)
  from Settle_InrD [OF assms] have r: "r = settle_spec stakes w" and v: "valid_stakes stakes n"
    by auto
  note ps = settle_spec_payouts [OF v, of w, folded r]
  have "Results r = playerResults stakes (Payouts r)" by (simp add: r settle_spec_def Let_def)
  then have res: "Results r = map (\<lambda>u. \<lparr>ResUserID = u, Staked = user_staked stakes u,
      Returned = user_paid (Payouts r) u, Net = user_paid (Payouts r) u - user_staked stakes u\<rparr>)
      (first_users stakes)"
    using playerResults_eq [OF v assms(2) ps(1) _ ps(3)] ps(2) by (simp add: less_imp_le)
  show "map ResUserID (Results r) = first_users stakes" by (simp add: res o_def)
  show us: "distinct (first_users stakes)" "set (first_users stakes) = UserID ` set stakes"
    by (simp_all add: first_users_def distinct_add_new set_add_new)
  show "\<forall>row\<in>set (Results r). Staked row = user_staked stakes (ResUserID row)
       \<and> Returned row = user_paid (Payouts r) (ResUserID row) \<and> Net row = Returned row - Staked row"
    by (auto simp: res)
  have 1: "(\<Sum>u\<leftarrow>first_users stakes. user_staked stakes u) = staked stakes"
    unfolding user_staked_def staked_def by (rule sum_list_group) (simp_all add: us)
  have 2: "(\<Sum>u\<leftarrow>first_users stakes. user_paid (Payouts r) u) = paid_out (Payouts r)"
    unfolding user_paid_def paid_out_def using ps(1) by (intro sum_list_group) (simp_all add: us)
  have "(\<Sum>row\<leftarrow>Results r. Net row) = paid_out (Payouts r) - staked stakes"
    by (simp add: res o_def sum_list_subtractf 1 2)
  then show "(\<Sum>row\<leftarrow>Results r. Net row) = - Dust r"
    by (simp add: r settle_spec_def Let_def)
qed

theorem settle_results_witness:
  "map ResUserID (Results (settle_spec stakes_eg 0)) = [''ann'', ''bob'', ''cat'']
   \<and> (\<Sum>row\<leftarrow>Results (settle_spec stakes_eg 0). Net row) = - Dust (settle_spec stakes_eg 0)"
  using settle_results [OF stakes_eg_settles stakes_eg_small]
  by (simp add: stakes_eg_def first_users_def)

text \<open>
  Settlement fails exactly on a winning index the round does not have, or else on the first
  stake that is not positive or names no outcome of the round, and says which; it accepts
  everything else, whatever the amounts.
\<close>

theorem settle_errors:
  "Settle stakes w n = Inl e \<longleftrightarrow>
    (if w < 0 \<or> n \<le> w then e = Domain ErrInvalidOutcome
     else \<exists>s. find (\<lambda>s. Amount s \<le> 0 \<or> Outcome s < 0 \<or> n \<le> Outcome s) stakes = Some s
       \<and> e = Domain (if Amount s \<le> 0 then ErrInvalidStake else ErrInvalidOutcome))"
proof -
  have totals: "settle_totals ss w n t p = Inl e \<longleftrightarrow>
     (\<exists>s. find (\<lambda>s. Amount s \<le> 0 \<or> Outcome s < 0 \<or> n \<le> Outcome s) ss = Some s
       \<and> e = Domain (if Amount s \<le> 0 then ErrInvalidStake else ErrInvalidOutcome))" for ss t p
    by (induction ss arbitrary: t p) (auto simp: ValidateOutcomeIndex_def)
  have "Settle stakes w n = Inl e \<longleftrightarrow>
      (if w < 0 \<or> n \<le> w then e = Domain ErrInvalidOutcome
       else settle_totals stakes w n 0 0 = Inl e)"
    by (auto simp: Settle_def ValidateOutcomeIndex_def Let_def split: sum.splits prod.splits)
  then show ?thesis by (simp only: totals)
qed

text \<open>
  The bound on the round's total is not an artefact of the proof: the product
  \<open>stake * total\<close> is computed in 64 bits, and from a total of 3037000500 tokens on a lone
  winner is credited a negative amount, although the round is valid.
\<close>

theorem settle_overflow:
  "valid_stakes [\<lparr>UserID = u, Outcome = 0, Amount = 3037000500\<rparr>] 2 \<and>
   (\<exists>r p. Settle [\<lparr>UserID = u, Outcome = 0, Amount = 3037000500\<rparr>] 0 2 = Inr r \<and>
        Payouts r = [p] \<and> PayAmount p < 0)"
  by (simp add: valid_stakes_def Settle_def ValidateOutcomeIndex_def i64_def go_div_def Let_def)

end
