(* ===== verification/SettleStore.thy ===== *)
theory SettleStore
  imports WagerStore Payout "HOL-Library.Product_Lexorder"
begin

text \<open>
  \<open>redisstore/settle.go\<close>: reading a round's stakes back, settling it with
  \<open>domain.Settle\<close> and refunding it. The mathematics runs in Go, the state change in one
  script.
\<close>

section \<open>Aggregating and rendering\<close>

text \<open>The loop keeps the index of every user's payout.\<close>

fun aggregate_from :: "stake list \<Rightarrow> (string \<rightharpoonup> nat) \<Rightarrow> payout list \<Rightarrow> tokens \<Rightarrow> payout list \<times> tokens" where
  "aggregate_from [] index payouts tot = (payouts, tot)"
| "aggregate_from (st # sts) index payouts tot =
     (let (i, index, payouts) =
        (case index (UserID st) of
           Some i \<Rightarrow> (i, index, payouts)
         | None \<Rightarrow> (length payouts, index(UserID st \<mapsto> length payouts),
             payouts @ [\<lparr>PayUserID = UserID st, PayAmount = 0\<rparr>]));
          p = payouts ! i
      in aggregate_from sts index (payouts[i := p\<lparr>PayAmount := i64 (PayAmount p + Amount st)\<rparr>])
           (i64 (tot + Amount st)))"

definition aggregateStakes :: "stake list \<Rightarrow> payout list \<times> tokens" where
  "aggregateStakes stakes = aggregate_from stakes Map.empty [] 0"

definition wirePayout :: "payout \<Rightarrow> json" where
  "wirePayout p = JObj [(''user_id'', JStr (PayUserID p)), (''amount'', JNum (itoa (PayAmount p)))]"

definition marshalPayouts :: "payout list \<Rightarrow> string" where
  "marshalPayouts payouts = render (JArr (map wirePayout payouts))"

section \<open>Reading the stakes\<close>

text \<open>
  The loop over the hash (in whatever order \<open>HGETALL\<close> gives) and the sort that makes the
  order irrelevant. Strings compare byte by byte.
\<close>

definition stake_of :: "string \<times> string \<Rightarrow> err + stake" where
  "stake_of fv = (case ParseWagerField (fst fv) of Inl e \<Rightarrow> Inl e
     | Inr (userID, outcome) \<Rightarrow>
       (case ParseInt (snd fv) of None \<Rightarrow> Inl Malformed
        | Some amount \<Rightarrow> Inr \<lparr>UserID = userID, Outcome = outcome, Amount = amount\<rparr>))"

fun stakes_of :: "(string \<times> string) list \<Rightarrow> err + stake list" where
  "stakes_of [] = Inr []"
| "stakes_of (fv # fvs) = (case stake_of fv of Inl e \<Rightarrow> Inl e
     | Inr st \<Rightarrow> (case stakes_of fvs of Inl e \<Rightarrow> Inl e | Inr sts \<Rightarrow> Inr (st # sts)))"

definition sort_stakes :: "stake list \<Rightarrow> stake list" where
  "sort_stakes = sort_key (\<lambda>st. (UserID st, Outcome st))"

definition ReadStakes :: "'s redis \<Rightarrow> string \<Rightarrow> ('s, 'x, stake list) go" where
  "ReadStakes R roundID =
     andThen (hgetall R (RoundWagersKey roundID)) (\<lambda>fs.
     andThen (lift_sum (stakes_of fs)) (\<lambda>stakes. ret (sort_stakes stakes)))"

section \<open>Settling\<close>

definition mapSettleStatus :: "string \<Rightarrow> err" where
  "mapSettleStatus code =
     (if code = ''ALREADY_RESOLVED'' then Store ErrAlreadySettled
      else if code = ''NOT_LOCKED'' then Store ErrNotLocked else Malformed)"

definition credit_args :: "payout list \<Rightarrow> string list" where
  "credit_args payouts = concat (map (\<lambda>p. [PayUserID p, itoa (PayAmount p)]) payouts)"

definition sum_amounts :: "stake list \<Rightarrow> tokens" where
  "sum_amounts stakes = foldl (\<lambda>t st. i64 (t + Amount st)) 0 stakes"

text \<open>The script call of \<open>SettleRound\<close>: the terminal status is \<open>refunded\<close> when nobody won.\<close>

definition settle_call :: "'s redis \<Rightarrow> string \<Rightarrow> string \<Rightarrow> string \<Rightarrow> int \<Rightarrow> string \<Rightarrow> tokens \<Rightarrow>
    settlement \<Rightarrow> ('s, err, lua_val list) eff" where
  "settle_call R outbox roundID roomID winningOutcome idempotencyKey tot st =
     settle_round R (RoundKey roundID) (RoomWalletsKey roomID) outbox
       (if Refunded st then ''refunded'' else ''resolved'')
       (if Refunded st then [] else itoa winningOutcome)
       (itoa (Dust st)) idempotencyKey roundID roomID (itoa tot) (marshalPayouts (Payouts st))
       (credit_args (Payouts st))"

definition SettleRound :: "'s redis \<Rightarrow> string \<Rightarrow> string \<Rightarrow> int \<Rightarrow> string \<Rightarrow> ('s, 'x, settlement) go" where
  "SettleRound R outbox roundID winningOutcome idempotencyKey =
     andThen (GetRound R roundID) (\<lambda>round.
     if Status round = RoundResolved \<or> Status round = RoundRefunded then raise (Store ErrAlreadySettled)
     else if Status round \<noteq> RoundLocked then raise (Store ErrNotLocked)
     else andThen (ReadStakes R roundID) (\<lambda>stakes.
     andThen (lift_sum (Settle stakes winningOutcome (OutcomeCount round))) (\<lambda>st.
     andThen (call_script (settle_call R outbox roundID (RoundRoom round) winningOutcome
       idempotencyKey (sum_amounts stakes) st)) (\<lambda>reply.
     if hd reply \<noteq> ''OK'' then raise (mapSettleStatus (hd reply)) else ret st))))"

section \<open>Refunding\<close>

definition refund_call :: "'s redis \<Rightarrow> string \<Rightarrow> string \<Rightarrow> string \<Rightarrow> string \<Rightarrow> payout list \<Rightarrow> tokens \<Rightarrow>
    ('s, err, lua_val list) eff" where
  "refund_call R outbox roundID roomID idempotencyKey payouts tot =
     refund_round R (RoundKey roundID) (RoomWalletsKey roomID) outbox idempotencyKey roundID roomID
       (itoa tot) (marshalPayouts payouts) (credit_args payouts)"

definition RefundRound :: "'s redis \<Rightarrow> string \<Rightarrow> string \<Rightarrow> string \<Rightarrow> ('s, 'x, tokens) go" where
  "RefundRound R outbox roundID idempotencyKey =
     andThen (GetRound R roundID) (\<lambda>round.
     if Status round = RoundResolved \<or> Status round = RoundRefunded then raise (Store ErrAlreadySettled)
     else if Status round \<noteq> RoundLocked then raise (Store ErrNotLocked)
     else andThen (ReadStakes R roundID) (\<lambda>stakes.
     let (payouts, tot) = aggregateStakes stakes in
     andThen (call_script (refund_call R outbox roundID (RoundRoom round) idempotencyKey payouts tot)) (\<lambda>reply.
     if hd reply \<noteq> ''OK'' then raise (mapSettleStatus (hd reply)) else ret tot)))"

end
