(* ===== verification/Service.thy ===== *)
theory Service
  imports SettleStore
begin

text \<open>
  What the services share: the wire types of \<open>round/protocol.go\<close> and
  \<open>wager/protocol.go\<close>, the broadcaster they announce events through, and the state a
  service method runs in, which adds to the world of a Redis method the payloads it sent, the
  round clocks it started and the latencies it recorded. Durations and clock readings are
  nanoseconds, as \<open>time.Duration\<close> has them.
\<close>

section \<open>Wire types\<close>

record Spec =
  SpecQuestion :: string
  SpecOutcomes :: "string list"
  LockIn :: int

record Opened =
  OpenedRound :: string
  OpenedQuestion :: string
  OpenedOutcomes :: "string list"
  OpenedLockAt :: int

record LockedEvent =
  LockedRound :: string

record RefundedEvent =
  RefundedRound :: string
  RefundedTotal :: int

record ResultRow =
  RowUser :: string
  RowName :: string
  RowStaked :: int
  RowReturned :: int
  RowNet :: int

record ResolvedEvent =
  ResolvedRound :: string
  WinningOutcome :: int
  RevealRows :: "ResultRow list"
  RevealDust :: int
  RevealRefunded :: bool

record OddsEvent =
  OddsRound :: string
  OddsPools :: "int list"
  OddsTotal :: int
  OddsMultipliers :: "rat list"
  OddsBettors :: int
  OddsPlayers :: int

text \<open>
  A payload as the fields of the struct given to the encoder: none holds a value
  \<open>json.Marshal\<close> refuses, so encoding cannot fail.
\<close>

datatype event =
    OpenedMsg Opened
  | LockedMsg LockedEvent
  | RefundedMsg RefundedEvent
  | ResolvedMsg ResolvedEvent
  | OddsMsg OddsEvent

record envelope =
  MsgType :: string
  MsgData :: event

definition EncodeEnvelope :: "string \<Rightarrow> event \<Rightarrow> err + envelope" where
  "EncodeEnvelope msgType d = Inr \<lparr>MsgType = msgType, MsgData = d\<rparr>"

section \<open>The state of a service\<close>

record 's service = "'s world" +
  sent :: "(string \<times> envelope) list"
  clocks :: "(string \<times> string \<times> int) list"
  samples :: "(bool \<times> int) list"

type_synonym ('s, 'x, 'a) svc = "(('s, 'x) service_scheme, err, 'a) eff"

definition Broadcast :: "string \<Rightarrow> envelope \<Rightarrow> ('s, 'x, unit) svc" where
  "Broadcast roomID payload = exec (\<lambda>w. w\<lparr>sent := sent w @ [(roomID, payload)]\<rparr>)"

definition publish :: "string \<Rightarrow> string \<Rightarrow> event \<Rightarrow> ('s, 'x, unit) svc" where
  "publish roomID msgType d =
     andThen (lift_sum (EncodeEnvelope msgType d)) (\<lambda>payload. Broadcast roomID payload)"

text \<open>\<open>go s.watch(...)\<close>.\<close>

definition start_clock :: "string \<Rightarrow> string \<Rightarrow> int \<Rightarrow> ('s, 'x, unit) svc" where
  "start_clock roomID roundID lockAt =
     exec (\<lambda>w. w\<lparr>clocks := clocks w @ [(roomID, roundID, lockAt)]\<rparr>)"

definition Observe :: "bool \<Rightarrow> int \<Rightarrow> ('s, 'x, unit) svc" where
  "Observe ok elapsed = exec (\<lambda>w. w\<lparr>samples := samples w @ [(ok, elapsed)]\<rparr>)"

lemma publish_run [eff_simps]:
  "publish r t d w = (Inr (), w\<lparr>sent := sent w @ [(r, \<lparr>MsgType = t, MsgData = d\<rparr>)]\<rparr>)"
  by (simp add: publish_def EncodeEnvelope_def Broadcast_def eff_simps)

lemma start_clock_run [eff_simps]:
  "start_clock r x t w = (Inr (), w\<lparr>clocks := clocks w @ [(r, x, t)]\<rparr>)"
  by (simp add: start_clock_def eff_simps)

end
