(* ===== verification/RoundService.thy ===== *)
theory RoundService
  imports Service
begin

text \<open>
  \<open>internal/round\<close>: opening a round, the server-side clock that locks and refunds it, the
  host's resolution, and folding a session into an account (\<open>service.go\<close>, \<open>timer.go\<close>,
  \<open>session.go\<close>). The identifiers, clock readings and names a method asks for are
  arguments; a method that only logs its error returns it.
\<close>

section \<open>Opening\<close>

definition MinLockIn :: int where "MinLockIn = 3 * 10 ^ 9"
definition MaxLockIn :: int where "MaxLockIn = 120 * 10 ^ 9"

text \<open>\<open>time.Time.UnixMilli\<close> of an instant in nanoseconds.\<close>

definition UnixMilli :: "int \<Rightarrow> int" where
  "UnixMilli t = t div 10 ^ 6"

fun trim_outcomes :: "string list \<Rightarrow> err + string list" where
  "trim_outcomes [] = Inr []"
| "trim_outcomes (o' # os) =
     (if TrimSpace o' = [] then Inl (Round ErrInvalidSpec)
      else case trim_outcomes os of Inl e \<Rightarrow> Inl e | Inr ts \<Rightarrow> Inr (TrimSpace o' # ts))"

definition validate_spec :: "Spec \<Rightarrow> err + Spec" where
  "validate_spec spec =
     (let question = TrimSpace (SpecQuestion spec) in
      if question = [] then Inl (Round ErrInvalidSpec)
      else if ValidateOutcomeCount (int (length (SpecOutcomes spec))) \<noteq> None then Inl (Round ErrInvalidSpec)
      else case trim_outcomes (SpecOutcomes spec) of Inl e \<Rightarrow> Inl e
      | Inr outcomes \<Rightarrow>
        if LockIn spec < MinLockIn \<or> LockIn spec > MaxLockIn then Inl (Round ErrInvalidSpec)
        else Inr (spec\<lparr>SpecQuestion := question, SpecOutcomes := outcomes\<rparr>))"

definition check_no_round :: "'s redis \<Rightarrow> string \<Rightarrow> ('s, 'x, unit) go" where
  "check_no_round R roomID =
     attempt (CurrentRound R roomID) (\<lambda>r. case r of
       Inr currentID \<Rightarrow> andThen (GetRound R currentID) (\<lambda>current.
         if \<not> IsTerminal (Status current) then raise (Round ErrRoundInProgress) else ret ())
     | Inl e \<Rightarrow> if e = Store ErrNotFound then ret () else raise e)"

definition Open :: "'s redis \<Rightarrow> int \<Rightarrow> string \<Rightarrow> string \<Rightarrow> string \<Rightarrow> Spec \<Rightarrow> ('s, 'x, Opened) svc" where
  "Open R nowNs roundID roomID callerID spec =
     andThen (GetRoom R roomID) (\<lambda>rm.
     if HostID rm \<noteq> callerID then raise (Round ErrNotHost)
     else andThen (lift_sum (validate_spec spec)) (\<lambda>spec.
     andThen (check_no_round R roomID) (\<lambda>_.
     let lockAt = nowNs + LockIn spec;
         opened = \<lparr>OpenedRound = roundID, OpenedQuestion = SpecQuestion spec,
           OpenedOutcomes = SpecOutcomes spec, OpenedLockAt = UnixMilli lockAt\<rparr> in
     andThen (CreateRound R roundID roomID (SpecQuestion spec) (SpecOutcomes spec) (UnixMilli lockAt)) (\<lambda>_.
     andThen (publish roomID ''round_opened'' (OpenedMsg opened)) (\<lambda>_.
     andThen (start_clock roomID roundID lockAt) (\<lambda>_. ret opened))))))"

section \<open>Resolving\<close>

text \<open>\<open>names\<close> is what the broadcaster answers for the room: the connected players' names.\<close>

definition result_row :: "(string \<rightharpoonup> string) \<Rightarrow> player_result \<Rightarrow> ResultRow" where
  "result_row names r =
     (let name = (case names (ResUserID r) of None \<Rightarrow> [] | Some n \<Rightarrow> n)
      in \<lparr>RowUser = ResUserID r, RowName = (if name = [] then ResUserID r else name),
          RowStaked = Staked r, RowReturned = Returned r, RowNet = Net r\<rparr>)"

definition Resolve :: "'s redis \<Rightarrow> string \<Rightarrow> string \<Rightarrow> (string \<rightharpoonup> string) \<Rightarrow> string \<Rightarrow> string \<Rightarrow> int \<Rightarrow>
    ('s, 'x, settlement) svc" where
  "Resolve R outbox key names roomID callerID winningOutcome =
     andThen (GetRoom R roomID) (\<lambda>rm.
     if HostID rm \<noteq> callerID then raise (Round ErrNotHost)
     else attempt (CurrentRound R roomID) (\<lambda>current. case current of
       Inl e \<Rightarrow> raise (if e = Store ErrNotFound then Round ErrNoActiveRound else e)
     | Inr roundID \<Rightarrow>
     andThen (GetRound R roundID) (\<lambda>rd.
     case ValidateOutcomeIndex winningOutcome (OutcomeCount rd) of Some e \<Rightarrow> raise e
     | None \<Rightarrow>
     andThen (SettleRound R outbox roundID winningOutcome key) (\<lambda>st.
     andThen (ClearCurrentRound R roomID) (\<lambda>_.
     andThen (publish roomID ''round_resolved'' (ResolvedMsg
       \<lparr>ResolvedRound = roundID, WinningOutcome = winningOutcome,
        RevealRows = map (result_row names) (Results st), RevealDust = Dust st,
        RevealRefunded = Refunded st\<rparr>)) (\<lambda>_. ret st))))))"

section \<open>The clock of a round\<close>

text \<open>
  \<open>lockFires\<close> and \<open>refundFires\<close>: whether the timer, and not the cancelled context, ends
  each wait.
\<close>

definition refund_after_grace :: "'s redis \<Rightarrow> string \<Rightarrow> string \<Rightarrow> string \<Rightarrow> string \<Rightarrow> ('s, 'x, unit) svc" where
  "refund_after_grace R outbox key roomID roundID =
     andThen (GetRound R roundID) (\<lambda>rd.
     if IsTerminal (Status rd) then ret ()
     else attempt (RefundRound R outbox roundID key) (\<lambda>r. case r of
       Inl e \<Rightarrow> if e = Store ErrAlreadySettled then ret () else raise e
     | Inr tot \<Rightarrow>
       andThen (ClearCurrentRound R roomID) (\<lambda>_.
       publish roomID ''round_refunded'' (RefundedMsg \<lparr>RefundedRound = roundID, RefundedTotal = tot\<rparr>))))"

definition watch :: "'s redis \<Rightarrow> string \<Rightarrow> string \<Rightarrow> bool \<Rightarrow> bool \<Rightarrow> string \<Rightarrow> string \<Rightarrow> ('s, 'x, unit) svc" where
  "watch R outbox key lockFires refundFires roomID roundID =
     (if \<not> lockFires then ret ()
      else attempt (LockRound R roundID) (\<lambda>r. case r of
        Inl e \<Rightarrow> if e = Store ErrRoundTerminal then ret () else raise e
      | Inr _ \<Rightarrow>
        andThen (publish roomID ''round_locked'' (LockedMsg \<lparr>LockedRound = roundID\<rparr>)) (\<lambda>_.
        if \<not> refundFires then ret ()
        else refund_after_grace R outbox key roomID roundID)))"

section \<open>Ending a session\<close>

text \<open>A missing stake or wallet is a session that has ended; a missing account is an error.\<close>

definition or_ended :: "('s, 'x, tokens) go \<Rightarrow> (tokens \<Rightarrow> ('s, 'x, tokens) go) \<Rightarrow> ('s, 'x, tokens) go" where
  "or_ended m k = attempt m (\<lambda>r. case r of
     Inl e \<Rightarrow> if e = Store ErrNotFound then ret 0 else raise e | Inr x \<Rightarrow> k x)"

definition EndSession :: "'s redis \<Rightarrow> string \<Rightarrow> string \<Rightarrow> bool \<Rightarrow> ('s, 'x, tokens) go" where
  "EndSession R roomID userID guest =
     (if guest then ret 0
      else andThen (GetUser R userID) (\<lambda>acct.
        or_ended (OpeningStake R roomID userID) (\<lambda>opening.
        or_ended (Balance R roomID userID) (\<lambda>current.
        andThen (ClearSession R roomID userID) (\<lambda>claimed.
        if \<not> claimed then ret 0
        else let newBalance = ApplySessionResult (UserBalance acct) opening current in
          andThen (SetBalance R userID newBalance) (\<lambda>_. ret newBalance))))))"

text \<open>\<open>round.Service.Balance\<close>.\<close>

definition SessionBalance :: "'s redis \<Rightarrow> string \<Rightarrow> string \<Rightarrow> ('s, 'x, int) go" where
  "SessionBalance R roomID userID = andThen (Balance R roomID userID) ret"

end
