(* ===== verification/Tables.thy ===== *)
theory Tables
  imports Scripts
begin

text \<open>
  Hashes of token amounts: the number a field holds (\<open>amt\<close>), the sum of a hash (\<open>hsum\<close>) and
  the condition under which the scripts' arithmetic is exact (\<open>small_hash\<close>: every value the
  rendering of a number from 0 below \<open>10 ^ 14\<close>, so that \<open>tostring\<close> keeps all its digits).
\<close>

definition max_amt :: int where "max_amt = 10 ^ 14"

definition amt :: "string option \<Rightarrow> int" where
  "amt x = (case x of None \<Rightarrow> 0 | Some s \<Rightarrow> (case redis_int s of None \<Rightarrow> 0 | Some n \<Rightarrow> n))"

definition small_hash :: "(string \<rightharpoonup> string) \<Rightarrow> bool" where
  "small_hash h \<longleftrightarrow> (\<forall>f s. h f = Some s \<longrightarrow> (\<exists>n. s = itoa n \<and> 0 \<le> n \<and> n < max_amt))"

definition hsum :: "(string \<rightharpoonup> string) \<Rightarrow> int" where
  "hsum h = map_sum (\<lambda>s. amt (Some s)) h"

lemma small_in64: "0 \<le> n \<Longrightarrow> n < max_amt \<Longrightarrow> in64 n"
  by (simp add: max_amt_def in64_def)

lemma amt_None [simp]: "amt None = 0"
  by (simp add: amt_def)

lemma amt_itoa [num_simps]: "in64 n \<Longrightarrow> amt (Some (itoa n)) = n"
  by (simp add: amt_def redis_int_itoa)

lemma small_hashE:
  assumes "small_hash h" "h f = Some s"
  obtains n where "s = itoa n" "0 \<le> n" "n < max_amt" "amt (h f) = n"
  using assms amt_itoa small_in64 unfolding small_hash_def by metis

lemma small_hash_amt: "small_hash h \<Longrightarrow> 0 \<le> amt (h f) \<and> amt (h f) < max_amt"
  by (cases "h f") (auto elim!: small_hashE simp: max_amt_def)

lemma small_hash_amt_Some: "small_hash h \<Longrightarrow> h f = Some s \<Longrightarrow> s = itoa (amt (h f))"
  by (auto elim!: small_hashE)

lemma small_hash_upd: "small_hash h \<Longrightarrow> 0 \<le> n \<Longrightarrow> n < max_amt \<Longrightarrow> small_hash (h(f \<mapsto> itoa n))"
  by (auto simp: small_hash_def)

lemma hsum_upd:
  "finite (dom h) \<Longrightarrow> in64 n \<Longrightarrow> hsum (h(f \<mapsto> itoa n)) = hsum h - amt (h f) + n"
  by (simp add: hsum_def map_sum_upd num_simps split: option.split)

lemma hsum_nonneg: "small_hash h \<Longrightarrow> 0 \<le> hsum h"
  unfolding hsum_def map_sum_def
  by (rule sum_nonneg) (metis domIff option.collapse small_hash_amt)

lemma amt_le_hsum: "small_hash h \<Longrightarrow> finite (dom h) \<Longrightarrow> amt (h f) \<le> hsum h"
proof (cases "h f")
  case (Some s)
  assume h: "small_hash h" "finite (dom h)"
  have "amt (Some (the (h f))) \<le> (\<Sum>k\<in>dom h. amt (Some (the (h k))))"
  proof (rule member_le_sum)
    show "0 \<le> amt (Some (the (h k)))" if "k \<in> dom h - {f}" for k
      using small_hash_amt [OF h(1), of k] that by auto
  qed (use h Some in auto)
  with Some show ?thesis by (simp add: hsum_def map_sum_def)
qed (simp add: hsum_nonneg)

text \<open>On a concrete hash both can be computed.\<close>

definition small_text :: "string \<Rightarrow> bool" where
  "small_text s = (case redis_int s of None \<Rightarrow> False | Some n \<Rightarrow> 0 \<le> n \<and> n < max_amt)"

lemma small_hash_map_of: "list_all (\<lambda>p. small_text (snd p)) ps \<Longrightarrow> small_hash (map_of ps)"
  unfolding small_hash_def
proof (intro allI impI)
  fix f s assume "list_all (\<lambda>p. small_text (snd p)) ps" "map_of ps f = Some s"
  then have "small_text s" by (auto simp: list_all_iff dest!: map_of_SomeD)
  then obtain n where "redis_int s = Some n" "0 \<le> n" "n < max_amt"
    by (auto simp: small_text_def split: option.splits)
  then show "\<exists>n. s = itoa n \<and> 0 \<le> n \<and> n < max_amt" using redis_intD by blast
qed

lemma hsum_map_of: "distinct (map fst ps) \<Longrightarrow> hsum (map_of ps) = (\<Sum>p\<leftarrow>ps. amt (Some (snd p)))"
  by (simp add: hsum_def map_sum_map_of)

section \<open>The scripts' commands on them\<close>

lemma lua_need_Some [eff_simps]: "andThen (lua_need (Some a)) k s = k a s"
  by (simp add: lua_need_def eff_simps)

lemma lua_need_None [eff_simps]: "andThen (lua_need None) k s = (Inl RemoteFailure, s)"
  by (simp add: lua_need_def eff_simps)

lemma andThen_hget [eff_simps]: "andThen (hget R k f) c s = c (HGET R k f s) s"
  by (simp add: hget_def eff_simps)

lemma lua_num_Some [num_simps]: "lua_num (Some (itoa n)) = Some (dbl n)"
  by (simp add: lua_num_def tonumber_itoa)

lemma lua_num_None [num_simps]: "lua_num None = None"
  by (simp add: lua_num_def)

context redis_server
begin

lemma hincrby_small:
  assumes "small_hash (hashes (view s) k)" "\<bar>d\<bar> < max_amt"
    and "0 \<le> amt (hashes (view s) k f) + d" "amt (hashes (view s) k f) + d < max_amt"
  shows "\<exists>s'. hincrby R k f d s = (Inr (amt (hashes (view s) k f) + d), s')
    \<and> view s' = v_hset k [(f, itoa (amt (hashes (view s) k f) + d))] (view s)"
proof -
  let ?n = "amt (hashes (view s) k f)"
  have "incr (hashes (view s) k f) d = Some (?n + d)"
  proof (cases "hashes (view s) k f")
    case None
    with assms show ?thesis by (simp add: num_simps small_in64)
  next
    case (Some x)
    with small_hash_amt_Some [OF assms(1)] have "x = itoa ?n" by simp
    with Some assms small_hash_amt [OF assms(1), of f] show ?thesis
      by (metis incr_itoa small_in64)
  qed
  then obtain s' where "HINCRBY R k f d s = (Inr (?n + d), s')"
    "view s' = v_hset k [(f, itoa (?n + d))] (view s)"
    using HINCRBY_Some by blast
  moreover have "dbl (?n + d) = ?n + d" using assms by (intro dbl_id) (simp add: max_amt_def)
  moreover have "\<bar>d\<bar> < 10 ^ 17" using assms(2) by (simp add: max_amt_def)
  ultimately show ?thesis by (simp add: hincrby_def eff_simps)
qed

end

end
