(* ===== verification/WagerSpec.thy ===== *)
theory WagerSpec
  imports WagerStore Tables
begin

text \<open>
  What \<open>place_wager.lua\<close> promises: the conditions under which a wager is accepted, the exact
  effect of an accepted one, and the books of a round - wallets, pools, wagers and bettors
  that agree with each other - as an invariant it keeps.
\<close>

section \<open>Reading a table\<close>

definition wallets :: "rview \<Rightarrow> string \<Rightarrow> string \<rightharpoonup> string" where
  "wallets v room = hashes v (RoomWalletsKey room)"

definition pools :: "rview \<Rightarrow> string \<Rightarrow> string \<rightharpoonup> string" where
  "pools v rid = hashes v (RoundPoolsKey rid)"

definition wagers :: "rview \<Rightarrow> string \<Rightarrow> string \<rightharpoonup> string" where
  "wagers v rid = hashes v (RoundWagersKey rid)"

definition bettors :: "rview \<Rightarrow> string \<Rightarrow> string set" where
  "bettors v rid = rsets v (RoundBettorsKey rid)"

definition round_hash :: "rview \<Rightarrow> string \<Rightarrow> string \<rightharpoonup> string" where
  "round_hash v rid = hashes v (RoundKey rid)"

definition room_hash :: "rview \<Rightarrow> string \<Rightarrow> string \<rightharpoonup> string" where
  "room_hash v room = hashes v (RoomKey room)"

lemmas table_reads = wallets_def pools_def wagers_def bettors_def round_hash_def room_hash_def

section \<open>When a wager is accepted\<close>

definition wager_ok :: "rview \<Rightarrow> WagerRequest \<Rightarrow> bool" where
  "wager_ok v rq \<longleftrightarrow>
     0 < ReqAmount rq
     \<and> round_hash v (ReqRound rq) ''status'' = Some RoundOpen
     \<and> (\<exists>lockAt. lua_num (round_hash v (ReqRound rq) ''lock_at_ms'') = Some lockAt \<and> now_ms (clock v) < lockAt)
     \<and> (\<exists>n. lua_num (round_hash v (ReqRound rq) ''outcome_count'') = Some n
          \<and> 0 \<le> ReqOutcome rq \<and> dbl (ReqOutcome rq) < n)
     \<and> room_hash v (ReqRoom rq) ''host_id'' \<noteq> Some (ReqUser rq)
     \<and> (\<exists>b bal. wallets v (ReqRoom rq) (ReqUser rq) = Some b \<and> tonumber b = Some bal
          \<and> dbl (ReqAmount rq) \<le> bal)"

definition apply_call :: "'s redis \<Rightarrow> string \<Rightarrow> WagerRequest \<Rightarrow> int \<Rightarrow> ('s, err, lua_val list) eff" where
  "apply_call R outbox rq = wager_apply R (RoomWalletsKey (ReqRoom rq)) (RoundPoolsKey (ReqRound rq))
     (RoundWagersKey (ReqRound rq)) (RoundBettorsKey (ReqRound rq)) (IdemKey (ReqKey rq)) outbox
     (ReqUser rq) (itoa (ReqOutcome rq)) (dbl (ReqAmount rq)) (ReqKey rq) (ReqRoom rq) (ReqRound rq)"

text \<open>Why a code may be returned.\<close>

definition refusal_reason :: "rview \<Rightarrow> WagerRequest \<Rightarrow> string \<Rightarrow> bool" where
  "refusal_reason v rq c \<longleftrightarrow>
     c = ''INVALID_STAKE'' \<and> ReqAmount rq \<le> 0
   \<or> c = ''POOL_LOCKED'' \<and> (round_hash v (ReqRound rq) ''status'' \<noteq> Some RoundOpen
       \<or> (\<exists>lockAt. lua_num (round_hash v (ReqRound rq) ''lock_at_ms'') = Some lockAt \<and> lockAt \<le> now_ms (clock v)))
   \<or> c = ''INVALID_OUTCOME'' \<and> (ReqOutcome rq < 0
       \<or> (\<exists>n. lua_num (round_hash v (ReqRound rq) ''outcome_count'') = Some n \<and> n \<le> dbl (ReqOutcome rq)))
   \<or> c = ''HOST_CANNOT_BET'' \<and> room_hash v (ReqRoom rq) ''host_id'' = Some (ReqUser rq)
   \<or> c = ''NOT_IN_ROOM'' \<and> wallets v (ReqRoom rq) (ReqUser rq) = None
   \<or> c = ''INSUFFICIENT_FUNDS'' \<and> (\<exists>b bal. wallets v (ReqRoom rq) (ReqUser rq) = Some b
       \<and> tonumber b = Some bal \<and> bal < dbl (ReqAmount rq))"

context redis_server
begin

text \<open>A script either reaches the writes, with every guard met, or leaves the database alone.\<close>

lemma wager_call_ok:
  assumes "strs (view s) (IdemKey (ReqKey rq)) = None" "wager_ok (view s) rq"
  shows "\<exists>n. lua_num (round_hash (view s) (ReqRound rq) ''outcome_count'') = Some n
    \<and> wager_call R outbox rq s = apply_call R outbox rq n s"
  using assms
  by (auto simp: wager_call_def place_wager_def wager_guarded_def wager_ok_def apply_call_def eff_simps
      reads tonumber_itoa table_reads RoundOpen_def dbl_sign not_le)

lemma wager_call_refused:
  assumes "strs (view s) (IdemKey (ReqKey rq)) = None" "\<not> wager_ok (view s) rq"
  shows "\<exists>r. wager_call R outbox rq s = (r, s)
    \<and> (r = Inl RemoteFailure \<or> (\<exists>c. r = Inr (table [c]) \<and> refusal_reason (view s) rq c))"
proof (cases "0 < ReqAmount rq \<and> round_hash (view s) (ReqRound rq) ''status'' = Some RoundOpen")
  case False
  with assms(1) show ?thesis
    by (auto simp: wager_call_def place_wager_def wager_guarded_def eff_simps reads tonumber_itoa
        dbl_sign table_reads RoundOpen_def refusal_reason_def)
next
  case start: True
  note run = wager_call_def place_wager_def wager_guarded_def eff_simps reads tonumber_itoa
    dbl_sign table_reads RoundOpen_def refusal_reason_def
  show ?thesis
  proof (cases "\<exists>lockAt. lua_num (round_hash (view s) (ReqRound rq) ''lock_at_ms'') = Some lockAt
      \<and> now_ms (clock (view s)) < lockAt")
    case False
    with assms(1) start show ?thesis
      by (cases "lua_num (round_hash (view s) (ReqRound rq) ''lock_at_ms'')") (auto simp: run)
  next
    case lock: True
    show ?thesis
    proof (cases "\<exists>n. lua_num (round_hash (view s) (ReqRound rq) ''outcome_count'') = Some n
        \<and> 0 \<le> ReqOutcome rq \<and> dbl (ReqOutcome rq) < n")
      case False
      with assms(1) start lock show ?thesis
        by (cases "lua_num (round_hash (view s) (ReqRound rq) ''outcome_count'')") (auto simp: run)
    next
      case out: True
      with assms start lock show ?thesis
        by (cases "wallets (view s) (ReqRoom rq) (ReqUser rq)";
            cases "Option.bind (wallets (view s) (ReqRoom rq) (ReqUser rq)) tonumber")
          (auto simp: run wager_ok_def)
    qed
  qed
qed

lemma wager_call_replayed:
  assumes "strs (view s) (IdemKey (ReqKey rq)) = Some x"
  shows "wager_call R outbox rq s
    = (case cjson_decode R x of None \<Rightarrow> Inl RemoteFailure | Some vs \<Rightarrow> Inr vs, s)"
  using assms
  by (simp add: wager_call_def place_wager_def eff_simps reads lua_need_def split: option.split)

end

section \<open>The effect of an accepted wager\<close>

definition wager_event :: "rview \<Rightarrow> WagerRequest \<Rightarrow> (string \<times> string) list" where
  "wager_event v rq = [(''type'', ''wager_placed''), (''user'', ReqUser rq), (''outcome'', itoa (ReqOutcome rq)),
     (''amount'', itoa (ReqAmount rq)),
     (''balance'', itoa (amt (wallets v (ReqRoom rq) (ReqUser rq)) - ReqAmount rq)),
     (''idempotency_key'', ReqKey rq), (''room_id'', ReqRoom rq), (''round_id'', ReqRound rq)]"

text \<open>The hashes, the bettors and the stream after it; the cached reply is the last write.\<close>

definition wager_view :: "string \<Rightarrow> WagerRequest \<Rightarrow> rview \<Rightarrow> rview" where
  "wager_view outbox rq v =
     (let a = ReqAmount rq; W = RoomWalletsKey (ReqRoom rq); P = RoundPoolsKey (ReqRound rq);
          G = RoundWagersKey (ReqRound rq); oc = itoa (ReqOutcome rq);
          g = WagerField (ReqUser rq) (ReqOutcome rq)
      in v_xadd outbox (wager_event v rq)
        (v_sadd (RoundBettorsKey (ReqRound rq)) (ReqUser rq)
        (v_hset G [(g, itoa (amt (hashes v G g) + a))]
        (v_hset P [(''total'', itoa (amt (hashes v P ''total'') + a))]
        (v_hset P [(oc, itoa (amt (hashes v P oc) + a))]
        (v_hset W [(ReqUser rq, itoa (amt (hashes v W (ReqUser rq)) - a))] v))))))"

definition wager_reply :: "rview \<Rightarrow> WagerRequest \<Rightarrow> int \<Rightarrow> lua_val list" where
  "wager_reply v rq n =
     table [''OK'', itoa (amt (wallets v (ReqRoom rq) (ReqUser rq)) - ReqAmount rq),
       tostring (int (card (insert (ReqUser rq) (bettors v (ReqRound rq))))),
       itoa (amt (pools v (ReqRound rq) ''total'') + ReqAmount rq)] @
     map (\<lambda>i. lua_of (((pools v (ReqRound rq))(itoa (ReqOutcome rq) \<mapsto>
         itoa (amt (pools v (ReqRound rq) (itoa (ReqOutcome rq))) + ReqAmount rq))) (tostring i)))
       [0..n - 1]"

lemma itoa_not_total [simp]: "itoa n \<noteq> ''total''" "''total'' \<noteq> itoa n"
proof -
  have "redis_int (itoa 0) \<noteq> None" by (simp add: redis_int_itoa in64_def)
  have "ParseInt ''total'' = None" by code_simp
  moreover have "tonumber (itoa n) \<noteq> None" by (simp add: tonumber_itoa)
  moreover have "tonumber ''total'' = None" by code_simp
  ultimately show "itoa n \<noteq> ''total''" "''total'' \<noteq> itoa n" by metis+
qed

text \<open>The amounts the writes produce stay exact.\<close>

definition room_for :: "rview \<Rightarrow> WagerRequest \<Rightarrow> bool" where
  "room_for v rq \<longleftrightarrow> 0 < ReqAmount rq \<and> ReqAmount rq \<le> amt (wallets v (ReqRoom rq) (ReqUser rq))
     \<and> small_hash (wallets v (ReqRoom rq)) \<and> small_hash (pools v (ReqRound rq))
     \<and> small_hash (wagers v (ReqRound rq))
     \<and> amt (pools v (ReqRound rq) ''total'') + ReqAmount rq < max_amt
     \<and> amt (pools v (ReqRound rq) (itoa (ReqOutcome rq))) + ReqAmount rq < max_amt
     \<and> amt (wagers v (ReqRound rq) (WagerField (ReqUser rq) (ReqOutcome rq))) + ReqAmount rq < max_amt"

context redis_server
begin

lemma apply_call_run:
  assumes "room_for (view s) rq" and n: "n \<le> max_amt"
  shows "\<exists>s'. apply_call R outbox rq n s = (Inr (wager_reply (view s) rq n), s')
    \<and> view s' = v_set (IdemKey (ReqKey rq)) (cjson_encode R (wager_reply (view s) rq n)) (Some 86400000)
        (wager_view outbox rq (view s))"
proof -
  let ?v = "view s" and ?a = "ReqAmount rq" and ?u = "ReqUser rq"
  let ?W = "RoomWalletsKey (ReqRoom rq)" and ?P = "RoundPoolsKey (ReqRound rq)"
  let ?G = "RoundWagersKey (ReqRound rq)" and ?o = "itoa (ReqOutcome rq)"
  let ?g = "WagerField ?u (ReqOutcome rq)" and ?B = "RoundBettorsKey (ReqRound rq)"
  note room = assms(1) [unfolded room_for_def table_reads]
  from room have a: "0 < ?a" "?a < max_amt" "dbl ?a = ?a"
    using small_hash_amt [of "hashes ?v ?W" ?u] by (auto simp: max_amt_def dbl_id)
  obtain s1 where s1: "hincrby R ?W ?u (- ?a) s = (Inr (amt (hashes ?v ?W ?u) - ?a), s1)"
    "view s1 = v_hset ?W [(?u, itoa (amt (hashes ?v ?W ?u) - ?a))] ?v"
    using hincrby_small [of s ?W "- ?a" ?u] room a small_hash_amt [of "hashes ?v ?W" ?u] by auto
  obtain s2 where s2: "hincrby R ?P ?o ?a s1 = (Inr (amt (hashes ?v ?P ?o) + ?a), s2)"
    "view s2 = v_hset ?P [(?o, itoa (amt (hashes ?v ?P ?o) + ?a))] (view s1)"
    using hincrby_small [of s1 ?P ?a ?o] room a small_hash_amt [of "hashes ?v ?P" ?o]
    by (auto simp: s1 view_simps key_simps)
  have P2: "small_hash ((hashes ?v ?P)(?o \<mapsto> itoa (amt (hashes ?v ?P ?o) + ?a)))"
    using room a small_hash_amt [of "hashes ?v ?P" ?o] by (intro small_hash_upd) auto
  obtain s3 where s3: "hincrby R ?P ''total'' ?a s2 = (Inr (amt (hashes ?v ?P ''total'') + ?a), s3)"
    "view s3 = v_hset ?P [(''total'', itoa (amt (hashes ?v ?P ''total'') + ?a))] (view s2)"
    using hincrby_small [of s2 ?P ?a "''total''"] room a P2 small_hash_amt [of "hashes ?v ?P" "''total''"]
    by (auto simp: s1 s2 view_simps key_simps)
  obtain s4 where s4: "hincrby R ?G ?g ?a s3 = (Inr (amt (hashes ?v ?G ?g) + ?a), s4)"
    "view s4 = v_hset ?G [(?g, itoa (amt (hashes ?v ?G ?g) + ?a))] (view s3)"
    using hincrby_small [of s3 ?G ?a ?g] room a small_hash_amt [of "hashes ?v ?G" ?g]
    by (auto simp: s1 s2 s3 view_simps key_simps)
  have bal: "tostring (amt (hashes ?v ?W ?u) - ?a) = itoa (amt (hashes ?v ?W ?u) - ?a)"
    using room a small_hash_amt [of "hashes ?v ?W" ?u] by (intro tostring_small) (auto simp: max_amt_def)
  have tot: "tostring (amt (hashes ?v ?P ''total'') + ?a) = itoa (amt (hashes ?v ?P ''total'') + ?a)"
    using room a small_hash_amt [of "hashes ?v ?P" "''total''"]
    by (intro tostring_small) (auto simp: max_amt_def)
  have amount: "tostring ?a = itoa ?a" using a by (intro tostring_small) (simp add: max_amt_def)
  have idx: "tostring i \<noteq> ''total''" if "i \<in> set [0..n - 1]" for i
    using that n by (simp add: num_simps max_amt_def)
  have event: "[(''type'', ''wager_placed''), (''user'', ?u), (''outcome'', ?o), (''amount'', tostring ?a),
      (''balance'', tostring (amt (hashes ?v ?W ?u) - ?a)), (''idempotency_key'', ReqKey rq),
      (''room_id'', ReqRoom rq), (''round_id'', ReqRound rq)] = wager_event ?v rq"
    by (simp add: wager_event_def bal amount wallets_def)
  define s5 where "s5 = SADD R ?B ?u s4"
  define s6 where "s6 = XADD R outbox (wager_event ?v rq) s5"
  have P1: "hashes (view s1) ?P = hashes ?v ?P" "hashes (view s1) ?G = hashes ?v ?G"
    and G3: "hashes (view s3) ?G = hashes ?v ?G"
    by (simp_all add: s1 s2 s3 view_simps key_simps)
  have v6: "view s6 = wager_view outbox rq ?v"
    by (simp add: s6_def s5_def writes wager_view_def Let_def s1 s2 s3 s4)
  have B4: "rsets (view s4) ?B = rsets ?v ?B" by (simp add: s1 s2 s3 s4 view_simps)
  then have card: "SCARD R ?B s5 = int (card (insert ?u (rsets ?v ?B)))"
    by (simp add: s5_def reads writes view_simps)
  have P6: "hashes (view s6) ?P = (hashes ?v ?P)(?o \<mapsto> itoa (amt (hashes ?v ?P ?o) + ?a),
      ''total'' \<mapsto> itoa (amt (hashes ?v ?P ''total'') + ?a))"
    by (simp add: v6 wager_view_def Let_def view_simps key_simps)
  have reply: "table [''OK'', tostring (amt (hashes ?v ?W ?u) - ?a), tostring (SCARD R ?B s5),
      tostring (amt (hashes ?v ?P ''total'') + ?a)] @
      map (\<lambda>i. lua_of (HGET R ?P (tostring i) s6)) [0..n - 1] = wager_reply ?v rq n"
    by (simp add: wager_reply_def card bal tot table_reads HGET P6 idx)
  have "apply_call R outbox rq n s =
      (Inr (wager_reply ?v rq n), SETEX R (IdemKey (ReqKey rq)) (cjson_encode R (wager_reply ?v rq n)) 86400 s6)"
    unfolding apply_call_def wager_apply_def
    by (simp add: a(3) s1(1) s2(1) s3(1) s4(1) [unfolded WagerField_def, simplified] andThen_Inr
        andThen_exec andThen_asks event reply eff_run flip: s5_def s6_def)
  then show ?thesis by (simp add: writes v6)
qed

end

end
