(* ===== verification/WagerBook.thy ===== *)
theory WagerBook
  imports WagerSpec
begin

text \<open>
  The books of a room and its round: the invariant that ties wallets, pools, wagers and
  bettors together, that an accepted wager keeps it, and what the caller of \<open>PlaceWager\<close>
  learns.
\<close>

section \<open>The invariant\<close>

definition staked_on :: "(string \<rightharpoonup> string) \<Rightarrow> int \<Rightarrow> int" where
  "staked_on h i = hsum (h |` {f. \<exists>u. f = WagerField u i})"

definition table_tokens :: "rview \<Rightarrow> string \<Rightarrow> string \<Rightarrow> int" where
  "table_tokens v room rid = hsum (wallets v room) + amt (pools v rid ''total'')"

definition table_ok :: "rview \<Rightarrow> string \<Rightarrow> string \<Rightarrow> int \<Rightarrow> bool" where
  "table_ok v room rid n \<longleftrightarrow> 0 \<le> n \<and> n \<le> MaxOutcomes
     \<and> finite (dom (wallets v room)) \<and> finite (dom (wagers v rid))
     \<and> round_hash v rid ''outcome_count'' = Some (itoa n)
     \<and> small_hash (wallets v room) \<and> small_hash (pools v rid) \<and> small_hash (wagers v rid)
     \<and> table_tokens v room rid < max_amt
     \<and> dom (pools v rid) = insert ''total'' (itoa ` {0..<n})
     \<and> (\<forall>f\<in>dom (wagers v rid). 0 < amt (wagers v rid f) \<and> (\<exists>u i. f = WagerField u i \<and> 0 \<le> i \<and> i < n))
     \<and> bettors v rid = {u. \<exists>i. WagerField u i \<in> dom (wagers v rid)}
     \<and> (\<forall>i. 0 \<le> i \<and> i < n \<longrightarrow> amt (pools v rid (itoa i)) = staked_on (wagers v rid) i)
     \<and> amt (pools v rid ''total'') = hsum (wagers v rid)"

lemma staked_on_upd:
  assumes "finite (dom h)" "in64 x"
  shows "staked_on (h(WagerField u j \<mapsto> itoa x)) i
    = staked_on h i + (if i = j then x - amt (h (WagerField u j)) else 0)"
proof -
  have upd: "(h(WagerField u j \<mapsto> itoa x)) |` {f. \<exists>u. f = WagerField u i} =
    (if i = j then (h |` {f. \<exists>u. f = WagerField u i})(WagerField u j \<mapsto> itoa x)
     else h |` {f. \<exists>u. f = WagerField u i})"
    by (auto simp: restrict_map_def fun_eq_iff key_simps)
  have "finite (dom (h |` {f. \<exists>u. f = WagerField u i}))" using assms(1) by simp
  moreover have "(h |` {f. \<exists>u. f = WagerField u j}) (WagerField u j) = h (WagerField u j)"
    by (auto simp: restrict_map_def)
  ultimately show ?thesis using assms(2) unfolding staked_on_def upd
    by (cases "i = j") (simp_all add: hsum_upd)
qed

lemma small_restrict: "small_hash h \<Longrightarrow> small_hash (h |` S)"
  by (auto simp: small_hash_def restrict_map_def split: if_splits)

lemma hsum_restrict_le: "small_hash h \<Longrightarrow> finite (dom h) \<Longrightarrow> hsum (h |` S) \<le> hsum h"
proof -
  assume h: "small_hash h" "finite (dom h)"
  have "(\<Sum>k\<in>dom (h |` S). amt (Some (the ((h |` S) k)))) = (\<Sum>k\<in>dom h \<inter> S. amt (Some (the (h k))))"
    by (rule sum.cong) (auto simp: restrict_map_def split: if_splits)
  also have "\<dots> \<le> (\<Sum>k\<in>dom h. amt (Some (the (h k))))"
    using h by (intro sum_mono2) (auto, metis amt_None option.sel small_hash_amt)
  finally show ?thesis by (simp add: hsum_def map_sum_def)
qed

section \<open>An accepted wager fits the books\<close>

lemma table_ok_room_for:
  assumes T: "table_ok v (ReqRoom rq) (ReqRound rq) n" and ok: "wager_ok v rq"
  shows "room_for v rq" "0 \<le> ReqOutcome rq" "ReqOutcome rq < n"
proof -
  note t = T [unfolded table_ok_def]
  let ?a = "ReqAmount rq" and ?W = "wallets v (ReqRoom rq)"
  let ?P = "pools v (ReqRound rq)" and ?G = "wagers v (ReqRound rq)"
  show oc: "0 \<le> ReqOutcome rq" using ok by (auto simp: wager_ok_def)
  have "dbl (ReqOutcome rq) < n"
    using ok t by (auto simp: wager_ok_def num_simps MaxOutcomes_def)
  then show ocn: "ReqOutcome rq < n"
    using t dbl_below [OF oc, of n] by (auto simp: MaxOutcomes_def)
  obtain b bal where b: "?W (ReqUser rq) = Some b" "tonumber b = Some bal" "dbl ?a \<le> bal"
    using ok by (auto simp: wager_ok_def)
  then have "b = itoa (amt (?W (ReqUser rq)))" using t by (intro small_hash_amt_Some) auto
  then have "bal = dbl (amt (?W (ReqUser rq)))" using b(2) by (metis option.inject tonumber_itoa)
  moreover have w: "0 \<le> amt (?W (ReqUser rq))" "amt (?W (ReqUser rq)) < max_amt"
    using t small_hash_amt by auto
  ultimately have "dbl ?a \<le> amt (?W (ReqUser rq))" using b(3) by (simp add: dbl_id max_amt_def)
  moreover have a0: "0 < ?a" using ok by (simp add: wager_ok_def)
  ultimately have a: "?a \<le> amt (?W (ReqUser rq))"
    using w dbl_small [of ?a] by (auto simp: max_amt_def)
  have le: "amt (?W (ReqUser rq)) \<le> hsum ?W" "amt (?G (WagerField (ReqUser rq) (ReqOutcome rq))) \<le> hsum ?G"
    "staked_on ?G (ReqOutcome rq) \<le> hsum ?G"
    using t by (auto intro: amt_le_hsum hsum_restrict_le simp: staked_on_def)
  have tot: "amt (?P ''total'') = hsum ?G" "hsum ?W + amt (?P ''total'') < max_amt"
    "amt (?P (itoa (ReqOutcome rq))) = staked_on ?G (ReqOutcome rq)"
    using t oc ocn by (auto simp: table_tokens_def)
  from t have "small_hash ?W" "small_hash ?P" "small_hash ?G" by auto
  with a0 a le tot show "room_for v rq" unfolding room_for_def by linarith
qed

lemma wager_view_reads:
  fixes v rq outbox
  defines "v' \<equiv> wager_view outbox rq v" and "a \<equiv> ReqAmount rq"
  defines "W \<equiv> wallets v (ReqRoom rq)" and "P \<equiv> pools v (ReqRound rq)" and "G \<equiv> wagers v (ReqRound rq)"
  defines "oc \<equiv> itoa (ReqOutcome rq)" and "g \<equiv> WagerField (ReqUser rq) (ReqOutcome rq)"
  shows "wallets v' (ReqRoom rq) = W(ReqUser rq \<mapsto> itoa (amt (W (ReqUser rq)) - a))"
    "pools v' (ReqRound rq) = P(oc \<mapsto> itoa (amt (P oc) + a), ''total'' \<mapsto> itoa (amt (P ''total'') + a))"
    "wagers v' (ReqRound rq) = G(g \<mapsto> itoa (amt (G g) + a))"
    "bettors v' (ReqRound rq) = insert (ReqUser rq) (bettors v (ReqRound rq))"
    "round_hash v' (ReqRound rq) = round_hash v (ReqRound rq)"
    "streams v' outbox = streams v outbox @ [wager_event v rq]"
  unfolding assms wager_view_def Let_def table_reads
  by (simp_all add: view_simps key_simps)

lemma wager_view_ok:
  assumes T: "table_ok v (ReqRoom rq) (ReqRound rq) n" and ok: "wager_ok v rq"
  shows "table_ok (wager_view outbox rq v) (ReqRoom rq) (ReqRound rq) n"
    and "table_tokens (wager_view outbox rq v) (ReqRoom rq) (ReqRound rq)
      = table_tokens v (ReqRoom rq) (ReqRound rq)"
proof -
  note room = table_ok_room_for [OF assms]
  let ?a = "ReqAmount rq" and ?W = "wallets v (ReqRoom rq)" and ?u = "ReqUser rq"
  let ?P = "pools v (ReqRound rq)" and ?G = "wagers v (ReqRound rq)"
  let ?o = "itoa (ReqOutcome rq)" and ?g = "WagerField (ReqUser rq) (ReqOutcome rq)"
  have t: "finite (dom ?W)" "finite (dom ?G)" "small_hash ?W" "small_hash ?P" "small_hash ?G"
    "amt (?P ''total'') = hsum ?G" using T by (auto simp: table_ok_def)
  have nn: "0 \<le> amt (?W ?u)" "0 \<le> amt (?P ?o)" "0 \<le> amt (?P ''total'')" "0 \<le> amt (?G ?g)"
    "amt (?W ?u) < max_amt"
    using t(3-5) small_hash_amt by auto
  have r: "0 < ?a" "?a \<le> amt (?W ?u)" "amt (?P ''total'') + ?a < max_amt" "amt (?P ?o) + ?a < max_amt"
    "amt (?G ?g) + ?a < max_amt" using room(1) by (auto simp: room_for_def)
  have in64s: "in64 (amt (?W ?u) - ?a)" "in64 (amt (?P ''total'') + ?a)" "in64 (amt (?P ?o) + ?a)"
    "in64 (amt (?G ?g) + ?a)"
    using nn r by (auto intro!: small_in64)
  show tokens: "table_tokens (wager_view outbox rq v) (ReqRoom rq) (ReqRound rq)
      = table_tokens v (ReqRoom rq) (ReqRound rq)"
    using t in64s by (simp add: table_tokens_def wager_view_reads hsum_upd num_simps)
  have small: "small_hash (wallets (wager_view outbox rq v) (ReqRoom rq))"
    "small_hash (pools (wager_view outbox rq v) (ReqRound rq))"
    "small_hash (wagers (wager_view outbox rq v) (ReqRound rq))"
    using t nn r unfolding wager_view_reads by (auto intro!: small_hash_upd)
  have pool: "amt (pools (wager_view outbox rq v) (ReqRound rq) (itoa i))
      = staked_on (wagers (wager_view outbox rq v) (ReqRound rq)) i" if "0 \<le> i" "i < n" for i
  proof -
    have "amt (?P (itoa i)) = staked_on ?G i" using T that by (auto simp: table_ok_def)
    then show ?thesis using t in64s
      by (auto simp: wager_view_reads staked_on_upd num_simps)
  qed
  have tot: "amt (pools (wager_view outbox rq v) (ReqRound rq) ''total'')
      = hsum (wagers (wager_view outbox rq v) (ReqRound rq))"
    using t in64s by (simp add: wager_view_reads hsum_upd num_simps)
  have fields: "0 < amt (wagers (wager_view outbox rq v) (ReqRound rq) f)
      \<and> (\<exists>u i. f = WagerField u i \<and> 0 \<le> i \<and> i < n)"
    if "f \<in> dom (wagers (wager_view outbox rq v) (ReqRound rq))" for f
  proof (cases "f = ?g")
    case True
    then show ?thesis using room r nn in64s by (auto simp: wager_view_reads num_simps)
  next
    case False
    then show ?thesis using that T by (auto simp: wager_view_reads table_ok_def)
  qed
  have bets: "bettors (wager_view outbox rq v) (ReqRound rq)
      = {u. \<exists>i. WagerField u i \<in> dom (wagers (wager_view outbox rq v) (ReqRound rq))}"
    using T by (auto simp: wager_view_reads table_ok_def key_simps)
  have doms: "dom (pools (wager_view outbox rq v) (ReqRound rq)) = insert ''total'' (itoa ` {0..<n})"
    using T room by (auto simp: wager_view_reads table_ok_def)
  show "table_ok (wager_view outbox rq v) (ReqRoom rq) (ReqRound rq) n"
    using T small pool tot fields bets doms tokens
    unfolding table_ok_def by (simp add: wager_view_reads)
qed

section \<open>Decoding the reply\<close>

lemma parse_all_itoa: "(\<And>i. i \<in> set is \<Longrightarrow> in64 (f i)) \<Longrightarrow> parse_all (map (\<lambda>i. itoa (f i)) is) = Inr (map f is)"
  by (induction "is") (simp_all add: ParseInt_itoa)

definition wager_result :: "rview \<Rightarrow> WagerRequest \<Rightarrow> int \<Rightarrow> WagerResult" where
  "wager_result v rq n =
     \<lparr>NewBalance = amt (wallets v (ReqRoom rq) (ReqUser rq)) - ReqAmount rq,
      NewPools = map (\<lambda>i. amt (pools v (ReqRound rq) (itoa i))
        + (if i = ReqOutcome rq then ReqAmount rq else 0)) [0..n - 1],
      NewTotal = amt (pools v (ReqRound rq) ''total'') + ReqAmount rq,
      BettorCount = int (card (insert (ReqUser rq) (bettors v (ReqRound rq))))\<rparr>"

lemma card_bettors:
  assumes "table_ok v room rid n"
  shows "int (card (bettors v rid)) \<le> amt (pools v rid ''total'')"
proof -
  let ?G = "wagers v rid"
  have fin: "finite (dom ?G)" using assms by (simp add: table_ok_def)
  let ?user = "\<lambda>f. case ParseWagerField f of Inr (u, i) \<Rightarrow> u | Inl e \<Rightarrow> []"
  have gf: "\<forall>f\<in>dom ?G. 0 < amt (?G f) \<and> (\<exists>u i. f = WagerField u i \<and> 0 \<le> i \<and> i < n)"
    using assms by (simp add: table_ok_def)
  have in64: "WagerField u i \<in> dom ?G \<Longrightarrow> in64 i" for u i
  proof -
    assume "WagerField u i \<in> dom ?G"
    then obtain u' i' where "WagerField u i = WagerField u' i'" "0 \<le> i'" "i' < n"
      using gf by blast
    then have "0 \<le> i \<and> i < n" by (simp add: key_simps)
    then show "in64 i" using assms by (simp add: table_ok_def MaxOutcomes_def in64_def)
  qed
  have "bettors v rid \<subseteq> ?user ` dom ?G"
  proof
    fix u assume "u \<in> bettors v rid"
    then obtain i where i: "WagerField u i \<in> dom ?G" using assms by (auto simp: table_ok_def)
    then have "?user (WagerField u i) = u" using in64 [OF i] by simp
    then show "u \<in> ?user ` dom ?G" using i by (metis image_eqI)
  qed
  then have "card (bettors v rid) \<le> card (dom ?G)"
    using fin by (meson card_image_le card_mono finite_imageI order_trans)
  moreover have "(\<Sum>f\<in>dom ?G. 1) \<le> (\<Sum>f\<in>dom ?G. amt (Some (the (?G f))))"
  proof (rule sum_mono)
    fix f assume f: "f \<in> dom ?G"
    then have "0 < amt (?G f)" using gf by blast
    with f show "1 \<le> amt (Some (the (?G f)))" by auto
  qed
  ultimately show ?thesis using assms by (simp add: table_ok_def hsum_def map_sum_def)
qed

lemma wager_reply_decoded:
  assumes T: "table_ok v (ReqRoom rq) (ReqRound rq) n" and ok: "wager_ok v rq"
  shows "\<exists>reply. toStringSlice (wager_reply v rq n) = Inr reply \<and> reply \<noteq> [] \<and> hd reply = ''OK''
    \<and> parseWagerReply reply = Inr (wager_result v rq n)"
proof -
  note room = table_ok_room_for [OF assms]
  let ?P = "pools v (ReqRound rq)" and ?a = "ReqAmount rq" and ?oc = "ReqOutcome rq"
  let ?W = "wallets v (ReqRoom rq)"
  let ?f = "\<lambda>i. amt (?P (itoa i)) + (if i = ?oc then ?a else 0)"
  have P: "small_hash ?P" "small_hash ?W" using T by (auto simp: table_ok_def)
  have r: "0 < ?a" "?a \<le> amt (?W (ReqUser rq))" "amt (?P ''total'') + ?a < max_amt"
    "amt (?P (itoa ?oc)) + ?a < max_amt" using room(1) by (auto simp: room_for_def)
  have fin64: "in64 (?f i)" for i
    using small_hash_amt [OF P(1), of "itoa i"] r by (auto intro!: small_in64)
  have n4: "n \<le> 4" using T by (simp add: table_ok_def MaxOutcomes_def)
  have item: "lua_of ((?P(itoa ?oc \<mapsto> itoa (amt (?P (itoa ?oc)) + ?a))) (tostring i)) = LStr (itoa (?f i))"
    if "i \<in> set [0..n - 1]" for i
  proof -
    have i: "0 \<le> i" "i < n" "i < 10 ^ 14" using that n4 by auto
    then have "itoa i \<in> dom ?P" using T by (auto simp: table_ok_def)
    then obtain x where "?P (itoa i) = Some x" by auto
    then have "lua_of (?P (itoa i)) = LStr x" "x = itoa (amt (?P (itoa i)))"
      using small_hash_amt_Some [OF P(1)] by (simp_all add: lua_of_def)
    with i show ?thesis by (auto simp: lua_of_def num_simps)
  qed
  define c where "c = int (card (insert (ReqUser rq) (bettors v (ReqRound rq))))"
  have "c \<le> 1 + amt (?P ''total'')"
    using card_bettors [OF T] small_hash_amt [OF P(1), of "''total''"]
    by (cases "finite (bettors v (ReqRound rq))") (auto simp: c_def card_insert_if)
  moreover have "0 \<le> c" by (simp add: c_def)
  ultimately have c: "tostring c = itoa c" "in64 c"
    using r by (auto simp: num_simps max_amt_def in64_def)
  have slice: "toStringSlice (wager_reply v rq n)
      = Inr ([''OK'', itoa (amt (?W (ReqUser rq)) - ?a), itoa c, itoa (amt (?P ''total'') + ?a)]
             @ map (\<lambda>i. itoa (?f i)) [0..n - 1])"
  proof -
    have "wager_reply v rq n = table ([''OK'', itoa (amt (?W (ReqUser rq)) - ?a), itoa c,
        itoa (amt (?P ''total'') + ?a)] @ map (\<lambda>i. itoa (?f i)) [0..n - 1])"
      unfolding wager_reply_def table_def map_append map_map
      by (intro arg_cong2 [where f = append] map_cong refl) (simp_all add: c flip: c_def item)
    then show ?thesis by simp
  qed
  have "in64 (amt (?W (ReqUser rq)) - ?a)" "in64 (amt (?P ''total'') + ?a)"
    using r small_hash_amt [OF P(2), of "ReqUser rq"] small_hash_amt [OF P(1), of "''total''"]
    by (auto intro!: small_in64)
  then have "parseWagerReply ([''OK'', itoa (amt (?W (ReqUser rq)) - ?a), itoa c, itoa (amt (?P ''total'') + ?a)]
      @ map (\<lambda>i. itoa (?f i)) [0..n - 1]) = Inr (wager_result v rq n)"
    using parse_all_itoa [of "[0..n - 1]" ?f] fin64 c
    by (simp add: parseWagerReply_def ParseInt_itoa wager_result_def c_def)
  with slice show ?thesis by auto
qed

section \<open>What callers of \<open>PlaceWager\<close> learn\<close>

lemma call_script_run:
  assumes "f (db w) = (Inr vs, s')" "turns w = []" "toStringSlice vs = Inr reply" "reply \<noteq> []"
  shows "call_script f w = (Inr reply, w\<lparr>db := s'\<rparr>)"
  using assms by (simp add: call_script_def eff_simps)

lemma PlaceWager_decoded:
  assumes "roundtrip (wager_call R outbox rq) w = (Inr (wager_reply v rq n), w')"
    and "table_ok v (ReqRoom rq) (ReqRound rq) n" "wager_ok v rq"
  shows "PlaceWager R outbox rq w = (Inr (wager_result v rq n), w')"
proof -
  obtain reply where "toStringSlice (wager_reply v rq n) = Inr reply" "reply \<noteq> []" "hd reply = ''OK''"
    "parseWagerReply reply = Inr (wager_result v rq n)"
    using wager_reply_decoded [OF assms(2,3)] by auto
  with assms(1) show ?thesis by (simp add: PlaceWager_def call_script_def eff_simps)
qed

lemma refusal_reason_codes: "refusal_reason v rq c \<Longrightarrow> c \<noteq> ''OK''"
  by (auto simp: refusal_reason_def)

context redis_server
begin

lemma wager_call_accepted:
  assumes "table_ok (view s) (ReqRoom rq) (ReqRound rq) n"
    and "strs (view s) (IdemKey (ReqKey rq)) = None" "wager_ok (view s) rq"
  shows "\<exists>s'. wager_call R outbox rq s = (Inr (wager_reply (view s) rq n), s')
    \<and> view s' = v_set (IdemKey (ReqKey rq)) (cjson_encode R (wager_reply (view s) rq n)) (Some 86400000)
        (wager_view outbox rq (view s))"
proof -
  obtain m where m: "lua_num (round_hash (view s) (ReqRound rq) ''outcome_count'') = Some m"
    "wager_call R outbox rq s = apply_call R outbox rq m s"
    using wager_call_ok [OF assms(2,3)] by blast
  have n: "round_hash (view s) (ReqRound rq) ''outcome_count'' = Some (itoa n)" "0 \<le> n" "n \<le> 4"
    using assms(1) by (auto simp: table_ok_def MaxOutcomes_def)
  with m have "m = n" by (simp add: num_simps)
  with m apply_call_run [OF table_ok_room_for(1) [OF assms(1,3)], of n outbox] n show ?thesis
    by (simp add: max_amt_def)
qed

lemma wager_call_again:
  assumes "strs (view s) (IdemKey (ReqKey rq)) = Some (cjson_encode R vs)"
  shows "wager_call R outbox rq s = (Inr vs, s)"
  using wager_call_replayed [OF assms] by (simp add: cjson)

lemma wager_call_books:
  assumes "table_ok (view s) (ReqRoom rq) (ReqRound rq) n" "wager_call R outbox rq s = (r, s')"
  shows "table_ok (view s') (ReqRoom rq) (ReqRound rq) n
    \<and> table_tokens (view s') (ReqRoom rq) (ReqRound rq) = table_tokens (view s) (ReqRoom rq) (ReqRound rq)"
proof (cases "strs (view s) (IdemKey (ReqKey rq))")
  case (Some x)
  with assms show ?thesis by (simp add: wager_call_replayed)
next
  case fresh: None
  show ?thesis
  proof (cases "wager_ok (view s) rq")
    case True
    have reads: "table_ok (v_set k x t v) room rid n = table_ok v room rid n"
      "table_tokens (v_set k x t v) room rid = table_tokens v room rid" for k x t v room rid
      by (simp_all add: table_ok_def table_tokens_def table_reads view_simps)
    from wager_call_accepted [OF assms(1) fresh True, of outbox] assms(2) show ?thesis
      using wager_view_ok [OF assms(1) True, of outbox] by (auto simp: reads)
  next
    case False
    with wager_call_refused [OF fresh False, of outbox] assms show ?thesis by auto
  qed
qed

lemma wager_resent:
  assumes "table_ok (view s) (ReqRoom rq) (ReqRound rq) n"
    and "strs (view s) (IdemKey (ReqKey rq)) = None" "wager_ok (view s) rq"
    and "wager_call R outbox rq s = (Inr (wager_reply (view s) rq n), s')"
  shows "wager_call R outbox rq (resend (wager_call R outbox rq) (replicate k id) s)
    = (Inr (wager_reply (view s) rq n), s')"
proof -
  have "strs (view s') (IdemKey (ReqKey rq)) = Some (cjson_encode R (wager_reply (view s) rq n))"
    using wager_call_accepted [OF assms(1-3), of outbox] assms(4) by (auto simp: view_simps)
  then have again: "wager_call R outbox rq s' = (Inr (wager_reply (view s) rq n), s')"
    by (rule wager_call_again)
  then have "resend (wager_call R outbox rq) (replicate j id) s' = s'" for j
    by (induction j) (simp_all add: resend_def)
  with assms(4) again show ?thesis by (cases k) (simp_all add: resend_def)
qed

end

context redis_server
begin

lemma PlaceWager_resent:
  assumes "turns w = Turn (replicate k id) id Answered # ts"
    and "table_ok (view (db w)) (ReqRoom rq) (ReqRound rq) n"
    and "strs (view (db w)) (IdemKey (ReqKey rq)) = None" "wager_ok (view (db w)) rq"
  shows "\<exists>s' x. PlaceWager R outbox rq w
      = (Inr (wager_result (view (db w)) rq n), w\<lparr>turns := ts, db := s'\<rparr>)
    \<and> view s' = v_set (IdemKey (ReqKey rq)) x (Some 86400000) (wager_view outbox rq (view (db w)))"
proof -
  obtain s' where s': "wager_call R outbox rq (db w) = (Inr (wager_reply (view (db w)) rq n), s')"
    "view s' = v_set (IdemKey (ReqKey rq)) (cjson_encode R (wager_reply (view (db w)) rq n)) (Some 86400000)
        (wager_view outbox rq (view (db w)))"
    using wager_call_accepted [OF assms(2-4)] by blast
  have "roundtrip (wager_call R outbox rq) w
      = (Inr (wager_reply (view (db w)) rq n), w\<lparr>turns := ts, db := s'\<rparr>)"
    using wager_resent [OF assms(2-4) s'(1)] assms(1)
    by (simp add: roundtrip_def Let_def delivered_def)
  with s'(2) show ?thesis using PlaceWager_decoded [OF _ assms(2,4)] by blast
qed

lemma PlaceWager_refused:
  assumes "turns w = []"
    and "strs (view (db w)) (IdemKey (ReqKey rq)) = None" "\<not> wager_ok (view (db w)) rq"
  shows "\<exists>e. PlaceWager R outbox rq w = (Inl e, w)
    \<and> (e = RemoteFailure \<or> (\<exists>c. e = mapWagerStatus c \<and> refusal_reason (view (db w)) rq c))"
proof -
  obtain r where r: "wager_call R outbox rq (db w) = (r, db w)"
    "r = Inl RemoteFailure \<or> (\<exists>c. r = Inr (table [c]) \<and> refusal_reason (view (db w)) rq c)"
    using wager_call_refused [OF assms(2,3)] by blast
  then have trip: "roundtrip (wager_call R outbox rq) w = (r, w)"
    using assms(1) by (simp add: roundtrip_quiet)
  from r(2) show ?thesis
  proof
    assume "r = Inl RemoteFailure"
    with trip show ?thesis by (simp add: PlaceWager_def call_script_def eff_simps)
  next
    assume "\<exists>c. r = Inr (table [c]) \<and> refusal_reason (view (db w)) rq c"
    then obtain c where "r = Inr (table [c])" "refusal_reason (view (db w)) rq c" by blast
    moreover from this have "c \<noteq> ''OK''" by (simp add: refusal_reason_codes)
    ultimately show ?thesis using trip by (auto simp: PlaceWager_def call_script_def eff_simps)
  qed
qed

end

text \<open>A room with an open round, on the in-memory server: the setting of the witnesses.\<close>

definition demo :: mem where
  "demo = \<lparr>m_strs = [(RoomRoundKey ''r1'', ''x1'')],
     m_hashes = [(RoomKey ''r1'', [(''host_id'', ''h''), (''buy_in'', ''1000''), (''created_at'', ''5'')]),
       (RoomWalletsKey ''r1'', [(''h'', ''1000''), (''a'', ''700''), (''b'', ''1000'')]),
       (RoomOpeningKey ''r1'', [(''h'', ''1000''), (''a'', ''1000''), (''b'', ''1000'')]),
       (RoundKey ''x1'', [(''room_id'', ''r1''), (''question'', ''q''),
          (''outcomes'', ''[\"Y\",\"N\"]''), (''status'', ''open''),
          (''outcome_count'', ''2''), (''lock_at_ms'', ''9000'')]),
       (RoundPoolsKey ''x1'', [(''0'', ''300''), (''1'', ''0''), (''total'', ''300'')]),
       (RoundWagersKey ''x1'', [(''a:0'', ''300'')])],
     m_sets = [(RoundBettorsKey ''x1'', [''a''])], m_zsets = [], m_streams = [], m_ttls = [],
     m_clock = (3, 0)\<rparr>"

definition demo_wager :: WagerRequest where
  "demo_wager = \<lparr>ReqRoom = ''r1'', ReqRound = ''x1'', ReqUser = ''b'', ReqOutcome = 1,
     ReqAmount = 400, ReqKey = ''k1''\<rparr>"

definition demo_world :: "mem turn list \<Rightarrow> mem world" where
  "demo_world ts = \<lparr>db = demo, turns = ts\<rparr>"

lemma demo_slots:
  "slot (m_hashes demo) (RoundKey ''x1'') = [(''room_id'', ''r1''), (''question'', ''q''),
     (''outcomes'', ''[\"Y\",\"N\"]''), (''status'', ''open''), (''outcome_count'', ''2''), (''lock_at_ms'', ''9000'')]"
  "slot (m_hashes demo) (RoomKey ''r1'') = [(''host_id'', ''h''), (''buy_in'', ''1000''), (''created_at'', ''5'')]"
  "slot (m_hashes demo) (RoomWalletsKey ''r1'') = [(''h'', ''1000''), (''a'', ''700''), (''b'', ''1000'')]"
  "slot (m_hashes demo) (RoundPoolsKey ''x1'') = [(''0'', ''300''), (''1'', ''0''), (''total'', ''300'')]"
  "slot (m_hashes demo) (RoundWagersKey ''x1'') = [(''a:0'', ''300'')]"
  "slot (m_sets demo) (RoundBettorsKey ''x1'') = [''a'']" "m_clock demo = (3, 0)"
  by (simp_all add: demo_def slot_def key_simps)

lemma demo_reads:
  "wallets (mem_view demo) ''r1'' = map_of [(''h'', ''1000''), (''a'', ''700''), (''b'', ''1000'')]"
  "pools (mem_view demo) ''x1'' = map_of [(''0'', ''300''), (''1'', ''0''), (''total'', ''300'')]"
  "wagers (mem_view demo) ''x1'' = map_of [(''a:0'', ''300'')]"
  "bettors (mem_view demo) ''x1'' = {''a''}"
  "round_hash (mem_view demo) ''x1'' ''status'' = Some ''open''"
  "room_hash (mem_view demo) ''r1'' ''host_id'' = Some ''h''"
  "clock (mem_view demo) = (3, 0)"
  "strs (mem_view demo) k = (if k = RoomRoundKey ''r1'' then Some ''x1'' else None)"
  by (simp_all add: table_reads demo_slots) (simp_all add: demo_def)

lemma demo_numbers:
  "round_hash (mem_view demo) ''x1'' ''outcome_count'' = Some (itoa 2)"
  "round_hash (mem_view demo) ''x1'' ''lock_at_ms'' = Some (itoa 9000)"
proof -
  have n: "itoa 2 = ''2''" "itoa 9000 = ''9000''" by code_simp+
  show "round_hash (mem_view demo) ''x1'' ''outcome_count'' = Some (itoa 2)"
    "round_hash (mem_view demo) ''x1'' ''lock_at_ms'' = Some (itoa 9000)"
    unfolding n by (simp_all add: table_reads demo_slots)
qed

lemma demo_table: "table_ok (mem_view demo) ''r1'' ''x1'' 2"
proof -
  have num: "itoa 0 = ''0''" "itoa 1 = ''1''" by code_simp+
  have field: "WagerField ''a'' 0 = ''a:0''" by (simp add: WagerField_def num)
  have wf: "WagerField u i = ''a:0'' \<longleftrightarrow> u = ''a'' \<and> i = 0" for u i
    unfolding field [symmetric] by (simp add: key_simps)
  then have wf': "''a:0'' = WagerField u i \<longleftrightarrow> u = ''a'' \<and> i = 0" for u i by (metis)
  have small: "list_all (\<lambda>p. small_text (snd p)) [(''h'', ''1000''), (''a'', ''700''), (''b'', ''1000'')]"
    "list_all (\<lambda>p. small_text (snd p)) [(''0'', ''300''), (''1'', ''0''), (''total'', ''300'')]"
    "list_all (\<lambda>p. small_text (snd p)) [(''a:0'', ''300'')]" by code_simp+
  have amounts: "amt (Some ''1000'') = 1000" "amt (Some ''700'') = 700" "amt (Some ''300'') = 300"
    "amt (Some ''0'') = 0" by code_simp+
  have on: "staked_on (map_of [(''a:0'', ''300'')]) i = (if i = 0 then 300 else 0)" for i
  proof -
    have "map_of [(''a:0'', ''300'')] |` {f. \<exists>u. f = WagerField u i}
        = map_of (if i = 0 then [(''a:0'', ''300'')] else [])"
      by (simp add: restrict_map_def fun_eq_iff wf')
    then show ?thesis by (simp add: staked_on_def hsum_map_of amounts)
  qed
  have idx: "{0..<2::int} = {0, 1}" by auto
  show ?thesis
    unfolding table_ok_def table_tokens_def demo_reads demo_numbers
  proof (intro conjI)
    show "small_hash (map_of [(''h'', ''1000''), (''a'', ''700''), (''b'', ''1000'')])"
      "small_hash (map_of [(''0'', ''300''), (''1'', ''0''), (''total'', ''300'')])"
      "small_hash (map_of [(''a:0'', ''300'')])"
      by (rule small_hash_map_of, rule small)+
    show "hsum (map_of [(''h'', ''1000''), (''a'', ''700''), (''b'', ''1000'')])
        + amt (map_of [(''0'', ''300''), (''1'', ''0''), (''total'', ''300'')] ''total'') < max_amt"
      by (simp add: hsum_map_of amounts max_amt_def del: map_of.simps; simp add: amounts)
    show "dom (map_of [(''0'', ''300''), (''1'', ''0''), (''total'', ''300'')])
        = insert ''total'' (itoa ` {0..<2})" by (auto simp: idx num)
    show "\<forall>f\<in>dom (map_of [(''a:0'', ''300'')]). 0 < amt (map_of [(''a:0'', ''300'')] f)
        \<and> (\<exists>u i. f = WagerField u i \<and> 0 \<le> i \<and> i < 2)"
      by (simp add: amounts wf')
    show "{''a''} = {u. \<exists>i. WagerField u i \<in> dom (map_of [(''a:0'', ''300'')])}"
      by (auto simp: wf)
    show "\<forall>i. 0 \<le> i \<and> i < 2 \<longrightarrow> amt (map_of [(''0'', ''300''), (''1'', ''0''), (''total'', ''300'')] (itoa i))
        = staked_on (map_of [(''a:0'', ''300'')]) i"
    proof (intro allI impI)
      fix i :: int assume "0 \<le> i \<and> i < 2"
      then have "i = 0 \<or> i = 1" by auto
      then show "amt (map_of [(''0'', ''300''), (''1'', ''0''), (''total'', ''300'')] (itoa i))
        = staked_on (map_of [(''a:0'', ''300'')]) i" unfolding on by (auto simp: num amounts)
    qed
    show "amt (map_of [(''0'', ''300''), (''1'', ''0''), (''total'', ''300'')] ''total'')
        = hsum (map_of [(''a:0'', ''300'')])"
      by (simp add: hsum_map_of amounts del: map_of.simps; simp add: amounts)
  qed (simp_all add: MaxOutcomes_def finite_dom_map_of del: map_of.simps)
qed

lemma demo_wager_sel [simp]:
  "ReqRoom demo_wager = ''r1''" "ReqRound demo_wager = ''x1''" "ReqUser demo_wager = ''b''"
  "ReqOutcome demo_wager = 1" "ReqAmount demo_wager = 400" "ReqKey demo_wager = ''k1''"
  by (simp_all add: demo_wager_def)

lemma demo_world_sel [simp]: "db (demo_world ts) = demo" "turns (demo_world ts) = ts"
  by (simp_all add: demo_world_def)

lemma demo_fresh: "map_of (m_strs demo) (IdemKey k) = None"
  by (simp add: demo_def key_simps)

lemma demo_wager_ok: "wager_ok (mem_view demo) demo_wager"
proof -
  have "itoa 1000 = ''1000''" by code_simp
  then have "tonumber ''1000'' = Some 1000" using tonumber_itoa [of 1000] by (simp add: dbl_id)
  then show ?thesis
    by (simp add: wager_ok_def demo_reads demo_numbers demo_slots num_simps now_ms_def RoundOpen_def)
qed

section \<open>Properties\<close>

text \<open>
  C1. An accepted wager, under replays. When every guard holds and the idempotency key is
  unused, \<open>PlaceWager\<close> succeeds, although the reply may be lost and the command sent again
  \<open>k\<close> times: the wallet is charged once, the outcome's pool, the total and the player's
  wager grow by exactly the amount, one event enters the outbox, the reply is stored under
  the idempotency key, and the caller is told the balance, pools, total and number of bettors
  after the wager.
\<close>

theorem place_wager_accepted:
  assumes "redis_server R view" and "turns w = Turn (replicate k id) id Answered # ts"
    and "table_ok (view (db w)) (ReqRoom rq) (ReqRound rq) n"
    and "strs (view (db w)) (IdemKey (ReqKey rq)) = None" "wager_ok (view (db w)) rq"
  shows "\<exists>s' x. PlaceWager R outbox rq w
      = (Inr (wager_result (view (db w)) rq n), w\<lparr>turns := ts, db := s'\<rparr>)
    \<and> view s' = v_set (IdemKey (ReqKey rq)) x (Some 86400000) (wager_view outbox rq (view (db w)))"
  by (rule redis_server.PlaceWager_resent [OF assms])

theorem place_wager_accepted_witness:
  "\<exists>s' x. PlaceWager mem_redis OutboxStream demo_wager (demo_world [Turn (replicate 2 id) id Answered])
      = (Inr \<lparr>NewBalance = 600, NewPools = [300, 400], NewTotal = 700, BettorCount = 2\<rparr>,
         \<lparr>db = s', turns = []\<rparr>)
    \<and> mem_view s' = v_set (IdemKey ''k1'') x (Some 86400000) (wager_view OutboxStream demo_wager (mem_view demo))"
proof -
  have num: "itoa 0 = ''0''" "itoa 1 = ''1''" by code_simp+
  have amounts: "amt (Some ''1000'') = 1000" "amt (Some ''700'') = 700" "amt (Some ''300'') = 300"
    "amt (Some ''0'') = 0" by code_simp+
  have "wager_result (mem_view demo) demo_wager 2
      = \<lparr>NewBalance = 600, NewPools = [300, 400], NewTotal = 700, BettorCount = 2\<rparr>"
    by (simp add: wager_result_def demo_reads amounts upto.simps num)
  moreover have "\<exists>s' x. PlaceWager mem_redis OutboxStream demo_wager (demo_world [Turn (replicate 2 id) id Answered])
      = (Inr (wager_result (mem_view (db (demo_world [Turn (replicate 2 id) id Answered]))) demo_wager 2),
         (demo_world [Turn (replicate 2 id) id Answered])\<lparr>turns := [], db := s'\<rparr>)
    \<and> mem_view s' = v_set (IdemKey (ReqKey demo_wager)) x (Some 86400000)
        (wager_view OutboxStream demo_wager (mem_view (db (demo_world [Turn (replicate 2 id) id Answered]))))"
    by (rule place_wager_accepted [OF mem.redis_server_axioms])
      (simp_all add: demo_table demo_wager_ok demo_fresh)
  ultimately show ?thesis by (simp add: demo_world_def)
qed

text \<open>
  C3. A replayed wager. Once \<open>PlaceWager\<close> has accepted a wager, every later call that carries
  its idempotency key - whatever else it asks for, whatever has happened to the room since, as
  long as the stored reply is there - reports the result of the first call and changes
  nothing.
\<close>

theorem place_wager_replayed:
  assumes "redis_server R view" and "turns w = []" "turns w2 = []"
    and "table_ok (view (db w)) (ReqRoom rq) (ReqRound rq) n"
    and "strs (view (db w)) (IdemKey (ReqKey rq)) = None" "wager_ok (view (db w)) rq"
    and "PlaceWager R outbox rq w = (r, w1)"
    and "strs (view (db w2)) (IdemKey (ReqKey rq)) = strs (view (db w1)) (IdemKey (ReqKey rq))"
    and "ReqKey rq' = ReqKey rq"
  shows "PlaceWager R outbox rq' w2 = (r, w2) \<and> r = Inr (wager_result (view (db w)) rq n)"
proof -
  let ?vs = "wager_reply (view (db w)) rq n"
  obtain s' where s': "wager_call R outbox rq (db w) = (Inr ?vs, s')"
    "strs (view s') (IdemKey (ReqKey rq)) = Some (cjson_encode R ?vs)"
    using redis_server.wager_call_accepted [OF assms(1) assms(4-6), of outbox] by (auto simp: view_simps)
  have first: "PlaceWager R outbox rq w = (Inr (wager_result (view (db w)) rq n), w\<lparr>db := s'\<rparr>)"
    by (rule PlaceWager_decoded [OF _ assms(4,6)]) (simp add: roundtrip_quiet(1) [where f = "wager_call R outbox rq", OF assms(2) s'(1)])
  then have "wager_call R outbox rq' (db w2) = (Inr ?vs, db w2)"
    using redis_server.wager_call_again [OF assms(1)] s'(2) assms(7-9) by simp
  then have "roundtrip (wager_call R outbox rq') w2 = (Inr ?vs, w2)"
    using assms(3) by (simp add: roundtrip_quiet)
  moreover obtain reply where "toStringSlice ?vs = Inr reply" "reply \<noteq> []" "hd reply = ''OK''"
    "parseWagerReply reply = Inr (wager_result (view (db w)) rq n)"
    using wager_reply_decoded [OF assms(4,6)] by auto
  ultimately show ?thesis using first assms(7) by (simp add: PlaceWager_def call_script_def eff_simps)
qed

theorem place_wager_replayed_witness:
  "fst (PlaceWager mem_redis OutboxStream (demo_wager\<lparr>ReqUser := ''a'', ReqAmount := 9\<rparr>)
      ((snd (PlaceWager mem_redis OutboxStream demo_wager (demo_world [])))\<lparr>turns := []\<rparr>))
      = Inr \<lparr>NewBalance = 600, NewPools = [300, 400], NewTotal = 700, BettorCount = 2\<rparr>"
proof -
  have num: "itoa 0 = ''0''" "itoa 1 = ''1''" by code_simp+
  have amounts: "amt (Some ''1000'') = 1000" "amt (Some ''700'') = 700" "amt (Some ''300'') = 300"
    "amt (Some ''0'') = 0" by code_simp+
  have res: "wager_result (mem_view demo) demo_wager 2
      = \<lparr>NewBalance = 600, NewPools = [300, 400], NewTotal = 700, BettorCount = 2\<rparr>"
    by (simp add: wager_result_def demo_reads amounts upto.simps num)
  obtain r w1 where w1: "PlaceWager mem_redis OutboxStream demo_wager (demo_world []) = (r, w1)"
    by (meson surj_pair)
  have "fst (PlaceWager mem_redis OutboxStream (demo_wager\<lparr>ReqUser := ''a'', ReqAmount := 9\<rparr>) (w1\<lparr>turns := []\<rparr>))
      = Inr (wager_result (mem_view demo) demo_wager 2)"
    using place_wager_replayed [OF mem.redis_server_axioms, where w = "demo_world []" and ?w2.0 = "w1\<lparr>turns := []\<rparr>"
        and rq = demo_wager and n = 2 and outbox = OutboxStream and r = r and ?w1.0 = w1
        and rq' = "demo_wager\<lparr>ReqUser := ''a'', ReqAmount := 9\<rparr>"]
      demo_table demo_wager_ok demo_fresh w1
    by simp
  then show ?thesis using w1 by (simp add: res)
qed



text \<open>
  C2. The books balance. Whatever wagers are placed in a round, by whom, in what order,
  accepted, refused or replayed, the room's wallets and the round's pool together hold the same
  tokens as before; every outcome's pool is what was staked on it, the total is what was staked
  altogether, and the bettors are those with a wager.
\<close>

theorem wagers_keep_books:
  fixes outbox :: string
  assumes "redis_server R view" and "table_ok (view s) room rid n"
    and "\<forall>rq\<in>set rqs. ReqRoom rq = room \<and> ReqRound rq = rid"
  defines "s' \<equiv> foldl (\<lambda>s rq. snd (wager_call R outbox rq s)) s rqs"
  shows "table_ok (view s') room rid n \<and> table_tokens (view s') room rid = table_tokens (view s) room rid"
  using assms(2,3) unfolding s'_def
proof (induction rqs arbitrary: s)
  case (Cons rq rqs)
  obtain r t where t: "wager_call R outbox rq s = (r, t)" by (cases "wager_call R outbox rq s")
  with Cons.prems redis_server.wager_call_books [OF assms(1), of s rq n outbox r t]
  have step: "table_ok (view t) room rid n" "table_tokens (view t) room rid = table_tokens (view s) room rid"
    by simp_all
  have "\<forall>rq\<in>set rqs. ReqRoom rq = room \<and> ReqRound rq = rid" using Cons.prems(2) by simp
  with Cons.IH [OF step(1)] step(2) t show ?case by simp
qed simp

theorem wagers_keep_books_witness:
  "table_tokens (mem_view (foldl (\<lambda>s rq. snd (wager_call mem_redis OutboxStream rq s)) demo
     [demo_wager, demo_wager\<lparr>ReqUser := ''a'', ReqKey := ''k2''\<rparr>, demo_wager\<lparr>ReqKey := ''k3''\<rparr>])) ''r1'' ''x1''
   = table_tokens (mem_view demo) ''r1'' ''x1''"
  using wagers_keep_books [OF mem.redis_server_axioms demo_table, where outbox = OutboxStream and
      rqs = "[demo_wager, demo_wager\<lparr>ReqUser := ''a'', ReqKey := ''k2''\<rparr>, demo_wager\<lparr>ReqKey := ''k3''\<rparr>]"]
  by simp

end
