(* ===== verification/SettleSpec.thy ===== *)
theory SettleSpec
  imports SettleStore WagerBook
begin

text \<open>
  What settlement and refund promise over a room's books: the stakes read back are the
  wagers, in an order that does not depend on the server; every token of the pool comes back
  to a wallet or is counted as dust; the round ends and one event says so.
\<close>

section \<open>Aggregation gives one payout per user\<close>

definition prow :: "(string \<Rightarrow> int) \<Rightarrow> string \<Rightarrow> payout" where
  "prow f u = \<lparr>PayUserID = u, PayAmount = f u\<rparr>"

lemma prow_sel [simp]: "PayUserID (prow f u) = u" "PayAmount (prow f u) = f u"
  "(prow f u)\<lparr>PayAmount := x\<rparr> = prow (f(u := x)) u"
  by (simp_all add: prow_def)

lemma prows_update:
  "distinct us \<Longrightarrow> i < length us \<Longrightarrow> us ! i = u \<Longrightarrow>
   (map (prow f) us)[i := prow (f(u := x)) u] = map (prow (f(u := x))) us"
  by (auto simp: map_update_distinct prow_def)

lemma aggregate_from_rows:
  assumes "distinct us" "\<And>u. u \<notin> set us \<Longrightarrow> f u = 0"
    and "\<And>u. 0 \<le> f u \<and> f u + user_staked ss u < max_amt" "valid_stakes ss n"
    and "0 \<le> t" "t + staked ss < max_amt"
  shows "aggregate_from ss (idx_of us) (map (prow f) us) t =
    (map (prow (\<lambda>u. f u + user_staked ss u)) (add_new us (map UserID ss)), t + staked ss)"
  using assms
proof (induction ss arbitrary: us f t)
  case (Cons s ss)
  let ?u = "UserID s" and ?f = "f(UserID s := f (UserID s) + Amount s)"
  define vs where "vs = (if ?u \<in> set us then us else us @ [?u])"
  have vs: "distinct vs" "?u \<in> set vs" using Cons.prems(1) by (auto simp: vs_def)
  obtain i where i: "i < length vs" "vs ! i = ?u" "idx_of vs ?u = Some i"
    using idx_of_in [OF vs] .
  have nn: "0 \<le> user_staked ss ?u" "0 \<le> staked ss"
    using Cons.prems(4) user_staked_bounds [of ss n] staked_nonneg [of ss n] by auto
  then have "in64 (f ?u + Amount s)" "in64 (t + Amount s)"
    using Cons.prems(3) [of ?u] Cons.prems(4-6) by (auto intro!: small_in64)
  then have upd: "(map (prow f) vs)[i := (map (prow f) vs ! i)
      \<lparr>PayAmount := i64 (PayAmount (map (prow f) vs ! i) + Amount s)\<rparr>] = map (prow ?f) vs"
    and t: "i64 (t + Amount s) = t + Amount s"
    using i vs by (simp_all add: i64_id prows_update)
  have step: "aggregate_from (s # ss) (idx_of us) (map (prow f) us) t =
      aggregate_from ss (idx_of vs) (map (prow ?f) vs) (t + Amount s)"
  proof (cases "?u \<in> set us")
    case True
    then have "vs = us" by (simp add: vs_def)
    with i upd t show ?thesis by (simp add: Let_def)
  next
    case False
    then have new: "vs = us @ [?u]" by (simp add: vs_def)
    then have rows: "map (prow f) us @ [\<lparr>PayUserID = ?u, PayAmount = 0\<rparr>] = map (prow f) vs"
      using Cons.prems(2) [OF False] by (simp add: prow_def)
    have "idx_of vs = (idx_of us)(?u \<mapsto> length us)" "idx_of us ?u = None"
      using False new by (simp_all add: idx_of_snoc idx_of_None)
    with i upd t rows show ?thesis by (simp add: Let_def)
  qed
  have "aggregate_from ss (idx_of vs) (map (prow ?f) vs) (t + Amount s) =
      (map (prow (\<lambda>u. ?f u + user_staked ss u)) (add_new vs (map UserID ss)), t + Amount s + staked ss)"
  proof (rule Cons.IH)
    show "0 \<le> ?f u \<and> ?f u + user_staked ss u < max_amt" for u
      using Cons.prems(3) [of u] Cons.prems(4) by (auto split: if_splits)
    show "u \<notin> set vs \<Longrightarrow> ?f u = 0" for u
      using Cons.prems(2) vs by (auto simp: vs_def split: if_splits)
  qed (use vs Cons.prems in \<open>auto simp: staked_def\<close>)
  moreover have "(\<lambda>u. ?f u + user_staked ss u) = (\<lambda>u. f u + user_staked (s # ss) u)"
    by auto
  ultimately show ?case using step by (simp add: vs_def staked_def)
qed (simp add: staked_def)

lemma aggregateStakes_eq:
  assumes "valid_stakes ss n" "staked ss < max_amt"
  shows "aggregateStakes ss = (map (prow (user_staked ss)) (first_users ss), staked ss)"
proof -
  have "user_staked ss u < max_amt" for u
    using user_staked_bounds [OF assms(1), of u] assms(2) by simp
  then show ?thesis
    using aggregate_from_rows [of "[]" "\<lambda>u. 0" ss n 0] assms user_staked_bounds [OF assms(1)]
    by (simp add: aggregateStakes_def first_users_def)
qed

section \<open>The stakes read back\<close>

definition wagers_ok :: "(string \<rightharpoonup> string) \<Rightarrow> int \<Rightarrow> bool" where
  "wagers_ok h n \<longleftrightarrow> finite (dom h) \<and> n \<le> MaxOutcomes \<and> small_hash h
     \<and> (\<forall>f\<in>dom h. 0 < amt (h f) \<and> (\<exists>u i. f = WagerField u i \<and> 0 \<le> i \<and> i < n))"

lemma table_wagers_ok: "table_ok v room rid n \<Longrightarrow> wagers_ok (wagers v rid) n"
  by (simp add: table_ok_def wagers_ok_def)

definition stake_key :: "stake \<Rightarrow> string \<times> int" where
  "stake_key st = (UserID st, Outcome st)"

text \<open>The stakes a hash of wagers holds, as a set.\<close>

definition stakes_in :: "(string \<rightharpoonup> string) \<Rightarrow> stake set" where
  "stakes_in h = {st. \<exists>x. h (WagerField (UserID st) (Outcome st)) = Some x \<and> Amount st = amt (Some x)}"

definition in_order :: "(string \<rightharpoonup> string) \<Rightarrow> stake list \<Rightarrow> bool" where
  "in_order h ss \<longleftrightarrow> set ss = stakes_in h \<and> distinct (map stake_key ss) \<and> sorted (map stake_key ss)"

lemma in_order_unique:
  assumes "in_order h ss" "in_order h ts"
  shows "ss = ts"
proof -
  have sets: "set ss = set ts" using assms by (simp add: in_order_def)
  then have "map stake_key ss = map stake_key ts"
    using assms by (intro sorted_distinct_set_unique) (auto simp: in_order_def)
  moreover have "inj_on stake_key (set ss \<union> set ts)"
    using assms by (auto simp: in_order_def distinct_map sets)
  ultimately show ?thesis using map_inj_on by blast
qed

lemma stakes_of_ok:
  assumes "\<forall>p\<in>set fs. \<exists>u i a. p = (WagerField u i, itoa a) \<and> in64 i \<and> in64 a"
  shows "\<exists>ss. stakes_of fs = Inr ss \<and> map (\<lambda>st. (WagerField (UserID st) (Outcome st), itoa (Amount st))) ss = fs
    \<and> (\<forall>st\<in>set ss. in64 (Amount st))"
  using assms
proof (induction fs)
  case (Cons p fs)
  then obtain u i a where p: "p = (WagerField u i, itoa a)" "in64 i" "in64 a" by auto
  obtain ss where "stakes_of fs = Inr ss" "\<forall>st\<in>set ss. in64 (Amount st)"
    "map (\<lambda>st. (WagerField (UserID st) (Outcome st), itoa (Amount st))) ss = fs"
    using Cons by auto
  with p show ?case
    by (intro exI [of _ "\<lparr>UserID = u, Outcome = i, Amount = a\<rparr> # ss"])
      (simp add: stake_of_def ParseInt_itoa)
qed simp

lemma hash_list_stakes:
  assumes h: "wagers_ok h n" and fs: "map_of fs = h" "distinct (map fst fs)"
  shows "\<exists>ss. stakes_of fs = Inr ss \<and> in_order h (sort_stakes ss) \<and> valid_stakes ss n
    \<and> staked ss = hsum h"
proof -
  have "\<exists>u i a. p = (WagerField u i, itoa a) \<and> in64 i \<and> in64 a" if p: "p \<in> set fs" for p
  proof -
    have hp: "h (fst p) = Some (snd p)" using p fs by (metis map_of_eq_Some_iff surjective_pairing)
    then have "fst p \<in> dom h" by auto
    then obtain u i where ui: "fst p = WagerField u i" "0 \<le> i" "i < n"
      using h unfolding wagers_ok_def by blast
    obtain a where a: "snd p = itoa a" "0 \<le> a" "a < max_amt"
      using h hp unfolding wagers_ok_def by (blast elim: small_hashE)
    have "in64 i" using ui h by (simp add: wagers_ok_def MaxOutcomes_def in64_def)
    with ui a show ?thesis by (metis prod.collapse small_in64)
  qed
  then obtain ss where ss: "stakes_of fs = Inr ss" "\<forall>st\<in>set ss. in64 (Amount st)"
    "map (\<lambda>st. (WagerField (UserID st) (Outcome st), itoa (Amount st))) ss = fs"
    using stakes_of_ok [of fs] by blast
  have look: "h (WagerField u i) = Some x \<longleftrightarrow> (WagerField u i, x) \<in> set fs" for u i x
    using fs by (metis map_of_eq_Some_iff)
  have mem: "st \<in> set ss \<longleftrightarrow> h (WagerField (UserID st) (Outcome st)) = Some (itoa (Amount st))
      \<and> in64 (Amount st)" for st
  proof
    assume "st \<in> set ss"
    then show "h (WagerField (UserID st) (Outcome st)) = Some (itoa (Amount st)) \<and> in64 (Amount st)"
      using ss(2,3) unfolding look by (metis (no_types, lifting) image_eqI image_set)
  next
    assume st: "h (WagerField (UserID st) (Outcome st)) = Some (itoa (Amount st)) \<and> in64 (Amount st)"
    then have "(WagerField (UserID st) (Outcome st), itoa (Amount st)) \<in> set fs" unfolding look ..
    then obtain st' where "st' \<in> set ss" "WagerField (UserID st) (Outcome st) = WagerField (UserID st') (Outcome st')"
      "itoa (Amount st) = itoa (Amount st')" unfolding ss(3) [symmetric] by auto
    then have "st' \<in> set ss \<and> st = st'" by (simp add: key_simps)
    then show "st \<in> set ss" by blast
  qed
  have "distinct (map fst (map (\<lambda>st. (WagerField (UserID st) (Outcome st), itoa (Amount st))) ss))"
    using fs(2) by (simp only: ss(3))
  then have dist: "distinct (map stake_key ss)"
    by (simp add: o_def distinct_map inj_on_def stake_key_def key_simps)
  have val: "valid_stakes ss n" unfolding valid_stakes_def
  proof
    fix st assume "st \<in> set ss"
    then have hst: "h (WagerField (UserID st) (Outcome st)) = Some (itoa (Amount st))" "in64 (Amount st)"
      by (simp_all add: mem)
    then have "WagerField (UserID st) (Outcome st) \<in> dom h" by auto
    then obtain u i where "WagerField (UserID st) (Outcome st) = WagerField u i" "0 \<le> i" "i < n"
      "0 < amt (h (WagerField (UserID st) (Outcome st)))"
      using h unfolding wagers_ok_def by blast
    with hst show "0 < Amount st \<and> 0 \<le> Outcome st \<and> Outcome st < n" by (simp add: key_simps num_simps)
  qed
  have "set ss = stakes_in h"
  proof (rule set_eqI)
    fix st show "st \<in> set ss \<longleftrightarrow> st \<in> stakes_in h"
    proof
      assume "st \<in> stakes_in h"
      then obtain x where x: "h (WagerField (UserID st) (Outcome st)) = Some x" "Amount st = amt (Some x)"
        by (auto simp: stakes_in_def)
      have "small_hash h" using h by (simp add: wagers_ok_def)
      from small_hashE [OF this x(1)] obtain a where a: "x = itoa a" "0 \<le> a" "a < max_amt" .
      have "in64 a" by (rule small_in64 [OF a(2,3)])
      then have "Amount st = a" unfolding x(2) a(1) by (rule amt_itoa)
      with x(1) a(1) \<open>in64 a\<close> show "st \<in> set ss" by (simp only: mem)
    qed (simp add: mem stakes_in_def num_simps)
  qed
  with dist have ord: "in_order h (sort_stakes ss)"
    unfolding in_order_def sort_stakes_def stake_key_def [abs_def, symmetric]
    by (auto simp: distinct_map distinct_sort)
  have "staked ss = (\<Sum>st\<leftarrow>ss. amt (Some (itoa (Amount st))))"
    unfolding staked_def by (rule arg_cong [where f = sum_list], rule map_cong) (auto simp: mem num_simps)
  also have "\<dots> = (\<Sum>p\<leftarrow>map (\<lambda>st. (WagerField (UserID st) (Outcome st), itoa (Amount st))) ss. amt (Some (snd p)))"
    by (simp add: o_def)
  also have "\<dots> = hsum h" unfolding ss(3) fs(1) [symmetric] using fs(2) by (rule hsum_map_of [symmetric])
  finally show ?thesis using ss(1) ord val by blast
qed

lemma staked_sort [simp]: "staked (sort_stakes ss) = staked ss"
proof -
  have "mset (map Amount (sort_stakes ss)) = mset (map Amount ss)"
    by (simp add: sort_stakes_def)
  then show ?thesis unfolding staked_def by (metis sum_mset_sum_list)
qed

lemma valid_stakes_sort [simp]: "valid_stakes (sort_stakes ss) n \<longleftrightarrow> valid_stakes ss n"
  by (simp add: valid_stakes_def sort_stakes_def)

lemma sum_amounts_eq: "valid_stakes ss n \<Longrightarrow> staked ss < max_amt \<Longrightarrow> sum_amounts ss = staked ss"
proof -
  have "foldl (\<lambda>t st. i64 (t + Amount st)) t ss = t + staked ss"
    if "valid_stakes ss n" "0 \<le> t" "t + staked ss < max_amt" for t ss
    using that
  proof (induction ss arbitrary: t)
    case (Cons s ss)
    then have "0 \<le> staked ss" by (auto intro: staked_nonneg)
    with Cons have "in64 (t + Amount s)" by (intro small_in64) (auto simp: staked_def)
    with Cons show ?case by (simp add: i64_id staked_def)
  qed (simp add: staked_def)
  then show "valid_stakes ss n \<Longrightarrow> staked ss < max_amt \<Longrightarrow> sum_amounts ss = staked ss"
    by (simp add: sum_amounts_def)
qed

section \<open>Crediting\<close>

fun credited :: "payout list \<Rightarrow> (string \<rightharpoonup> string) \<Rightarrow> (string \<rightharpoonup> string)" where
  "credited [] h = h"
| "credited (p # ps) h = credited ps (h(PayUserID p \<mapsto> itoa (amt (h (PayUserID p)) + PayAmount p)))"

lemma credited_facts:
  assumes "small_hash h" "finite (dom h)" "\<forall>p\<in>set ps. 0 \<le> PayAmount p"
    and "hsum h + paid_out ps < max_amt"
  shows "small_hash (credited ps h) \<and> finite (dom (credited ps h))
    \<and> hsum (credited ps h) = hsum h + paid_out ps
    \<and> (\<forall>u. amt (credited ps h u) = amt (h u) + user_paid ps u)
    \<and> dom (credited ps h) = dom h \<union> PayUserID ` set ps"
  using assms
proof (induction ps arbitrary: h)
  case (Cons p ps)
  let ?h = "h(PayUserID p \<mapsto> itoa (amt (h (PayUserID p)) + PayAmount p))"
  have nn: "0 \<le> amt (h (PayUserID p))" "0 \<le> paid_out ps" "amt (h (PayUserID p)) \<le> hsum h"
    using Cons.prems small_hash_amt amt_le_hsum by (auto simp: paid_out_def intro!: sum_list_nonneg_int)
  with Cons.prems have lt: "0 \<le> amt (h (PayUserID p)) + PayAmount p"
    "amt (h (PayUserID p)) + PayAmount p < max_amt" by (auto simp: paid_out_def)
  have small: "small_hash ?h" using Cons.prems lt by (intro small_hash_upd) auto
  have sum: "hsum ?h = hsum h + PayAmount p" using Cons.prems lt by (simp add: hsum_upd small_in64)
  have IH: "small_hash (credited ps ?h) \<and> finite (dom (credited ps ?h))
    \<and> hsum (credited ps ?h) = hsum ?h + paid_out ps
    \<and> (\<forall>u. amt (credited ps ?h u) = amt (?h u) + user_paid ps u)
    \<and> dom (credited ps ?h) = dom ?h \<union> PayUserID ` set ps"
  proof (rule Cons.IH [OF small])
    show "finite (dom ?h)" using Cons.prems(2) by simp
    show "\<forall>p\<in>set ps. 0 \<le> PayAmount p" using Cons.prems(3) by simp
    show "hsum ?h + paid_out ps < max_amt" using Cons.prems(4) by (simp only: sum) (simp add: paid_out_def)
  qed
  then show ?case using sum lt by (auto simp: num_simps small_in64 paid_out_def)
qed (simp add: paid_out_def)

lemma v_hash_again: "v_hset k [(f, x)] (v_hash k h v) = v_hash k (h(f \<mapsto> x)) v"
  by (simp add: v_hset_def v_hash_def put_all_simps)

lemma v_hash_hset: "v_hash k h (v_hset k fvs v) = v_hash k h v"
  by (simp add: v_hset_def v_hash_def)

lemma v_hash_same: "v_hash k (hashes v k) v = v"
  by (simp add: v_hash_def)

lemma credit_args_simps [simp]: "credit_args [] = []"
  "credit_args (p # ps) = PayUserID p # itoa (PayAmount p) # credit_args ps"
  by (simp_all add: credit_args_def)

context redis_server
begin

lemma credit_loop_run:
  assumes "small_hash (hashes (view s) W)" "\<forall>p\<in>set ps. 0 \<le> PayAmount p"
    and "hsum (hashes (view s) W) + paid_out ps < max_amt"
  shows "\<exists>s'. credit_loop R W (credit_args ps) n s = (Inr (n + int (length ps)), s')
    \<and> view s' = v_hash W (credited ps (hashes (view s) W)) (view s)"
  using assms
proof (induction ps arbitrary: s n)
  case (Cons p ps)
  let ?h = "hashes (view s) W" and ?a = "PayAmount p" and ?u = "PayUserID p"
  have nn: "0 \<le> amt (?h ?u)" "0 \<le> paid_out ps" "amt (?h ?u) \<le> hsum ?h"
    using Cons.prems small_hash_amt amt_le_hsum finite_hash
    by (auto simp: paid_out_def intro!: sum_list_nonneg_int)
  have "0 \<le> hsum ?h" using Cons.prems(1) by (rule hsum_nonneg)
  with Cons.prems nn have a: "0 \<le> ?a" "?a < max_amt" "amt (?h ?u) + ?a < max_amt"
    by (auto simp: paid_out_def)
  then have d: "dbl ?a = ?a" by (simp add: dbl_id max_amt_def)
  obtain t where t: "hincrby R W ?u ?a s = (Inr (amt (?h ?u) + ?a), t)"
    "view t = v_hset W [(?u, itoa (amt (?h ?u) + ?a))] (view s)"
    using hincrby_small [of s W ?a ?u] Cons.prems(1) a nn by auto
  have ht: "hashes (view t) W = ?h(?u \<mapsto> itoa (amt (?h ?u) + ?a))" by (simp add: t view_simps)
  have "small_hash (hashes (view t) W)" unfolding ht using Cons.prems a nn by (intro small_hash_upd) auto
  moreover have "hsum (hashes (view t) W) = hsum ?h + ?a"
    unfolding ht using a nn finite_hash by (simp add: hsum_upd small_in64)
  ultimately obtain s' where s': "credit_loop R W (credit_args ps) (n + 1) t = (Inr (n + 1 + int (length ps)), s')"
    "view s' = v_hash W (credited ps (hashes (view t) W)) (view t)"
    using Cons.IH [of t "n + 1"] Cons.prems by (auto simp: paid_out_def)
  have "credit_loop R W (credit_args (p # ps)) n s = credit_loop R W (credit_args ps) (n + 1) t"
    by (simp add: eff_simps tonumber_itoa d t(1))
  moreover have "view s' = v_hash W (credited (p # ps) ?h) (view s)"
    unfolding s'(2) t(2) v_hash_hset by (simp add: view_simps)
  ultimately show ?case using s'(1) by (simp add: add.assoc)
qed (simp add: eff_simps v_hash_same)

end

section \<open>The effect of settlement and refund\<close>

definition settle_event :: "string \<Rightarrow> string \<Rightarrow> string \<Rightarrow> string \<Rightarrow> int \<Rightarrow> int \<Rightarrow> string \<Rightarrow> payout list \<Rightarrow>
    (string \<times> string) list" where
  "settle_event typ rid room key tot dust outcome ps =
     [(''type'', typ), (''round_id'', rid), (''room_id'', room), (''total'', itoa tot),
      (''dust'', itoa dust), (''winning_outcome'', outcome), (''payouts'', marshalPayouts ps),
      (''idempotency_key'', key)]"

definition settled_view :: "string \<Rightarrow> string \<Rightarrow> string \<Rightarrow> string \<Rightarrow> int \<Rightarrow> int \<Rightarrow> settlement \<Rightarrow> rview \<Rightarrow> rview" where
  "settled_view outbox rid room key w tot st v =
     (let oc = (if Refunded st then [] else itoa w)
      in v_xadd outbox (settle_event (if Refunded st then ''round_refunded'' else ''round_settled'')
            rid room key tot (Dust st) oc (Payouts st))
        (v_hset (RoundKey rid)
           ((''status'', if Refunded st then RoundRefunded else RoundResolved) #
            (if Refunded st then [] else [(''resolved_outcome'', oc)]))
        (v_hash (RoomWalletsKey room) (credited (Payouts st) (wallets v room)) v)))"

definition refunded_view :: "string \<Rightarrow> string \<Rightarrow> string \<Rightarrow> string \<Rightarrow> payout list \<Rightarrow> int \<Rightarrow> rview \<Rightarrow> rview" where
  "refunded_view outbox rid room key ps tot v =
     v_xadd outbox (settle_event ''round_refunded'' rid room key tot 0 [] ps)
       (v_hset (RoundKey rid) [(''status'', RoundRefunded)]
       (v_hash (RoomWalletsKey room) (credited ps (wallets v room)) v))"

lemma v_hset_twice: "v_hset k b (v_hset k a v) = v_hset k (a @ b) v"
  by (simp add: v_hset_def v_hash_def put_all_def)

lemma itoa_not_empty [simp]: "itoa n \<noteq> []"
  by simp

lemma itoa_0: "itoa 0 = ''0''"
  by code_simp

context redis_server
begin

lemma settle_call_run:
  assumes "round_hash (view s) rid ''status'' = Some RoundLocked"
    and "small_hash (wallets (view s) room)" "\<forall>p\<in>set (Payouts st). 0 \<le> PayAmount p"
    and "hsum (wallets (view s) room) + paid_out (Payouts st) < max_amt"
  shows "\<exists>s'. settle_call R outbox rid room w key tot st s
      = (Inr (table [''OK'', tostring (int (length (Payouts st)))]), s')
    \<and> view s' = settled_view outbox rid room key w tot st (view s)"
proof -
  obtain t where t: "credit_loop R (RoomWalletsKey room) (credit_args (Payouts st)) 0 s
      = (Inr (int (length (Payouts st))), t)"
    "view t = v_hash (RoomWalletsKey room) (credited (Payouts st) (wallets (view s) room)) (view s)"
    using credit_loop_run [of s "RoomWalletsKey room" "Payouts st" 0] assms(2-4)
    by (auto simp: wallets_def)
  have st: "hashes (view s) (RoundKey rid) ''status'' = Some ''locked''"
    using assms(1) by (simp add: round_hash_def RoundLocked_def)
  show ?thesis
    by (simp add: settle_call_def settle_round_def eff_simps reads st t(1) writes t(2)
        settled_view_def Let_def settle_event_def v_hset_twice RoundRefunded_def RoundResolved_def)
qed

lemma refund_call_run:
  assumes "round_hash (view s) rid ''status'' = Some RoundLocked"
    and "small_hash (wallets (view s) room)" "\<forall>p\<in>set ps. 0 \<le> PayAmount p"
    and "hsum (wallets (view s) room) + paid_out ps < max_amt"
  shows "\<exists>s'. refund_call R outbox rid room key ps tot s = (Inr (table [''OK'', itoa tot]), s')
    \<and> view s' = refunded_view outbox rid room key ps tot (view s)"
proof -
  obtain t where t: "credit_loop R (RoomWalletsKey room) (credit_args ps) 0 s = (Inr (int (length ps)), t)"
    "view t = v_hash (RoomWalletsKey room) (credited ps (wallets (view s) room)) (view s)"
    using credit_loop_run [of s "RoomWalletsKey room" ps 0] assms(2-4) by (auto simp: wallets_def)
  have st: "hashes (view s) (RoundKey rid) ''status'' = Some ''locked''"
    using assms(1) by (simp add: round_hash_def RoundLocked_def)
  show ?thesis
    by (simp add: refund_call_def refund_round_def eff_simps reads st t(1) writes t(2)
        refunded_view_def settle_event_def RoundRefunded_def itoa_0)
qed

end

section \<open>Reading the round\<close>

text \<open>The hash decodes to \<open>rd\<close>; which order the fields come in does not matter.\<close>

definition round_is :: "rview \<Rightarrow> string \<Rightarrow> Round \<Rightarrow> bool" where
  "round_is v rid rd \<longleftrightarrow> (\<exists>fs. map_of fs = round_hash v rid \<and> decode_round rid fs = Inr rd)"

lemma map_of_empty_iff: "map_of fs = Map.empty \<longleftrightarrow> fs = []"
  by (metis list.exhaust map_of.simps(1) map_of_Cons_code(2) option.distinct(1) surj_pair)

lemma decode_round_cong: "map_of fs = map_of gs \<Longrightarrow> decode_round rid fs = decode_round rid gs"
proof -
  assume m: "map_of fs = map_of gs"
  then have e: "(fs = []) = (gs = [])" by (metis map_of_empty_iff)
  have f: "field fs = field gs" by (simp add: fun_eq_iff field_def m)
  show ?thesis by (simp only: decode_round_def e f m)
qed

lemma decode_round_fields:
  "decode_round rid fs = Inr rd \<Longrightarrow> RoundIDOf rd = rid \<and> Status rd = field fs ''status''
    \<and> RoundRoom rd = field fs ''room_id'' \<and> ParseInt (field fs ''outcome_count'') = Some (OutcomeCount rd)"
  by (auto simp: decode_round_def split: if_splits option.splits)

lemma round_is_sel:
  assumes "round_is v rid rd"
  shows "round_hash v rid ''status'' = Some x \<Longrightarrow> Status rd = x"
    and "round_hash v rid ''outcome_count'' = Some (itoa n) \<Longrightarrow> in64 n \<Longrightarrow> OutcomeCount rd = n"
proof -
  obtain fs where fs: "map_of fs = round_hash v rid" "decode_round rid fs = Inr rd"
    using assms by (auto simp: round_is_def)
  note d = decode_round_fields [OF fs(2)]
  show "round_hash v rid ''status'' = Some x \<Longrightarrow> Status rd = x"
    using d fs(1) by (simp add: field_def)
  show "round_hash v rid ''outcome_count'' = Some (itoa n) \<Longrightarrow> in64 n \<Longrightarrow> OutcomeCount rd = n"
    using d fs(1) by (simp add: field_def ParseInt_itoa)
qed

context redis_server
begin

lemma GetRound_quiet:
  assumes "turns w = []" "round_is (view (db w)) rid rd"
  shows "GetRound R rid w = (Inr rd, w)"
proof -
  obtain fs where fs: "map_of fs = round_hash (view (db w)) rid" "decode_round rid fs = Inr rd"
    using assms(2) by (auto simp: round_is_def)
  then have "decode_round rid (HGETALL R (RoundKey rid) (db w)) = Inr rd"
    using decode_round_cong [of "HGETALL R (RoundKey rid) (db w)" fs rid] HGETALL
    by (simp add: round_hash_def)
  with assms(1) show ?thesis
    by (simp add: GetRound_def hgetall_def roundtrip_def delivered_def eff_simps)
qed

lemma ReadStakes_quiet:
  assumes "turns w = []" "wagers_ok (wagers (view (db w)) rid) n"
  shows "\<exists>ss. ReadStakes R rid w = (Inr ss, w) \<and> in_order (wagers (view (db w)) rid) ss
    \<and> valid_stakes ss n \<and> staked ss = hsum (wagers (view (db w)) rid)"
proof -
  obtain ss where "stakes_of (HGETALL R (RoundWagersKey rid) (db w)) = Inr ss"
    "in_order (wagers (view (db w)) rid) (sort_stakes ss)" "valid_stakes ss n"
    "staked ss = hsum (wagers (view (db w)) rid)"
    using hash_list_stakes [OF assms(2), of "HGETALL R (RoundWagersKey rid) (db w)"]
      HGETALL HGETALL_distinct by (auto simp: wagers_def)
  with assms(1) show ?thesis
    by (intro exI [of _ "sort_stakes ss"])
      (simp add: ReadStakes_def hgetall_def roundtrip_def delivered_def eff_simps)
qed

end

lemma settled_view_reads:
  "wallets (settled_view outbox rid room key w tot st v) room = credited (Payouts st) (wallets v room)"
  "round_hash (settled_view outbox rid room key w tot st v) rid ''status''
    = Some (if Refunded st then RoundRefunded else RoundResolved)"
  "streams (settled_view outbox rid room key w tot st v) outbox = streams v outbox @
     [settle_event (if Refunded st then ''round_refunded'' else ''round_settled'') rid room key tot (Dust st)
       (if Refunded st then [] else itoa w) (Payouts st)]"
  by (simp_all add: settled_view_def Let_def table_reads view_simps key_simps)

lemma refunded_view_reads:
  "wallets (refunded_view outbox rid room key ps tot v) room = credited ps (wallets v room)"
  "round_hash (refunded_view outbox rid room key ps tot v) rid ''status'' = Some RoundRefunded"
  "streams (refunded_view outbox rid room key ps tot v) outbox = streams v outbox @
     [settle_event ''round_refunded'' rid room key tot 0 [] ps]"
  by (simp_all add: refunded_view_def table_reads view_simps key_simps)

lemma user_paid_prows: "distinct us \<Longrightarrow> user_paid (map (prow f) us) u = (if u \<in> set us then f u else 0)"
  by (induction us) auto

lemma user_staked_nil: "u \<notin> UserID ` set ss \<Longrightarrow> user_staked ss u = 0"
  by (induction ss) auto

lemma paid_out_prows: "paid_out (map (prow f) us) = (\<Sum>u\<leftarrow>us. f u)"
  by (simp add: paid_out_def o_def)

text \<open>One payout per player, of what the player staked.\<close>

lemma user_refunds:
  assumes "valid_stakes ss n"
  shows "\<forall>p\<in>set (map (prow (user_staked ss)) (first_users ss)). 0 \<le> PayAmount p"
    and "paid_out (map (prow (user_staked ss)) (first_users ss)) = staked ss"
    and "user_paid (map (prow (user_staked ss)) (first_users ss)) u = user_staked ss u"
proof -
  have us: "distinct (first_users ss)" "set (first_users ss) = UserID ` set ss"
    by (simp_all add: first_users_def distinct_add_new set_add_new)
  show "\<forall>p\<in>set (map (prow (user_staked ss)) (first_users ss)). 0 \<le> PayAmount p"
    using user_staked_bounds [OF assms] by auto
  show "paid_out (map (prow (user_staked ss)) (first_users ss)) = staked ss"
    unfolding paid_out_prows user_staked_def staked_def by (rule sum_list_group) (simp_all add: us)
  show "user_paid (map (prow (user_staked ss)) (first_users ss)) u = user_staked ss u"
    using user_staked_nil [of u ss] by (auto simp: user_paid_prows us)
qed

lemma call_script_ok:
  assumes "f (db w) = (Inr (table (x # xs)), s')" "turns w = []"
  shows "call_script f w = (Inr (x # xs), w\<lparr>db := s'\<rparr>)"
  using assms by (intro call_script_run) auto

section \<open>Settling and refunding a locked round\<close>

context redis_server
begin

lemma SettleRound_quiet:
  assumes "turns w = []"
    and "table_ok (view (db w)) room rid n" "round_is (view (db w)) rid rd" "RoundRoom rd = room"
    and "round_hash (view (db w)) rid ''status'' = Some RoundLocked"
    and "0 \<le> win" "win < n" "hsum (wagers (view (db w)) rid) \<le> max_total"
  shows "\<exists>ss st s'. SettleRound R outbox rid win key w = (Inr st, w\<lparr>db := s'\<rparr>)
    \<and> in_order (wagers (view (db w)) rid) ss \<and> Settle ss win n = Inr st
    \<and> view s' = settled_view outbox rid room key win (staked ss) st (view (db w))
    \<and> hsum (wallets (view s') room) + Dust st = table_tokens (view (db w)) room rid
    \<and> (\<forall>u. amt (wallets (view s') room u) = amt (wallets (view (db w)) room u) + user_paid (Payouts st) u)"
proof -
  let ?v = "view (db w)"
  obtain ss where ss: "ReadStakes R rid w = (Inr ss, w)" "in_order (wagers ?v rid) ss"
    "valid_stakes ss n" "staked ss = hsum (wagers ?v rid)"
    using ReadStakes_quiet [OF assms(1) table_wagers_ok [OF assms(2)]] by blast
  have small: "small_round ss" using ss assms(8) by (simp add: small_round_def)
  define st where "st = settle_spec ss win"
  have st: "Settle ss win n = Inr st" unfolding st_def
    using assms(6,7) ss(3) small by (intro Settle_eq_spec) (auto simp: ValidateOutcomeIndex_def)
  have pay: "\<forall>p\<in>set (Payouts st). 0 \<le> PayAmount p" "paid_out (Payouts st) \<le> staked ss"
    using settle_spec_payouts(2,3) [OF ss(3), of win] by (auto simp: st_def less_imp_le)
  have t: "small_hash (wallets ?v room)" "finite (dom (wallets ?v room))"
    "table_tokens ?v room rid = hsum (wallets ?v room) + staked ss" "table_tokens ?v room rid < max_amt"
    "round_hash ?v rid ''outcome_count'' = Some (itoa n)" "in64 n"
    using assms(2) ss(4) by (auto simp: table_ok_def table_tokens_def MaxOutcomes_def in64_def)
  have room: "hsum (wallets ?v room) + paid_out (Payouts st) < max_amt" using t pay by simp
  obtain s' where s': "settle_call R outbox rid room win key (staked ss) st (db w)
      = (Inr (table [''OK'', tostring (int (length (Payouts st)))]), s')"
    "view s' = settled_view outbox rid room key win (staked ss) st ?v"
    using settle_call_run [OF assms(5) t(1) pay(1) room] by blast
  have rd: "GetRound R rid w = (Inr rd, w)" "Status rd = RoundLocked" "OutcomeCount rd = n"
    using GetRound_quiet [OF assms(1,3)] round_is_sel [OF assms(3)] assms(5) t
    by auto
  have sum: "sum_amounts ss = staked ss" using ss(3) t hsum_nonneg [OF t(1)] by (intro sum_amounts_eq) auto
  have "SettleRound R outbox rid win key w = (Inr st, w\<lparr>db := s'\<rparr>)"
    using call_script_ok [where f = "settle_call R outbox rid room win key (staked ss) st", OF s'(1) assms(1)]
    by (simp add: SettleRound_def eff_simps rd ss(1) st assms(4) sum RoundLocked_def RoundResolved_def
        RoundRefunded_def)
  moreover have "hsum (wallets (view s') room) + Dust st = table_tokens ?v room rid"
    "\<forall>u. amt (wallets (view s') room u) = amt (wallets ?v room u) + user_paid (Payouts st) u"
    using credited_facts [OF t(1,2) pay(1) room] t(3)
    by (auto simp: s'(2) settled_view_reads st_def settle_spec_def Let_def)
  ultimately show ?thesis using ss(2) st s'(2) by blast
qed

lemma RefundRound_quiet:
  assumes "turns w = []"
    and "table_ok (view (db w)) room rid n" "round_is (view (db w)) rid rd" "RoundRoom rd = room"
    and "round_hash (view (db w)) rid ''status'' = Some RoundLocked"
  shows "\<exists>ss s'. RefundRound R outbox rid key w = (Inr (staked ss), w\<lparr>db := s'\<rparr>)
    \<and> in_order (wagers (view (db w)) rid) ss
    \<and> staked ss = amt (pools (view (db w)) rid ''total'')
    \<and> view s' = refunded_view outbox rid room key (map (prow (user_staked ss)) (first_users ss))
        (staked ss) (view (db w))
    \<and> hsum (wallets (view s') room) = table_tokens (view (db w)) room rid
    \<and> (\<forall>u. amt (wallets (view s') room u) = amt (wallets (view (db w)) room u) + user_staked ss u)"
proof -
  let ?v = "view (db w)"
  obtain ss where ss: "ReadStakes R rid w = (Inr ss, w)" "in_order (wagers ?v rid) ss"
    "valid_stakes ss n" "staked ss = hsum (wagers ?v rid)"
    using ReadStakes_quiet [OF assms(1) table_wagers_ok [OF assms(2)]] by blast
  define ps where "ps = map (prow (user_staked ss)) (first_users ss)"
  have t: "small_hash (wallets ?v room)" "finite (dom (wallets ?v room))"
    "table_tokens ?v room rid = hsum (wallets ?v room) + staked ss" "table_tokens ?v room rid < max_amt"
    "amt (pools ?v rid ''total'') = staked ss"
    using assms(2) ss(4) by (auto simp: table_ok_def table_tokens_def)
  have lt: "staked ss < max_amt" using t hsum_nonneg [OF t(1)] by simp
  have agg: "aggregateStakes ss = (ps, staked ss)"
    unfolding ps_def by (rule aggregateStakes_eq [OF ss(3) lt])
  have pay: "\<forall>p\<in>set ps. 0 \<le> PayAmount p" "paid_out ps = staked ss" "user_paid ps u = user_staked ss u" for u
    using user_refunds [OF ss(3)] by (auto simp: ps_def)
  have room: "hsum (wallets ?v room) + paid_out ps < max_amt" using t pay by simp
  obtain s' where s': "refund_call R outbox rid room key ps (staked ss) (db w)
      = (Inr (table [''OK'', itoa (staked ss)]), s')"
    "view s' = refunded_view outbox rid room key ps (staked ss) ?v"
    using refund_call_run [OF assms(5) t(1) pay(1) room] by blast
  have rd: "GetRound R rid w = (Inr rd, w)" "Status rd = RoundLocked"
    using GetRound_quiet [OF assms(1,3)] round_is_sel(1) [OF assms(3,5)] by auto
  have "RefundRound R outbox rid key w = (Inr (staked ss), w\<lparr>db := s'\<rparr>)"
    using call_script_ok [where f = "refund_call R outbox rid room key ps (staked ss)", OF s'(1) assms(1)]
    by (simp add: RefundRound_def eff_simps rd ss(1) agg assms(4) RoundLocked_def RoundResolved_def
        RoundRefunded_def)
  moreover have "hsum (wallets (view s') room) = table_tokens ?v room rid"
    "\<forall>u. amt (wallets (view s') room u) = amt (wallets ?v room u) + user_staked ss u"
    using credited_facts [OF t(1,2) pay(1) room] t(3) pay(2)
    by (auto simp: s'(2) refunded_view_reads pay(3))
  ultimately show ?thesis using ss(2) t(5) [symmetric] s'(2) unfolding ps_def by blast
qed

end

section \<open>Properties\<close>

text \<open>
  C11. Settlement end to end. On a locked round with its books in order and no interference,
  \<open>SettleRound\<close> settles exactly the wagers placed: it applies \<open>domain.Settle\<close> to the
  stakes in their one order, adds to each wallet precisely what that user was paid, moves the
  round to its terminal status with one event in the outbox, and every token of wallets and
  pool is afterwards in a wallet or in the reported dust.
\<close>

theorem settle_round_settles:
  assumes "redis_server R view" and "turns w = []"
    and "table_ok (view (db w)) room rid n" "round_is (view (db w)) rid rd" "RoundRoom rd = room"
    and "round_hash (view (db w)) rid ''status'' = Some RoundLocked"
    and "0 \<le> win" "win < n" "hsum (wagers (view (db w)) rid) \<le> max_total"
  shows "\<exists>ss st s'. SettleRound R outbox rid win key w = (Inr st, w\<lparr>db := s'\<rparr>)
    \<and> in_order (wagers (view (db w)) rid) ss \<and> Settle ss win n = Inr st
    \<and> view s' = settled_view outbox rid room key win (staked ss) st (view (db w))
    \<and> hsum (wallets (view s') room) + Dust st = table_tokens (view (db w)) room rid
    \<and> (\<forall>u. amt (wallets (view s') room u) = amt (wallets (view (db w)) room u) + user_paid (Payouts st) u)"
  by (rule redis_server.SettleRound_quiet [OF assms])

text \<open>
  C12. A refund returns every stake. On a locked round with its books in order,
  \<open>RefundRound\<close> credits each player one payout, the sum of that player's stakes, reports the
  pool's total, ends the round as refunded with one event, and leaves no token outside the
  wallets.
\<close>

theorem refund_round_refunds:
  assumes "redis_server R view" and "turns w = []"
    and "table_ok (view (db w)) room rid n" "round_is (view (db w)) rid rd" "RoundRoom rd = room"
    and "round_hash (view (db w)) rid ''status'' = Some RoundLocked"
  shows "\<exists>ss s'. RefundRound R outbox rid key w = (Inr (staked ss), w\<lparr>db := s'\<rparr>)
    \<and> in_order (wagers (view (db w)) rid) ss
    \<and> staked ss = amt (pools (view (db w)) rid ''total'')
    \<and> view s' = refunded_view outbox rid room key (map (prow (user_staked ss)) (first_users ss))
        (staked ss) (view (db w))
    \<and> hsum (wallets (view s') room) = table_tokens (view (db w)) room rid
    \<and> (\<forall>u. amt (wallets (view s') room u) = amt (wallets (view (db w)) room u) + user_staked ss u)"
  by (rule redis_server.RefundRound_quiet [OF assms])

text \<open>The demonstration room with its round locked.\<close>

definition demo_locked :: mem where
  "demo_locked = mem_hset (RoundKey ''x1'') [(''status'', ''locked'')] demo"

definition demo_round :: Round where
  "demo_round = \<lparr>RoundIDOf = ''x1'', RoundRoom = ''r1'', Question = ''q'', Outcomes = [''Y'', ''N''],
     Status = ''locked'', LockAtMS = 9000, OutcomeCount = 2, ResolvedOutcome = - 1\<rparr>"

lemma demo_round_room: "RoundRoom demo_round = ''r1''"
  by (simp add: demo_round_def)

lemma demo_locked_view:
  "mem_view demo_locked = v_hset (RoundKey ''x1'') [(''status'', ''locked'')] (mem_view demo)"
  by (simp add: demo_locked_def)

lemma demo_locked_reads:
  "wallets (mem_view demo_locked) r = wallets (mem_view demo) r"
  "pools (mem_view demo_locked) ''x1'' = pools (mem_view demo) ''x1''"
  "wagers (mem_view demo_locked) ''x1'' = wagers (mem_view demo) ''x1''"
  "bettors (mem_view demo_locked) x = bettors (mem_view demo) x"
  "round_hash (mem_view demo_locked) ''x1'' = (round_hash (mem_view demo) ''x1'')(''status'' \<mapsto> ''locked'')"
  unfolding demo_locked_view table_reads by (simp_all add: view_simps key_simps)

lemma demo_locked_table: "table_ok (mem_view demo_locked) ''r1'' ''x1'' 2"
  using demo_table unfolding table_ok_def table_tokens_def demo_locked_reads by simp

lemma demo_locked_round: "round_is (mem_view demo_locked) ''x1'' demo_round"
proof -
  let ?fs = "AList.update ''status'' ''locked'' [(''room_id'', ''r1''), (''question'', ''q''),
     (''outcomes'', ''[\"Y\",\"N\"]''), (''status'', ''open''), (''outcome_count'', ''2''), (''lock_at_ms'', ''9000'')]"
  have "decode_round ''x1'' ?fs = Inr demo_round" unfolding demo_round_def by code_simp
  moreover have "round_hash (mem_view demo_locked) ''x1'' = map_of ?fs"
    unfolding demo_locked_reads update_conv' by (simp only: round_hash_def mem_view_sel demo_slots)
  ultimately show ?thesis unfolding round_is_def by metis
qed

lemma demo_locked_status: "round_hash (mem_view demo_locked) ''x1'' ''status'' = Some RoundLocked"
  unfolding demo_locked_reads by (simp add: RoundLocked_def)

lemma demo_locked_total: "hsum (wagers (mem_view demo_locked) ''x1'') = 300"
proof -
  have "amt (Some ''300'') = 300" by code_simp
  then show ?thesis unfolding demo_locked_reads demo_reads by (subst hsum_map_of) simp_all
qed

theorem settle_round_settles_witness:
  "\<exists>ss st s'. SettleRound mem_redis OutboxStream ''x1'' 0 ''k9'' (\<lparr>db = demo_locked, turns = []\<rparr> :: mem world)
      = (Inr st, \<lparr>db = s', turns = []\<rparr>)
    \<and> Settle ss 0 2 = Inr st \<and> hsum (wallets (mem_view s') ''r1'') + Dust st
      = table_tokens (mem_view demo_locked) ''r1'' ''x1''"
proof -
  let ?w = "\<lparr>db = demo_locked, turns = []\<rparr> :: mem world"
  have "\<exists>ss st s'. SettleRound mem_redis OutboxStream ''x1'' 0 ''k9'' ?w = (Inr st, ?w\<lparr>db := s'\<rparr>)
    \<and> in_order (wagers (mem_view (db ?w)) ''x1'') ss \<and> Settle ss 0 2 = Inr st
    \<and> mem_view s' = settled_view OutboxStream ''x1'' ''r1'' ''k9'' 0 (staked ss) st (mem_view (db ?w))
    \<and> hsum (wallets (mem_view s') ''r1'') + Dust st = table_tokens (mem_view (db ?w)) ''r1'' ''x1''
    \<and> (\<forall>u. amt (wallets (mem_view s') ''r1'' u)
         = amt (wallets (mem_view (db ?w)) ''r1'' u) + user_paid (Payouts st) u)"
    by (rule settle_round_settles [OF mem.redis_server_axioms, where rd = demo_round])
      (simp_all add: demo_locked_table demo_locked_round demo_locked_status demo_locked_total max_total_def
        demo_round_room del: mem_view_sel)
  then show ?thesis by auto
qed

theorem refund_round_refunds_witness:
  "\<exists>ss s'. RefundRound mem_redis OutboxStream ''x1'' ''k9'' (\<lparr>db = demo_locked, turns = []\<rparr> :: mem world)
      = (Inr (staked ss), \<lparr>db = s', turns = []\<rparr>)
    \<and> hsum (wallets (mem_view s') ''r1'') = table_tokens (mem_view demo_locked) ''r1'' ''x1''"
proof -
  let ?w = "\<lparr>db = demo_locked, turns = []\<rparr> :: mem world"
  have "\<exists>ss s'. RefundRound mem_redis OutboxStream ''x1'' ''k9'' ?w = (Inr (staked ss), ?w\<lparr>db := s'\<rparr>)
    \<and> in_order (wagers (mem_view (db ?w)) ''x1'') ss
    \<and> staked ss = amt (pools (mem_view (db ?w)) ''x1'' ''total'')
    \<and> mem_view s' = refunded_view OutboxStream ''x1'' ''r1'' ''k9'' (map (prow (user_staked ss)) (first_users ss))
        (staked ss) (mem_view (db ?w))
    \<and> hsum (wallets (mem_view s') ''r1'') = table_tokens (mem_view (db ?w)) ''r1'' ''x1''
    \<and> (\<forall>u. amt (wallets (mem_view s') ''r1'' u)
         = amt (wallets (mem_view (db ?w)) ''r1'' u) + user_staked ss u)"
    by (rule refund_round_refunds [OF mem.redis_server_axioms, where rd = demo_round and n = 2])
      (simp_all add: demo_locked_table demo_locked_round demo_locked_status demo_round_room del: mem_view_sel)
  then show ?thesis by auto
qed

end
