(* ===== verification/StoreSpec.thy ===== *)
theory StoreSpec
  imports SettleSpec
begin

text \<open>
  What the typed operations of \<open>redisstore\<close> return and leave behind when nothing interferes
  (\<open>turns w = []\<close>), in terms of the view: the reads, the writes and the session operations
  the services are composed of.
\<close>

named_theorems quiet_simps \<open>operations of the store in a world without interference\<close>

section \<open>Round trips\<close>

lemma roundtrip_asks [quiet_simps]: "turns w = [] \<Longrightarrow> roundtrip (asks f) w = (Inr (f (db w)), w)"
  by (simp add: roundtrip_def delivered_def eff_simps)

lemma roundtrip_exec [quiet_simps]: "turns w = [] \<Longrightarrow> roundtrip (exec f) w = (Inr (), w\<lparr>db := f (db w)\<rparr>)"
  by (simp add: roundtrip_def delivered_def eff_simps)

lemma hgetall_quiet [quiet_simps]: "turns w = [] \<Longrightarrow> hgetall R k w = (Inr (HGETALL R k (db w)), w)"
  by (simp add: hgetall_def quiet_simps)

lemma want_Some [eff_simps]: "andThen (want (Some a)) k s = k a s"
  by (simp add: want_def eff_simps)

lemma want_run [eff_simps]: "want (Some a) s = (Inr a, s)"
  by (simp add: want_def eff_simps)

lemma attempt_simps [eff_simps]:
  "attempt (ret a) k s = k (Inr a) s" "attempt (raise e) k s = k (Inl e) s"
  by (simp_all add: eff_defs)

lemma andThen_lift_sum [eff_simps]:
  "andThen (lift_sum (Inr a)) k s = k a s" "andThen (lift_sum (Inl e)) k s = (Inl e, s)"
  by (simp_all add: eff_defs)

definition hfield :: "(string \<rightharpoonup> string) \<Rightarrow> string \<Rightarrow> string" where
  "hfield h k = (case h k of None \<Rightarrow> [] | Some x \<Rightarrow> x)"

lemma hfield_Some [simp]: "h k = Some x \<Longrightarrow> hfield h k = x"
  by (simp add: hfield_def)

section \<open>What a hash decodes to\<close>

definition room_is :: "rview \<Rightarrow> string \<Rightarrow> Room \<Rightarrow> bool" where
  "room_is v room rm \<longleftrightarrow> room_hash v room \<noteq> Map.empty \<and> RoomIDOf rm = room
     \<and> hfield (room_hash v room) ''host_id'' = HostID rm
     \<and> ParseInt (hfield (room_hash v room) ''buy_in'') = Some (BuyIn rm)
     \<and> hfield (room_hash v room) ''status'' = RoomStatus rm
     \<and> ParseInt (hfield (room_hash v room) ''created_at'') = Some (RoomCreatedAt rm)"

definition user_is :: "rview \<Rightarrow> string \<Rightarrow> User \<Rightarrow> bool" where
  "user_is v u acct \<longleftrightarrow> hashes v (UserKey u) \<noteq> Map.empty \<and> UserIDOf acct = u
     \<and> hfield (hashes v (UserKey u)) ''email'' = Email acct
     \<and> hfield (hashes v (UserKey u)) ''display_name'' = DisplayName acct
     \<and> hfield (hashes v (UserKey u)) ''password_hash'' = PasswordHash acct
     \<and> ParseInt (hfield (hashes v (UserKey u)) ''balance'') = Some (UserBalance acct)
     \<and> ParseInt (hfield (hashes v (UserKey u)) ''created_at'') = Some (UserCreatedAt acct)"

text \<open>A wallet and an opening stake that hold numbers.\<close>

definition session_is :: "rview \<Rightarrow> string \<Rightarrow> string \<Rightarrow> tokens \<Rightarrow> tokens \<Rightarrow> bool" where
  "session_is v room u opening current \<longleftrightarrow> in64 opening \<and> in64 current
     \<and> hashes v (RoomOpeningKey room) u = Some (itoa opening)
     \<and> wallets v room u = Some (itoa current)"

text \<open>The view after \<open>ClearSession\<close>, \<open>SetBalance\<close> and \<open>JoinRoom\<close>.\<close>

definition cleared_view :: "string \<Rightarrow> string \<Rightarrow> rview \<Rightarrow> rview" where
  "cleared_view room u v =
     v_hash (RoomWalletsKey room) ((wallets v room)(u := None))
       (v_hash (RoomOpeningKey room) ((hashes v (RoomOpeningKey room))(u := None)) v)"

definition balance_view :: "string \<Rightarrow> tokens \<Rightarrow> rview \<Rightarrow> rview" where
  "balance_view u b v = v_hset (UserKey u) [(''balance'', itoa b)] v"

definition if_absent :: "(string \<rightharpoonup> string) \<Rightarrow> string \<Rightarrow> string \<Rightarrow> (string \<rightharpoonup> string)" where
  "if_absent h f x = (if h f = None then h(f \<mapsto> x) else h)"

definition joined_view :: "string \<Rightarrow> string \<Rightarrow> tokens \<Rightarrow> rview \<Rightarrow> rview" where
  "joined_view room u b v =
     v_hash (RoomOpeningKey room) (if_absent (hashes v (RoomOpeningKey room)) u (itoa b))
       (v_hash (RoomWalletsKey room) (if_absent (wallets v room) u (itoa b)) v)"

lemma v_hash_id [simp]: "v_hash k (hashes v k) v = v"
  by (simp add: v_hash_def)

lemma v_hash_other [view_simps]: "j \<noteq> k \<Longrightarrow> v_hash k (hashes v k) (v_hash j h v) = v_hash j h v"
proof -
  assume "j \<noteq> k"
  then have "(hashes v)(j := h, k := hashes v k) = (hashes v)(j := h)" by auto
  then show ?thesis by (simp add: v_hash_def)
qed

context redis_server
begin

lemma HGETALL_field [view_simps]: "field (HGETALL R k s) f = hfield (hashes (view s) k) f"
  by (simp add: field_def hfield_def HGETALL)

lemma HGETALL_nil [view_simps]: "HGETALL R k s = [] \<longleftrightarrow> hashes (view s) k = Map.empty"
  using HGETALL [of k s] map_of_empty_iff by metis

section \<open>Reads\<close>

lemma GetRoom_quiet:
  "turns w = [] \<Longrightarrow> room_is (view (db w)) room rm \<Longrightarrow> GetRoom R room w = (Inr rm, w)"
  by (simp add: GetRoom_def eff_simps quiet_simps view_simps room_is_def room_hash_def)

lemma GetUser_quiet:
  "turns w = [] \<Longrightarrow> user_is (view (db w)) u acct \<Longrightarrow> GetUser R u w = (Inr acct, w)"
  by (simp add: GetUser_def eff_simps quiet_simps view_simps user_is_def)

lemma CurrentRound_quiet:
  "turns w = [] \<Longrightarrow> CurrentRound R room w
     = (case strs (view (db w)) (RoomRoundKey room) of None \<Rightarrow> Inl (Store ErrNotFound) | Some r \<Rightarrow> Inr r, w)"
  by (simp add: CurrentRound_def eff_simps quiet_simps reads split: option.split)

lemma GetRound_missing:
  "turns w = [] \<Longrightarrow> round_hash (view (db w)) rid = Map.empty \<Longrightarrow>
     GetRound R rid w = (Inl (Store ErrNotFound), w)"
  by (simp add: GetRound_def eff_simps quiet_simps view_simps decode_round_def round_hash_def)

lemma read_tokens_quiet:
  "turns w = [] \<Longrightarrow> hashes (view (db w)) k f = Some (itoa n) \<Longrightarrow> in64 n \<Longrightarrow> read_tokens R k f w = (Inr n, w)"
  "turns w = [] \<Longrightarrow> hashes (view (db w)) k f = None \<Longrightarrow> read_tokens R k f w = (Inl (Store ErrNotFound), w)"
  by (simp_all add: read_tokens_def eff_simps quiet_simps reads ParseInt_itoa)

section \<open>Writes\<close>

lemma ClearCurrentRound_quiet:
  "turns w = [] \<Longrightarrow> \<exists>s'. ClearCurrentRound R room w = (Inr (), w\<lparr>db := s'\<rparr>)
     \<and> view s' = v_del (RoomRoundKey room) (view (db w))"
  by (simp add: ClearCurrentRound_def quiet_simps) (intro exI conjI, rule refl, simp add: writes)

lemma ClearSession_quiet:
  assumes "turns w = []"
  shows "\<exists>s'. ClearSession R room u w
      = (Inr (hashes (view (db w)) (RoomOpeningKey room) u \<noteq> None), w\<lparr>db := s'\<rparr>)
    \<and> view s' = cleared_view room u (view (db w))"
proof -
  obtain s1 where s1: "HDEL R (RoomOpeningKey room) u (db w)
      = (if hashes (view (db w)) (RoomOpeningKey room) u = None then 0 else 1, s1)"
    "view s1 = v_hash (RoomOpeningKey room) ((hashes (view (db w)) (RoomOpeningKey room))(u := None)) (view (db w))"
    using HDEL_run by blast
  obtain n s2 where s2: "HDEL R (RoomWalletsKey room) u s1 = (n, s2)"
    "view s2 = v_hash (RoomWalletsKey room) ((hashes (view s1) (RoomWalletsKey room))(u := None)) (view s1)"
    using HDEL_run by blast
  have "view s2 = cleared_view room u (view (db w))"
    by (simp add: s2 s1 cleared_view_def wallets_def view_simps key_simps)
  then show ?thesis using assms
    by (auto simp: ClearSession_def eff_simps s1(1) s2(1) roundtrip_def delivered_def)
qed

lemma SetBalance_quiet:
  assumes "turns w = []" "hashes (view (db w)) (UserKey u) ''balance'' \<noteq> None"
  shows "\<exists>s'. SetBalance R u b w = (Inr (), w\<lparr>db := s'\<rparr>) \<and> view s' = balance_view u b (view (db w))"
  using assms
  by (simp add: SetBalance_def eff_simps quiet_simps reads balance_view_def)
    (intro exI conjI, rule refl, simp add: writes)

lemma JoinRoom_quiet:
  assumes "turns w = []" "0 < b" "in64 b" "wallets (view (db w)) room u = Some (itoa old) \<Longrightarrow> in64 old"
    and "wallets (view (db w)) room u = None \<or> wallets (view (db w)) room u = Some (itoa old)"
  shows "\<exists>s'. JoinRoom R room u b w
      = (Inr (if wallets (view (db w)) room u = None then b else old), w\<lparr>db := s'\<rparr>)
    \<and> view s' = joined_view room u b (view (db w))"
proof -
  define s' where "s' = HSETNX R (RoomOpeningKey room) u (itoa b) (HSETNX R (RoomWalletsKey room) u (itoa b) (db w))"
  have s': "view s' = joined_view room u b (view (db w))"
    by (simp add: s'_def writes joined_view_def if_absent_def wallets_def view_simps key_simps v_hset_def)
  then have "wallets (view s') room u = Some (itoa (if wallets (view (db w)) room u = None then b else old))"
    using assms(5) by (auto simp: joined_view_def if_absent_def wallets_def view_simps key_simps)
  then show ?thesis using assms s'
    by (auto simp: JoinRoom_def eff_simps quiet_simps wallets_def reads ParseInt_itoa simp flip: s'_def)
qed

end

end
