(* ===== verification/Frames.thy ===== *)
theory Frames
  imports Service
begin

text \<open>
  A method of the store touches the database and consumes turns of the environment, nothing
  else: what a service keeps beside them (the payloads sent, the clocks started) is the same
  afterwards, whatever happens on the way. \<open>frame\<close> says so of a method; the rules follow the
  code's structure, so each operation is proved by applying them.
\<close>

named_theorems frame_rules \<open>methods that leave the service's own state alone\<close>

definition frame :: "('s, 'x, 'a) go \<Rightarrow> bool" where
  "frame m \<longleftrightarrow> (\<forall>w. world.more (snd (m w)) = world.more w)"

lemma frameD: "frame m \<Longrightarrow> m w = (r, w') \<Longrightarrow> world.more w' = world.more w"
  unfolding frame_def by (metis snd_conv)

lemma more_service:
  "world.more w' = world.more w \<Longrightarrow> sent w' = sent w"
  "world.more w' = world.more w \<Longrightarrow> clocks w' = clocks w"
  "world.more w' = world.more w \<Longrightarrow> samples w' = samples w"
  by (cases w; cases w'; simp)+

lemma frame_basic [frame_rules]:
  "frame (ret a)" "frame (raise e)" "frame (lift_sum r)" "frame (want x)"
  by (simp_all add: frame_def eff_simps want_def split: option.split)

lemma frame_trips [frame_rules]: "frame (roundtrip f)" "frame (evalsha f)"
  by (auto simp: frame_def roundtrip_def evalsha_def delivered_def Let_def split: list.split turn.split
      prod.split answer.split)

lemma frame_andThen [frame_rules]: "frame m \<Longrightarrow> (\<And>x. frame (k x)) \<Longrightarrow> frame (andThen m k)"
  unfolding frame_def andThen_def by (auto split: prod.split sum.split) (metis snd_conv)+

lemma frame_attempt [frame_rules]: "frame m \<Longrightarrow> (\<And>x. frame (k x)) \<Longrightarrow> frame (attempt m k)"
  unfolding frame_def attempt_def by (auto split: prod.split) (metis snd_conv)

lemma frame_branches [frame_rules]:
  "frame m \<Longrightarrow> frame n \<Longrightarrow> frame (if b then m else n)"
  "frame m \<Longrightarrow> (\<And>x. frame (k x)) \<Longrightarrow> frame (case y of None \<Rightarrow> m | Some x \<Rightarrow> k x)"
  "(\<And>e. frame (h e)) \<Longrightarrow> (\<And>x. frame (k x)) \<Longrightarrow> frame (case z of Inl e \<Rightarrow> h e | Inr x \<Rightarrow> k x)"
  "(\<And>a b. frame (g a b)) \<Longrightarrow> frame (case p of (a, b) \<Rightarrow> g a b)"
  by (auto split: option.split sum.split prod.split)

lemma frame_Let [frame_rules]: "(\<And>x. frame (k x)) \<Longrightarrow> frame (Let y k)"
  by simp

lemma frame_store [frame_rules]:
  "frame (call_script f)" "frame (hgetall R k)"
  unfolding call_script_def hgetall_def by (intro frame_rules)+

lemma frame_accounts [frame_rules]:
  "frame (CreateUser R t u)" "frame (GetUser R i)" "frame (UserByEmail R e)" "frame (SetBalance R i b)"
  "frame (TopUpBalance R i b)" "frame (Allow R m sc i l d)" "frame (Revoke R sc i m)"
  unfolding CreateUser_def GetUser_def UserByEmail_def SetBalance_def TopUpBalance_def Allow_def Revoke_def
  by (intro frame_rules)+

lemma frame_rooms [frame_rules]:
  "frame (CreateRoom R t i c h b)" "frame (RoomByCode R c)" "frame (GetRoom R i)" "frame (JoinRoom R i u b)"
  "frame (ClearSession R i u)" "frame (Balance R i u)" "frame (OpeningStake R i u)" "frame (PlayerCount R i)"
  unfolding CreateRoom_def RoomByCode_def GetRoom_def JoinRoom_def ClearSession_def Balance_def
    OpeningStake_def read_tokens_def PlayerCount_def
  by (intro frame_rules)+

lemma frame_rounds [frame_rules]:
  "frame (CreateRound R i m q os t)" "frame (CurrentRound R m)" "frame (ClearCurrentRound R m)"
  "frame (GetRound R i)" "frame (Pools R i)" "frame (LockRound R i)" "frame (ReadStakes R i)"
  "frame (SettleRound R x i n k)" "frame (RefundRound R x i k)"
  unfolding CreateRound_def CurrentRound_def ClearCurrentRound_def GetRound_def Pools_def LockRound_def
    ReadStakes_def SettleRound_def RefundRound_def
  by (intro frame_rules)+

lemma frame_wagers [frame_rules]:
  "frame (PlaceWager R x rq)" "frame (runWagerPreflightPipeline R m sc u i l d)"
  "frame (WagerPreflight R m m' sc u i l d)"
  unfolding PlaceWager_def runWagerPreflightPipeline_def WagerPreflight_def
  by (intro frame_rules)+

section \<open>What a method announces\<close>

text \<open>
  \<open>speaks m Q\<close>: when \<open>m\<close> fails it has announced nothing, and when it returns \<open>a\<close>, \<open>Q\<close>
  relates \<open>a\<close>, the service's own state before and the world after - in any environment.
\<close>

named_theorems speak_rules \<open>what a service method announces\<close>

definition speaks :: "('s, 'x, 'a) go \<Rightarrow> ('a \<Rightarrow> 'x \<Rightarrow> ('s, 'x) world_scheme \<Rightarrow> bool) \<Rightarrow> bool" where
  "speaks m Q \<longleftrightarrow> (\<forall>w r w'. m w = (r, w') \<longrightarrow>
     (case r of Inl e \<Rightarrow> world.more w' = world.more w | Inr a \<Rightarrow> Q a (world.more w) w'))"

lemma speaksD:
  assumes "speaks m Q" "m w = (r, w')"
  obtains e where "r = Inl e" "world.more w' = world.more w"
  | a where "r = Inr a" "Q a (world.more w) w'"
  using assms unfolding speaks_def by (cases r) (metis sum.simps(5), metis sum.simps(6))

lemma speaks_raise [speak_rules]: "speaks (raise e) Q"
  by (simp add: speaks_def eff_simps)

lemma speaks_attempt [speak_rules]:
  assumes "frame m" "\<And>x. speaks (k x) Q"
  shows "speaks (attempt m k) Q"
  unfolding speaks_def
proof (intro allI impI)
  fix w r w' assume run: "attempt m k w = (r, w')"
  obtain x u where m: "m w = (x, u)" by (cases "m w")
  with run have "k x u = (r, w')" by (simp add: eff_simps)
  with assms(2) have "case r of Inl e \<Rightarrow> world.more w' = world.more u | Inr a \<Rightarrow> Q a (world.more u) w'"
    unfolding speaks_def by blast
  with frameD [OF assms(1) m] show "case r of Inl e \<Rightarrow> world.more w' = world.more w
    | Inr a \<Rightarrow> Q a (world.more w) w'" by (cases r) simp_all
qed

lemma andThen_attempt: "andThen m k = attempt m (\<lambda>x. case x of Inl e \<Rightarrow> raise e | Inr a \<Rightarrow> k a)"
  by (auto simp: andThen_def attempt_def raise_def fun_eq_iff split: prod.split sum.split)

lemma speaks_andThen [speak_rules]:
  assumes "frame m" "\<And>x. speaks (k x) Q"
  shows "speaks (andThen m k) Q"
  unfolding andThen_attempt
  by (rule speaks_attempt [OF assms(1)]) (simp add: assms(2) speaks_raise split: sum.split)

lemma speaks_branches [speak_rules]:
  "speaks m Q \<Longrightarrow> speaks n Q \<Longrightarrow> speaks (if b then m else n) Q"
  "speaks m Q \<Longrightarrow> (\<And>x. speaks (k x) Q) \<Longrightarrow> speaks (case y of None \<Rightarrow> m | Some x \<Rightarrow> k x) Q"
  "(\<And>e. speaks (h e) Q) \<Longrightarrow> (\<And>x. speaks (k x) Q) \<Longrightarrow> speaks (case z of Inl e \<Rightarrow> h e | Inr x \<Rightarrow> k x) Q"
  by (auto split: option.split sum.split)

lemma speaks_mono: "speaks m Q \<Longrightarrow> (\<And>a b w'. Q a b w' \<Longrightarrow> Q' a b w') \<Longrightarrow> speaks m Q'"
  unfolding speaks_def by (auto split: sum.split) (metis sum.simps(5), metis sum.simps(6))

text \<open>One more payload to the room than before.\<close>

definition announced :: "string \<Rightarrow> string \<Rightarrow> event \<Rightarrow> 'x service_ext \<Rightarrow> ('s, 'x) service_scheme \<Rightarrow> bool" where
  "announced room t d before w' \<longleftrightarrow> (\<forall>w :: ('s, 'x) service_scheme.
     world.more w = before \<longrightarrow> sent w' = sent w @ [(room, \<lparr>MsgType = t, MsgData = d\<rparr>)])"

lemma announcedD:
  fixes w w' :: "('s, 'x) service_scheme"
  shows "announced room t d (world.more w) w' \<Longrightarrow> sent w' = sent w @ [(room, \<lparr>MsgType = t, MsgData = d\<rparr>)]"
  by (simp add: announced_def)

lemma speaks_publish:
  "speaks (andThen (publish room t d) (\<lambda>_. ret a)) (\<lambda>a' before w'. a' = a \<and> announced room t d before w')"
  by (auto simp: speaks_def eff_simps announced_def dest: more_service)

end
