(* ===== verification/RoundSpec.thy ===== *)
theory RoundSpec
  imports RoundService StoreSpec WagerBook Frames
begin

text \<open>
  What the round service promises: a round that is opened is stored before it is announced
  and starts with its books in order; resolving it settles it, clears the room's index and
  reveals one row per player; the clock ends every round it watches.
\<close>

section \<open>Opening\<close>

definition created_view :: "string \<Rightarrow> string \<Rightarrow> string \<Rightarrow> string list \<Rightarrow> int \<Rightarrow> rview \<Rightarrow> rview" where
  "created_view rid room question outcomes lockAtMs v =
     v_set (RoomRoundKey room) rid None
       (v_hset (RoundPoolsKey rid) (zero_pools (int (length outcomes)))
         (v_hset (RoundKey rid) (round_fields room question outcomes lockAtMs) v))"

text \<open>An identifier no key of the database mentions yet.\<close>

definition fresh_round :: "rview \<Rightarrow> string \<Rightarrow> bool" where
  "fresh_round v rid \<longleftrightarrow> round_hash v rid = Map.empty \<and> pools v rid = Map.empty
     \<and> wagers v rid = Map.empty \<and> bettors v rid = {}"

definition new_round :: "string \<Rightarrow> string \<Rightarrow> string \<Rightarrow> string list \<Rightarrow> int \<Rightarrow> Round" where
  "new_round rid room question outcomes lockAtMs =
     \<lparr>RoundIDOf = rid, RoundRoom = room, Question = question, Outcomes = outcomes,
      Status = RoundOpen, LockAtMS = lockAtMs, OutcomeCount = int (length outcomes),
      ResolvedOutcome = - 1\<rparr>"

definition wallets_ok :: "(string \<rightharpoonup> string) \<Rightarrow> bool" where
  "wallets_ok h \<longleftrightarrow> finite (dom h) \<and> small_hash h \<and> hsum h < max_amt"

lemma put_all_zero: "put_all (map (\<lambda>i. (f i, c)) is) h k = (if k \<in> f ` set is then Some c else h k)"
  by (induction "is" arbitrary: h) (auto simp: put_all_simps)

lemma put_all_append: "put_all (xs @ ys) h = put_all ys (put_all xs h)"
  by (simp add: put_all_def)

lemma zero_pools_map: "0 \<le> n \<Longrightarrow> put_all (zero_pools n) Map.empty
    = (\<lambda>k. if k \<in> insert ''total'' (itoa ` {0..<n}) then Some (itoa 0) else None)"
proof -
  assume "0 \<le> n"
  have z: "itoa 0 = ''0''" by code_simp
  have "set [0..n - 1] = {0..<n}" by auto
  then show ?thesis
    by (auto simp: zero_pools_def put_all_append put_all_zero put_all_simps PoolTotalField_def fun_eq_iff z)
qed

lemma round_fields_decode:
  assumes "\<forall>x\<in>set outcomes. valid_utf8 x" "in64 lockAtMs" "in64 (int (length outcomes))"
  shows "decode_round rid (round_fields room question outcomes lockAtMs)
    = Inr (new_round rid room question outcomes lockAtMs)"
  using assms
  by (simp add: decode_round_def round_fields_def field_def new_round_def ParseInt_itoa strings_round_trip)

lemma put_all_map_of: "distinct (map fst fs) \<Longrightarrow> put_all fs Map.empty = map_of fs"
proof -
  have "put_all fs h f = (case map_of fs f of None \<Rightarrow> h f | Some x \<Rightarrow> Some x)"
    if "distinct (map fst fs)" for h f
    using that
  proof (induction fs arbitrary: h)
    case (Cons p fs)
    then have "map_of fs (fst p) = None" by (auto simp: map_of_eq_None_iff)
    with Cons show ?case by (cases p) (auto simp: put_all_simps split: option.split)
  qed (simp add: put_all_simps)
  then show "distinct (map fst fs) \<Longrightarrow> put_all fs Map.empty = map_of fs"
    by (auto simp: fun_eq_iff split: option.split)
qed

lemma round_fields_distinct: "distinct (map fst (round_fields room q os t))"
  by (simp add: round_fields_def)

lemma created_view_reads:
  assumes "fresh_round v rid"
  shows "strs (created_view rid room q os t v) = (strs v)(RoomRoundKey room \<mapsto> rid)"
    "round_hash (created_view rid room q os t v) rid = map_of (round_fields room q os t)"
    "pools (created_view rid room q os t v) rid = put_all (zero_pools (int (length os))) Map.empty"
    "wagers (created_view rid room q os t v) rid = Map.empty"
    "bettors (created_view rid room q os t v) rid = {}"
    "wallets (created_view rid room q os t v) r = wallets v r"
  using assms round_fields_distinct [of room q os t] unfolding created_view_def fresh_round_def
  by (simp_all add: table_reads view_simps key_simps put_all_map_of del: put_all_simps)

lemma new_table_ok:
  assumes "fresh_round v rid" "wallets_ok (wallets v room)" "int (length os) \<le> MaxOutcomes"
  shows "table_ok (created_view rid room q os t v) room rid (int (length os))"
proof -
  have "staked_on Map.empty i = 0" for i by (simp add: staked_on_def hsum_def)
  moreover have "amt (Some (itoa 0)) = 0" by (simp add: num_simps in64_def)
  moreover have "hsum Map.empty = 0" by (simp add: hsum_def)
  ultimately show ?thesis using assms
    by (auto simp: table_ok_def table_tokens_def created_view_reads zero_pools_map wallets_ok_def
        round_fields_def small_hash_def max_amt_def split: if_splits)
qed

context redis_server
begin

lemma CreateRound_quiet:
  assumes "turns w = []" "ValidateOutcomeCount (int (length os)) = None"
  shows "\<exists>s'. CreateRound R rid room q os t w = (Inr (), w\<lparr>db := s'\<rparr>)
    \<and> view s' = created_view rid room q os t (view (db w))"
  using assms
  by (simp add: CreateRound_def quiet_simps)
    (intro exI conjI, rule refl, simp add: writes created_view_def)

lemma check_no_round_quiet:
  assumes "turns w = []"
    and "\<forall>r. strs (view (db w)) (RoomRoundKey room) = Some r \<longrightarrow>
           (\<exists>cur. round_is (view (db w)) r cur \<and> IsTerminal (Status cur))"
  shows "check_no_round R room w = (Inr (), w)"
proof (cases "strs (view (db w)) (RoomRoundKey room)")
  case (Some r)
  then obtain cur where "GetRound R r w = (Inr cur, w)" "IsTerminal (Status cur)"
    using assms GetRound_quiet by blast
  with Some assms(1) show ?thesis
    by (simp add: check_no_round_def eff_simps CurrentRound_quiet attempt_eq)
qed (use assms(1) in \<open>simp add: check_no_round_def eff_simps CurrentRound_quiet attempt_eq\<close>)

end

lemma trim_outcomes_length: "trim_outcomes os = Inr ts \<Longrightarrow> length ts = length os \<and> [] \<notin> set ts"
  by (induction os arbitrary: ts) (auto split: if_splits sum.splits)

lemma validate_specD:
  assumes "validate_spec spec = Inr spec'"
  shows "ValidateOutcomeCount (int (length (SpecOutcomes spec'))) = None"
    and "MinLockIn \<le> LockIn spec'" "LockIn spec' \<le> MaxLockIn" "SpecQuestion spec' \<noteq> []"
  using assms by (auto simp: validate_spec_def Let_def trim_outcomes_length split: if_splits sum.splits)

section \<open>Announcing\<close>

context redis_server
begin

lemma CreateRound_Inr:
  assumes "CreateRound R rid room q os t w = (Inr (), u)"
  shows "strs (view (db u)) (RoomRoundKey room) = Some rid
    \<and> round_hash (view (db u)) rid ''status'' = Some RoundOpen
    \<and> round_hash (view (db u)) rid ''room_id'' = Some room"
proof -
  have "ValidateOutcomeCount (int (length os)) = None"
    using assms by (auto simp: CreateRound_def eff_simps split: option.splits)
  then have "roundtrip (exec (\<lambda>s. SET R (RoomRoundKey room) rid (HSET R (RoundPoolsKey rid)
      (zero_pools (int (length os))) (HSET R (RoundKey rid) (round_fields room q os t) s)))) w = (Inr (), u)"
    using assms by (simp add: CreateRound_def)
  then obtain s where "SET R (RoomRoundKey room) rid (HSET R (RoundPoolsKey rid)
      (zero_pools (int (length os))) (HSET R (RoundKey rid) (round_fields room q os t) s)) = db u"
    by (rule roundtrip_Inr) (simp add: eff_simps)
  from this [symmetric] show ?thesis
    by (simp add: writes view_simps table_reads key_simps round_fields_def RoundOpen_def)
qed

lemma Open_speaks:
  "speaks (Open R now rid room caller spec :: ('s, 'x, Opened) svc) (\<lambda>opened before w'.
     announced room ''round_opened'' (OpenedMsg opened) before w' \<and> OpenedRound opened = rid
     \<and> (\<exists>lockAt. OpenedLockAt opened = UnixMilli lockAt
          \<and> (\<forall>w. world.more w = before \<longrightarrow> clocks w' = clocks w @ [(room, rid, lockAt)]))
     \<and> strs (view (db w')) (RoomRoundKey room) = Some rid
     \<and> round_hash (view (db w')) rid ''status'' = Some RoundOpen
     \<and> round_hash (view (db w')) rid ''room_id'' = Some room)" (is "speaks _ ?Q")
proof -
  have last: "speaks (andThen (CreateRound R rid room q os (UnixMilli t)) (\<lambda>_.
      andThen (publish room ''round_opened'' (OpenedMsg opened)) (\<lambda>_.
      andThen (start_clock room rid t) (\<lambda>_. ret opened)))) ?Q"
    if "OpenedRound opened = rid" "OpenedLockAt opened = UnixMilli t" for q os t opened
    unfolding speaks_def
  proof (intro allI impI)
    fix w :: "('s, 'x) service_scheme" and r w'
    assume run: "andThen (CreateRound R rid room q os (UnixMilli t)) (\<lambda>_.
      andThen (publish room ''round_opened'' (OpenedMsg opened)) (\<lambda>_.
      andThen (start_clock room rid t) (\<lambda>_. ret opened))) w = (r, w')"
    obtain x u where x: "CreateRound R rid room q os (UnixMilli t) w = (x, u)" by (meson surj_pair)
    have more: "world.more u = world.more w" 
      by (rule frameD [where m = "CreateRound R rid room q os (UnixMilli t)", OF _ x]) (rule frame_rules)
    show "case r of Inl e \<Rightarrow> world.more w' = world.more w | Inr a \<Rightarrow> ?Q a (world.more w) w'"
    proof (cases x)
      case (Inl e)
      with run x more show ?thesis by (auto simp: eff_simps)
    next
      case (Inr y)
      with run x have r: "r = Inr opened"
        "w' = u\<lparr>sent := sent u @ [(room, \<lparr>MsgType = ''round_opened'', MsgData = OpenedMsg opened\<rparr>)],
           clocks := clocks u @ [(room, rid, t)]\<rparr>"
        by (auto simp: eff_simps)
      have "sent u = sent v" "clocks u = clocks v" if "world.more v = world.more w" for v
        using more that more_service by metis+
      then show ?thesis using r that CreateRound_Inr [of rid room q os "UnixMilli t" w u] x Inr
        by (auto simp: announced_def)
    qed
  qed
  show ?thesis unfolding Open_def Let_def check_no_round_def
    by (intro speak_rules frame_rules last) simp_all
qed

end

lemma Resolve_speaks:
  "speaks (Resolve R outbox key names room caller win :: ('s, 'x, settlement) svc) (\<lambda>st before w'.
     \<exists>rid. announced room ''round_resolved'' (ResolvedMsg \<lparr>ResolvedRound = rid, WinningOutcome = win,
       RevealRows = map (result_row names) (Results st), RevealDust = Dust st,
       RevealRefunded = Refunded st\<rparr>) before w')"
  (is "speaks _ ?Q")
proof -
  have last: "speaks (andThen (publish room ''round_resolved'' (ResolvedMsg \<lparr>ResolvedRound = rid,
      WinningOutcome = win, RevealRows = map (result_row names) (Results st), RevealDust = Dust st,
      RevealRefunded = Refunded st\<rparr>)) (\<lambda>_. ret st)) ?Q" for rid st
    by (rule speaks_mono [OF speaks_publish]) blast
  show ?thesis unfolding Resolve_def by (intro speak_rules frame_rules last)
qed

section \<open>Locking\<close>

definition locked_view :: "string \<Rightarrow> rview \<Rightarrow> rview" where
  "locked_view rid v = v_hset (RoundKey rid) [(''status'', RoundLocked)] v"

lemma locked_view_reads [view_simps]:
  "wallets (locked_view rid v) room = wallets v room" "pools (locked_view rid v) rid = pools v rid"
  "wagers (locked_view rid v) rid = wagers v rid" "bettors (locked_view rid v) x = bettors v x"
  "round_hash (locked_view rid v) rid = (round_hash v rid)(''status'' \<mapsto> RoundLocked)"
  "strs (locked_view rid v) = strs v" "streams (locked_view rid v) = streams v"
  by (simp_all add: locked_view_def table_reads view_simps key_simps)

lemma locked_table_ok: "table_ok (locked_view rid v) room rid n = table_ok v room rid n"
  "table_tokens (locked_view rid v) room rid = table_tokens v room rid"
  by (simp_all add: table_ok_def table_tokens_def view_simps)

lemma locked_round_is: "round_is v rid rd \<Longrightarrow> round_is (locked_view rid v) rid (rd\<lparr>Status := RoundLocked\<rparr>)"
proof -
  assume "round_is v rid rd"
  then obtain fs where fs: "map_of fs = round_hash v rid" "decode_round rid fs = Inr rd"
    by (auto simp: round_is_def)
  have "field ((''status'', RoundLocked) # fs) k = (if k = ''status'' then RoundLocked else field fs k)" for k
    by (simp add: field_def)
  then have "decode_round rid ((''status'', RoundLocked) # fs) = Inr (rd\<lparr>Status := RoundLocked\<rparr>)"
    using fs(2) by (auto simp: decode_round_def split: if_splits option.splits)
  then show ?thesis using fs(1)
    by (auto simp: round_is_def view_simps intro!: exI [of _ "(''status'', RoundLocked) # fs"])
qed

context redis_server
begin

lemma LockRound_open:
  assumes "turns w = []" "round_hash (view (db w)) rid ''status'' = Some RoundOpen"
  shows "\<exists>s'. LockRound R rid w = (Inr (), w\<lparr>db := s'\<rparr>) \<and> view s' = locked_view rid (view (db w))"
proof -
  define s' where "s' = HSET R (RoundKey rid) [(''status'', ''locked'')] (db w)"
  have "lock_round R (RoundKey rid) (db w) = (Inr (table [''OK'']), s')"
    using assms(2) by (simp add: lock_round_def eff_simps reads round_hash_def RoundOpen_def s'_def)
  moreover have "view s' = locked_view rid (view (db w))"
    by (simp add: s'_def writes locked_view_def RoundLocked_def)
  ultimately show ?thesis using call_script_ok [OF _ assms(1)]
    by (auto simp: LockRound_def eff_simps)
qed

lemma LockRound_locked:
  assumes "turns w = []" "round_hash (view (db w)) rid ''status'' = Some RoundLocked"
  shows "LockRound R rid w = (Inr (), w)"
proof -
  have "lock_round R (RoundKey rid) (db w) = (Inr (table [''ALREADY_LOCKED'']), db w)"
    using assms(2) by (simp add: lock_round_def eff_simps reads round_hash_def RoundLocked_def)
  then show ?thesis using call_script_ok [OF _ assms(1)] by (auto simp: LockRound_def eff_simps)
qed

lemma refund_after_grace_quiet:
  assumes "turns w = []" "table_ok (view (db w)) room rid n" "round_is (view (db w)) rid rd"
    and "RoundRoom rd = room" "round_hash (view (db w)) rid ''status'' = Some RoundLocked"
  shows "\<exists>ss s'. refund_after_grace R outbox key room rid w = (Inr (), w\<lparr>db := s',
      sent := sent w @ [(room, \<lparr>MsgType = ''round_refunded'', MsgData =
        RefundedMsg \<lparr>RefundedRound = rid, RefundedTotal = amt (pools (view (db w)) rid ''total'')\<rparr>\<rparr>)]\<rparr>)
    \<and> in_order (wagers (view (db w)) rid) ss
    \<and> view s' = v_del (RoomRoundKey room) (refunded_view outbox rid room key
        (map (prow (user_staked ss)) (first_users ss)) (staked ss) (view (db w)))
    \<and> hsum (wallets (view s') room) = table_tokens (view (db w)) room rid
    \<and> (\<forall>u. amt (wallets (view s') room u) = amt (wallets (view (db w)) room u) + user_staked ss u)"
proof -
  obtain ss s1 where s1: "RefundRound R outbox rid key w = (Inr (staked ss), w\<lparr>db := s1\<rparr>)"
    "in_order (wagers (view (db w)) rid) ss" "staked ss = amt (pools (view (db w)) rid ''total'')"
    "view s1 = refunded_view outbox rid room key (map (prow (user_staked ss)) (first_users ss))
      (staked ss) (view (db w))"
    "hsum (wallets (view s1) room) = table_tokens (view (db w)) room rid"
    "\<forall>u. amt (wallets (view s1) room u) = amt (wallets (view (db w)) room u) + user_staked ss u"
    using RefundRound_quiet [OF assms] by blast
  obtain s2 where s2: "ClearCurrentRound R room (w\<lparr>db := s1\<rparr>) = (Inr (), w\<lparr>db := s2\<rparr>)"
    "view s2 = v_del (RoomRoundKey room) (view s1)"
    using ClearCurrentRound_quiet [of "w\<lparr>db := s1\<rparr>" room] assms(1) by auto
  have "Status rd = RoundLocked" by (rule round_is_sel(1) [OF assms(3,5)])
  then have "refund_after_grace R outbox key room rid w = (Inr (), w\<lparr>db := s2,
      sent := sent w @ [(room, \<lparr>MsgType = ''round_refunded'', MsgData =
        RefundedMsg \<lparr>RefundedRound = rid, RefundedTotal = staked ss\<rparr>\<rparr>)]\<rparr>)"
    using GetRound_quiet [OF assms(1,3)]
    by (simp add: refund_after_grace_def eff_simps s1(1) s2(1) IsTerminal_iff)
  moreover have "wallets (view s2) room = wallets (view s1) room"
    by (simp add: s2 wallets_def view_simps) (simp add: key_defs)
  ultimately show ?thesis using s1 s2(2)
    by (intro exI [of _ ss] exI [of _ s2]) (simp add: s1(3))
qed

lemma watch_quiet:
  assumes "turns w = []" "table_ok (view (db w)) room rid n" "round_is (view (db w)) rid rd"
    and "RoundRoom rd = room" "round_hash (view (db w)) rid ''status'' \<in> {Some RoundOpen, Some RoundLocked}"
  shows "\<exists>ss s'. watch R outbox key True True room rid w = (Inr (), w\<lparr>db := s',
      sent := sent w @ [(room, \<lparr>MsgType = ''round_locked'', MsgData = LockedMsg \<lparr>LockedRound = rid\<rparr>\<rparr>),
        (room, \<lparr>MsgType = ''round_refunded'', MsgData =
        RefundedMsg \<lparr>RefundedRound = rid, RefundedTotal = amt (pools (view (db w)) rid ''total'')\<rparr>\<rparr>)]\<rparr>)
    \<and> in_order (wagers (view (db w)) rid) ss
    \<and> view s' = v_del (RoomRoundKey room) (refunded_view outbox rid room key
        (map (prow (user_staked ss)) (first_users ss)) (staked ss) (locked_view rid (view (db w))))
    \<and> hsum (wallets (view s') room) = table_tokens (view (db w)) room rid
    \<and> (\<forall>u. amt (wallets (view s') room u) = amt (wallets (view (db w)) room u) + user_staked ss u)"
proof -
  obtain s1 where s1: "LockRound R rid w = (Inr (), w\<lparr>db := s1\<rparr>)" "view s1 = locked_view rid (view (db w))"
  proof (cases "round_hash (view (db w)) rid ''status'' = Some RoundOpen")
    case True
    with LockRound_open [OF assms(1)] that show ?thesis by blast
  next
    case False
    then have l: "round_hash (view (db w)) rid ''status'' = Some RoundLocked" using assms(5) by simp
    then have "locked_view rid (view (db w)) = view (db w)"
      by (simp add: locked_view_def v_hset_def put_all_simps round_hash_def fun_upd_idem)
    with that [of "db w"] LockRound_locked [OF assms(1) l] show ?thesis by simp
  qed
  define w1 where "w1 = w\<lparr>db := s1, sent := sent w @
    [(room, \<lparr>MsgType = ''round_locked'', MsgData = LockedMsg \<lparr>LockedRound = rid\<rparr>\<rparr>)]\<rparr>"
  have "turns w1 = []" "view (db w1) = locked_view rid (view (db w))"
    by (simp_all add: w1_def assms(1) s1(2))
  then have "\<exists>ss s'. refund_after_grace R outbox key room rid w1 = (Inr (), w1\<lparr>db := s',
      sent := sent w1 @ [(room, \<lparr>MsgType = ''round_refunded'', MsgData =
        RefundedMsg \<lparr>RefundedRound = rid, RefundedTotal = amt (pools (view (db w)) rid ''total'')\<rparr>\<rparr>)]\<rparr>)
    \<and> in_order (wagers (view (db w)) rid) ss
    \<and> view s' = v_del (RoomRoundKey room) (refunded_view outbox rid room key
        (map (prow (user_staked ss)) (first_users ss)) (staked ss) (locked_view rid (view (db w))))
    \<and> hsum (wallets (view s') room) = table_tokens (view (db w)) room rid
    \<and> (\<forall>u. amt (wallets (view s') room u) = amt (wallets (view (db w)) room u) + user_staked ss u)"
    using refund_after_grace_quiet [of w1 room rid n "rd\<lparr>Status := RoundLocked\<rparr>" outbox key] assms(2-4)
    by (simp add: locked_table_ok locked_round_is view_simps)
  moreover have "watch R outbox key True True room rid w = refund_after_grace R outbox key room rid w1"
    by (simp add: watch_def eff_simps s1(1) w1_def)
  ultimately show ?thesis by (simp add: w1_def)
qed

end

section \<open>Properties\<close>

text \<open>
  C13. Opening a round. When the host asks with a valid specification and the room has no round
  in progress, \<open>Open\<close> stores the round and makes it current, then announces it once and
  starts its clock; reading the round back gives what was asked for, open, and its books are
  in order with no wallet touched - so every promise about wagers and settlement applies to it.
\<close>

theorem open_round_opens:
  fixes w :: "('s, 'x) service_scheme"
  assumes "redis_server R view" and "turns w = []" and "room_is (view (db w)) room rm"
    and "HostID rm = caller" "validate_spec spec = Inr spec'"
    and "\<forall>r. strs (view (db w)) (RoomRoundKey room) = Some r \<longrightarrow>
           (\<exists>cur. round_is (view (db w)) r cur \<and> IsTerminal (Status cur))"
    and "fresh_round (view (db w)) rid" "wallets_ok (wallets (view (db w)) room)"
    and "\<forall>x\<in>set (SpecOutcomes spec'). valid_utf8 x" "in64 (UnixMilli (now + LockIn spec'))"
  shows "\<exists>s'. Open R now rid room caller spec w =
      (Inr \<lparr>OpenedRound = rid, OpenedQuestion = SpecQuestion spec', OpenedOutcomes = SpecOutcomes spec',
            OpenedLockAt = UnixMilli (now + LockIn spec')\<rparr>,
       w\<lparr>db := s', sent := sent w @ [(room, \<lparr>MsgType = ''round_opened'', MsgData = OpenedMsg
            \<lparr>OpenedRound = rid, OpenedQuestion = SpecQuestion spec', OpenedOutcomes = SpecOutcomes spec',
             OpenedLockAt = UnixMilli (now + LockIn spec')\<rparr>\<rparr>)],
         clocks := clocks w @ [(room, rid, now + LockIn spec')]\<rparr>)
    \<and> strs (view s') (RoomRoundKey room) = Some rid
    \<and> round_is (view s') rid (new_round rid room (SpecQuestion spec') (SpecOutcomes spec')
         (UnixMilli (now + LockIn spec')))
    \<and> table_ok (view s') room rid (int (length (SpecOutcomes spec')))
    \<and> wallets (view s') room = wallets (view (db w)) room"
proof -
  let ?os = "SpecOutcomes spec'" and ?t = "UnixMilli (now + LockIn spec')" and ?q = "SpecQuestion spec'"
  note server = assms(1) and valid = validate_specD [OF assms(5)]
  have len: "int (length ?os) \<le> MaxOutcomes"
    using valid(1) by (auto simp: ValidateOutcomeCount_def split: if_splits)
  obtain s' where s': "CreateRound R rid room ?q ?os ?t w = (Inr (), w\<lparr>db := s'\<rparr>)"
    "view s' = created_view rid room ?q ?os ?t (view (db w))"
    using redis_server.CreateRound_quiet [OF server assms(2) valid(1)] by blast
  have "Open R now rid room caller spec w =
      (Inr \<lparr>OpenedRound = rid, OpenedQuestion = ?q, OpenedOutcomes = ?os, OpenedLockAt = ?t\<rparr>,
       w\<lparr>db := s', sent := sent w @ [(room, \<lparr>MsgType = ''round_opened'', MsgData = OpenedMsg
          \<lparr>OpenedRound = rid, OpenedQuestion = ?q, OpenedOutcomes = ?os, OpenedLockAt = ?t\<rparr>\<rparr>)],
         clocks := clocks w @ [(room, rid, now + LockIn spec')]\<rparr>)"
    by (simp add: Open_def eff_simps redis_server.GetRoom_quiet [OF server assms(2,3)] assms(4,5)
        redis_server.check_no_round_quiet [OF server assms(2,6)] s'(1) Let_def)
  moreover have "round_is (view s') rid (new_round rid room ?q ?os ?t)"
    unfolding round_is_def s'(2) created_view_reads(2) [OF assms(7)]
    using round_fields_decode [OF assms(9,10)] len
    by (intro exI [of _ "round_fields room ?q ?os ?t"]) (simp add: in64_def MaxOutcomes_def)
  moreover have "table_ok (view s') room rid (int (length ?os))"
    unfolding s'(2) by (rule new_table_ok [OF assms(7,8) len])
  ultimately show ?thesis by (auto simp: s'(2) created_view_reads [OF assms(7)])
qed

text \<open>
  Nothing is announced that is not stored. In any environment - other clients acting
  between the calls, replies lost - when \<open>Open\<close> fails it has sent no message and started no
  clock, and when it succeeds it has sent exactly one, at a moment when the database holds the
  round, open, as the room's current one.
\<close>

theorem open_announces_stored:
  fixes w :: "('s, 'x) service_scheme"
  assumes "redis_server R view" and "Open R now rid room caller spec w = (r, w')"
  shows "(\<exists>e. r = Inl e \<and> sent w' = sent w \<and> clocks w' = clocks w)
    \<or> (\<exists>opened lockAt. r = Inr opened
        \<and> sent w' = sent w @ [(room, \<lparr>MsgType = ''round_opened'', MsgData = OpenedMsg opened\<rparr>)]
        \<and> clocks w' = clocks w @ [(room, rid, lockAt)]
        \<and> OpenedRound opened = rid \<and> OpenedLockAt opened = UnixMilli lockAt
        \<and> strs (view (db w')) (RoomRoundKey room) = Some rid
        \<and> round_hash (view (db w')) rid ''status'' = Some RoundOpen)"
  using redis_server.Open_speaks [OF assms(1), unfolded speaks_def, rule_format, OF assms(2)]
    more_service(1,2) [of w' w]
  by (cases r) (auto dest!: announcedD)


text \<open>
  No early reveal. In any environment, a \<open>Resolve\<close> that fails sends nothing, and one that
  succeeds sends exactly one message, whose rows are those of the settlement it returns.
\<close>

theorem resolve_fails_silently:
  fixes w :: "('s, 'x) service_scheme"
  assumes "Resolve R outbox key names room caller win w = (r, w')"
  shows "(\<exists>e. r = Inl e \<and> sent w' = sent w)
    \<or> (\<exists>st rid. r = Inr st \<and> sent w' = sent w @ [(room, \<lparr>MsgType = ''round_resolved'', MsgData = ResolvedMsg
        \<lparr>ResolvedRound = rid, WinningOutcome = win, RevealRows = map (result_row names) (Results st),
         RevealDust = Dust st, RevealRefunded = Refunded st\<rparr>\<rparr>)])"
  using Resolve_speaks [unfolded speaks_def, rule_format, OF assms] more_service(1) [of w' w]
  by (cases r) (auto dest!: announcedD)


section \<open>Witnesses\<close>

definition demo_service :: "mem \<Rightarrow> mem service" where
  "demo_service s = \<lparr>db = s, turns = [], sent = [], clocks = [], samples = []\<rparr>"

lemma demo_service_sel [simp]:
  "db (demo_service s) = s" "turns (demo_service s) = []" "sent (demo_service s) = []"
  "clocks (demo_service s) = []"
  by (simp_all add: demo_service_def)

definition demo_room :: Room where
  "demo_room = \<lparr>RoomIDOf = ''r1'', HostID = ''h'', BuyIn = 1000, RoomStatus = [], RoomCreatedAt = 5\<rparr>"

lemma demo_room_is: "room_is (mem_view demo) ''r1'' demo_room"
proof -
  have "ParseInt ''1000'' = Some 1000" "ParseInt ''5'' = Some 5" by code_simp+
  then show ?thesis
    by (simp add: room_is_def demo_room_def room_hash_def demo_slots hfield_def)
qed

lemma demo_room_host: "HostID demo_room = ''h''"
  by (simp add: demo_room_def)

lemma demo_locked_room_is: "room_is (mem_view demo_locked) ''r1'' demo_room"
  using demo_room_is
  by (simp add: demo_locked_view room_is_def room_hash_def view_simps key_simps del: mem_view_sel)


theorem resolve_fails_silently_witness:
  "fst (Resolve mem_redis OutboxStream ''k9'' Map.empty ''r1'' ''a'' 0 (demo_service demo)) = Inl (Round ErrNotHost)
    \<and> sent (snd (Resolve mem_redis OutboxStream ''k9'' Map.empty ''r1'' ''a'' 0 (demo_service demo))) = []"
proof -
  obtain r w' where r: "Resolve mem_redis OutboxStream ''k9'' Map.empty ''r1'' ''a'' 0 (demo_service demo) = (r, w')"
    by (meson surj_pair)
  have "r = Inl (Round ErrNotHost)"
    using r mem.GetRoom_quiet [of "demo_service demo" "''r1''" demo_room] demo_room_is
    by (simp add: Resolve_def eff_simps demo_room_def del: mem_view_sel)
  with resolve_fails_silently [OF r] r show ?thesis by simp
qed


definition demo_spec :: Spec where
  "demo_spec = \<lparr>SpecQuestion = ''Next?'', SpecOutcomes = [''Y'', ''N''], LockIn = 5 * 10 ^ 9\<rparr>"

definition demo_idle :: mem where
  "demo_idle = mem_del (RoomRoundKey ''r1'') demo"

lemma demo_idle_reads:
  "strs (mem_view demo_idle) (RoomRoundKey ''r1'') = None"
  "wallets (mem_view demo_idle) ''r1'' = wallets (mem_view demo) ''r1''"
  "room_is (mem_view demo_idle) ''r1'' rm = room_is (mem_view demo) ''r1'' rm"
  unfolding demo_idle_def mem_view_del
  by (simp_all add: view_simps wallets_def room_is_def room_hash_def key_defs del: mem_view_sel)

lemma demo_wallets_ok: "wallets_ok (wallets (mem_view demo) ''r1'')"
  using demo_table hsum_nonneg [of "wagers (mem_view demo) ''x1''"]
  by (auto simp: wallets_ok_def table_ok_def table_tokens_def simp del: mem_view_sel)

lemma demo_fresh_round: "fresh_round (mem_view demo_idle) ''x2''"
proof -
  have "RoomRoundKey ''r1'' \<noteq> RoundKey x" "RoomRoundKey ''r1'' \<noteq> RoundPoolsKey x"
    "RoomRoundKey ''r1'' \<noteq> RoundWagersKey x" "RoomRoundKey ''r1'' \<noteq> RoundBettorsKey x" for x
    by (simp_all add: key_defs)
  then have keys: "RoundKey x \<noteq> RoomRoundKey ''r1''" "RoundPoolsKey x \<noteq> RoomRoundKey ''r1''"
    "RoundWagersKey x \<noteq> RoomRoundKey ''r1''" "RoundBettorsKey x \<noteq> RoomRoundKey ''r1''" for x
    by metis+
  show ?thesis unfolding demo_idle_def mem_view_del
    by (simp add: fresh_round_def table_reads view_simps keys) (simp add: slot_def demo_def key_simps plain_id_def)
qed

theorem open_round_opens_witness:
  "\<exists>s'. Open mem_redis 0 ''x2'' ''r1'' ''h'' demo_spec (demo_service demo_idle)
      = (Inr \<lparr>OpenedRound = ''x2'', OpenedQuestion = ''Next?'', OpenedOutcomes = [''Y'', ''N''], OpenedLockAt = 5000\<rparr>,
         (demo_service demo_idle)\<lparr>db := s', sent := [(''r1'', \<lparr>MsgType = ''round_opened'', MsgData = OpenedMsg
            \<lparr>OpenedRound = ''x2'', OpenedQuestion = ''Next?'', OpenedOutcomes = [''Y'', ''N''], OpenedLockAt = 5000\<rparr>\<rparr>)],
           clocks := [(''r1'', ''x2'', 5 * 10 ^ 9)]\<rparr>)
    \<and> table_ok (mem_view s') ''r1'' ''x2'' 2"
proof -
  have "TrimSpace ''Next?'' = ''Next?''" "TrimSpace ''Y'' = ''Y''" "TrimSpace ''N'' = ''N''"
    by (rule TrimSpace_id, simp add: printable_def)+
  then have spec: "validate_spec demo_spec = Inr demo_spec"
    by (simp add: validate_spec_def demo_spec_def ValidateOutcomeCount_def MinOutcomes_def MaxOutcomes_def
        MinLockIn_def MaxLockIn_def)
  have "valid_utf8 ''Y''" "valid_utf8 ''N''" by code_simp+
  then have utf: "\<forall>x\<in>set (SpecOutcomes demo_spec). valid_utf8 x" by (simp add: demo_spec_def)
  have ms: "UnixMilli (0 + LockIn demo_spec) = 5000" by (simp add: UnixMilli_def demo_spec_def)
  show ?thesis
    using open_round_opens [OF mem.redis_server_axioms, of "demo_service demo_idle" "''r1''" demo_room "''h''"
        demo_spec demo_spec "''x2''" 0] spec utf ms demo_fresh_round demo_wallets_ok demo_room_is
    by (auto simp: demo_idle_reads demo_room_host in64_def demo_spec_def simp del: mem_view_sel)
qed

theorem open_announces_stored_witness:
  "sent (snd (Open mem_redis 0 ''x2'' ''r1'' ''a'' demo_spec (demo_service demo))) = []"
proof -
  obtain r w' where r: "Open mem_redis 0 ''x2'' ''r1'' ''a'' demo_spec (demo_service demo) = (r, w')"
    by (meson surj_pair)
  have "r = Inl (Round ErrNotHost)"
    using r mem.GetRoom_quiet [of "demo_service demo" "''r1''" demo_room] demo_room_is
    by (simp add: Open_def eff_simps demo_room_host del: mem_view_sel)
  with open_announces_stored [OF mem.redis_server_axioms r] r show ?thesis by simp
qed

end
