(* ===== verification/Grace.thy ===== *)
theory Grace
  imports Prelude
begin

text \<open>
  \<open>round/grace.go\<close>: the window a disconnected player has to come back before the session is
  folded. The map of pending ends is guarded by a mutex, so each critical section is one step;
  a goroutine is an entry of \<open>waiting\<close> until it returns. A channel is a number, never
  reused.
\<close>

section \<open>State and operations\<close>

record grace =
  pending :: "string \<rightharpoonup> nat"
  closed :: "nat set"
  waiting :: "(nat \<times> string \<times> string) set"
  fresh :: nat
  stopped :: bool

definition sessionKey :: "string \<Rightarrow> string \<Rightarrow> string" where
  "sessionKey roomID userID = roomID @ [CHR 0x00] @ userID"

text \<open>\<open>close(prev)\<close>, when there is one.\<close>

definition close_chan :: "nat option \<Rightarrow> nat set \<Rightarrow> nat set" where
  "close_chan c cs = (case c of None \<Rightarrow> cs | Some d \<Rightarrow> insert d cs)"

definition ScheduleEndSession :: "string \<Rightarrow> string \<Rightarrow> bool \<Rightarrow> grace \<Rightarrow> grace" where
  "ScheduleEndSession roomID userID guest s =
     (if guest then s
      else let key = sessionKey roomID userID; done' = fresh s
        in s\<lparr>closed := close_chan (pending s key) (closed s), pending := (pending s)(key \<mapsto> done'),
             waiting := insert (done', roomID, userID) (waiting s), fresh := Suc done'\<rparr>)"

definition ResumeSession :: "string \<Rightarrow> string \<Rightarrow> grace \<Rightarrow> grace" where
  "ResumeSession roomID userID s =
     (let key = sessionKey roomID userID in
      case pending s key of None \<Rightarrow> s
      | Some d \<Rightarrow> s\<lparr>closed := insert d (closed s), pending := (pending s)(key := None)\<rparr>)"

text \<open>
  A goroutine whose timer fired: it folds the session only if the pending entry is still its
  own. The second component says whether it calls \<open>EndSession\<close>.
\<close>

definition window_elapsed :: "nat \<Rightarrow> string \<Rightarrow> string \<Rightarrow> grace \<Rightarrow> grace \<times> bool" where
  "window_elapsed done' roomID userID s =
     (let key = sessionKey roomID userID; s = s\<lparr>waiting := waiting s - {(done', roomID, userID)}\<rparr> in
      if pending s key \<noteq> Some done' then (s, False)
      else (s\<lparr>pending := (pending s)(key := None)\<rparr>, True))"

section \<open>Runs\<close>

text \<open>
  What the log of a run records. A \<open>select\<close> with several ready cases may take any of
  them, so a timer may win over a closed channel.
\<close>

datatype session_event =
    Scheduled nat string string
  | Resumed string string
  | Folded nat string string

inductive session_run :: "grace \<Rightarrow> session_event list \<Rightarrow> bool" where
  start: "session_run \<lparr>pending = Map.empty, closed = {}, waiting = {}, fresh = 0, stopped = False\<rparr> []"
| schedule: "session_run s es \<Longrightarrow>
    session_run (ScheduleEndSession r u False s) (es @ [Scheduled (fresh s) r u])"
| guest: "session_run s es \<Longrightarrow> session_run (ScheduleEndSession r u True s) es"
| resume: "session_run s es \<Longrightarrow> session_run (ResumeSession r u s) (es @ [Resumed r u])"
| cancelled: "session_run s es \<Longrightarrow> (d, r, u) \<in> waiting s \<Longrightarrow> d \<in> closed s \<or> stopped s \<Longrightarrow>
    session_run (s\<lparr>waiting := waiting s - {(d, r, u)}\<rparr>) es"
| elapsed: "session_run s es \<Longrightarrow> (d, r, u) \<in> waiting s \<Longrightarrow> window_elapsed d r u s = (s', folds) \<Longrightarrow>
    session_run s' (es @ (if folds then [Folded d r u] else []))"
| shutdown: "session_run s es \<Longrightarrow> session_run (s\<lparr>stopped := True\<rparr>) es"

section \<open>What the log says of a player\<close>

fun about :: "string \<Rightarrow> string \<Rightarrow> session_event \<Rightarrow> bool" where
  "about r u (Scheduled d r' u') \<longleftrightarrow> r = r' \<and> u = u'"
| "about r u (Resumed r' u') \<longleftrightarrow> r = r' \<and> u = u'"
| "about r u (Folded d r' u') \<longleftrightarrow> r = r' \<and> u = u'"

text \<open>The last event about a player's session in a room.\<close>

definition latest :: "session_event list \<Rightarrow> string \<Rightarrow> string \<Rightarrow> session_event option" where
  "latest es r u = find (about r u) (rev es)"

lemma latest_snoc [simp]: "latest (es @ [e]) r u = (if about r u e then Some e else latest es r u)"
  by (simp add: latest_def)

lemma latest_Nil [simp]: "latest [] r u = None"
  by (simp add: latest_def)

lemma latest_in: "latest es r u = Some e \<Longrightarrow> e \<in> set es \<and> about r u e"
  unfolding latest_def by (auto simp: find_Some_iff) (metis nth_mem length_rev set_rev)

text \<open>Every fold was the player's latest schedule, not resumed since.\<close>

fun folds_justified :: "session_event list \<Rightarrow> session_event list \<Rightarrow> bool" where
  "folds_justified past [] \<longleftrightarrow> True"
| "folds_justified past (e # es) \<longleftrightarrow>
     (case e of Folded d r u \<Rightarrow> latest past r u = Some (Scheduled d r u) | _ \<Rightarrow> True)
     \<and> folds_justified (past @ [e]) es"

lemma folds_justified_snoc: "folds_justified past (es @ [e]) \<longleftrightarrow> folds_justified past es
    \<and> (case e of Folded d r u \<Rightarrow> latest (past @ es) r u = Some (Scheduled d r u) | _ \<Rightarrow> True)"
  by (induction es arbitrary: past) (auto split: session_event.split)

lemmas grace_ops = ScheduleEndSession_def ResumeSession_def window_elapsed_def Let_def

text \<open>The pending entry of a key is that of a player whose latest event is that schedule.\<close>

definition pending_ok :: "grace \<Rightarrow> session_event list \<Rightarrow> bool" where
  "pending_ok s es \<longleftrightarrow> (\<forall>key d. pending s key = Some d \<longrightarrow>
     (\<exists>r u. key = sessionKey r u \<and> latest es r u = Some (Scheduled d r u)))
   \<and> (\<forall>d r u. (d, r, u) \<in> waiting s \<longrightarrow> Scheduled d r u \<in> set es)
   \<and> (\<forall>d r u. Scheduled d r u \<in> set es \<longrightarrow> d < fresh s)
   \<and> (\<forall>d r u r' u'. Scheduled d r u \<in> set es \<longrightarrow> Scheduled d r' u' \<in> set es \<longrightarrow> r = r' \<and> u = u')"

lemma pending_ok_run: "session_run s es \<Longrightarrow> pending_ok s es \<and> folds_justified [] es"
proof (induction rule: session_run.induct)
  case start
  then show ?case by (simp add: pending_ok_def)
next
  case (schedule s es r u)
  then have "Scheduled d r' u' \<in> set es \<Longrightarrow> d < fresh s" for d r' u'
    unfolding pending_ok_def by blast
  then have "Scheduled (fresh s) r' u' \<notin> set es" for r' u' by (metis less_irrefl)
  with schedule show ?case
    by (auto simp: pending_ok_def grace_ops folds_justified_snoc) (metis less_SucI)+
next
  case (guest s es r u)
  then show ?case by (simp add: grace_ops)
next
  case (resume s es r u)
  let ?s = "ResumeSession r u s"
  have sub: "pending s key = Some d \<and> key \<noteq> sessionKey r u" if "pending ?s key = Some d" for key d
    using that by (auto simp: grace_ops split: option.splits if_splits)
  have "\<exists>r' u'. key = sessionKey r' u' \<and> latest (es @ [Resumed r u]) r' u' = Some (Scheduled d r' u')"
    if p: "pending ?s key = Some d" for key d
  proof -
    obtain r' u' where k: "key = sessionKey r' u'" "latest es r' u' = Some (Scheduled d r' u')"
      using sub [OF p] resume.IH unfolding pending_ok_def by blast
    moreover have "\<not> (r' = r \<and> u' = u)" using k sub [OF p] by auto
    ultimately show ?thesis by (intro exI [of _ r'] exI [of _ u']) simp
  qed
  moreover have "waiting ?s = waiting s" "fresh ?s = fresh s" by (simp_all add: grace_ops split: option.split)
  ultimately show ?case using resume.IH by (simp add: pending_ok_def folds_justified_snoc)
next
  case (cancelled s es d r u)
  then show ?case by (auto simp: pending_ok_def)
next
  case (elapsed s es d r u s' folds)
  show ?case
  proof (cases "pending s (sessionKey r u) = Some d")
    case True
    then obtain r' u' where k: "sessionKey r u = sessionKey r' u'" "latest es r' u' = Some (Scheduled d r' u')"
      using elapsed.IH unfolding pending_ok_def by blast
    moreover have sched: "Scheduled d r u \<in> set es" using elapsed unfolding pending_ok_def by blast
    ultimately have "r' = r" "u' = u"
      using elapsed.IH latest_in [OF k(2)] unfolding pending_ok_def by blast+
    with k elapsed True show ?thesis
      by (auto simp: pending_ok_def grace_ops folds_justified_snoc split: if_splits) metis+
  next
    case False
    then have "s' = s\<lparr>waiting := waiting s - {(d, r, u)}\<rparr>" "\<not> folds"
      using elapsed.hyps(3) by (auto simp: grace_ops)
    with elapsed.IH show ?thesis by (simp add: pending_ok_def)
  qed
next
  case (shutdown s es)
  then show ?case by (simp add: pending_ok_def)
qed

section \<open>No fold is lost\<close>

lemma sessionKey_inj:
  assumes "CHR 0x00 \<notin> set r" "CHR 0x00 \<notin> set r'" "sessionKey r u = sessionKey r' u'"
  shows "r = r' \<and> u = u'"
proof -
  have "r = takeWhile (\<lambda>c. c \<noteq> CHR 0x00) (sessionKey r u)" if "CHR 0x00 \<notin> set r" for r u
  proof -
    have "\<forall>c\<in>set r. c \<noteq> CHR 0x00" using that by blast
    then show ?thesis unfolding sessionKey_def by (subst takeWhile_append2) auto
  qed
  with assms have "r = r'" by metis
  with assms(3) show ?thesis by (simp add: sessionKey_def)
qed

fun room_of :: "session_event \<Rightarrow> string" where
  "room_of (Scheduled d r u) = r" | "room_of (Resumed r u) = r" | "room_of (Folded d r u) = r"

definition rooms_plain :: "session_event list \<Rightarrow> bool" where
  "rooms_plain es \<longleftrightarrow> (\<forall>e\<in>set es. CHR 0x00 \<notin> set (room_of e))"

definition fold_due :: "grace \<Rightarrow> nat \<Rightarrow> string \<Rightarrow> string \<Rightarrow> bool" where
  "fold_due s d r u \<longleftrightarrow> pending s (sessionKey r u) = Some d
     \<and> (\<not> stopped s \<longrightarrow> (d, r, u) \<in> waiting s \<and> d \<notin> closed s)"

text \<open>Channels in use are below \<open>fresh\<close>, and only one key holds a given one.\<close>

definition channels_ok :: "grace \<Rightarrow> bool" where
  "channels_ok s \<longleftrightarrow> (\<forall>d\<in>closed s. d < fresh s) \<and> (\<forall>k d. pending s k = Some d \<longrightarrow> d < fresh s \<and> d \<notin> closed s)
     \<and> (\<forall>k k' d. pending s k = Some d \<longrightarrow> pending s k' = Some d \<longrightarrow> k = k')"

lemma channels_ok_run: "session_run s es \<Longrightarrow> channels_ok s"
proof (induction rule: session_run.induct)
  case (elapsed s es d r u s' folds)
  then show ?case
    by (auto simp: channels_ok_def window_elapsed_def Let_def split: if_splits)
qed (auto simp: channels_ok_def grace_ops close_chan_def less_Suc_eq split: option.splits)

lemma fold_due_run:
  "session_run s es \<Longrightarrow> rooms_plain es \<Longrightarrow> latest es r u = Some (Scheduled d r u) \<Longrightarrow> fold_due s d r u"
proof (induction arbitrary: d r u rule: session_run.induct)
  case (schedule s es r' u')
  have chan: "channels_ok s" by (rule channels_ok_run) fact
  show ?case
  proof (cases "about r u (Scheduled (fresh s) r' u')")
    case True
    then show ?thesis using schedule.prems chan
      by (auto simp: fold_due_def grace_ops channels_ok_def close_chan_def split: option.splits)
  next
    case False
    have due: "fold_due s d r u"
      by (rule schedule.IH) (use schedule.prems False in \<open>auto simp: rooms_plain_def split: if_splits\<close>)
    have "Scheduled d r u \<in> set es" using schedule.prems(2) False latest_in [of es r u] by (auto split: if_splits)
    then have "sessionKey r u \<noteq> sessionKey r' u'"
      using sessionKey_inj [of r r' u u'] schedule.prems(1) False by (force simp: rooms_plain_def)
    with due chan show ?thesis
      by (auto simp: fold_due_def grace_ops channels_ok_def close_chan_def split: option.splits)
  qed
next
  case (resume s es r' u')
  have chan: "channels_ok s" by (rule channels_ok_run) fact
  have na: "\<not> about r u (Resumed r' u')" using resume.prems by (auto split: if_splits)
  have due: "fold_due s d r u"
    by (rule resume.IH) (use resume.prems na in \<open>auto simp: rooms_plain_def split: if_splits\<close>)
  have "Scheduled d r u \<in> set es" using resume.prems(2) na latest_in [of es r u] by (auto split: if_splits)
  then have "sessionKey r u \<noteq> sessionKey r' u'"
    using sessionKey_inj [of r r' u u'] resume.prems(1) na by (force simp: rooms_plain_def)
  with due chan show ?case
    by (auto simp: fold_due_def grace_ops channels_ok_def split: option.splits)
next
  case (elapsed s es d' r' u' s' folds)
  have plain: "rooms_plain es" using elapsed.prems(1) by (auto simp: rooms_plain_def)
  have sched: "Scheduled d' r' u' \<in> set es"
    using pending_ok_run [OF elapsed.hyps(1)] elapsed.hyps(2) by (auto simp: pending_ok_def)
  show ?case
  proof (cases "folds \<and> about r u (Folded d' r' u')")
    case True
    then show ?thesis using elapsed.prems by simp
  next
    case False
    have l: "latest es r u = Some (Scheduled d r u)" using elapsed.prems(2) False by (auto split: if_splits)
    have due: "fold_due s d r u" by (rule elapsed.IH [OF plain l])
    have ne: "sessionKey r u \<noteq> sessionKey r' u'" if folds
    proof
      assume k: "sessionKey r u = sessionKey r' u'"
      have "Scheduled d r u \<in> set es" using latest_in [OF l] by simp
      with k sched plain have "r = r' \<and> u = u'"
        by (intro sessionKey_inj) (force simp: rooms_plain_def)+
      with that False show False by simp
    qed
    show ?thesis
    proof (cases "pending s (sessionKey r' u') = Some d'")
      case True
      then have folds using elapsed.hyps(3) by (auto simp: grace_ops split: if_splits)
      with ne due True elapsed.hyps(3) show ?thesis
        using channels_ok_run [OF elapsed.hyps(1)]
        by (auto simp: fold_due_def grace_ops channels_ok_def split: if_splits)
    next
      case other: False
      then have "(d', r', u') \<noteq> (d, r, u)" using due by (auto simp: fold_due_def)
      with other due elapsed.hyps(3) show ?thesis
        by (auto simp: fold_due_def grace_ops)
    qed
  qed
qed (auto simp: fold_due_def grace_ops)

section \<open>Properties\<close>

text \<open>
  C21. Who is folded. In every run of schedules, resumes, timers and shutdown - in any order,
  with timers that race closed channels - each fold is of a session whose latest event is
  that very schedule: a player who came back, or was scheduled again, is never folded by the
  earlier window.
\<close>

theorem grace_folds_latest:
  assumes "session_run s es"
  shows "folds_justified [] es"
  using pending_ok_run [OF assms] by simp

text \<open>
  No fold is lost. While the service runs, a session whose latest event is a schedule has
  its goroutine waiting on an open channel, so only its timer can end the wait, and when it
  fires the session is folded. (Room identifiers hold no NUL: with one, two players could share
  a key and one schedule would cancel another.)
\<close>

theorem grace_fold_due:
  assumes "session_run s es" "rooms_plain es" "latest es r u = Some (Scheduled d r u)" "\<not> stopped s"
  shows "(d, r, u) \<in> waiting s \<and> d \<notin> closed s \<and> (\<exists>s'. window_elapsed d r u s = (s', True)
    \<and> session_run s' (es @ [Folded d r u]))"
proof -
  have due: "pending s (sessionKey r u) = Some d" "(d, r, u) \<in> waiting s" "d \<notin> closed s"
    using fold_due_run [OF assms(1-3)] assms(4) by (auto simp: fold_due_def)
  obtain s' where s': "window_elapsed d r u s = (s', True)"
    using due(1) by (simp add: window_elapsed_def Let_def)
  with session_run.elapsed [OF assms(1) due(2) s'] due show ?thesis by simp
qed

text \<open>A player leaves, comes back and leaves again; both goroutines are still waiting.\<close>

definition demo_grace :: grace where
  "demo_grace = ScheduleEndSession ''r'' ''u'' False (ResumeSession ''r'' ''u'' (ScheduleEndSession ''r'' ''u'' False
     \<lparr>pending = Map.empty, closed = {}, waiting = {}, fresh = 0, stopped = False\<rparr>))"

definition demo_log :: "session_event list" where
  "demo_log = [Scheduled 0 ''r'' ''u'', Resumed ''r'' ''u'', Scheduled 1 ''r'' ''u'']"

lemma demo_run: "session_run demo_grace demo_log"
  using session_run.schedule [OF session_run.resume [OF session_run.schedule [OF session_run.start,
    of "''r''" "''u''"], of "''r''" "''u''"], of "''r''" "''u''"]
  by (simp add: demo_grace_def demo_log_def) (simp add: grace_ops)

theorem grace_folds_latest_witness:
  "\<exists>s s'. session_run s demo_log \<and> session_run s' (demo_log @ [Folded 1 ''r'' ''u''])
    \<and> folds_justified [] (demo_log @ [Folded 1 ''r'' ''u''])"
proof -
  have "window_elapsed 1 ''r'' ''u'' demo_grace
      = (demo_grace\<lparr>waiting := waiting demo_grace - {(1, ''r'', ''u'')}, pending := Map.empty\<rparr>, True)"
    "(1, ''r'', ''u'') \<in> waiting demo_grace"
    by (auto simp: demo_grace_def grace_ops)
  with session_run.elapsed [OF demo_run] have "\<exists>s'. session_run s' (demo_log @ [Folded 1 ''r'' ''u''])" by fastforce
  with grace_folds_latest demo_run show ?thesis by blast
qed

theorem grace_fold_due_witness:
  "(1, ''r'', ''u'') \<in> waiting demo_grace \<and> (\<exists>s'. window_elapsed 1 ''r'' ''u'' demo_grace = (s', True))"
proof -
  have "rooms_plain demo_log" "latest demo_log ''r'' ''u'' = Some (Scheduled 1 ''r'' ''u'')" "\<not> stopped demo_grace"
    by (simp_all add: rooms_plain_def demo_log_def latest_def demo_grace_def grace_ops)
  with grace_fold_due [OF demo_run] show ?thesis by blast
qed

end
