(* ===== verification/SessionSpec.thy ===== *)
theory SessionSpec
  imports RoundSpec Grace
begin

text \<open>
  Sessions: folding one into the account (\<open>round.EndSession\<close>) happens once, within the grace
  window it can be cancelled, and what the fold forgets.
\<close>

section \<open>Folding\<close>

lemma cleared_view_reads [view_simps]:
  "wallets (cleared_view room u v) room = (wallets v room)(u := None)"
  "hashes (cleared_view room u v) (RoomOpeningKey room) = (hashes v (RoomOpeningKey room))(u := None)"
  "hashes (cleared_view room u v) (UserKey x) = hashes v (UserKey x)"
  "pools (cleared_view room u v) rid = pools v rid" "wagers (cleared_view room u v) rid = wagers v rid"
  "bettors (cleared_view room u v) rid = bettors v rid"
  "round_hash (cleared_view room u v) rid = round_hash v rid" "strs (cleared_view room u v) = strs v"
  by (simp_all add: cleared_view_def table_reads view_simps key_simps)

lemma balance_view_reads [view_simps]:
  "wallets (balance_view u b v) room = wallets v room"
  "hashes (balance_view u b v) (RoomOpeningKey room) = hashes v (RoomOpeningKey room)"
  "hashes (balance_view u b v) (UserKey u) = (hashes v (UserKey u))(''balance'' \<mapsto> itoa b)"
  "pools (balance_view u b v) rid = pools v rid" "wagers (balance_view u b v) rid = wagers v rid"
  "bettors (balance_view u b v) rid = bettors v rid"
  "round_hash (balance_view u b v) rid = round_hash v rid" "strs (balance_view u b v) = strs v"
  by (simp_all add: balance_view_def table_reads view_simps key_simps)

text \<open>The database after a fold.\<close>

definition folded_view :: "string \<Rightarrow> string \<Rightarrow> tokens \<Rightarrow> rview \<Rightarrow> rview" where
  "folded_view room u b v = balance_view u b (cleared_view room u v)"

lemma ApplySessionResult_in64: "in64 (ApplySessionResult a b c)"
  by (simp add: ApplySessionResult_def Let_def) (simp add: in64_def)

lemma folded_user:
  assumes "user_is v u acct"
  shows "user_is (folded_view room u (ApplySessionResult a b c) v) u
    (acct\<lparr>UserBalance := ApplySessionResult a b c\<rparr>)"
  using assms ApplySessionResult_in64
  by (simp add: user_is_def folded_view_def view_simps hfield_def ParseInt_itoa)

lemma user_has_balance: "user_is v u acct \<Longrightarrow> hashes v (UserKey u) ''balance'' \<noteq> None"
proof -
  have "ParseInt [] = None" by code_simp
  then show "user_is v u acct \<Longrightarrow> hashes v (UserKey u) ''balance'' \<noteq> None"
    by (auto simp: user_is_def hfield_def)
qed

context redis_server
begin

lemma EndSession_folds:
  assumes "turns w = []" "user_is (view (db w)) u acct" "session_is (view (db w)) room u opening current"
  defines "b \<equiv> ApplySessionResult (UserBalance acct) opening current"
  shows "\<exists>s'. EndSession R room u False w = (Inr b, w\<lparr>db := s'\<rparr>) \<and> view s' = folded_view room u b (view (db w))"
proof -
  note sess = assms(3) [unfolded session_is_def]
  have reads: "OpeningStake R room u w = (Inr opening, w)" "Balance R room u w = (Inr current, w)"
    using sess read_tokens_quiet(1) [OF assms(1)] by (simp_all add: OpeningStake_def Balance_def wallets_def)
  obtain s1 where s1: "ClearSession R room u w = (Inr True, w\<lparr>db := s1\<rparr>)"
    "view s1 = cleared_view room u (view (db w))"
    using ClearSession_quiet [OF assms(1), of room u] sess by auto
  have "hashes (view s1) (UserKey u) ''balance'' \<noteq> None"
    using user_has_balance [OF assms(2)] by (simp add: s1(2) view_simps)
  then obtain s2 where s2: "SetBalance R u b (w\<lparr>db := s1\<rparr>) = (Inr (), w\<lparr>db := s2\<rparr>)"
    "view s2 = balance_view u b (view s1)"
    using SetBalance_quiet [of "w\<lparr>db := s1\<rparr>" u b] assms(1) by auto
  have "EndSession R room u False w = (Inr b, w\<lparr>db := s2\<rparr>)"
    by (simp add: EndSession_def or_ended_def eff_simps GetUser_quiet [OF assms(1,2)] reads s1(1)
        s2(1) [unfolded b_def] Let_def b_def)
  with s2(2) s1(2) show ?thesis by (auto simp: folded_view_def)
qed

lemma EndSession_ended:
  assumes "turns w = []" "user_is (view (db w)) u acct" "hashes (view (db w)) (RoomOpeningKey room) u = None"
  shows "EndSession R room u False w = (Inr 0, w)"
proof -
  have "OpeningStake R room u w = (Inl (Store ErrNotFound), w)"
    using assms(3) read_tokens_quiet(2) [OF assms(1)] by (simp add: OpeningStake_def)
  then show ?thesis by (simp add: EndSession_def or_ended_def eff_simps GetUser_quiet [OF assms(1,2)])
qed

end

section \<open>A refund after the fold\<close>

lemma hsum_del: "finite (dom h) \<Longrightarrow> hsum (h(f := None)) = hsum h - amt (h f)"
  by (simp add: hsum_def map_sum_del split: option.split)

lemma folded_table_ok:
  assumes "table_ok v room rid n"
  shows "table_ok (folded_view room u b v) room rid n"
proof -
  have t: "finite (dom (wallets v room))" "small_hash (wallets v room)" "table_tokens v room rid < max_amt"
    using assms by (auto simp: table_ok_def)
  then have "small_hash ((wallets v room)(u := None))" "hsum ((wallets v room)(u := None)) \<le> hsum (wallets v room)"
    using small_hash_amt [of "wallets v room" u] by (auto simp: small_hash_def hsum_del)
  with assms t show ?thesis
    by (simp add: table_ok_def table_tokens_def folded_view_def view_simps)
qed

lemma folded_round_is: "round_is (folded_view room u b v) rid rd = round_is v rid rd"
  by (simp add: round_is_def folded_view_def view_simps)

context redis_server
begin

lemma refunded_wallet:
  assumes "turns w = []" "table_ok (view (db w)) room rid n" "in_order (wagers (view (db w)) rid) ss"
    and "0 < user_staked ss u"
  shows "wallets (refunded_view outbox rid room key (map (prow (user_staked ss)) (first_users ss)) tot (view (db w))) room u
    = Some (itoa (amt (wallets (view (db w)) room u) + user_staked ss u))
    \<and> in64 (amt (wallets (view (db w)) room u) + user_staked ss u)"
proof -
  let ?v = "view (db w)" and ?ps = "map (prow (user_staked ss)) (first_users ss)"
  obtain ss' where "in_order (wagers ?v rid) ss'" "valid_stakes ss' n" "staked ss' = hsum (wagers ?v rid)"
    using ReadStakes_quiet [OF assms(1) table_wagers_ok [OF assms(2)]] by blast
  then have ss: "valid_stakes ss n" "staked ss = hsum (wagers ?v rid)"
    using in_order_unique [OF assms(3)] by auto
  have t: "small_hash (wallets ?v room)" "finite (dom (wallets ?v room))"
    "hsum (wallets ?v room) + staked ss < max_amt"
    using assms(2) ss(2) by (auto simp: table_ok_def table_tokens_def)
  note paid = user_refunds [OF ss(1)]
  have c: "small_hash (credited ?ps (wallets ?v room))"
    "amt (credited ?ps (wallets ?v room) u) = amt (wallets ?v room u) + user_staked ss u"
    using credited_facts [OF t(1,2) paid(1)] t(3) paid(2,3) by auto
  moreover have "0 \<le> amt (wallets ?v room u)" using small_hash_amt [OF t(1)] by blast
  ultimately have "amt (credited ?ps (wallets ?v room) u) \<noteq> 0" using assms(4) by linarith
  then have "credited ?ps (wallets ?v room) u \<noteq> None" by (metis amt_None)
  then obtain x where "credited ?ps (wallets ?v room) u = Some x" by auto
  moreover from this have "x = itoa (amt (wallets ?v room u) + user_staked ss u)"
    using c small_hash_amt_Some by metis
  ultimately show ?thesis
    using c(2) small_hash_amt [OF c(1), of u] by (simp add: refunded_view_reads small_in64)
qed

text \<open>A join whose wallet survived: it keeps what is there and takes the whole opening stake.\<close>

lemma rejoin_session:
  assumes "turns w = []" "0 < b" "in64 b" "wallets (view (db w)) room u = Some (itoa old)" "in64 old"
    and "hashes (view (db w)) (RoomOpeningKey room) u = None" "user_is (view (db w)) u acct"
  shows "\<exists>s'. JoinRoom R room u b w = (Inr old, w\<lparr>db := s'\<rparr>)
    \<and> session_is (view s') room u b old \<and> user_is (view s') u acct"
proof -
  obtain s' where s': "JoinRoom R room u b w = (Inr old, w\<lparr>db := s'\<rparr>)"
    "view s' = joined_view room u b (view (db w))"
    using JoinRoom_quiet [OF assms(1-3), of room u old] assms(4,5) by auto
  have "session_is (view s') room u b old" "user_is (view s') u acct"
    using assms
    by (simp_all add: s'(2) session_is_def user_is_def joined_view_def if_absent_def wallets_def view_simps key_simps)
  with s' show ?thesis by blast
qed

end

lemma refunded_view_user:
  "user_is (refunded_view outbox rid room key ps tot v) u acct = user_is v u acct"
  "hashes (refunded_view outbox rid room key ps tot v) (RoomOpeningKey room) = hashes v (RoomOpeningKey room)"
  by (simp_all add: user_is_def refunded_view_def view_simps key_simps)

section \<open>Properties\<close>

text \<open>
  C17. A session is folded once. With an account and a live session, the first \<open>EndSession\<close>
  sets the account to its balance plus the session's net change, floored at zero, and removes
  wallet and opening stake together; a second one, with no join in between, reports nothing
  folded and changes nothing. A guest's does nothing at all.
\<close>

theorem end_session_folds_once:
  assumes "redis_server R view" and "turns w = []"
    and "user_is (view (db w)) u acct" "session_is (view (db w)) room u opening current"
  shows "\<exists>s'. EndSession R room u False w
        = (Inr (ApplySessionResult (UserBalance acct) opening current), w\<lparr>db := s'\<rparr>)
    \<and> view s' = folded_view room u (ApplySessionResult (UserBalance acct) opening current) (view (db w))
    \<and> EndSession R room u False (w\<lparr>db := s'\<rparr>) = (Inr 0, w\<lparr>db := s'\<rparr>)
    \<and> EndSession R room u True w = (Inr 0, w)"
proof -
  let ?b = "ApplySessionResult (UserBalance acct) opening current"
  obtain s' where s': "EndSession R room u False w = (Inr ?b, w\<lparr>db := s'\<rparr>)"
    "view s' = folded_view room u ?b (view (db w))"
    using redis_server.EndSession_folds [OF assms] by blast
  have "EndSession R room u False (w\<lparr>db := s'\<rparr>) = (Inr 0, w\<lparr>db := s'\<rparr>)"
    using redis_server.EndSession_ended [OF assms(1), of "w\<lparr>db := s'\<rparr>" u "acct\<lparr>UserBalance := ?b\<rparr>" room]
      folded_user [OF assms(3)] assms(2)
    by (simp add: s'(2)) (simp add: folded_view_def view_simps)
  with s' show ?thesis by (intro exI [of _ s']) (simp add: EndSession_def eff_simps)
qed


section \<open>Witnesses\<close>

text \<open>Player \<open>a\<close> of the locked demonstration room has an account of 5000 and opened with 1000.\<close>

definition demo_player :: mem where
  "demo_player = mem_hset (RoomOpeningKey ''r1'') [(''a'', ''1000'')]
     (mem_hset (UserKey ''a'') [(''email'', ''a@x.y''), (''balance'', ''5000''), (''created_at'', ''1'')] demo_locked)"

definition demo_account :: User where
  "demo_account = \<lparr>UserIDOf = ''a'', Email = ''a@x.y'', DisplayName = [], PasswordHash = [], UserBalance = 5000,
     UserCreatedAt = 1\<rparr>"

lemma demo_player_view: "mem_view demo_player = v_hset (RoomOpeningKey ''r1'') [(''a'', ''1000'')]
    (v_hset (UserKey ''a'') [(''email'', ''a@x.y''), (''balance'', ''5000''), (''created_at'', ''1'')] (mem_view demo_locked))"
  by (simp add: demo_player_def)

lemma demo_player_reads:
  "wallets (mem_view demo_player) r = wallets (mem_view demo_locked) r"
  "pools (mem_view demo_player) x = pools (mem_view demo_locked) x"
  "wagers (mem_view demo_player) x = wagers (mem_view demo_locked) x"
  "bettors (mem_view demo_player) x = bettors (mem_view demo_locked) x"
  "round_hash (mem_view demo_player) x = round_hash (mem_view demo_locked) x"
  unfolding demo_player_view by (simp_all add: table_reads view_simps key_simps del: mem_view_sel)

lemma demo_player_table: "table_ok (mem_view demo_player) ''r1'' ''x1'' 2"
  using demo_locked_table unfolding table_ok_def table_tokens_def demo_player_reads .

lemma demo_player_round: "round_is (mem_view demo_player) ''x1'' demo_round"
  using demo_locked_round unfolding round_is_def demo_player_reads .

lemma demo_player_session:
  "user_is (mem_view demo_player) ''a'' demo_account" "session_is (mem_view demo_player) ''r1'' ''a'' 1000 700"
proof -
  have n: "itoa 1000 = ''1000''" "itoa 700 = ''700''" "ParseInt ''5000'' = Some 5000" "ParseInt ''1'' = Some 1"
    by code_simp+
  have none: "slot (m_hashes demo_locked) (UserKey ''a'') = []"
  proof -
    have "UserKey ''a'' \<noteq> RoundKey ''x1''" by (simp add: key_simps)
    then show ?thesis
      by (simp add: demo_locked_def mem_hset_def mem_hput_def) (simp add: slot_def demo_def key_simps)
  qed
  show "user_is (mem_view demo_player) ''a'' demo_account"
    unfolding demo_player_view
    by (simp add: user_is_def view_simps key_simps demo_account_def hfield_def n none)
  show "session_is (mem_view demo_player) ''r1'' ''a'' 1000 700"
    unfolding demo_player_view
    by (simp add: session_is_def wallets_def view_simps key_simps in64_def n del: mem_view_sel)
      (simp add: demo_locked_reads demo_reads flip: wallets_def del: mem_view_sel)
qed

theorem end_session_folds_once_witness:
  "\<exists>s'. EndSession mem_redis ''r1'' ''a'' False (demo_service demo_player)
      = (Inr 4700, (demo_service demo_player)\<lparr>db := s'\<rparr>)
    \<and> EndSession mem_redis ''r1'' ''a'' False ((demo_service demo_player)\<lparr>db := s'\<rparr>)
      = (Inr 0, (demo_service demo_player)\<lparr>db := s'\<rparr>)"
proof -
  have b: "ApplySessionResult 5000 1000 700 = 4700" by code_simp
  show ?thesis
    using end_session_folds_once [OF mem.redis_server_axioms, of "demo_service demo_player" "''a''" demo_account
        "''r1''" 1000 700] demo_player_session b
    by (auto simp: demo_account_def simp del: mem_view_sel)
qed


end
