(* ===== verification/RoundLife.thy ===== *)
theory RoundLife
  imports RoundSpec
begin

text \<open>
  The life of a round under every interleaving. All four scripts that concern rounds may run
  in any order with any arguments, from any number of clients, replies lost and commands
  re-sent; \<open>life\<close> relates the database before to the database after: the round's status only
  moves along the machine of \<open>domain/round.go\<close>, and the outbox gets one terminal event
  exactly when the round ends.
\<close>

section \<open>Status and terminal events\<close>

definition ended :: "string option \<Rightarrow> bool" where
  "ended x \<longleftrightarrow> x = Some RoundResolved \<or> x = Some RoundRefunded"

definition evolves :: "string option \<Rightarrow> string option \<Rightarrow> bool" where
  "evolves x y \<longleftrightarrow> x = y \<or> (\<exists>a b. x = Some a \<and> y = Some b \<and> status_step\<^sup>+\<^sup>+ a b)"

definition terminal_event :: "string \<Rightarrow> (string \<times> string) list \<Rightarrow> bool" where
  "terminal_event rid e \<longleftrightarrow> map_of e ''round_id'' = Some rid
     \<and> (map_of e ''type'' = Some ''round_settled'' \<or> map_of e ''type'' = Some ''round_refunded'')"

definition endings :: "rview \<Rightarrow> string \<Rightarrow> string \<Rightarrow> int" where
  "endings v outbox rid = int (length (filter (terminal_event rid) (streams v outbox)))"

definition life :: "('s \<Rightarrow> rview) \<Rightarrow> string \<Rightarrow> string \<Rightarrow> 's \<Rightarrow> 's \<Rightarrow> bool" where
  "life view outbox rid s s' \<longleftrightarrow>
     evolves (round_hash (view s) rid ''status'') (round_hash (view s') rid ''status'')
     \<and> endings (view s') outbox rid = endings (view s) outbox rid
         + (if \<not> ended (round_hash (view s) rid ''status'') \<and> ended (round_hash (view s') rid ''status'')
            then 1 else 0)"

lemma trancl_edges: "status_step\<^sup>+\<^sup>+ a b \<Longrightarrow> (a = RoundOpen \<or> a = RoundLocked)
    \<and> (b = RoundLocked \<and> a = RoundOpen \<or> b = RoundResolved \<or> b = RoundRefunded)"
  by (induction rule: tranclp_induct) (auto simp: status_step_edges status_defs)

lemma evolves_ended: "evolves x y \<Longrightarrow> ended x \<Longrightarrow> y = x"
  by (auto simp: evolves_def ended_def dest!: trancl_edges) (auto simp: status_defs)

lemma evolves_trans: "evolves x y \<Longrightarrow> evolves y z \<Longrightarrow> evolves x z"
  by (auto simp: evolves_def intro: tranclp_trans)

lemma life_refl: "reflp (life view outbox rid)"
  by (rule reflpI) (simp add: life_def evolves_def)

lemma life_trans: "transp (life view outbox rid)"
proof (rule transpI)
  fix s t u assume st: "life view outbox rid s t" and tu: "life view outbox rid t u"
  then show "life view outbox rid s u"
    using evolves_ended [of "round_hash (view s) rid ''status''" "round_hash (view t) rid ''status''"]
      evolves_ended [of "round_hash (view t) rid ''status''" "round_hash (view u) rid ''status''"]
    by (auto simp: life_def intro: evolves_trans split: if_splits)
qed

text \<open>A step that leaves the round's hash and its terminal events alone.\<close>

definition aside :: "('s \<Rightarrow> rview) \<Rightarrow> string \<Rightarrow> string \<Rightarrow> 's \<Rightarrow> 's \<Rightarrow> bool" where
  "aside view outbox rid s s' \<longleftrightarrow> round_hash (view s') rid = round_hash (view s) rid
     \<and> endings (view s') outbox rid = endings (view s) outbox rid"

lemma aside_life: "aside view outbox rid s s' \<Longrightarrow> life view outbox rid s s'"
  by (simp add: aside_def life_def evolves_def)

lemma aside_refl: "reflp (aside view outbox rid)"
  by (rule reflpI) (simp add: aside_def)

lemma aside_trans: "transp (aside view outbox rid)"
  by (rule transpI) (simp add: aside_def)

section \<open>Rules for scripts\<close>

named_theorems step_rules \<open>steps of scripts that keep a relation\<close>

lemma step_pure [step_rules]:
  "reflp Q \<Longrightarrow> step_guar Q (ret x)" "reflp Q \<Longrightarrow> step_guar Q (raise e)" "reflp Q \<Longrightarrow> step_guar Q (asks f)"
  "reflp Q \<Longrightarrow> step_guar Q (lua_need y)" "reflp Q \<Longrightarrow> step_guar Q (hget R k f')"
  by (auto simp: step_guar_def eff_simps lua_need_def hget_def reflpD split: option.split)

lemma step_andThen [step_rules]:
  assumes "transp Q" "step_guar Q m" "\<And>x. step_guar Q (k x)"
  shows "step_guar Q (andThen m k)"
  unfolding step_guar_def
proof
  fix s
  obtain r t where m: "m s = (r, t)" by (cases "m s")
  with assms(2) have "Q s t" unfolding step_guar_def by (metis snd_conv)
  with m assms(1,3) show "Q s (snd (andThen m k s))"
    by (cases r) (auto simp: eff_simps step_guar_def dest: transpD)
qed

lemma step_branches [step_rules]:
  "step_guar Q m \<Longrightarrow> step_guar Q n \<Longrightarrow> step_guar Q (if b then m else n)"
  "step_guar Q m \<Longrightarrow> (\<And>x. step_guar Q (k x)) \<Longrightarrow> step_guar Q (case y of None \<Rightarrow> m | Some x \<Rightarrow> k x)"
  by (auto split: option.split)

lemma step_exec: "(\<And>s. Q s (f s)) \<Longrightarrow> step_guar Q (exec f)"
  by (simp add: step_guar_def eff_simps)

lemma step_mono: "step_guar P f \<Longrightarrow> (\<And>s s'. P s s' \<Longrightarrow> Q s s') \<Longrightarrow> step_guar Q f"
  by (simp add: step_guar_def)

context redis_server
begin

lemma hincrby_aside:
  assumes "k \<noteq> RoundKey rid"
  shows "step_guar (aside view outbox rid) (hincrby R k f n)"
  unfolding step_guar_def
proof
  fix s
  obtain r t where t: "HINCRBY R k f n s = (r, t)" by (cases "HINCRBY R k f n s")
  have "aside view outbox rid s t"
    using HINCRBY [OF t] assms
    by (auto simp: aside_def round_hash_def endings_def view_simps split: option.splits)
  then show "aside view outbox rid s (snd (hincrby R k f n s))"
    using t by (cases r) (auto simp: hincrby_def eff_simps reflpD [OF aside_refl])
qed

lemma credit_loop_aside: "step_guar (aside view outbox rid) (credit_loop R (RoomWalletsKey room) cs n)"
proof (induction cs arbitrary: n rule: pairs_of.induct)
  case (3 userID amount rest)
  then show ?case
    by (auto intro!: step_rules aside_trans aside_refl hincrby_aside simp: key_simps)
qed (auto intro!: step_rules aside_refl)

lemma wager_call_life: "plain_id rid \<Longrightarrow> step_guar (life view outbox rid) (wager_call R outbox rq)"
proof (rule step_mono [OF _ aside_life])
  assume rid: "plain_id rid"
  have writes: "aside view outbox rid s (SADD R k m s)" "aside view outbox rid s (SETEX R k x n s)"
    "aside view outbox rid s (XADD R outbox ((''type'', ''wager_placed'') # fvs) s)" for s k m x n fvs
    by (auto simp: aside_def round_hash_def endings_def writes view_simps terminal_event_def)
  have keys: "RoomWalletsKey r \<noteq> RoundKey rid" "RoundPoolsKey x \<noteq> RoundKey rid" "RoundWagersKey x \<noteq> RoundKey rid"
    for r x using rid by (simp_all add: key_simps)
  show "step_guar (aside view outbox rid) (wager_call R outbox rq)"
    unfolding wager_call_def place_wager_def wager_guarded_def wager_apply_def
    by (intro step_rules step_exec hincrby_aside aside_refl aside_trans keys writes)
qed

lemma lock_call_life: "step_guar (life view outbox rid) (lock_round R (RoundKey x))"
  unfolding step_guar_def
proof
  fix s
  have "status_step\<^sup>+\<^sup>+ RoundOpen RoundLocked" by (rule tranclp.r_into_trancl) (simp add: status_step_edges)
  then show "life view outbox rid s (snd (lock_round R (RoundKey x) s))"
    by (auto simp: lock_round_def eff_simps reads writes life_def evolves_def ended_def round_hash_def endings_def
        view_simps key_simps status_defs)
qed

text \<open>Settling and refunding end with the same two writes.\<close>

lemma end_round_life:
  assumes "hashes (view s) (RoundKey x) ''status'' = Some RoundLocked"
    and "final = RoundResolved \<or> final = RoundRefunded"
    and "map_of ev ''round_id'' = Some x"
    and "map_of ev ''type'' = Some (if final = RoundRefunded then ''round_refunded'' else ''round_settled'')"
    and "''status'' \<notin> fst ` set extra"
    and "view u = v_xadd outbox ev (v_hset (RoundKey x) ((''status'', final) # extra) (view s))"
  shows "life view outbox rid s u"
proof -
  have "status_step\<^sup>+\<^sup>+ RoundLocked final"
    using assms(2) by (intro tranclp.r_into_trancl) (auto simp: status_step_edges)
  moreover have "\<not> ended (Some RoundLocked)" by (simp add: ended_def status_defs)
  ultimately show ?thesis using assms
    by (auto simp: life_def evolves_def ended_def round_hash_def endings_def view_simps key_simps
        put_all_other terminal_event_def)
qed

text \<open>
  What a run of a script that ends round \<open>x\<close> amounts to, whatever the state: a move of the
  machine, and \<open>OK\<close> only when a locked round has ended.
\<close>

definition ending_run :: "string \<Rightarrow> string \<Rightarrow> string \<Rightarrow> 's \<Rightarrow> (err + lua_val list) \<times> 's \<Rightarrow> bool" where
  "ending_run outbox rid x s out \<longleftrightarrow> life view outbox rid s (snd out)
     \<and> (\<forall>vs. fst out = Inr vs \<longrightarrow> vs \<noteq> [] \<and> (hd vs = LStr ''OK'' \<longrightarrow>
          round_hash (view s) x ''status'' = Some RoundLocked \<and> ended (round_hash (view (snd out)) x ''status'')))"

lemma ending_runI:
  assumes "round_hash (view s) x ''status'' \<noteq> Some RoundLocked \<Longrightarrow> \<exists>c v. f s = (Inr [LStr c, v], s) \<and> c \<noteq> ''OK''"
    and "\<And>e t. round_hash (view s) x ''status'' = Some RoundLocked \<Longrightarrow>
      credit_loop R (RoomWalletsKey room) cs 0 s = (Inl e, t) \<Longrightarrow> f s = (Inl e, t)"
    and "\<And>n t. round_hash (view s) x ''status'' = Some RoundLocked \<Longrightarrow>
      credit_loop R (RoomWalletsKey room) cs 0 s = (Inr n, t) \<Longrightarrow>
      \<exists>vs u. f s = (Inr vs, u) \<and> vs \<noteq> [] \<and> view u = v_xadd outbox ev (v_hset (RoundKey x) ((''status'', final) # extra) (view t))"
    and "final = RoundResolved \<or> final = RoundRefunded" "map_of ev ''round_id'' = Some x"
    and "map_of ev ''type'' = Some (if final = RoundRefunded then ''round_refunded'' else ''round_settled'')"
    and "''status'' \<notin> fst ` set extra"
  shows "ending_run outbox rid x s (f s)"
proof (cases "round_hash (view s) x ''status'' = Some RoundLocked")
  case False
  with assms(1) show ?thesis by (auto simp: ending_run_def reflpD [OF life_refl])
next
  case locked: True
  obtain q t where t: "credit_loop R (RoomWalletsKey room) cs 0 s = (q, t)"
    by (cases "credit_loop R (RoomWalletsKey room) cs 0 s")
  have aside: "aside view outbox rid' s t" for rid'
    using credit_loop_aside [of outbox rid' room cs 0] t unfolding step_guar_def by (metis snd_conv)
  show ?thesis
  proof (cases q)
    case (Inl e)
    with assms(2) [OF locked] t aside_life [OF aside] show ?thesis by (auto simp: ending_run_def)
  next
    case (Inr n)
    then obtain vs u where u: "f s = (Inr vs, u)" "vs \<noteq> []"
      "view u = v_xadd outbox ev (v_hset (RoundKey x) ((''status'', final) # extra) (view t))"
      using assms(3) [OF locked] t by blast
    have "hashes (view t) (RoundKey x) ''status'' = Some RoundLocked"
      using aside [of x] locked by (simp add: aside_def round_hash_def)
    then have "life view outbox rid t u" by (rule end_round_life [OF _ assms(4-7) u(3)])
    with aside_life [OF aside] have "life view outbox rid s u"
      using transpD [OF life_trans] by metis
    moreover have "ended (round_hash (view u) x ''status'')"
      using assms(4,7) by (auto simp: u(3) round_hash_def view_simps put_all_other ended_def)
    ultimately show ?thesis using u locked by (simp add: ending_run_def)
  qed
qed

lemma settle_call_ending: "ending_run outbox rid x s (settle_call R outbox x room win key tot st s)"
proof (rule ending_runI [where room = room and cs = "credit_args (Payouts st)"
    and final = "if Refunded st then RoundRefunded else RoundResolved"
    and extra = "if Refunded st then [] else [(''resolved_outcome'', itoa win)]"
    and ev = "settle_event (if Refunded st then ''round_refunded'' else ''round_settled'') x room key tot (Dust st)
       (if Refunded st then [] else itoa win) (Payouts st)"])
  note run = settle_call_def settle_round_def eff_simps reads round_hash_def RoundLocked_def
  show "round_hash (view s) x ''status'' \<noteq> Some RoundLocked \<Longrightarrow>
      \<exists>c v. settle_call R outbox x room win key tot st s = (Inr [LStr c, v], s) \<and> c \<noteq> ''OK''"
    by (auto simp: run)
  show "settle_call R outbox x room win key tot st s = (Inl e, t)"
    if "round_hash (view s) x ''status'' = Some RoundLocked"
      "credit_loop R (RoomWalletsKey room) (credit_args (Payouts st)) 0 s = (Inl e, t)" for e t
    using that by (simp add: run)
  show "\<exists>vs u. settle_call R outbox x room win key tot st s = (Inr vs, u) \<and> vs \<noteq> [] \<and>
      view u = v_xadd outbox (settle_event (if Refunded st then ''round_refunded'' else ''round_settled'') x room
          key tot (Dust st) (if Refunded st then [] else itoa win) (Payouts st))
        (v_hset (RoundKey x) ((''status'', if Refunded st then RoundRefunded else RoundResolved) #
          (if Refunded st then [] else [(''resolved_outcome'', itoa win)])) (view t))"
    if "round_hash (view s) x ''status'' = Some RoundLocked"
      "credit_loop R (RoomWalletsKey room) (credit_args (Payouts st)) 0 s = (Inr n, t)" for n t
    using that by (simp add: run writes v_hset_twice settle_event_def status_defs table_def)
qed (simp_all add: settle_event_def status_defs)

lemma refund_call_ending: "ending_run outbox rid x s (refund_call R outbox x room key ps tot s)"
proof (rule ending_runI [where room = room and cs = "credit_args ps" and final = RoundRefunded and extra = "[]"
    and ev = "settle_event ''round_refunded'' x room key tot 0 [] ps"])
  note run = refund_call_def refund_round_def eff_simps reads round_hash_def RoundLocked_def
  have "itoa 0 = ''0''" by code_simp
  then show "\<exists>vs u. refund_call R outbox x room key ps tot s = (Inr vs, u) \<and> vs \<noteq> [] \<and>
      view u = v_xadd outbox (settle_event ''round_refunded'' x room key tot 0 [] ps)
        (v_hset (RoundKey x) ((''status'', RoundRefunded) # []) (view t))"
    if "round_hash (view s) x ''status'' = Some RoundLocked"
      "credit_loop R (RoomWalletsKey room) (credit_args ps) 0 s = (Inr n, t)" for n t
    using that by (simp add: run writes settle_event_def status_defs table_def)
  show "round_hash (view s) x ''status'' \<noteq> Some RoundLocked \<Longrightarrow>
      \<exists>c v. refund_call R outbox x room key ps tot s = (Inr [LStr c, v], s) \<and> c \<noteq> ''OK''"
    by (auto simp: run)
  show "refund_call R outbox x room key ps tot s = (Inl e, t)"
    if "round_hash (view s) x ''status'' = Some RoundLocked"
      "credit_loop R (RoomWalletsKey room) (credit_args ps) 0 s = (Inl e, t)" for e t
    using that by (simp add: run)
qed (simp_all add: settle_event_def status_defs)

section \<open>The methods of the store\<close>

lemma ending_call_life:
  "step_guar (life view outbox rid) (settle_call R outbox x room win key tot st)"
  "step_guar (life view outbox rid) (refund_call R outbox x room key ps tot)"
  using settle_call_ending refund_call_ending unfolding step_guar_def ending_run_def by blast+

lemmas life_guar = guar_pure [OF life_refl] guar_andThen [OF life_trans] guar_attempt [OF life_trans]
  trips_guar [OF life_refl life_trans]

lemma call_script_life: "step_guar (life view outbox rid) f \<Longrightarrow> guar (life view outbox rid) (call_script f)"
  unfolding call_script_def by (auto intro!: life_guar)

lemma reads_life: "guar (life view outbox rid) (hgetall R k)"
  unfolding hgetall_def by (intro life_guar step_pure life_refl)

lemma GetRound_life: "guar (life view outbox rid) (GetRound R x)"
  unfolding GetRound_def by (intro life_guar reads_life)

lemma ReadStakes_life: "guar (life view outbox rid) (ReadStakes R x)"
  unfolding ReadStakes_def by (intro life_guar reads_life)

lemma methods_life:
  "plain_id rid \<Longrightarrow> guar (life view outbox rid) (PlaceWager R outbox rq)"
  "guar (life view outbox rid) (LockRound R x)"
  "guar (life view outbox rid) (SettleRound R outbox x win key)"
  "guar (life view outbox rid) (RefundRound R outbox x key)"
  unfolding PlaceWager_def LockRound_def SettleRound_def RefundRound_def
  by (auto intro!: life_guar call_script_life wager_call_life lock_call_life GetRound_life ReadStakes_life
      ending_call_life split: prod.split)

section \<open>An ended round is refused\<close>

lemma roundtrip_rely:
  assumes "rely Q w" "reflp Q" "transp Q" "step_guar Q f" "roundtrip f w = (Inr a, w')"
  shows "\<exists>s. f s = (Inr a, db w') \<and> Q (db w) s"
proof (cases "turns w")
  case Nil
  with assms(2,5) show ?thesis
    by (auto simp: roundtrip_def delivered_def reflpD split: prod.splits intro!: exI [of _ "db w"])
next
  case (Cons t ts)
  then obtain gs g ans where t: "t = Turn gs g ans" by (cases t)
  have env: "\<forall>h\<in>insert g (set gs). \<forall>s. Q s (h s)"
    using assms(1) Cons t unfolding rely_def by (metis list.set_intros(1))
  have "Q (db w) (resend f gs (db w))" using resend_guar [OF assms(2-4), of gs] env by simp
  moreover have "Q (resend f gs (db w)) (g (resend f gs (db w)))" using env by simp
  ultimately have "Q (db w) (g (resend f gs (db w)))" using transpD [OF assms(3)] by metis
  moreover have "f (g (resend f gs (db w))) = (Inr a, db w')"
    using assms(5) Cons t by (auto simp: roundtrip_def Let_def delivered_def split: if_splits prod.splits)
  ultimately show ?thesis by blast
qed

text \<open>While everyone keeps \<open>life\<close>, \<open>m\<close> fails from any state in which the round has ended.\<close>

definition refuses :: "string \<Rightarrow> string \<Rightarrow> ('s, 'x, 'a) go \<Rightarrow> bool" where
  "refuses outbox rid m \<longleftrightarrow> (\<forall>w. rely (life view outbox rid) w
     \<longrightarrow> ended (round_hash (view (db w)) rid ''status'') \<longrightarrow> (\<exists>e. fst (m w) = Inl e))"

lemma refuses_andThen:
  fixes m :: "('s, 'x, 'a) go" and k :: "'a \<Rightarrow> ('s, 'x, 'b) go"
  assumes "guar (life view outbox rid) m" "\<And>x. refuses outbox rid (k x)"
  shows "refuses outbox rid (andThen m k)"
  unfolding refuses_def
proof (intro allI impI)
  fix w :: "('s, 'x) world_scheme"
  assume w: "rely (life view outbox rid) w" "ended (round_hash (view (db w)) rid ''status'')"
  obtain r u where m: "m w = (r, u)" by (cases "m w")
  have u: "life view outbox rid (db w) (db u)" "rely (life view outbox rid) u"
    using guarD [OF assms(1) w(1)] m by simp_all
  then have "ended (round_hash (view (db u)) rid ''status'')"
    using evolves_ended w(2) by (metis life_def)
  with assms(2) u(2) m show "\<exists>e. fst (andThen m k w) = Inl e"
    unfolding refuses_def by (cases r) (auto simp: eff_simps)
qed

lemma refuses_raise: "refuses outbox rid (raise e)" "refuses outbox rid (if b then raise e else m) \<longleftrightarrow> b \<or> refuses outbox rid m"
  by (auto simp: refuses_def eff_simps)

lemma toStringSlice_head: "toStringSlice vs = Inr (r # rs) \<Longrightarrow> vs \<noteq> [] \<and> hd vs = LStr r"
  by (cases vs) (auto simp: toStringSlice_def split: if_splits lua_val.splits)

lemma call_script_Inr:
  assumes "call_script f w = (Inr reply, w')"
  obtains vs where "roundtrip f w = (Inr vs, w')" "vs \<noteq> []" "hd vs = LStr (hd reply)" "reply \<noteq> []"
proof -
  from assms obtain vs u where u: "roundtrip f w = (Inr vs, u)"
    "andThen (lift_sum (toStringSlice vs)) (\<lambda>reply. if reply = [] then raise Malformed else ret reply) u = (Inr reply, w')"
    unfolding call_script_def by (rule andThen_InrE)
  then have "toStringSlice vs = Inr reply" "reply \<noteq> []" "u = w'"
    by (cases "toStringSlice vs"; auto simp: eff_simps split: if_splits)+
  with u(1) that [of vs] show ?thesis by (cases reply) (auto dest!: toStringSlice_head)
qed

lemma call_refused:
  fixes a :: 'a
  assumes "\<And>s. ending_run outbox rid rid s (f s)"
  shows "refuses outbox rid (andThen (call_script f)
    (\<lambda>reply. if hd reply \<noteq> ''OK'' then raise (g reply) else ret a) :: ('s, 'x, 'a) go)"
  unfolding refuses_def
proof (intro allI impI)
  fix w :: "('s, 'x) world_scheme"
  assume w: "rely (life view outbox rid) w" "ended (round_hash (view (db w)) rid ''status'')"
  have step: "step_guar (life view outbox rid) f"
    using assms unfolding step_guar_def ending_run_def by blast
  obtain r u where c: "call_script f w = (r, u)" by (cases "call_script f w")
  show "\<exists>e. fst (andThen (call_script f) (\<lambda>reply. if hd reply \<noteq> ''OK'' then raise (g reply) else ret a) w) = Inl e"
  proof (cases r)
    case (Inr reply)
    with c have "call_script f w = (Inr reply, u)" by simp
    then obtain vs where vs: "roundtrip f w = (Inr vs, u)" "vs \<noteq> []" "hd vs = LStr (hd reply)"
      by (rule call_script_Inr)
    obtain s where s: "f s = (Inr vs, db u)" "life view outbox rid (db w) s"
      using roundtrip_rely [OF w(1) life_refl life_trans step vs(1)] by blast
    then have "ended (round_hash (view s) rid ''status'')"
      using evolves_ended w(2) by (metis life_def)
    then have "round_hash (view s) rid ''status'' \<noteq> Some RoundLocked" by (auto simp: ended_def status_defs)
    then have "hd reply \<noteq> ''OK''" using assms [of s] s(1) vs by (auto simp: ending_run_def)
    with c Inr show ?thesis by (simp add: eff_simps)
  qed (use c in \<open>simp add: eff_simps\<close>)
qed

lemma refuses_branches:
  "refuses outbox rid m \<Longrightarrow> refuses outbox rid n \<Longrightarrow> refuses outbox rid (if b then m else n)"
  "(\<And>a b. refuses outbox rid (h a b)) \<Longrightarrow> refuses outbox rid (case p of (a, b) \<Rightarrow> h a b)"
  by (auto split: prod.split)

lemma ending_methods_refuse:
  "refuses outbox rid (SettleRound R outbox rid win key)" "refuses outbox rid (RefundRound R outbox rid key)"
  unfolding SettleRound_def RefundRound_def
  unfolding Let_def
  by (rule settle_call_ending refund_call_ending call_refused refuses_branches refuses_raise(1) refuses_andThen
      GetRound_life ReadStakes_life life_guar)+

text \<open>A success leaves the round ended.\<close>

definition finishes :: "string \<Rightarrow> ('s, 'x, 'a) go \<Rightarrow> bool" where
  "finishes rid m \<longleftrightarrow> (\<forall>w a w'. m w = (Inr a, w') \<longrightarrow> ended (round_hash (view (db w')) rid ''status''))"

lemma finishes_rules:
  "(\<And>x. finishes rid (k x)) \<Longrightarrow> finishes rid (andThen m k)" "finishes rid (raise e)"
  "finishes rid m1 \<Longrightarrow> finishes rid m2 \<Longrightarrow> finishes rid (if b then m1 else m2)"
  "(\<And>a b. finishes rid (h a b)) \<Longrightarrow> finishes rid (case p of (a, b) \<Rightarrow> h a b)"
  by (auto simp: finishes_def eff_simps elim!: andThen_InrE split: prod.split)

lemma call_finishes:
  fixes a :: 'a
  assumes "\<And>s. ending_run outbox rid rid s (f s)"
  shows "finishes rid (andThen (call_script f)
    (\<lambda>reply. if hd reply \<noteq> ''OK'' then raise (g reply) else ret a) :: ('s, 'x, 'a) go)"
  unfolding finishes_def
proof (intro allI impI)
  fix w w' :: "('s, 'x) world_scheme" and b
  assume "andThen (call_script f) (\<lambda>reply. if hd reply \<noteq> ''OK'' then raise (g reply) else ret a) w = (Inr b, w')"
  then obtain reply where r: "call_script f w = (Inr reply, w')" "hd reply = ''OK''"
    by (rule andThen_InrE) (auto simp: eff_simps split: if_splits)
  from r(1) obtain vs where vs: "roundtrip f w = (Inr vs, w')" "vs \<noteq> []" "hd vs = LStr (hd reply)"
    by (rule call_script_Inr)
  from vs(1) obtain s where "f s = (Inr vs, db w')" by (rule roundtrip_Inr)
  with assms [of s] vs r(2) show "ended (round_hash (view (db w')) rid ''status'')"
    by (auto simp: ending_run_def)
qed

lemma ending_methods_finish:
  "finishes rid (SettleRound R outbox rid win key)" "finishes rid (RefundRound R outbox rid key)"
  unfolding SettleRound_def RefundRound_def
  unfolding Let_def
  by (rule settle_call_ending refund_call_ending call_finishes finishes_rules)+

end

section \<open>Properties\<close>



text \<open>Another client locks the round while a wager is on its way.\<close>

definition locker_world :: "mem world" where
  "locker_world = \<lparr>db = demo, turns = [Turn [] (\<lambda>s. snd (lock_round mem_redis (RoundKey ''x1'') s)) Answered]\<rparr>"



end
