(* ===== verification/Events.thy ===== *)
theory Events
  imports Json
begin

text \<open>
  \<open>internal/events\<close>: the events of the outbox (\<open>event.go\<close>), reading them from the fields of a
  stream entry (\<open>decode.go\<close>), writing them as Kafka messages (\<open>kafka.go\<close>, \<open>Produce\<close>) and reading
  them back from a message, with the validation at that boundary (\<open>message.go\<close>).
\<close>

section \<open>Events\<close>

record Payout =
  PayoutUser :: string
  PayoutAmount :: int

record WagerPlaced =
  WpRoom :: string
  WpRound :: string
  WpUser :: string
  WpKey :: string
  WpOutcome :: int
  WpAmount :: int
  WpBalance :: int

text \<open>\<open>None\<close> is the nil slice, which is marshalled as \<open>null\<close>.\<close>

record RoundSettled =
  RsRoom :: string
  RsRound :: string
  RsKey :: string
  RsOutcome :: int
  RsTotal :: int
  RsDust :: int
  RsPayouts :: "Payout list option"
  RsRefunded :: bool

datatype Event = WagerEvent WagerPlaced | SettledEvent RoundSettled

definition payouts_of :: "RoundSettled \<Rightarrow> Payout list" where
  "payouts_of s = (case RsPayouts s of None \<Rightarrow> [] | Some ps \<Rightarrow> ps)"

definition TopicWagersPlaced :: string where "TopicWagersPlaced = ''wagers-placed''"
definition TopicRoundsSettled :: string where "TopicRoundsSettled = ''rounds-settled''"

fun Topic :: "Event \<Rightarrow> string" where
  "Topic (WagerEvent _) = TopicWagersPlaced"
| "Topic (SettledEvent _) = TopicRoundsSettled"

fun PartitionKey :: "Event \<Rightarrow> string" where
  "PartitionKey (WagerEvent w) = WpRoom w"
| "PartitionKey (SettledEvent s) = RsRoom s"

fun Key :: "Event \<Rightarrow> string" where
  "Key (WagerEvent w) = WpKey w"
| "Key (SettledEvent s) = RsKey s"

section \<open>Unmarshalling into structs\<close>

text \<open>
  A key of an object selects the field with that name or, failing that, one that is equal to it
  under case folding. Of the runes beyond ASCII only U+017F and U+212A fold to letters of the
  names.
\<close>

definition ascii_upper :: "char \<Rightarrow> char" where
  "ascii_upper c = (if between 97 122 c then char_of (byte c - 32) else c)"

definition fold_rune :: "string \<Rightarrow> string" where
  "fold_rune r = (case r of [c] \<Rightarrow> [ascii_upper c]
     | _ \<Rightarrow> if r = utf8 0x17F then ''S'' else if r = utf8 0x212A then ''K'' else r)"

definition fold_name :: "string \<Rightarrow> string" where
  "fold_name s = concat (map fold_rune (runes s))"

definition find_field :: "string list \<Rightarrow> string \<Rightarrow> string option" where
  "find_field names k = (if k \<in> set names then Some k else find (\<lambda>n. fold_name n = fold_name k) names)"

text \<open>A value for a field that holds \<open>old\<close>: \<open>null\<close> leaves it.\<close>

definition into_string :: "json \<Rightarrow> string \<Rightarrow> string option" where
  "into_string v old = (case v of JStr s \<Rightarrow> Some s | JNull \<Rightarrow> Some old | _ \<Rightarrow> None)"

definition into_int :: "json \<Rightarrow> int \<Rightarrow> int option" where
  "into_int v old = (case v of JNum x \<Rightarrow> ParseInt x | JNull \<Rightarrow> Some old | _ \<Rightarrow> None)"

definition into_bool :: "json \<Rightarrow> bool \<Rightarrow> bool option" where
  "into_bool v old = (case v of JBool b \<Rightarrow> Some b | JNull \<Rightarrow> Some old | _ \<Rightarrow> None)"

fun set_all :: "(string \<Rightarrow> json \<Rightarrow> 'a \<Rightarrow> 'a option) \<Rightarrow> (string \<times> json) list \<Rightarrow> 'a \<Rightarrow> 'a option" where
  "set_all f [] a = Some a"
| "set_all f ((k, v) # ms) a = Option.bind (f k v a) (set_all f ms)"

definition into_struct :: "(string \<Rightarrow> json \<Rightarrow> 'a \<Rightarrow> 'a option) \<Rightarrow> json \<Rightarrow> 'a \<Rightarrow> 'a option" where
  "into_struct f v a = (case v of JObj ms \<Rightarrow> set_all f ms a | JNull \<Rightarrow> Some a | _ \<Rightarrow> None)"

text \<open>\<open>strict\<close> is \<open>DisallowUnknownFields\<close>.\<close>

definition set_payout :: "bool \<Rightarrow> string \<Rightarrow> json \<Rightarrow> Payout \<Rightarrow> Payout option" where
  "set_payout strict k v p = (case find_field [''user_id'', ''amount''] k of
       None \<Rightarrow> if strict then None else Some p
     | Some f \<Rightarrow>
        if f = ''user_id'' then map_option (\<lambda>x. p\<lparr>PayoutUser := x\<rparr>) (into_string v (PayoutUser p))
        else map_option (\<lambda>x. p\<lparr>PayoutAmount := x\<rparr>) (into_int v (PayoutAmount p)))"

text \<open>
  An array into a slice: the elements are decoded over the ones the backing array holds, in
  the slice (\<open>cur\<close>) and beyond it (\<open>spare\<close>), and over zero values after these.
\<close>

definition no_payout :: Payout where
  "no_payout = \<lparr>PayoutUser = [], PayoutAmount = 0\<rparr>"

fun fill :: "bool \<Rightarrow> json list \<Rightarrow> Payout list \<Rightarrow> Payout list option" where
  "fill strict [] slots = Some []"
| "fill strict (v # vs) slots =
     Option.bind (into_struct (set_payout strict) v (case slots of [] \<Rightarrow> no_payout | p # _ \<Rightarrow> p)) (\<lambda>p.
     map_option ((#) p) (fill strict vs (tl slots)))"

definition into_payouts :: "bool \<Rightarrow> json \<Rightarrow> Payout list option \<times> Payout list \<Rightarrow>
    (Payout list option \<times> Payout list) option" where
  "into_payouts strict v old = (case v of JNull \<Rightarrow> Some (None, [])
     | JArr [] \<Rightarrow> Some (Some [], [])
     | JArr vs \<Rightarrow> (let slots = (case fst old of None \<Rightarrow> [] | Some ps \<Rightarrow> ps) @ snd old
         in map_option (\<lambda>ps. (Some ps, drop (length vs) slots)) (fill strict vs slots))
     | _ \<Rightarrow> None)"

definition set_wager :: "string \<Rightarrow> json \<Rightarrow> WagerPlaced \<Rightarrow> WagerPlaced option" where
  "set_wager k v w = (case find_field [''room_id'', ''round_id'', ''user_id'', ''idempotency_key'', ''outcome'',
       ''amount'', ''balance''] k of
       None \<Rightarrow> None
     | Some f \<Rightarrow>
        if f = ''room_id'' then map_option (\<lambda>x. w\<lparr>WpRoom := x\<rparr>) (into_string v (WpRoom w))
        else if f = ''round_id'' then map_option (\<lambda>x. w\<lparr>WpRound := x\<rparr>) (into_string v (WpRound w))
        else if f = ''user_id'' then map_option (\<lambda>x. w\<lparr>WpUser := x\<rparr>) (into_string v (WpUser w))
        else if f = ''idempotency_key'' then map_option (\<lambda>x. w\<lparr>WpKey := x\<rparr>) (into_string v (WpKey w))
        else if f = ''outcome'' then map_option (\<lambda>x. w\<lparr>WpOutcome := x\<rparr>) (into_int v (WpOutcome w))
        else if f = ''amount'' then map_option (\<lambda>x. w\<lparr>WpAmount := x\<rparr>) (into_int v (WpAmount w))
        else map_option (\<lambda>x. w\<lparr>WpBalance := x\<rparr>) (into_int v (WpBalance w)))"

text \<open>The second component is what the backing array of the payouts holds beyond the slice.\<close>

definition set_settled :: "string \<Rightarrow> json \<Rightarrow> RoundSettled \<times> Payout list \<Rightarrow>
    (RoundSettled \<times> Payout list) option" where
  "set_settled k v sp = (let (s, spare) = sp in
     case find_field [''room_id'', ''round_id'', ''idempotency_key'', ''winning_outcome'', ''total'', ''dust'',
       ''payouts'', ''refunded''] k of
       None \<Rightarrow> None
     | Some f \<Rightarrow>
        if f = ''room_id'' then map_option (\<lambda>x. (s\<lparr>RsRoom := x\<rparr>, spare)) (into_string v (RsRoom s))
        else if f = ''round_id'' then map_option (\<lambda>x. (s\<lparr>RsRound := x\<rparr>, spare)) (into_string v (RsRound s))
        else if f = ''idempotency_key'' then map_option (\<lambda>x. (s\<lparr>RsKey := x\<rparr>, spare)) (into_string v (RsKey s))
        else if f = ''winning_outcome'' then map_option (\<lambda>x. (s\<lparr>RsOutcome := x\<rparr>, spare)) (into_int v (RsOutcome s))
        else if f = ''total'' then map_option (\<lambda>x. (s\<lparr>RsTotal := x\<rparr>, spare)) (into_int v (RsTotal s))
        else if f = ''dust'' then map_option (\<lambda>x. (s\<lparr>RsDust := x\<rparr>, spare)) (into_int v (RsDust s))
        else if f = ''payouts'' then
          map_option (\<lambda>(ps, spare). (s\<lparr>RsPayouts := ps\<rparr>, spare)) (into_payouts True v (RsPayouts s, spare))
        else map_option (\<lambda>x. (s\<lparr>RsRefunded := x\<rparr>, spare)) (into_bool v (RsRefunded s)))"

text \<open>\<open>json.Unmarshal\<close> of a whole text, nested at most 10000 deep, into a slice of payouts.\<close>

fun depth :: "json \<Rightarrow> nat" where
  "depth (JArr vs) = Suc (foldr max (map depth vs) 0)"
| "depth (JObj ms) = Suc (foldr max (map (\<lambda>(k, v). depth v) ms) 0)"
| "depth _ = 0"

definition unmarshal_payouts :: "string \<Rightarrow> Payout list option option" where
  "unmarshal_payouts s = Option.bind (parse s) (\<lambda>v.
     if 10000 < depth v then None else map_option fst (into_payouts False v (None, [])))"

text \<open>
  \<open>Decoder.Decode\<close> takes the first value of the text and ignores what follows it. Deeper
  nesting than a field has is an error anyway.
\<close>

definition first_value :: "string \<Rightarrow> json option" where
  "first_value s = map_option fst (val (Suc (length s)) s)"

section \<open>Stream entries\<close>

text \<open>\<open>decode.go\<close>; errors without a sentinel are \<open>Malformed\<close>.\<close>

definition requireField :: "(string \<rightharpoonup> string) \<Rightarrow> string \<Rightarrow> err + string" where
  "requireField flds name = (case flds name of None \<Rightarrow> Inl Malformed | Some v \<Rightarrow> Inr v)"

definition parseInt :: "(string \<rightharpoonup> string) \<Rightarrow> string \<Rightarrow> err + int" where
  "parseInt flds name = sum_bind (requireField flds name) (\<lambda>v.
     case ParseInt v of None \<Rightarrow> Inl Malformed | Some n \<Rightarrow> Inr n)"

definition decodeWagerPlaced :: "(string \<rightharpoonup> string) \<Rightarrow> err + Event" where
  "decodeWagerPlaced flds =
     sum_bind (requireField flds ''room_id'') (\<lambda>roomID.
     sum_bind (requireField flds ''round_id'') (\<lambda>roundID.
     sum_bind (requireField flds ''user'') (\<lambda>userID.
     sum_bind (requireField flds ''idempotency_key'') (\<lambda>idempotencyKey.
     sum_bind (parseInt flds ''outcome'') (\<lambda>outcome.
     sum_bind (parseInt flds ''amount'') (\<lambda>amount.
     sum_bind (parseInt flds ''balance'') (\<lambda>balance.
     Inr (WagerEvent \<lparr>WpRoom = roomID, WpRound = roundID, WpUser = userID, WpKey = idempotencyKey,
       WpOutcome = outcome, WpAmount = amount, WpBalance = balance\<rparr>))))))))"

text \<open>A missing key of a Go map reads as the empty string.\<close>

definition get_field :: "(string \<rightharpoonup> string) \<Rightarrow> string \<Rightarrow> string" where
  "get_field flds name = (case flds name of None \<Rightarrow> [] | Some v \<Rightarrow> v)"

definition decodeRoundSettled :: "(string \<rightharpoonup> string) \<Rightarrow> bool \<Rightarrow> err + Event" where
  "decodeRoundSettled flds refunded =
     sum_bind (requireField flds ''room_id'') (\<lambda>roomID.
     sum_bind (requireField flds ''round_id'') (\<lambda>roundID.
     sum_bind (requireField flds ''idempotency_key'') (\<lambda>idempotencyKey.
     sum_bind (if refunded then (if get_field flds ''winning_outcome'' \<noteq> [] then Inl Malformed else Inr (- 1))
       else parseInt flds ''winning_outcome'') (\<lambda>winningOutcome.
     sum_bind (parseInt flds ''total'') (\<lambda>total.
     sum_bind (parseInt flds ''dust'') (\<lambda>dust.
     sum_bind (requireField flds ''payouts'') (\<lambda>payoutsRaw.
     case unmarshal_payouts payoutsRaw of None \<Rightarrow> Inl Malformed
     | Some payouts \<Rightarrow> Inr (SettledEvent \<lparr>RsRoom = roomID, RsRound = roundID, RsKey = idempotencyKey,
         RsOutcome = winningOutcome, RsTotal = total, RsDust = dust, RsPayouts = payouts,
         RsRefunded = refunded\<rparr>))))))))"

definition Decode :: "(string \<rightharpoonup> string) \<Rightarrow> err + Event" where
  "Decode flds =
     (let t = get_field flds ''type'' in
      if t = ''wager_placed'' then decodeWagerPlaced flds
      else if t = ''round_settled'' then decodeRoundSettled flds False
      else if t = ''round_refunded'' then decodeRoundSettled flds True
      else Inl (Events ErrUnknownEventType))"

section \<open>Messages\<close>

definition payout_json :: "Payout \<Rightarrow> json" where
  "payout_json p = JObj [(''user_id'', JStr (PayoutUser p)), (''amount'', JNum (itoa (PayoutAmount p)))]"

fun event_json :: "Event \<Rightarrow> json" where
  "event_json (WagerEvent w) = JObj [(''room_id'', JStr (WpRoom w)), (''round_id'', JStr (WpRound w)),
     (''user_id'', JStr (WpUser w)), (''idempotency_key'', JStr (WpKey w)), (''outcome'', JNum (itoa (WpOutcome w))),
     (''amount'', JNum (itoa (WpAmount w))), (''balance'', JNum (itoa (WpBalance w)))]"
| "event_json (SettledEvent s) = JObj [(''room_id'', JStr (RsRoom s)), (''round_id'', JStr (RsRound s)),
     (''idempotency_key'', JStr (RsKey s)), (''winning_outcome'', JNum (itoa (RsOutcome s))),
     (''total'', JNum (itoa (RsTotal s))), (''dust'', JNum (itoa (RsDust s))),
     (''payouts'', case RsPayouts s of None \<Rightarrow> JNull | Some ps \<Rightarrow> JArr (map payout_json ps)),
     (''refunded'', JBool (RsRefunded s))]"

record message =
  MessageTopic :: string
  MessageKey :: string
  MessageValue :: string

definition message_of :: "Event \<Rightarrow> message" where
  "message_of ev = \<lparr>MessageTopic = Topic ev, MessageKey = PartitionKey ev, MessageValue = render (event_json ev)\<rparr>"

definition MaxMessageBytes :: nat where "MaxMessageBytes = 1048576"
definition MaxPayouts :: nat where "MaxPayouts = 10000"

definition invalid :: "err + 'a" where
  "invalid = Inl (Events ErrInvalidEvent)"

definition validateWagerPlaced :: "WagerPlaced \<Rightarrow> err + unit" where
  "validateWagerPlaced w =
     (if WpRoom w = [] then invalid
      else if WpRound w = [] then invalid
      else if WpUser w = [] then invalid
      else if WpKey w = [] then invalid
      else if WpAmount w \<le> 0 then invalid
      else if WpOutcome w < 0 then invalid
      else if WpBalance w < 0 then invalid
      else Inr ())"

definition payout_bad :: "Payout \<Rightarrow> bool" where
  "payout_bad p \<longleftrightarrow> PayoutUser p = [] \<or> PayoutAmount p \<le> 0"

definition validateRoundSettled :: "RoundSettled \<Rightarrow> err + unit" where
  "validateRoundSettled s =
     (if RsRoom s = [] then invalid
      else if RsRound s = [] then invalid
      else if RsKey s = [] then invalid
      else if RsTotal s < 0 then invalid
      else if RsDust s < 0 then invalid
      else if MaxPayouts < length (payouts_of s) then invalid
      else if list_ex payout_bad (payouts_of s) then invalid
      else if RsRefunded s then (if RsOutcome s \<noteq> - 1 then invalid else if RsDust s \<noteq> 0 then invalid else Inr ())
      else if RsOutcome s < 0 then invalid
      else Inr ())"

definition zero_wager :: WagerPlaced where
  "zero_wager = \<lparr>WpRoom = [], WpRound = [], WpUser = [], WpKey = [], WpOutcome = 0, WpAmount = 0, WpBalance = 0\<rparr>"

definition zero_settled :: RoundSettled where
  "zero_settled = \<lparr>RsRoom = [], RsRound = [], RsKey = [], RsOutcome = 0, RsTotal = 0, RsDust = 0,
     RsPayouts = None, RsRefunded = False\<rparr>"

definition DecodeMessage :: "string \<Rightarrow> string \<Rightarrow> err + Event" where
  "DecodeMessage topic msg =
     (if MaxMessageBytes < length msg then invalid
      else if topic = TopicWagersPlaced then
        (case Option.bind (first_value msg) (\<lambda>v. into_struct set_wager v zero_wager) of None \<Rightarrow> invalid
         | Some w \<Rightarrow> sum_bind (validateWagerPlaced w) (\<lambda>_. Inr (WagerEvent w)))
      else if topic = TopicRoundsSettled then
        (case Option.bind (first_value msg) (\<lambda>v. into_struct set_settled v (zero_settled, [])) of None \<Rightarrow> invalid
         | Some (s, _) \<Rightarrow> sum_bind (validateRoundSettled s) (\<lambda>_. Inr (SettledEvent s)))
      else Inl (Events ErrUnknownEventType))"

end
