(* ===== verification/EventSpec.thy ===== *)
theory EventSpec
  imports Events SettleSpec
begin

text \<open>
  The events of the outbox on their way to the ledger: what the scripts append decodes to the
  event they mean, and a message read back is the event that was sent.
\<close>

section \<open>Messages are read back\<close>

lemma first_value_render: "wf_json v \<Longrightarrow> first_value (render v) = Some v"
proof -
  assume "wf_json v"
  then have "\<forall>n t. length (render v) \<le> n \<longrightarrow> stops t \<longrightarrow> val n (render v @ t) = Some (v, t)"
    using val_render [of v] by (simp add: reads_back_def)
  from this [rule_format, of "Suc (length (render v))" "[]"] show ?thesis
    by (simp add: first_value_def)
qed

text \<open>Strings the encoder keeps and integers of 64 bits: what a Go value of the type can hold, less
  invalid UTF-8.\<close>

definition payout_plain :: "Payout \<Rightarrow> bool" where
  "payout_plain p \<longleftrightarrow> valid_utf8 (PayoutUser p) \<and> in64 (PayoutAmount p)"

fun event_plain :: "Event \<Rightarrow> bool" where
  "event_plain (WagerEvent w) \<longleftrightarrow> list_all valid_utf8 [WpRoom w, WpRound w, WpUser w, WpKey w]
     \<and> list_all in64 [WpOutcome w, WpAmount w, WpBalance w]"
| "event_plain (SettledEvent s) \<longleftrightarrow> list_all valid_utf8 [RsRoom s, RsRound s, RsKey s]
     \<and> list_all in64 [RsOutcome s, RsTotal s, RsDust s] \<and> list_all payout_plain (payouts_of s)"

fun event_valid :: "Event \<Rightarrow> bool" where
  "event_valid (WagerEvent w) \<longleftrightarrow> validateWagerPlaced w = Inr ()"
| "event_valid (SettledEvent s) \<longleftrightarrow> validateRoundSettled s = Inr ()"

lemma names_utf8:
  "valid_utf8 ''room_id''" "valid_utf8 ''round_id''" "valid_utf8 ''user_id''" "valid_utf8 ''idempotency_key''"
  "valid_utf8 ''outcome''" "valid_utf8 ''amount''" "valid_utf8 ''balance''" "valid_utf8 ''winning_outcome''"
  "valid_utf8 ''total''" "valid_utf8 ''dust''" "valid_utf8 ''payouts''" "valid_utf8 ''refunded''"
  by code_simp+

lemma payout_json_wf: "payout_plain p \<Longrightarrow> wf_json (payout_json p)"
  by (simp add: payout_plain_def payout_json_def names_utf8 num_itoa)

lemma payouts_json_wf: "list_all payout_plain ps \<Longrightarrow> wf_json (JArr (map payout_json ps))"
  by (induction ps) (simp_all add: payout_json_wf)

lemma event_json_wf: "event_plain ev \<Longrightarrow> wf_json (event_json ev)"
proof (cases ev)
  case (SettledEvent s)
  assume plain: "event_plain ev"
  show ?thesis
  proof (cases "RsPayouts s")
    case (Some ps)
    with plain SettledEvent have "wf_json (JArr (map payout_json ps))"
      by (intro payouts_json_wf) (simp add: payouts_of_def)
    with plain SettledEvent Some show ?thesis by (simp add: names_utf8 num_itoa)
  qed (use plain SettledEvent in \<open>simp add: names_utf8 num_itoa\<close>)
qed (simp add: names_utf8 num_itoa)

lemma into_simps:
  "into_string (JStr x) old = Some x" "in64 n \<Longrightarrow> into_int (JNum (itoa n)) k = Some n" "into_bool (JBool b) c = Some b"
  by (simp_all add: into_string_def into_int_def into_bool_def ParseInt_itoa)

lemma into_payout:
  "payout_plain p \<Longrightarrow> into_struct (set_payout strict) (payout_json p) no_payout = Some p"
  by (simp add: into_struct_def payout_json_def set_payout_def find_field_def into_simps payout_plain_def no_payout_def)

lemma fill_payouts:
  "list_all payout_plain ps \<Longrightarrow> fill strict (map payout_json ps) [] = Some ps"
  by (induction ps) (simp_all add: into_payout)

lemma into_payouts_fresh:
  "list_all payout_plain ps \<Longrightarrow> into_payouts strict (JArr (map payout_json ps)) (None, []) = Some (Some ps, [])"
  using fill_payouts [of ps strict] by (cases ps) (simp_all add: into_payouts_def)

lemma into_wager:
  "event_plain (WagerEvent w) \<Longrightarrow> into_struct set_wager (event_json (WagerEvent w)) zero_wager = Some w"
  by (simp add: into_struct_def set_wager_def find_field_def into_simps zero_wager_def)

lemma into_settled:
  "event_plain (SettledEvent s) \<Longrightarrow>
     into_struct set_settled (event_json (SettledEvent s)) (zero_settled, []) = Some (s, [])"
  by (cases "RsPayouts s")
    (simp_all add: into_struct_def set_settled_def find_field_def into_simps zero_settled_def Let_def
      payouts_of_def into_payouts_fresh into_payouts_def [of _ JNull])

lemma DecodeMessage_message:
  assumes "event_plain ev" "event_valid ev" "length (MessageValue (message_of ev)) \<le> MaxMessageBytes"
  shows "DecodeMessage (MessageTopic (message_of ev)) (MessageValue (message_of ev)) = Inr ev"
  using assms first_value_render [OF event_json_wf [OF assms(1)]] into_wager into_settled
  by (cases ev) (simp_all add: message_of_def DecodeMessage_def TopicWagersPlaced_def TopicRoundsSettled_def eff_simps
      del: event_json.simps render.simps)

section \<open>What the scripts append\<close>

definition wire :: "payout \<Rightarrow> Payout" where
  "wire p = \<lparr>PayoutUser = PayUserID p, PayoutAmount = PayAmount p\<rparr>"

lemma wirePayout_json: "wirePayout p = payout_json (wire p)"
  by (simp add: wirePayout_def payout_json_def wire_def)

lemma depth_payouts: "depth (JArr (map payout_json ps)) \<le> 2"
proof -
  have "foldr max (map (depth \<circ> payout_json) ps) 0 \<le> 1"
    by (induction ps) (simp_all add: payout_json_def)
  then show ?thesis by simp
qed

lemma unmarshal_marshalPayouts:
  "list_all payout_plain (map wire ps) \<Longrightarrow> unmarshal_payouts (marshalPayouts ps) = Some (Some (map wire ps))"
proof -
  assume plain: "list_all payout_plain (map wire ps)"
  have js: "map wirePayout ps = map payout_json (map wire ps)" by (simp add: wirePayout_json)
  have "\<not> 10000 < depth (JArr (map payout_json (map wire ps)))" using depth_payouts [of "map wire ps"] by linarith
  then show ?thesis
    unfolding unmarshal_payouts_def marshalPayouts_def js
    using parse_render [OF payouts_json_wf [OF plain]] into_payouts_fresh [OF plain, of False] by simp
qed

text \<open>The event of an accepted wager and of an ended round.\<close>

definition wager_placed :: "rview \<Rightarrow> WagerRequest \<Rightarrow> WagerPlaced" where
  "wager_placed v rq = \<lparr>WpRoom = ReqRoom rq, WpRound = ReqRound rq, WpUser = ReqUser rq, WpKey = ReqKey rq,
     WpOutcome = ReqOutcome rq, WpAmount = ReqAmount rq,
     WpBalance = amt (wallets v (ReqRoom rq) (ReqUser rq)) - ReqAmount rq\<rparr>"

definition round_settled :: "bool \<Rightarrow> string \<Rightarrow> string \<Rightarrow> string \<Rightarrow> int \<Rightarrow> int \<Rightarrow> int \<Rightarrow> payout list \<Rightarrow> RoundSettled" where
  "round_settled refunded rid room key tot dust win ps = \<lparr>RsRoom = room, RsRound = rid, RsKey = key,
     RsOutcome = (if refunded then - 1 else win), RsTotal = tot, RsDust = dust, RsPayouts = Some (map wire ps),
     RsRefunded = refunded\<rparr>"

lemma Decode_wager_event:
  assumes "event_plain (WagerEvent (wager_placed v rq))"
  shows "Decode (map_of (wager_event v rq)) = Inr (WagerEvent (wager_placed v rq))"
  using assms
  by (simp add: Decode_def get_field_def decodeWagerPlaced_def requireField_def parseInt_def wager_event_def
      wager_placed_def eff_simps ParseInt_itoa)

lemma Decode_settle_event:
  assumes "event_plain (SettledEvent (round_settled refunded rid room key tot dust win ps))"
  shows "Decode (map_of (settle_event (if refunded then ''round_refunded'' else ''round_settled'') rid room key tot dust
      (if refunded then [] else itoa win) ps)) = Inr (SettledEvent (round_settled refunded rid room key tot dust win ps))"
  using assms unmarshal_marshalPayouts [of ps]
  by (cases refunded)
    (simp_all add: Decode_def get_field_def decodeRoundSettled_def requireField_def parseInt_def settle_event_def
      round_settled_def payouts_of_def eff_simps ParseInt_itoa)

section \<open>Properties\<close>

text \<open>
  C28. A message read back is the event that was sent. Whatever event the relay produces, with
  strings of valid UTF-8 and 64-bit integers, if it satisfies the consumer's validation and
  fits the size limit, the ledger worker decodes the produced message to that very event.
\<close>

theorem message_round_trip:
  assumes "event_plain ev" and "event_valid ev" and "length (MessageValue (message_of ev)) \<le> MaxMessageBytes"
  shows "DecodeMessage (MessageTopic (message_of ev)) (MessageValue (message_of ev)) = Inr ev"
  by (rule DecodeMessage_message [OF assms])

text \<open>A settlement that pays two players, with one token of dust.\<close>

definition demo_settled :: RoundSettled where
  "demo_settled = \<lparr>RsRoom = ''r1'', RsRound = ''x1'', RsKey = ''s1'', RsOutcome = 1, RsTotal = 100, RsDust = 1,
     RsPayouts = Some [\<lparr>PayoutUser = ''b'', PayoutAmount = 66\<rparr>, \<lparr>PayoutUser = ''c'', PayoutAmount = 33\<rparr>],
     RsRefunded = False\<rparr>"

lemma demo_settled_fine:
  "event_plain (SettledEvent demo_settled)" "event_valid (SettledEvent demo_settled)"
  "length (MessageValue (message_of (SettledEvent demo_settled))) \<le> 400"
  by code_simp+

theorem message_round_trip_witness:
  "DecodeMessage TopicRoundsSettled (MessageValue (message_of (SettledEvent demo_settled))) = Inr (SettledEvent demo_settled)"
  using message_round_trip [OF demo_settled_fine(1,2)] demo_settled_fine(3)
  by (simp add: MaxMessageBytes_def message_of_def)

end
