(* ===== verification/Postgres.thy ===== *)
theory Postgres
  imports Client Json
begin

text \<open>
  PostgreSQL as the ledger uses it: the tables of \<open>migrations/0001_ledger_schema.up.sql\<close> and
  \<open>0002_ledger_indexes.up.sql\<close>, what its SQL statements do to them under the constraints declared there, and
  the interface \<open>postgres\<close> through which the repository issues them. The type \<open>'u\<close> is that of
  UUIDs; \<open>uuid_of\<close> is the database's reading of a text as one, \<open>text_of\<close> its canonical rendering.
\<close>

section \<open>Tables\<close>

record 'u txn_row =
  TrId :: 'u
  TrKey :: string
  TrKind :: string
  TrRoom :: 'u
  TrRound :: 'u

record 'u account_row =
  ArId :: 'u
  ArKind :: string
  ArUser :: "'u option"
  ArRoom :: "'u option"

record 'u entry_row =
  ErId :: 'u
  ErTxn :: 'u
  ErAccount :: 'u
  ErDirection :: string
  ErAmount :: int

record 'u tables =
  transactions :: "'u txn_row list"
  accounts :: "'u account_row list"
  entries :: "'u entry_row list"

section \<open>Statements\<close>

text \<open>A text value holds valid UTF-8 and no NUL.\<close>

definition pg_text :: "string \<Rightarrow> bool" where
  "pg_text s \<longleftrightarrow> valid_utf8 s \<and> CHR 0x00 \<notin> set s"

text \<open>
  \<open>INSERT INTO transactions ... ON CONFLICT (idempotency_key) DO NOTHING RETURNING id\<close>: no row
  comes back when the key is taken.
\<close>

definition sql_insert_transaction :: "(string \<Rightarrow> 'u option) \<Rightarrow> 'u \<Rightarrow> string \<Rightarrow> string \<Rightarrow> string \<Rightarrow> string \<Rightarrow>
    'u tables \<Rightarrow> (err + 'u option) \<times> 'u tables" where
  "sql_insert_transaction uuid_of new_id key kind room rnd T =
     (case (uuid_of room, uuid_of rnd) of
        (Some r, Some d) \<Rightarrow>
          if \<not> pg_text key \<or> \<not> pg_text kind then (Inl RemoteFailure, T)
          else if key \<in> TrKey ` set (transactions T) then (Inr None, T)
          else if new_id \<in> TrId ` set (transactions T) then (Inl RemoteFailure, T)
          else (Inr (Some new_id), T\<lparr>transactions := transactions T @
            [\<lparr>TrId = new_id, TrKey = key, TrKind = kind, TrRoom = r, TrRound = d\<rparr>]\<rparr>)
      | _ \<Rightarrow> (Inl RemoteFailure, T))"

text \<open>A nullable uuid argument; \<open>None\<close> stands for a text that is not one.\<close>

definition uuid_arg :: "(string \<Rightarrow> 'u option) \<Rightarrow> string option \<Rightarrow> 'u option option" where
  "uuid_arg uuid_of x = (case x of None \<Rightarrow> Some None | Some s \<Rightarrow> map_option Some (uuid_of s))"

definition account_kinds :: "string list" where
  "account_kinds = [''user_wallet'', ''room_escrow'', ''round_pool'', ''system_mint'', ''system_dust'']"

text \<open>
  The partial unique indexes: one wallet per user, one pool per room, one account of each
  system kind.
\<close>

definition same_holder :: "'u account_row \<Rightarrow> 'u account_row \<Rightarrow> bool" where
  "same_holder a b \<longleftrightarrow> ArKind a = ArKind b
     \<and> (ArKind a = ''user_wallet'' \<and> ArUser a = ArUser b \<and> ArUser a \<noteq> None
        \<or> ArKind a = ''round_pool'' \<and> ArRoom a = ArRoom b \<and> ArRoom a \<noteq> None
        \<or> ArKind a \<in> {''system_mint'', ''system_dust''})"

text \<open>\<open>INSERT INTO accounts ... ON CONFLICT (id) DO NOTHING\<close>.\<close>

definition sql_insert_account :: "(string \<Rightarrow> 'u option) \<Rightarrow> 'u \<Rightarrow> string \<Rightarrow> string option \<Rightarrow> string option \<Rightarrow>
    'u tables \<Rightarrow> (err + unit) \<times> 'u tables" where
  "sql_insert_account uuid_of acc kind user room T =
     (case (uuid_arg uuid_of user, uuid_arg uuid_of room) of
        (Some u, Some r) \<Rightarrow>
          (let row = \<lparr>ArId = acc, ArKind = kind, ArUser = u, ArRoom = r\<rparr> in
          if kind \<notin> set account_kinds then (Inl RemoteFailure, T)
          else if acc \<in> ArId ` set (accounts T) then (Inr (), T)
          else if list_ex (same_holder row) (accounts T) then (Inl RemoteFailure, T)
          else (Inr (), T\<lparr>accounts := accounts T @ [row]\<rparr>))
      | _ \<Rightarrow> (Inl RemoteFailure, T))"

definition sql_insert_entry :: "'u \<Rightarrow> 'u \<Rightarrow> 'u \<Rightarrow> string \<Rightarrow> int \<Rightarrow> 'u tables \<Rightarrow> (err + unit) \<times> 'u tables" where
  "sql_insert_entry new_id txn account direction amount T =
     (if txn \<notin> TrId ` set (transactions T) \<or> account \<notin> ArId ` set (accounts T) then (Inl RemoteFailure, T)
      else if direction \<notin> {''debit'', ''credit''} then (Inl RemoteFailure, T)
      else if amount \<le> 0 \<or> \<not> in64 amount then (Inl RemoteFailure, T)
      else if new_id \<in> ErId ` set (entries T) then (Inl RemoteFailure, T)
      else (Inr (), T\<lparr>entries := entries T @
        [\<lparr>ErId = new_id, ErTxn = txn, ErAccount = account, ErDirection = direction, ErAmount = amount\<rparr>]\<rparr>))"

text \<open>\<open>SUM(CASE WHEN direction = 'debit' THEN amount ELSE -amount END)\<close> of a transaction.\<close>

definition signed :: "'u entry_row \<Rightarrow> int" where
  "signed e = (if ErDirection e = ''debit'' then ErAmount e else - ErAmount e)"

definition entries_of :: "'u tables \<Rightarrow> 'u \<Rightarrow> 'u entry_row list" where
  "entries_of T txn = filter (\<lambda>e. ErTxn e = txn) (entries T)"

definition net_of :: "'u tables \<Rightarrow> 'u \<Rightarrow> int" where
  "net_of T txn = (\<Sum>e\<leftarrow>entries_of T txn. signed e)"

text \<open>
  \<open>COMMIT\<close> runs the deferred trigger \<open>assert_transaction_balanced\<close> once for every entry the
  transaction inserted.
\<close>

definition commit_ok :: "'u tables \<Rightarrow> 'u tables \<Rightarrow> bool" where
  "commit_ok D T \<longleftrightarrow> list_all (\<lambda>e. net_of T (ErTxn e) = 0) (drop (length (entries D)) (entries T))"

section \<open>Queries\<close>

definition account_of :: "'u tables \<Rightarrow> 'u \<Rightarrow> 'u account_row option" where
  "account_of T a = find (\<lambda>r. ArId r = a) (accounts T)"

definition txn_of_id :: "'u tables \<Rightarrow> 'u \<Rightarrow> 'u txn_row option" where
  "txn_of_id T t = find (\<lambda>r. TrId r = t) (transactions T)"

text \<open>The rows of the three-way join that satisfy a condition.\<close>

definition joined :: "('u account_row \<Rightarrow> 'u txn_row \<Rightarrow> bool) \<Rightarrow> 'u tables \<Rightarrow> 'u entry_row list" where
  "joined P T = filter (\<lambda>e. case (account_of T (ErAccount e), txn_of_id T (ErTxn e)) of
     (Some a, Some t) \<Rightarrow> P a t | _ \<Rightarrow> False) (entries T)"

definition credit_net :: "'u entry_row list \<Rightarrow> int" where
  "credit_net es = (\<Sum>e\<leftarrow>es. if ErDirection e = ''credit'' then ErAmount e else - ErAmount e)"

text \<open>A wallet without a user would be a group of its own, with a null name.\<close>

definition sql_wallets :: "'u \<Rightarrow> 'u tables \<Rightarrow> ('u option \<times> int) list" where
  "sql_wallets room T =
     (let rows = joined (\<lambda>a t. ArKind a = ''user_wallet'' \<and> TrRoom t = room) T;
          holder = (\<lambda>e. Option.bind (account_of T (ErAccount e)) ArUser)
      in map (\<lambda>u. (u, credit_net (filter (\<lambda>e. holder e = u) rows))) (remdups (map holder rows)))"

definition sql_pool :: "'u \<Rightarrow> 'u tables \<Rightarrow> int" where
  "sql_pool room T = credit_net (joined (\<lambda>a t. ArKind a = ''round_pool'' \<and> ArRoom a = Some room) T)"

definition sql_dust :: "'u \<Rightarrow> 'u tables \<Rightarrow> int" where
  "sql_dust room T = (\<Sum>e\<leftarrow>joined (\<lambda>a t. ArKind a = ''system_dust'' \<and> TrRoom t = room) T. ErAmount e)"

definition sql_count :: "'u \<Rightarrow> 'u tables \<Rightarrow> int" where
  "sql_count room T = int (length (filter (\<lambda>t. TrRoom t = room) (transactions T)))"

section \<open>The interface\<close>

text \<open>
  What a session sees: the committed tables and, inside a transaction no statement of which
  has failed, its own copy. The queries are run outside one.
\<close>

record 'u pg_view =
  saved :: "'u tables"
  work :: "'u tables option"

record ('s, 'u) postgres =
  UuidText :: "string \<Rightarrow> 'u option"
  TextOf :: "'u \<Rightarrow> string"
  Begin :: "('s, err, unit) eff"
  InsertTransaction :: "'u \<Rightarrow> string \<Rightarrow> string \<Rightarrow> string \<Rightarrow> string \<Rightarrow> ('s, err, 'u option) eff"
  InsertAccount :: "'u \<Rightarrow> string \<Rightarrow> string option \<Rightarrow> string option \<Rightarrow> ('s, err, unit) eff"
  InsertEntry :: "'u \<Rightarrow> 'u \<Rightarrow> 'u \<Rightarrow> string \<Rightarrow> int \<Rightarrow> ('s, err, unit) eff"
  Commit :: "('s, err, unit) eff"
  Rollback :: "'s \<Rightarrow> 's"
  SelectWallets :: "string \<Rightarrow> ('s, err, (string option \<times> int) list) eff"
  SelectPool :: "string \<Rightarrow> ('s, err, int) eff"
  SelectDust :: "string \<Rightarrow> ('s, err, int) eff"
  SelectCount :: "string \<Rightarrow> ('s, err, int) eff"

text \<open>A statement inside a transaction; a failed one leaves the transaction unusable.\<close>

definition in_txn :: "('u tables \<Rightarrow> (err + 'a) \<times> 'u tables) \<Rightarrow> 'u pg_view \<Rightarrow> (err + 'a) \<times> 'u pg_view" where
  "in_txn f v = (case work v of None \<Rightarrow> (Inl RemoteFailure, v)
     | Some T \<Rightarrow> (case f T of (Inl e, _) \<Rightarrow> (Inl e, v\<lparr>work := None\<rparr>) | (Inr x, T') \<Rightarrow> (Inr x, v\<lparr>work := Some T'\<rparr>)))"

definition sql_commit :: "'u pg_view \<Rightarrow> (err + unit) \<times> 'u pg_view" where
  "sql_commit v = (case work v of None \<Rightarrow> (Inl RemoteFailure, v)
     | Some T \<Rightarrow> if commit_ok (saved v) T then (Inr (), \<lparr>saved = T, work = None\<rparr>)
         else (Inl RemoteFailure, v\<lparr>work := None\<rparr>))"

definition sql_query :: "(string \<Rightarrow> 'u option) \<Rightarrow> string \<Rightarrow> ('u \<Rightarrow> 'u tables \<Rightarrow> 'a) \<Rightarrow> 'u pg_view \<Rightarrow> err + 'a" where
  "sql_query uuid_of room q v = (case uuid_of room of None \<Rightarrow> Inl RemoteFailure | Some r \<Rightarrow> Inr (q r (saved v)))"

locale postgres_server =
  fixes P :: "('s, 'u) postgres" and view :: "'s \<Rightarrow> 'u pg_view"
  assumes Begin: "acts view (Begin P) (\<lambda>v. (Inr (), v\<lparr>work := Some (saved v)\<rparr>))"
    and InsertTransaction: "acts view (InsertTransaction P new_id key kind room rnd)
      (in_txn (sql_insert_transaction (UuidText P) new_id key kind room rnd))"
    and InsertAccount: "acts view (InsertAccount P acc kind user room')
      (in_txn (sql_insert_account (UuidText P) acc kind user room'))"
    and InsertEntry: "acts view (InsertEntry P new_id txn account direction amount)
      (in_txn (sql_insert_entry new_id txn account direction amount))"
    and Commit: "acts view (Commit P) sql_commit"
    and Rollback: "view (Rollback P s) = (view s)\<lparr>work := None\<rparr>"
    and SelectWallets: "acts view (SelectWallets P room)
      (\<lambda>v. (sql_query (UuidText P) room (\<lambda>r T. map (\<lambda>(u, n). (map_option (TextOf P) u, n)) (sql_wallets r T)) v, v))"
    and SelectPool: "acts view (SelectPool P room) (\<lambda>v. (sql_query (UuidText P) room sql_pool v, v))"
    and SelectDust: "acts view (SelectDust P room) (\<lambda>v. (sql_query (UuidText P) room sql_dust v, v))"
    and SelectCount: "acts view (SelectCount P room) (\<lambda>v. (sql_query (UuidText P) room sql_count v, v))"
    and text_of: "UuidText P (TextOf P u) = Some u"

section \<open>A database in memory\<close>

text \<open>UUIDs are their canonical texts: an instance of the interface, on which the properties are tried.\<close>

definition mem_pg :: "(string pg_view, string) postgres" where
  "mem_pg = \<lparr>UuidText = Some, TextOf = id,
     Begin = (\<lambda>v. (Inr (), v\<lparr>work := Some (saved v)\<rparr>)),
     InsertTransaction = (\<lambda>new_id key kind room rnd. in_txn (sql_insert_transaction Some new_id key kind room rnd)),
     InsertAccount = (\<lambda>acc kind user room. in_txn (sql_insert_account Some acc kind user room)),
     InsertEntry = (\<lambda>new_id txn account direction amount. in_txn (sql_insert_entry new_id txn account direction amount)),
     Commit = sql_commit, Rollback = (\<lambda>v. v\<lparr>work := None\<rparr>),
     SelectWallets = (\<lambda>room v. (sql_query Some room sql_wallets v, v)),
     SelectPool = (\<lambda>room v. (sql_query Some room sql_pool v, v)),
     SelectDust = (\<lambda>room v. (sql_query Some room sql_dust v, v)),
     SelectCount = (\<lambda>room v. (sql_query Some room sql_count v, v))\<rparr>"

interpretation mem_pg: postgres_server mem_pg id
  by unfold_locales (simp_all add: mem_pg_def acts_def option.map_id split_def)

end
