(* ===== verification/Ledger.thy ===== *)
theory Ledger
  imports Postgres Events
begin

text \<open>
  \<open>internal/ledger\<close>: account identities (\<open>account.go\<close>), the balanced transaction of an event
  (\<open>mapping.go\<close>), writing batches of them to PostgreSQL and reading balances (\<open>repo.go\<close>), and
  the worker between Kafka and the ledger (\<open>worker.go\<close>).
\<close>

section \<open>Accounts\<close>

datatype AccountKind = KindUserWallet | KindRoomEscrow | KindRoundPool | KindSystemMint | KindSystemDust

fun kind_text :: "AccountKind \<Rightarrow> string" where
  "kind_text KindUserWallet = ''user_wallet''"
| "kind_text KindRoomEscrow = ''room_escrow''"
| "kind_text KindRoundPool = ''round_pool''"
| "kind_text KindSystemMint = ''system_mint''"
| "kind_text KindSystemDust = ''system_dust''"

datatype Direction = Debit | Credit

fun direction_text :: "Direction \<Rightarrow> string" where
  "direction_text Debit = ''debit''"
| "direction_text Credit = ''credit''"

record AccountRef =
  RefKind :: AccountKind
  RefUser :: string
  RefRoom :: string

text \<open>\<open>sha1\<close> is \<open>uuid.NewSHA1\<close> in the account name space.\<close>

definition account_key :: "AccountRef \<Rightarrow> string" where
  "account_key a = kind_text (RefKind a) @ '':'' @ RefUser a @ '':'' @ RefRoom a"

definition ID :: "(string \<Rightarrow> 'u) \<Rightarrow> AccountRef \<Rightarrow> 'u" where
  "ID sha1 a = sha1 (account_key a)"

section \<open>Transactions\<close>

record Entry =
  EntryAccount :: AccountRef
  EntryDirection :: Direction
  EntryAmount :: int

record Transaction =
  TxKey :: string
  TxKind :: string
  TxRoom :: string
  TxRound :: string
  TxEntries :: "Entry list"

definition user_wallet :: "string \<Rightarrow> AccountRef" where
  "user_wallet u = \<lparr>RefKind = KindUserWallet, RefUser = u, RefRoom = []\<rparr>"

definition round_pool :: "string \<Rightarrow> AccountRef" where
  "round_pool r = \<lparr>RefKind = KindRoundPool, RefUser = [], RefRoom = r\<rparr>"

definition system_dust :: AccountRef where
  "system_dust = \<lparr>RefKind = KindSystemDust, RefUser = [], RefRoom = []\<rparr>"

definition transactionForWager :: "WagerPlaced \<Rightarrow> Transaction" where
  "transactionForWager e = \<lparr>TxKey = WpKey e, TxKind = ''wager'', TxRoom = WpRoom e, TxRound = WpRound e,
     TxEntries = [\<lparr>EntryAccount = user_wallet (WpUser e), EntryDirection = Debit, EntryAmount = WpAmount e\<rparr>,
       \<lparr>EntryAccount = round_pool (WpRoom e), EntryDirection = Credit, EntryAmount = WpAmount e\<rparr>]\<rparr>"

definition payout_entry :: "Payout \<Rightarrow> Entry" where
  "payout_entry p = \<lparr>EntryAccount = user_wallet (PayoutUser p), EntryDirection = Credit, EntryAmount = PayoutAmount p\<rparr>"

definition transactionForSettlement :: "RoundSettled \<Rightarrow> err + Transaction" where
  "transactionForSettlement e =
     (let sum = foldl (\<lambda>n p. i64 (n + PayoutAmount p)) (RsDust e) (payouts_of e) in
      if sum \<noteq> RsTotal e then Inl (Ledger ErrUnbalanced)
      else Inr \<lparr>TxKey = RsKey e, TxKind = (if RsRefunded e then ''refund'' else ''settlement''),
        TxRoom = RsRoom e, TxRound = RsRound e,
        TxEntries = (if RsTotal e > 0
            then [\<lparr>EntryAccount = round_pool (RsRoom e), EntryDirection = Debit, EntryAmount = RsTotal e\<rparr>] else [])
          @ map payout_entry (payouts_of e)
          @ (if RsDust e > 0
             then [\<lparr>EntryAccount = system_dust, EntryDirection = Credit, EntryAmount = RsDust e\<rparr>] else [])\<rparr>)"

fun TransactionFor :: "Event \<Rightarrow> err + Transaction" where
  "TransactionFor (WagerEvent e) = Inr (transactionForWager e)"
| "TransactionFor (SettledEvent e) = transactionForSettlement e"

section \<open>The repository\<close>

text \<open>
  The world of the repository: the database session, the turns of its environment (a statement
  may fail before or after it has run) and the UUIDs the random source will give; it panics
  when there are none.
\<close>

record ('s, 'u) ledger_world = "'s world" +
  random_uuids :: "'u list"

type_synonym ('s, 'u, 'x, 'a) led = "(('s, 'u, 'x) ledger_world_scheme, err, 'a) eff"

definition newUUID :: "('s, 'u, 'x, 'u) led" where
  "newUUID w = (case random_uuids w of [] \<Rightarrow> (Inl Panic, w) | u # us \<Rightarrow> (Inr u, w\<lparr>random_uuids := us\<rparr>))"

definition null_if_empty :: "string \<Rightarrow> string option" where
  "null_if_empty s = (if s \<noteq> [] then Some s else None)"

fun insert_accounts :: "('s, 'u) postgres \<Rightarrow> (string \<Rightarrow> 'u) \<Rightarrow> Entry list \<Rightarrow> ('s, 'u, 'x, unit) led" where
  "insert_accounts P sha1 [] = ret ()"
| "insert_accounts P sha1 (e # es) =
     andThen (roundtrip (InsertAccount P (ID sha1 (EntryAccount e)) (kind_text (RefKind (EntryAccount e)))
       (null_if_empty (RefUser (EntryAccount e))) (null_if_empty (RefRoom (EntryAccount e)))))
       (\<lambda>_. insert_accounts P sha1 es)"

fun insert_entries :: "('s, 'u) postgres \<Rightarrow> (string \<Rightarrow> 'u) \<Rightarrow> 'u \<Rightarrow> Entry list \<Rightarrow> ('s, 'u, 'x, unit) led" where
  "insert_entries P sha1 txn [] = ret ()"
| "insert_entries P sha1 txn (e # es) =
     andThen newUUID (\<lambda>new_id.
     andThen (roundtrip (InsertEntry P new_id txn (ID sha1 (EntryAccount e))
       (direction_text (EntryDirection e)) (EntryAmount e)))
       (\<lambda>_. insert_entries P sha1 txn es))"

fun write_transactions :: "('s, 'u) postgres \<Rightarrow> (string \<Rightarrow> 'u) \<Rightarrow> Transaction list \<Rightarrow> int \<Rightarrow> ('s, 'u, 'x, int) led" where
  "write_transactions P sha1 [] written = ret written"
| "write_transactions P sha1 (txn # txns) written =
     andThen newUUID (\<lambda>new_id.
     andThen (roundtrip (InsertTransaction P new_id (TxKey txn) (TxKind txn) (TxRoom txn) (TxRound txn))) (\<lambda>r.
     case r of
       None \<Rightarrow> write_transactions P sha1 txns written
     | Some txnID \<Rightarrow>
         andThen (insert_accounts P sha1 (TxEntries txn)) (\<lambda>_.
         andThen (insert_entries P sha1 txnID (TxEntries txn)) (\<lambda>_.
         write_transactions P sha1 txns (written + 1)))))"

text \<open>
  The deferred \<open>Rollback\<close> does nothing once \<open>Commit\<close> has been called; a connection that is
  lost rolls back too.
\<close>

definition WriteBatch :: "('s, 'u) postgres \<Rightarrow> (string \<Rightarrow> 'u) \<Rightarrow> Transaction list \<Rightarrow> ('s, 'u, 'x, int) led" where
  "WriteBatch P sha1 txns =
     andThen (roundtrip (Begin P)) (\<lambda>_.
     attempt (write_transactions P sha1 txns 0) (\<lambda>r. case r of
       Inl e \<Rightarrow> andThen (exec (\<lambda>w. w\<lparr>db := Rollback P (db w)\<rparr>)) (\<lambda>_. raise e)
     | Inr written \<Rightarrow> andThen (roundtrip (Commit P)) (\<lambda>_. ret written)))"

section \<open>Balances\<close>

text \<open>A sum outside 64 bits cannot be scanned, and neither can a null name.\<close>

definition scan64 :: "int \<Rightarrow> err + int" where
  "scan64 n = (if in64 n then Inr n else Inl RemoteFailure)"

definition scan_wallet :: "string option \<times> int \<Rightarrow> err + string \<times> int" where
  "scan_wallet r = (case fst r of None \<Rightarrow> Inl RemoteFailure
     | Some u \<Rightarrow> sum_bind (scan64 (snd r)) (\<lambda>n. Inr (u, n)))"

definition WalletBalancesForRoom :: "('s, 'u) postgres \<Rightarrow> string \<Rightarrow> ('s, 'u, 'x, string \<rightharpoonup> int) led" where
  "WalletBalancesForRoom P roomID =
     andThen (roundtrip (SelectWallets P roomID)) (\<lambda>rows.
     andThen (lift_sum (try_map scan_wallet rows)) (\<lambda>bs. ret (foldl (\<lambda>m (u, n). m(u \<mapsto> n)) Map.empty bs)))"

definition PoolBalance :: "('s, 'u) postgres \<Rightarrow> string \<Rightarrow> ('s, 'u, 'x, int) led" where
  "PoolBalance P roomID = andThen (roundtrip (SelectPool P roomID)) (\<lambda>n. lift_sum (scan64 n))"

definition DustForRoom :: "('s, 'u) postgres \<Rightarrow> string \<Rightarrow> ('s, 'u, 'x, int) led" where
  "DustForRoom P roomID = andThen (roundtrip (SelectDust P roomID)) (\<lambda>n. lift_sum (scan64 n))"

definition TransactionCount :: "('s, 'u) postgres \<Rightarrow> string \<Rightarrow> ('s, 'u, 'x, int) led" where
  "TransactionCount P roomID = andThen (roundtrip (SelectCount P roomID)) (\<lambda>n. lift_sum (scan64 n))"

section \<open>The worker\<close>

definition maxBatch :: nat where "maxBatch = 100"

datatype fetch_err = DeadlineExceeded | Canceled | FetchError

text \<open>What a fetched message says of itself, and the two interfaces the worker is built over.\<close>

record fetched =
  FromTopic :: string
  FromPartition :: nat
  AtOffset :: nat
  FetchedValue :: string

record 'w consumer =
  Fetch :: "('w, fetch_err, fetched) eff"
  CommitMessages :: "fetched list \<Rightarrow> ('w, err, unit) eff"

type_synonym 'w ledger_writer = "Transaction list \<Rightarrow> ('w, err, int) eff"

text \<open>
  The gathering loop: the number of messages it may still take, the messages taken. \<open>None\<close> is
  its early return.
\<close>

fun gather :: "'w consumer \<Rightarrow> nat \<Rightarrow> fetched list \<Rightarrow> ('w, err, fetched list option) eff" where
  "gather C 0 msgs = ret (Some msgs)"
| "gather C (Suc n) msgs = attempt (Fetch C) (\<lambda>r. case r of
       Inl e \<Rightarrow> if e = DeadlineExceeded then ret (Some msgs)
         else if e = Canceled then ret (Some msgs)
         else ret None
     | Inr m \<Rightarrow> gather C n (msgs @ [m]))"

definition transaction_of :: "fetched \<Rightarrow> err + Transaction" where
  "transaction_of m = sum_bind (DecodeMessage (FromTopic m) (FetchedValue m)) TransactionFor"

definition Once :: "'w consumer \<Rightarrow> 'w ledger_writer \<Rightarrow> ('w, err, int) eff" where
  "Once C W = attempt (Fetch C) (\<lambda>r. case r of
       Inl _ \<Rightarrow> ret 0
     | Inr m \<Rightarrow> andThen (gather C (maxBatch - 1) [m]) (\<lambda>g. case g of
         None \<Rightarrow> ret 0
       | Some msgs \<Rightarrow>
           andThen (lift_sum (try_map transaction_of msgs)) (\<lambda>txns.
           andThen (W txns) (\<lambda>_.
           andThen (CommitMessages C msgs) (\<lambda>_. ret (int (length msgs)))))))"

text \<open>
  \<open>Run\<close>: the list says what \<open>ctx.Err()\<close> is after each round (\<open>True\<close> for a cancelled context);
  \<open>None\<close> when the worker is still running at its end.
\<close>

fun RunWorker :: "'w consumer \<Rightarrow> 'w ledger_writer \<Rightarrow> bool list \<Rightarrow> ('w, err, unit option) eff" where
  "RunWorker C W [] = ret None"
| "RunWorker C W (cancelled # rest) = attempt (Once C W) (\<lambda>r. case r of
       Inl e \<Rightarrow> if cancelled then ret (Some ()) else raise e
     | Inr _ \<Rightarrow> if cancelled then ret (Some ()) else RunWorker C W rest)"

end
