(* ===== verification/LedgerSpec.thy ===== *)
theory LedgerSpec
  imports Ledger
begin

text \<open>
  What the ledger promises: the transaction of an event is balanced; a batch posts every
  transaction whose key is new, whole and once, or nothing; the tables stay a double-entry
  ledger whatever fails.
\<close>

section \<open>The transaction of an event\<close>

definition entry_net :: "Entry \<Rightarrow> int" where
  "entry_net e = (if EntryDirection e = Debit then EntryAmount e else - EntryAmount e)"

definition tx_net :: "Transaction \<Rightarrow> int" where
  "tx_net t = (\<Sum>e\<leftarrow>TxEntries t. entry_net e)"

definition paid_total :: "RoundSettled \<Rightarrow> int" where
  "paid_total s = (\<Sum>p\<leftarrow>payouts_of s. PayoutAmount p)"

lemma wrapped_sum:
  "foldl (\<lambda>n p. i64 (n + PayoutAmount p)) d ps mod 2 ^ 64 = (d + (\<Sum>p\<leftarrow>ps. PayoutAmount p)) mod 2 ^ 64"
proof (induction ps arbitrary: d)
  case (Cons p ps)
  have "foldl (\<lambda>n p. i64 (n + PayoutAmount p)) d (p # ps) mod 2 ^ 64
      = (i64 (d + PayoutAmount p) + (\<Sum>p\<leftarrow>ps. PayoutAmount p)) mod 2 ^ 64"
    using Cons [of "i64 (d + PayoutAmount p)"] by (simp only: foldl_Cons)
  also have "\<dots> = (d + PayoutAmount p + (\<Sum>p\<leftarrow>ps. PayoutAmount p)) mod 2 ^ 64"
    by (rule mod_add_cong [OF i64_mod refl])
  finally show ?case by (simp only: list.map sum_list.Cons add.assoc)
qed simp

lemma in64_foldl_i64: "in64 d \<Longrightarrow> in64 (foldl (\<lambda>n p. i64 (n + PayoutAmount p)) d ps)"
  by (induction ps arbitrary: d) simp_all

text \<open>Two integers of 64 bits that agree modulo 2 to the 64th are the same.\<close>

lemma in64_mod_eq: "in64 a \<Longrightarrow> in64 b \<Longrightarrow> a mod 2 ^ 64 = b mod 2 ^ 64 \<Longrightarrow> a = b"
proof (rule ccontr)
  assume "in64 a" "in64 b" "a mod 2 ^ 64 = b mod 2 ^ 64" "a \<noteq> b"
  then have "2 ^ 64 dvd a - b" "\<bar>a - b\<bar> < 2 ^ 64" "a - b \<noteq> 0" by (auto simp: mod_eq_dvd_iff in64_def)
  then show False using zdvd_not_zless [of "\<bar>a - b\<bar>" "2 ^ 64"] by simp
qed

lemma payout_entries_net: "(\<Sum>e\<leftarrow>map payout_entry ps. entry_net e) = - (\<Sum>p\<leftarrow>ps. PayoutAmount p)"
  by (induction ps) (simp_all add: payout_entry_def entry_net_def)

definition settlement_entries :: "RoundSettled \<Rightarrow> Entry list" where
  "settlement_entries s =
     (if RsTotal s > 0
      then [\<lparr>EntryAccount = round_pool (RsRoom s), EntryDirection = Debit, EntryAmount = RsTotal s\<rparr>] else [])
     @ map payout_entry (payouts_of s)
     @ (if RsDust s > 0 then [\<lparr>EntryAccount = system_dust, EntryDirection = Credit, EntryAmount = RsDust s\<rparr>] else [])"

lemma transactionForSettlement_Inr:
  "transactionForSettlement s = Inr t \<longleftrightarrow>
     foldl (\<lambda>n p. i64 (n + PayoutAmount p)) (RsDust s) (payouts_of s) = RsTotal s
     \<and> t = \<lparr>TxKey = RsKey s, TxKind = (if RsRefunded s then ''refund'' else ''settlement''),
        TxRoom = RsRoom s, TxRound = RsRound s, TxEntries = settlement_entries s\<rparr>"
  unfolding transactionForSettlement_def settlement_entries_def Let_def by auto

lemma tx_net_settlement:
  assumes "transactionForSettlement s = Inr t" "0 \<le> RsTotal s" "0 \<le> RsDust s"
  shows "tx_net t = RsTotal s - RsDust s - paid_total s" "tx_net t mod 2 ^ 64 = 0"
proof -
  have parts: "foldl (\<lambda>n p. i64 (n + PayoutAmount p)) (RsDust s) (payouts_of s) = RsTotal s"
    "TxEntries t = settlement_entries s"
    using assms(1) unfolding transactionForSettlement_Inr by simp_all
  show net: "tx_net t = RsTotal s - RsDust s - paid_total s"
    unfolding tx_net_def parts(2) settlement_entries_def map_append sum_list_append payout_entries_net paid_total_def
    using assms(2,3) by (simp add: entry_net_def)
  have "RsTotal s mod 2 ^ 64 = (RsDust s + paid_total s) mod 2 ^ 64"
    using wrapped_sum [of "RsDust s" "payouts_of s"] by (simp only: parts(1) paid_total_def)
  then have "2 ^ 64 dvd RsTotal s - (RsDust s + paid_total s)" by (simp only: mod_eq_dvd_iff)
  then show "tx_net t mod 2 ^ 64 = 0" unfolding net by (simp only: diff_diff_eq dvd_imp_mod_0)
qed

lemma tx_net_wager: "tx_net (transactionForWager w) = 0"
  by (simp add: tx_net_def transactionForWager_def entry_net_def)

text \<open>Without wrap-around the check is the equation it is meant to be.\<close>

lemma transactionForSettlement_exact:
  assumes "in64 (RsTotal s)" "in64 (RsDust s)" "in64 (RsDust s + paid_total s)"
  shows "(\<exists>t. transactionForSettlement s = Inr t) \<longleftrightarrow> RsDust s + paid_total s = RsTotal s"
proof -
  have "foldl (\<lambda>n p. i64 (n + PayoutAmount p)) (RsDust s) (payouts_of s) = RsDust s + paid_total s"
    by (rule in64_mod_eq [OF in64_foldl_i64]) (rule assms, rule assms, simp only: wrapped_sum paid_total_def)
  then show ?thesis unfolding transactionForSettlement_Inr by auto
qed

definition entries_positive :: "Transaction \<Rightarrow> bool" where
  "entries_positive t \<longleftrightarrow> list_all (\<lambda>e. 0 < EntryAmount e) (TxEntries t)"

lemma validated_payouts: "validateRoundSettled s = Inr () \<Longrightarrow> p \<in> set (payouts_of s) \<Longrightarrow> 0 < PayoutAmount p"
  by (auto simp: validateRoundSettled_def invalid_def payout_bad_def list_ex_iff split: if_splits)

lemma transactionForSettlement_positive:
  "validateRoundSettled s = Inr () \<Longrightarrow> transactionForSettlement s = Inr t \<Longrightarrow> entries_positive t"
  using validated_payouts [of s]
  unfolding transactionForSettlement_Inr
  by (auto simp: entries_positive_def settlement_entries_def payout_entry_def list_all_iff)

section \<open>The tables\<close>

text \<open>What the constraints of the schema maintain.\<close>

definition tables_ok :: "'u tables \<Rightarrow> bool" where
  "tables_ok T \<longleftrightarrow> distinct (map TrId (transactions T)) \<and> distinct (map TrKey (transactions T))
     \<and> distinct (map ArId (accounts T)) \<and> distinct (map ErId (entries T))
     \<and> (\<forall>e\<in>set (entries T). ErTxn e \<in> TrId ` set (transactions T) \<and> ErAccount e \<in> ArId ` set (accounts T)
          \<and> 0 < ErAmount e)"

definition balanced :: "'u tables \<Rightarrow> bool" where
  "balanced T \<longleftrightarrow> (\<forall>t. net_of T t = 0)"

text \<open>The ledger as an auditor reads it: the postings in order, each with its lines.\<close>

record 'u posting =
  PostKey :: string
  PostKind :: string
  PostRoom :: 'u
  PostRound :: 'u
  PostLines :: "('u \<times> string \<times> int) list"

definition line_of :: "'u entry_row \<Rightarrow> 'u \<times> string \<times> int" where
  "line_of e = (ErAccount e, ErDirection e, ErAmount e)"

definition posting_of :: "'u tables \<Rightarrow> 'u txn_row \<Rightarrow> 'u posting" where
  "posting_of T r = \<lparr>PostKey = TrKey r, PostKind = TrKind r, PostRoom = TrRoom r, PostRound = TrRound r,
     PostLines = map line_of (entries_of T (TrId r))\<rparr>"

definition book :: "'u tables \<Rightarrow> 'u posting list" where
  "book T = map (posting_of T) (transactions T)"

text \<open>The specification: transactions with a new key are posted, the others skipped.\<close>

definition posting_for :: "(string \<Rightarrow> 'u option) \<Rightarrow> (string \<Rightarrow> 'u) \<Rightarrow> Transaction \<Rightarrow> 'u posting" where
  "posting_for uuid_of sha1 t = \<lparr>PostKey = TxKey t, PostKind = TxKind t, PostRoom = the (uuid_of (TxRoom t)),
     PostRound = the (uuid_of (TxRound t)),
     PostLines = map (\<lambda>e. (ID sha1 (EntryAccount e), direction_text (EntryDirection e), EntryAmount e)) (TxEntries t)\<rparr>"

fun post_all :: "(Transaction \<Rightarrow> 'u posting) \<Rightarrow> 'u posting list \<Rightarrow> Transaction list \<Rightarrow> 'u posting list" where
  "post_all f b [] = b"
| "post_all f b (t # ts) = post_all f (if TxKey t \<in> PostKey ` set b then b else b @ [f t]) ts"

lemma book_keys: "PostKey ` set (book T) = TrKey ` set (transactions T)" "length (book T) = length (transactions T)"
  by (auto simp: book_def posting_of_def image_iff)

lemma post_all_append: "post_all f b (ts @ us) = post_all f (post_all f b ts) us"
  by (induction ts arbitrary: b) simp_all

lemma post_all_extends: "\<exists>c. post_all f b ts = b @ c"
  by (induction ts arbitrary: b) (auto, metis append.assoc)

lemma post_all_keys: "(\<And>t. PostKey (f t) = TxKey t) \<Longrightarrow> PostKey ` set (post_all f b ts) = PostKey ` set b \<union> TxKey ` set ts"
  by (induction ts arbitrary: b) auto

lemma post_all_known: "TxKey ` set ts \<subseteq> PostKey ` set b \<Longrightarrow> post_all f b ts = b"
  by (induction ts) auto

section \<open>Statements over the network\<close>

text \<open>
  Faults: a statement may fail before it runs or after it has, but is not sent twice; nobody
  else writes to the ledger.
\<close>

definition pg_env :: "('s \<Rightarrow> 'v) \<Rightarrow> ('s, 'x) world_scheme \<Rightarrow> bool" where
  "pg_env view w \<longleftrightarrow> (\<forall>gs g a. Turn gs g a \<in> set (turns w) \<longrightarrow>
     (\<forall>h\<in>insert g (set gs). \<forall>s. view (h s) = view s) \<and> (gs = [] \<or> a = Unanswered \<and> length gs = 1))"

lemma pg_env_quiet: "turns w = [] \<Longrightarrow> pg_env view w"
  by (simp add: pg_env_def)

lemma pg_env_upd: "pg_env view w \<Longrightarrow> set (turns w') \<subseteq> set (turns w) \<Longrightarrow> pg_env view w'"
  unfolding pg_env_def by blast

lemma trip_cases:
  assumes "acts view f F" "pg_env view w" "roundtrip f w = (r, w')"
  shows "set (turns w') \<subseteq> set (turns w) \<and> world.more w' = world.more w \<and>
     ((r, view (db w')) = F (view (db w))
      \<or> r = Inl RemoteFailure \<and> view (db w') \<in> {view (db w), snd (F (view (db w)))})"
proof (cases "turns w")
  case Nil
  with assms show ?thesis
    by (auto simp: roundtrip_def delivered_def acts_def prod_eq_iff split: prod.splits)
next
  case (Cons t ts)
  obtain gs g a where t: "t = Turn gs g a" by (cases t)
  have env: "view (g s) = view s" "h \<in> set gs \<Longrightarrow> view (h s) = view s" "gs = [] \<or> a = Unanswered \<and> length gs = 1" for h s
    using assms(2) Cons t unfolding pg_env_def by (metis insertCI list.set_intros(1))+
  from env(3) show ?thesis
  proof
    assume "gs = []"
    with assms(1,3) Cons t env(1) show ?thesis
      by (auto simp: roundtrip_def delivered_def acts_def prod_eq_iff Let_def resend_def split: prod.splits if_splits)
  next
    assume a: "a = Unanswered \<and> length gs = 1"
    then obtain h where "gs = [h]" by (cases gs) auto
    with assms(1,3) Cons t env(1) env(2) [of h] a show ?thesis
      by (auto simp: roundtrip_def acts_def Let_def resend_def)
  qed
qed

lemma trip_Inr:
  assumes "acts view f F" "pg_env view w" "roundtrip f w = (Inr x, w')"
  shows "pg_env view w'" "F (view (db w)) = (Inr x, view (db w'))" "world.more w' = world.more w"
  using trip_cases [OF assms] pg_env_upd [OF assms(2), of w'] by auto

lemma newUUID_Inr:
  assumes "newUUID w = (Inr u, w')"
  shows "random_uuids w = u # random_uuids w'" "db w' = db w" "turns w' = turns w"
  using assms by (auto simp: newUUID_def split: list.splits)

lemma in_txn_Inr:
  assumes "in_txn f v = (Inr x, v')" "work v = Some T"
  obtains T' where "f T = (Inr x, T')" "v' = v\<lparr>work := Some T'\<rparr>"
  using assms by (auto simp: in_txn_def split: prod.splits sum.splits)

section \<open>A batch inside its transaction\<close>

definition adds_entries :: "'u \<Rightarrow> ('u \<times> string \<times> int) list \<Rightarrow> 'u tables \<Rightarrow> 'u tables \<Rightarrow> bool" where
  "adds_entries txn ls T T' \<longleftrightarrow> (\<exists>rs. T' = T\<lparr>entries := entries T @ rs\<rparr> \<and> map line_of rs = ls \<and> (\<forall>r\<in>set rs. ErTxn r = txn))"

definition adds_accounts :: "'u tables \<Rightarrow> 'u tables \<Rightarrow> bool" where
  "adds_accounts T T' \<longleftrightarrow> (\<exists>rs. T' = T\<lparr>accounts := accounts T @ rs\<rparr>)"

lemma sql_insert_entry_Inr:
  assumes "sql_insert_entry new_id txn acc dir n T = (Inr x, T')" "tables_ok T"
  shows "adds_entries txn [(acc, dir, n)] T T'" "tables_ok T'"
proof -
  have T': "T' = T\<lparr>entries := entries T @ [\<lparr>ErId = new_id, ErTxn = txn, ErAccount = acc, ErDirection = dir, ErAmount = n\<rparr>]\<rparr>"
    "new_id \<notin> ErId ` set (entries T)" "txn \<in> TrId ` set (transactions T)" "acc \<in> ArId ` set (accounts T)" "0 < n"
    using assms(1) by (auto simp: sql_insert_entry_def split: if_splits)
  then show "adds_entries txn [(acc, dir, n)] T T'" by (auto simp: adds_entries_def line_of_def)
  show "tables_ok T'" using T' assms(2) by (auto simp: tables_ok_def)
qed

lemma sql_insert_account_Inr:
  assumes "sql_insert_account uuid_of acc kind user room T = (Inr x, T')" "tables_ok T"
  shows "adds_accounts T T'" "tables_ok T'" "acc \<in> ArId ` set (accounts T')"
proof -
  consider "T' = T" "acc \<in> ArId ` set (accounts T)"
    | r where "T' = T\<lparr>accounts := accounts T @ [r]\<rparr>" "ArId r = acc" "acc \<notin> ArId ` set (accounts T)"
    using assms(1) by (fastforce simp: sql_insert_account_def Let_def split: option.splits if_splits)
  then have "adds_accounts T T' \<and> tables_ok T' \<and> acc \<in> ArId ` set (accounts T')"
  proof cases
    case 1
    have "T = T\<lparr>accounts := accounts T @ []\<rparr>" by simp
    with 1 assms(2) show ?thesis unfolding adds_accounts_def by metis
  next
    case 2
    with assms(2) show ?thesis by (auto simp: adds_accounts_def tables_ok_def)
  qed
  then show "adds_accounts T T'" "tables_ok T'" "acc \<in> ArId ` set (accounts T')" by blast+
qed

lemma sql_insert_transaction_Inr:
  assumes "sql_insert_transaction uuid_of new_id key kind room rnd T = (Inr x, T')" "tables_ok T"
  shows "x = None \<and> key \<in> TrKey ` set (transactions T) \<and> T' = T
    \<or> x = Some new_id \<and> key \<notin> TrKey ` set (transactions T) \<and> new_id \<notin> TrId ` set (transactions T) \<and> tables_ok T'
      \<and> T' = T\<lparr>transactions := transactions T @ [\<lparr>TrId = new_id, TrKey = key, TrKind = kind,
           TrRoom = the (uuid_of room), TrRound = the (uuid_of rnd)\<rparr>]\<rparr>"
  using assms by (auto simp: sql_insert_transaction_def tables_ok_def split: option.splits if_splits)

lemma adds_entries_append:
  "adds_entries t a T T' \<Longrightarrow> adds_entries t b T' T'' \<Longrightarrow> adds_entries t (a @ b) T T''"
  unfolding adds_entries_def by (elim exE conjE, rename_tac r q, rule_tac x = "r @ q" in exI) auto

lemma adds_accounts_trans: "adds_accounts T T' \<Longrightarrow> adds_accounts T' T'' \<Longrightarrow> adds_accounts T T''"
  unfolding adds_accounts_def by (elim exE, rename_tac r q, rule_tac x = "r @ q" in exI) simp

text \<open>What a step of the open transaction did, when it succeeded.\<close>

definition worked :: "('s \<Rightarrow> 'u pg_view) \<Rightarrow> ('s, 'u, 'x) ledger_world_scheme \<Rightarrow> ('s, 'u, 'x) ledger_world_scheme \<Rightarrow>
    'u tables \<Rightarrow> bool" where
  "worked view w w' T' \<longleftrightarrow> pg_env view w' \<and> tables_ok T' \<and> view (db w') = (view (db w))\<lparr>work := Some T'\<rparr>"

lemma worked_trans: "worked view w u T \<Longrightarrow> worked view u w' T' \<Longrightarrow> worked view w w' T'"
  by (simp add: worked_def)

lemma worked_refl: "pg_env view w \<Longrightarrow> tables_ok T \<Longrightarrow> work (view (db w)) = Some T \<Longrightarrow> worked view w w T"
  by (simp add: worked_def)

context postgres_server
begin

lemma insert_accounts_Inr:
  "insert_accounts P sha1 es w = (Inr x, w') \<Longrightarrow> pg_env view w \<Longrightarrow> work (view (db w)) = Some T \<Longrightarrow> tables_ok T \<Longrightarrow>
   \<exists>T'. worked view w w' T' \<and> adds_accounts T T'"
proof (induction es arbitrary: w T)
  case Nil
  moreover have "adds_accounts T T" unfolding adds_accounts_def by (rule exI [of _ "[]"]) simp
  ultimately show ?case by (auto simp: eff_simps intro: worked_refl)
next
  case (Cons e es)
  then obtain y u where st: "roundtrip (InsertAccount P (ID sha1 (EntryAccount e)) (kind_text (RefKind (EntryAccount e)))
       (null_if_empty (RefUser (EntryAccount e))) (null_if_empty (RefRoom (EntryAccount e)))) w = (Inr y, u)"
    "insert_accounts P sha1 es u = (Inr x, w')"
    by (auto elim: andThen_InrE)
  note trip = trip_Inr [OF InsertAccount Cons.prems(2) st(1)]
  obtain T1 where T1: "sql_insert_account (UuidText P) (ID sha1 (EntryAccount e)) (kind_text (RefKind (EntryAccount e)))
       (null_if_empty (RefUser (EntryAccount e))) (null_if_empty (RefRoom (EntryAccount e))) T = (Inr y, T1)"
    "view (db u) = (view (db w))\<lparr>work := Some T1\<rparr>"
    using in_txn_Inr [OF trip(2) Cons.prems(3)] by blast
  note acc = sql_insert_account_Inr [OF T1(1) Cons.prems(4)]
  obtain T' where T': "worked view u w' T'" "adds_accounts T1 T'"
    using Cons.IH [OF st(2) trip(1) _ acc(2)] T1(2) by auto
  have "worked view w u T1" using trip(1) acc(2) T1(2) by (simp add: worked_def)
  from worked_trans [OF this T'(1)] adds_accounts_trans [OF acc(1) T'(2)] show ?case by blast
qed

lemma insert_entries_Inr:
  "insert_entries P sha1 txn es w = (Inr x, w') \<Longrightarrow> pg_env view w \<Longrightarrow> work (view (db w)) = Some T \<Longrightarrow> tables_ok T \<Longrightarrow>
   \<exists>T'. worked view w w' T' \<and> adds_entries txn
      (map (\<lambda>e. (ID sha1 (EntryAccount e), direction_text (EntryDirection e), EntryAmount e)) es) T T'"
proof (induction es arbitrary: w T)
  case Nil
  moreover have "adds_entries txn [] T T" unfolding adds_entries_def by (rule exI [of _ "[]"]) simp
  ultimately show ?case by (auto simp: eff_simps intro: worked_refl)
next
  case (Cons e es)
  then obtain i v y u where st: "newUUID w = (Inr i, v)"
    "roundtrip (InsertEntry P i txn (ID sha1 (EntryAccount e)) (direction_text (EntryDirection e)) (EntryAmount e)) v = (Inr y, u)"
    "insert_entries P sha1 txn es u = (Inr x, w')"
    by (auto elim!: andThen_InrE)
  note new = newUUID_Inr [OF st(1)]
  have v: "pg_env view v" "work (view (db v)) = Some T" using Cons.prems(2,3) new by (simp_all add: pg_env_def)
  note trip = trip_Inr [OF InsertEntry v(1) st(2)]
  obtain T1 where T1: "sql_insert_entry i txn (ID sha1 (EntryAccount e)) (direction_text (EntryDirection e))
       (EntryAmount e) T = (Inr y, T1)" "view (db u) = (view (db v))\<lparr>work := Some T1\<rparr>"
    using in_txn_Inr [OF trip(2) v(2)] by blast
  note ent = sql_insert_entry_Inr [OF T1(1) Cons.prems(4)]
  obtain T' where T': "worked view u w' T'" "adds_entries txn
      (map (\<lambda>e. (ID sha1 (EntryAccount e), direction_text (EntryDirection e), EntryAmount e)) es) T1 T'"
    using Cons.IH [OF st(3) trip(1) _ ent(2)] T1(2) by auto
  have "worked view w u T1" using trip(1) ent(2) T1(2) new by (simp add: worked_def)
  from worked_trans [OF this T'(1)] adds_entries_append [OF ent(1) T'(2)] show ?case by auto
qed

end

text \<open>A transaction added whole is one posting more.\<close>

lemma entries_of_fresh: "tables_ok T \<Longrightarrow> i \<notin> TrId ` set (transactions T) \<Longrightarrow> entries_of T i = []"
  unfolding tables_ok_def entries_of_def by (auto simp: filter_empty_conv)

lemma book_posted:
  assumes "tables_ok T" "i \<notin> TrId ` set (transactions T)"
    and "T1 = T\<lparr>transactions := transactions T @ [r]\<rparr>" "TrId r = i"
    and "adds_accounts T1 T2" "adds_entries i ls T2 T3"
  shows "book T3 = book T @ [\<lparr>PostKey = TrKey r, PostKind = TrKind r, PostRoom = TrRoom r, PostRound = TrRound r,
    PostLines = ls\<rparr>]"
    and "transactions T3 = transactions T @ [r]"
proof -
  obtain as rs where T3: "T3 = T2\<lparr>entries := entries T2 @ rs\<rparr>" "T2 = T1\<lparr>accounts := accounts T1 @ as\<rparr>"
    "map line_of rs = ls" "\<forall>r\<in>set rs. ErTxn r = i"
    using assms(5,6) unfolding adds_entries_def adds_accounts_def by blast
  then show tr: "transactions T3 = transactions T @ [r]" by (simp add: assms(3))
  have rows: "entries_of T3 j = entries_of T j @ (if j = i then rs else [])" for j
    using T3(4) by (auto simp: T3(1,2) assms(3) entries_of_def filter_empty_conv intro: filter_True)
  have "posting_of T3 q = posting_of T q" if "q \<in> set (transactions T)" for q
    using that assms(2) by (auto simp: posting_of_def rows)
  moreover have "posting_of T3 r = \<lparr>PostKey = TrKey r, PostKind = TrKind r, PostRoom = TrRoom r,
      PostRound = TrRound r, PostLines = ls\<rparr>"
    by (simp add: posting_of_def rows assms(4) entries_of_fresh [OF assms(1,2)] T3(3))
  ultimately show "book T3 = book T @ [\<lparr>PostKey = TrKey r, PostKind = TrKind r, PostRoom = TrRoom r,
      PostRound = TrRound r, PostLines = ls\<rparr>]"
    by (simp add: book_def tr)
qed

section \<open>What is saved meanwhile\<close>

text \<open>Whatever it returns, \<open>m\<close> leaves the committed tables alone.\<close>

definition calm :: "('s \<Rightarrow> 'u pg_view) \<Rightarrow> ('s, 'u, 'x, 'a) led \<Rightarrow> bool" where
  "calm view m \<longleftrightarrow> (\<forall>w. pg_env view w \<longrightarrow> pg_env view (snd (m w)) \<and> saved (view (db (snd (m w)))) = saved (view (db w)))"

named_theorems calm_rules \<open>steps that leave the committed tables alone\<close>

lemma calm_pure [calm_rules]: "calm view (ret x)" "calm view (raise e)"
  by (simp_all add: calm_def eff_simps)

lemma calm_andThen [calm_rules]: "calm view m \<Longrightarrow> (\<And>x. calm view (k x)) \<Longrightarrow> calm view (andThen m k)"
  unfolding calm_def andThen_def by (auto split: prod.splits sum.splits)

lemma calm_newUUID [calm_rules]: "calm view newUUID"
  by (auto simp: calm_def newUUID_def pg_env_def split: list.split)

lemma calm_trip:
  fixes view :: "'s \<Rightarrow> 'u pg_view" and f :: "('s, err, 'a) eff"
  assumes "acts view f F" "\<And>v. saved (snd (F v)) = saved v"
  shows "calm view (roundtrip f :: ('s, 'u, 'x, 'a) led)"
  unfolding calm_def
proof (intro allI impI)
  fix w :: "('s, 'u, 'x) ledger_world_scheme" assume w: "pg_env view w"
  obtain r w' where r: "roundtrip f w = (r, w')" by (meson surj_pair)
  have "view (db w') = view (db w) \<or> view (db w') = snd (F (view (db w)))"
    using trip_cases [OF assms(1) w r] by (auto simp: prod_eq_iff)
  moreover have "pg_env view w'" using trip_cases [OF assms(1) w r] pg_env_upd [OF w, of w'] by blast
  ultimately show "pg_env view (snd (roundtrip f w)) \<and> saved (view (db (snd (roundtrip f w)))) = saved (view (db w))"
    using assms(2) by (auto simp: r)
qed

lemma in_txn_saved: "saved (snd (in_txn f v)) = saved v"
  by (auto simp: in_txn_def split: option.split prod.split sum.split)

context postgres_server
begin

lemmas calm_statement = calm_trip [OF InsertTransaction in_txn_saved] calm_trip [OF InsertAccount in_txn_saved]
  calm_trip [OF InsertEntry in_txn_saved]

lemma calm_begin: "calm view (roundtrip (Begin P))"
  by (rule calm_trip [OF Begin]) simp

lemma calm_write_transactions: "calm view (write_transactions P sha1 txns n)"
proof (induction txns arbitrary: n)
  case (Cons t ts)
  have "calm view (insert_accounts P sha1 es)" for es
    by (induction es) (simp_all add: calm_rules calm_statement)
  moreover have "calm view (insert_entries P sha1 txn es)" for txn es
    by (induction es) (simp_all add: calm_rules calm_statement)
  ultimately show ?case
    by (auto intro!: calm_rules calm_statement Cons split: option.split)
qed (simp add: calm_rules)

lemma write_transactions_Inr:
  "write_transactions P sha1 txns n w = (Inr m, w') \<Longrightarrow> pg_env view w \<Longrightarrow> work (view (db w)) = Some T \<Longrightarrow> tables_ok T \<Longrightarrow>
   \<exists>T'. worked view w w' T' \<and> book T' = post_all (posting_for (UuidText P) sha1) (book T) txns
     \<and> m = n + int (length (book T')) - int (length (book T)) \<and> (\<exists>rs. entries T' = entries T @ rs)"
proof (induction txns arbitrary: n w T)
  case Nil
  then show ?case by (auto simp: eff_simps intro!: exI [of _ T] worked_refl)
next
  case (Cons t ts)
  from Cons.prems(1) obtain i v where new: "newUUID w = (Inr i, v)"
    and "andThen (roundtrip (InsertTransaction P i (TxKey t) (TxKind t) (TxRoom t) (TxRound t))) (\<lambda>r. case r of
       None \<Rightarrow> write_transactions P sha1 ts n
     | Some txnID \<Rightarrow> andThen (insert_accounts P sha1 (TxEntries t)) (\<lambda>_. andThen (insert_entries P sha1 txnID (TxEntries t))
         (\<lambda>_. write_transactions P sha1 ts (n + 1)))) v = (Inr m, w')"
    unfolding write_transactions.simps by (erule_tac andThen_InrE)
  then obtain r u where ins: "roundtrip (InsertTransaction P i (TxKey t) (TxKind t) (TxRoom t) (TxRound t)) v = (Inr r, u)"
    and rest: "(case r of None \<Rightarrow> write_transactions P sha1 ts n
     | Some txnID \<Rightarrow> andThen (insert_accounts P sha1 (TxEntries t)) (\<lambda>_. andThen (insert_entries P sha1 txnID (TxEntries t))
         (\<lambda>_. write_transactions P sha1 ts (n + 1)))) u = (Inr m, w')"
    by (erule_tac andThen_InrE)
  note nw = newUUID_Inr [OF new]
  have v: "pg_env view v" "work (view (db v)) = Some T" using Cons.prems(2,3) nw by (simp_all add: pg_env_def)
  note trip = trip_Inr [OF InsertTransaction v(1) ins]
  obtain T1 where T1: "sql_insert_transaction (UuidText P) i (TxKey t) (TxKind t) (TxRoom t) (TxRound t) T = (Inr r, T1)"
    "view (db u) = (view (db v))\<lparr>work := Some T1\<rparr>"
    using in_txn_Inr [OF trip(2) v(2)] by blast
  let ?f = "posting_for (UuidText P) sha1" and ?ls = "map (\<lambda>e. (ID sha1 (EntryAccount e), direction_text (EntryDirection e), EntryAmount e)) (TxEntries t)"
  from sql_insert_transaction_Inr [OF T1(1) Cons.prems(4)] show ?case
  proof (elim disjE conjE)
    assume r: "r = None" "TxKey t \<in> TrKey ` set (transactions T)" "T1 = T"
    have u: "worked view w u T" using trip(1) T1(2) Cons.prems(4) nw r by (simp add: worked_def)
    obtain T' where "worked view u w' T' \<and> book T' = post_all ?f (book T) ts
       \<and> m = n + int (length (book T')) - int (length (book T)) \<and> (\<exists>rs. entries T' = entries T @ rs)"
      using Cons.IH [of n u T] rest r u by (auto simp: worked_def)
    with worked_trans [OF u] r(2) show ?thesis by (intro exI [of _ T']) (auto simp: book_keys(1))
  next
    assume r: "r = Some i" "TxKey t \<notin> TrKey ` set (transactions T)" "i \<notin> TrId ` set (transactions T)" "tables_ok T1"
      and T1': "T1 = T\<lparr>transactions := transactions T @ [\<lparr>TrId = i, TrKey = TxKey t, TrKind = TxKind t,
           TrRoom = the (UuidText P (TxRoom t)), TrRound = the (UuidText P (TxRound t))\<rparr>]\<rparr>"
    have u: "worked view w u T1" using trip(1) T1(2) r(4) nw by (simp add: worked_def)
    from rest r(1) obtain y1 u1 y2 u2 where st: "insert_accounts P sha1 (TxEntries t) u = (Inr y1, u1)"
      "insert_entries P sha1 i (TxEntries t) u1 = (Inr y2, u2)" "write_transactions P sha1 ts (n + 1) u2 = (Inr m, w')"
      by (auto elim!: andThen_InrE)
    obtain T2 where T2: "worked view u u1 T2" "adds_accounts T1 T2"
      using insert_accounts_Inr [OF st(1) trip(1) _ r(4)] u by (auto simp: worked_def)
    obtain T3 where T3: "worked view u1 u2 T3" "adds_entries i ?ls T2 T3"
      using insert_entries_Inr [OF st(2), of T2] T2(1) by (auto simp: worked_def)
    obtain T' where T': "worked view u2 w' T'" "book T' = post_all ?f (book T3) ts"
      "m = n + 1 + int (length (book T')) - int (length (book T3))" "\<exists>rs. entries T' = entries T3 @ rs"
      using Cons.IH [OF st(3), of T3] T3(1) by (auto simp: worked_def)
    note posted = book_posted [OF Cons.prems(4) r(3) T1' _ T2(2) T3(2), simplified]
    have b: "book T3 = book T @ [?f t]" unfolding posted(1) by (simp add: posting_for_def)
    have "\<exists>rs. entries T3 = entries T @ rs"
      using T2(2) T3(2) unfolding adds_accounts_def adds_entries_def T1' by auto
    with T'(4) have "\<exists>rs. entries T' = entries T @ rs" by auto
    moreover have "worked view w w' T'" using u T2(1) T3(1) T'(1) by (blast intro: worked_trans)
    ultimately show ?thesis using T'(2,3) r(2) by (intro exI [of _ T']) (auto simp: b book_keys(1))
  qed
qed

end

lemma balanced_commit:
  assumes "balanced D" "commit_ok D T" "entries T = entries D @ rs"
  shows "balanced T"
  unfolding balanced_def
proof
  fix t
  show "net_of T t = 0"
  proof (cases "t \<in> ErTxn ` set rs")
    case True
    with assms(2,3) show ?thesis by (auto simp: commit_ok_def list_all_iff)
  next
    case False
    then have "filter (\<lambda>e. ErTxn e = t) rs = []" by (auto simp: filter_empty_conv)
    with assms(1,3) show ?thesis by (simp add: balanced_def net_of_def entries_of_def)
  qed
qed

section \<open>A batch\<close>

context postgres_server
begin

lemma WriteBatch_outcome:
  assumes run: "WriteBatch P sha1 txns w = (r, w')" and env: "pg_env view w"
    and ok: "tables_ok (saved (view (db w)))" "balanced (saved (view (db w)))"
  shows "pg_env view w' \<and> tables_ok (saved (view (db w'))) \<and> balanced (saved (view (db w')))
    \<and> (book (saved (view (db w'))) = post_all (posting_for (UuidText P) sha1) (book (saved (view (db w)))) txns
         \<and> (\<forall>n. r = Inr n \<longrightarrow> n = int (length (book (saved (view (db w'))))) - int (length (book (saved (view (db w))))))
       \<or> isl r \<and> saved (view (db w')) = saved (view (db w)))"
    (is "?claim r w'")
proof -
  let ?D = "saved (view (db w))"
  have still: "?claim (Inl e) z" if "pg_env view z" "saved (view (db z)) = ?D" for e z
    using that ok by simp
  obtain b u where b: "roundtrip (Begin P) w = (b, u)" by (meson surj_pair)
  have u: "pg_env view u" "saved (view (db u)) = ?D"
    using calm_begin [unfolded calm_def, rule_format, OF env] b by simp_all
  show ?thesis
  proof (cases b)
    case (Inl e)
    with run b have "r = Inl e" "w' = u" by (simp_all add: WriteBatch_def eff_simps)
    with still [OF u] show ?thesis by simp
  next
    case (Inr x)
    obtain q v where q: "write_transactions P sha1 txns 0 u = (q, v)" by (meson surj_pair)
    have v: "pg_env view v" "saved (view (db v)) = ?D"
      using calm_write_transactions [unfolded calm_def, rule_format, OF u(1)] q u(2) by (metis snd_conv)+
    show ?thesis
    proof (cases q)
      case (Inl e)
      with run b q Inr have r: "r = Inl e" "w' = v\<lparr>db := Rollback P (db v)\<rparr>"
        by (simp_all add: WriteBatch_def eff_simps)
      then have "pg_env view w'" "saved (view (db w')) = ?D" using v by (simp_all add: Rollback pg_env_def)
      with still r(1) show ?thesis by simp
    next
      case (Inr m)
      have "view (db u) = (view (db w))\<lparr>work := Some ?D\<rparr>"
        using trip_Inr(2) [OF Begin env b [unfolded \<open>b = Inr x\<close>]] by simp
      then obtain T' rs where T': "worked view u v T'" "book T' = post_all (posting_for (UuidText P) sha1) (book ?D) txns"
        "m = int (length (book T')) - int (length (book ?D))" "entries T' = entries ?D @ rs"
        using write_transactions_Inr [OF q [unfolded Inr] u(1), of ?D] ok(1) by auto
      then have w: "view (db v) = \<lparr>saved = ?D, work = Some T'\<rparr>" "tables_ok T'" using u(2) by (simp_all add: worked_def)
      obtain c z where c: "roundtrip (Commit P) v = (c, z)" by (meson surj_pair)
      with run b q Inr \<open>b = Inr x\<close> have r: "r = (case c of Inl e \<Rightarrow> Inl e | Inr _ \<Rightarrow> Inr m)" "w' = z"
        by (cases c; simp add: WriteBatch_def eff_simps)+
      note cases = trip_cases [OF Commit v(1) c]
      have "pg_env view z" using cases pg_env_upd [OF v(1), of z] by blast
      moreover have "saved (view (db z)) = ?D \<and> isl c \<or> saved (view (db z)) = T' \<and> commit_ok ?D T'"
        using cases by (auto simp: sql_commit_def w(1) split: if_splits)
      ultimately show ?thesis
        using ok w(2) balanced_commit [OF ok(2) _ T'(4)] T'(2,3) r by (cases c) auto
    qed
  qed
qed

end

section \<open>Histories\<close>

text \<open>
  The batches a ledger has been given, each with its result: any transactions, any faults, any
  number of times.
\<close>

inductive ledger_history :: "('s, 'u) postgres \<Rightarrow> ('s \<Rightarrow> 'u pg_view) \<Rightarrow> (string \<Rightarrow> 'u) \<Rightarrow> 's \<Rightarrow>
    (Transaction list \<times> (err + int)) list \<Rightarrow> bool"
  for P view sha1 where
    empty: "saved (view s) = \<lparr>transactions = [], accounts = [], entries = []\<rparr> \<Longrightarrow> ledger_history P view sha1 s []"
  | batch: "ledger_history P view sha1 s ls \<Longrightarrow> db w = s \<Longrightarrow> pg_env view w
      \<Longrightarrow> WriteBatch P sha1 txns (w :: ('s, 'u, unit) ledger_world_scheme) = (r, w')
      \<Longrightarrow> ledger_history P view sha1 (db w') (ls @ [(txns, r)])"

text \<open>What took effect of each batch: all of it, or nothing when it reported an error.\<close>

definition effect_of :: "Transaction list \<times> (err + int) \<Rightarrow> Transaction list \<Rightarrow> bool" where
  "effect_of b ts \<longleftrightarrow> ts = fst b \<or> isl (snd b) \<and> ts = []"

context postgres_server
begin

lemma history_ok:
  "ledger_history P view sha1 s ls \<Longrightarrow> tables_ok (saved (view s)) \<and> balanced (saved (view s))
    \<and> (\<exists>es. list_all2 effect_of ls es \<and> book (saved (view s)) = post_all (posting_for (UuidText P) sha1) [] (concat es))"
proof (induction rule: ledger_history.induct)
  case (empty s)
  then show ?case by (simp add: tables_ok_def balanced_def net_of_def entries_of_def book_def)
next
  case (batch s ls w txns r w')
  then obtain es where es: "tables_ok (saved (view s))" "balanced (saved (view s))" "list_all2 effect_of ls es"
    "book (saved (view s)) = post_all (posting_for (UuidText P) sha1) [] (concat es)" by blast
  from WriteBatch_outcome [OF batch.hyps(4,3)] es(1,2) batch.hyps(2)
  have out: "tables_ok (saved (view (db w')))" "balanced (saved (view (db w')))"
    "book (saved (view (db w'))) = post_all (posting_for (UuidText P) sha1) (book (saved (view s))) txns
      \<or> isl r \<and> saved (view (db w')) = saved (view s)" by auto
  have "\<exists>t. effect_of (txns, r) t \<and> book (saved (view (db w')))
      = post_all (posting_for (UuidText P) sha1) (book (saved (view s))) t"
    using out(3)
  proof
    assume "isl r \<and> saved (view (db w')) = saved (view s)"
    then show ?thesis by (intro exI [of _ "[]"]) (simp add: effect_of_def)
  qed (auto simp: effect_of_def)
  then obtain t where "effect_of (txns, r) t" "book (saved (view (db w')))
      = post_all (posting_for (UuidText P) sha1) (book (saved (view s))) t" by blast
  then have "list_all2 effect_of (ls @ [(txns, r)]) (es @ [t])
    \<and> book (saved (view (db w'))) = post_all (posting_for (UuidText P) sha1) [] (concat (es @ [t]))"
    using es(3,4) by (simp add: list_all2_appendI post_all_append)
  with out(1,2) show ?case by blast
qed

end

text \<open>Where every transaction nets to zero and every entry has a transaction, the entries do too.\<close>

lemma net_all_zero:
  assumes "tables_ok T" "balanced T"
  shows "(\<Sum>e\<leftarrow>entries T. signed e) = 0"
proof -
  have "(\<Sum>e\<leftarrow>es. signed e) = (\<Sum>t\<in>A. \<Sum>e\<leftarrow>filter (\<lambda>e. ErTxn e = t) es. signed e)"
    if "finite A" "ErTxn ` set es \<subseteq> A" for A and es :: "'a entry_row list"
    using that(2)
  proof (induction es)
    case (Cons e es)
    have "(\<Sum>t\<in>A. \<Sum>e\<leftarrow>filter (\<lambda>e. ErTxn e = t) (e # es). signed e)
        = (\<Sum>t\<in>A. (if ErTxn e = t then signed e else 0) + (\<Sum>e\<leftarrow>filter (\<lambda>e. ErTxn e = t) es. signed e))"
      by (rule sum.cong) simp_all
    with Cons that(1) show ?case by (simp add: sum.distrib)
  qed simp
  from this [of "TrId ` set (transactions T)" "entries T"] assms show ?thesis
    by (auto simp: tables_ok_def balanced_def net_of_def entries_of_def)
qed

section \<open>Decoded events\<close>

lemma decoded_valid:
  "DecodeMessage topic msg = Inr ev \<Longrightarrow>
     (case ev of WagerEvent w \<Rightarrow> validateWagerPlaced w = Inr () | SettledEvent s \<Rightarrow> validateRoundSettled s = Inr ())"
  by (auto simp: DecodeMessage_def invalid_def split: if_splits option.splits elim!: sum_bind_InrE)

definition demo_refund :: RoundSettled where
  "demo_refund = \<lparr>RsRoom = ''r'', RsRound = ''x'', RsKey = ''k9'', RsOutcome = - 1, RsTotal = 0, RsDust = 0,
     RsPayouts = Some [], RsRefunded = True\<rparr>"

lemma demo_refund_decodes:
  "DecodeMessage TopicRoundsSettled (render (event_json (SettledEvent demo_refund))) = Inr (SettledEvent demo_refund)"
proof -
  have "length (render (event_json (SettledEvent demo_refund))) \<le> 300" by code_simp
  then have "\<not> MaxMessageBytes < length (render (event_json (SettledEvent demo_refund)))"
    unfolding MaxMessageBytes_def by simp
  moreover have "Option.bind (first_value (render (event_json (SettledEvent demo_refund))))
      (\<lambda>v. into_struct set_settled v (zero_settled, [])) = Some (demo_refund, [])" by code_simp
  moreover have "validateRoundSettled demo_refund = Inr ()" by code_simp
  ultimately show ?thesis
    by (simp add: DecodeMessage_def TopicRoundsSettled_def TopicWagersPlaced_def sum_bind_simps del: event_json.simps render.simps)
qed

section \<open>A posted wager\<close>

text \<open>Two wagers of one room, a ledger that holds one of them, and batches written to it.\<close>

definition demo_placed :: "string \<Rightarrow> WagerPlaced" where
  "demo_placed k = \<lparr>WpRoom = ''r1'', WpRound = ''x1'', WpUser = ''b'', WpKey = k, WpOutcome = 1, WpAmount = 100,
     WpBalance = 900\<rparr>"

lemma demo_texts:
  "valid_utf8 ''r1''" "valid_utf8 ''x1''" "valid_utf8 ''b''" "valid_utf8 ''k1''" "valid_utf8 ''k2''"
  "pg_text ''k1''" "pg_text ''k2''" "pg_text ''wager''"
  by code_simp+

definition demo_booked :: "string \<Rightarrow> string tables" where
  "demo_booked k = \<lparr>transactions = [\<lparr>TrId = ''t1'', TrKey = k, TrKind = ''wager'', TrRoom = ''r1'', TrRound = ''x1''\<rparr>],
     accounts = [\<lparr>ArId = ''user_wallet:b:'', ArKind = ''user_wallet'', ArUser = Some ''b'', ArRoom = None\<rparr>,
       \<lparr>ArId = ''round_pool::r1'', ArKind = ''round_pool'', ArUser = None, ArRoom = Some ''r1''\<rparr>],
     entries = [\<lparr>ErId = ''e1'', ErTxn = ''t1'', ErAccount = ''user_wallet:b:'', ErDirection = ''debit'', ErAmount = 100\<rparr>,
       \<lparr>ErId = ''e2'', ErTxn = ''t1'', ErAccount = ''round_pool::r1'', ErDirection = ''credit'', ErAmount = 100\<rparr>]\<rparr>"

lemma demo_written:
  fixes w :: "(string pg_view, string, 'x) ledger_world_scheme"
  assumes "k \<in> {''k1'', ''k2''}" "turns w = []" "random_uuids w = [''t1'', ''e1'', ''e2'']"
    and "db w = \<lparr>saved = \<lparr>transactions = [], accounts = [], entries = []\<rparr>, work = None\<rparr>"
  shows "WriteBatch mem_pg id [transactionForWager (demo_placed k)] w
    = (Inr 1, w\<lparr>db := \<lparr>saved = demo_booked k, work = None\<rparr>, random_uuids := []\<rparr>)"
proof -
  have "pg_text k" using assms(1) demo_texts by auto
  with assms(2-4) show ?thesis
    by (simp add: WriteBatch_def eff_defs transactionForWager_def demo_placed_def newUUID_def mem_pg_def
        roundtrip_def delivered_def in_txn_def sql_insert_transaction_def user_wallet_def round_pool_def ID_def null_if_empty_def
        sql_insert_account_def uuid_arg_def sql_insert_entry_def same_holder_def account_kinds_def account_key_def
        sql_commit_def demo_texts in64_def commit_ok_def net_of_def entries_of_def signed_def demo_booked_def)
qed

lemma demo_written_again:
  fixes w :: "(string pg_view, string, 'x) ledger_world_scheme"
  assumes "turns w = []" "random_uuids w = [''t3'']" "db w = \<lparr>saved = demo_booked ''k1'', work = None\<rparr>"
  shows "WriteBatch mem_pg id [transactionForWager (demo_placed ''k1'')] w = (Inr 0, w\<lparr>random_uuids := []\<rparr>)"
  using assms
  by (simp add: WriteBatch_def eff_defs transactionForWager_def demo_placed_def newUUID_def mem_pg_def
      roundtrip_def delivered_def in_txn_def sql_insert_transaction_def demo_texts demo_booked_def sql_commit_def commit_ok_def)

lemma demo_history:
  "ledger_history mem_pg id id \<lparr>saved = demo_booked ''k1'', work = None\<rparr>
     [([transactionForWager (demo_placed ''k1'')], Inr 1), ([transactionForWager (demo_placed ''k1'')], Inr 0)]"
proof -
  let ?t = "[transactionForWager (demo_placed ''k1'')]"
  let ?w = "\<lparr>db = \<lparr>saved = \<lparr>transactions = [], accounts = [], entries = []\<rparr>, work = None\<rparr>, turns = [],
    random_uuids = [''t1'', ''e1'', ''e2'']\<rparr> :: (string pg_view, string) ledger_world"
  let ?v = "?w\<lparr>db := \<lparr>saved = demo_booked ''k1'', work = None\<rparr>, random_uuids := [''t3'']\<rparr>"
  have "ledger_history mem_pg id id (db ?w) []" by (rule ledger_history.empty) simp
  from ledger_history.batch [OF this refl pg_env_quiet demo_written [of "''k1''" ?w]]
  have "ledger_history mem_pg id id (db ?v) [(?t, Inr 1)]" by simp
  from ledger_history.batch [OF this refl pg_env_quiet demo_written_again [of ?v]]
  show ?thesis by simp
qed

section \<open>Properties\<close>

text \<open>
  Only balanced transactions leave the mapping. The transaction of a message that passed the
  decoder has only positive amounts, is filed under the event's idempotency key, and its debits
  and credits agree modulo 2 to the 64th; they agree exactly when dust and payouts do not
  overflow. A settlement whose parts do not add up to its total has no transaction at all.
\<close>

theorem transaction_balanced:
  assumes "DecodeMessage topic msg = Inr ev"
  shows "(case ev of
      WagerEvent w \<Rightarrow> TransactionFor ev = Inr (transactionForWager w) \<and> TxKey (transactionForWager w) = WpKey w
        \<and> entries_positive (transactionForWager w) \<and> tx_net (transactionForWager w) = 0
    | SettledEvent s \<Rightarrow> (\<forall>t. TransactionFor ev = Inr t \<longrightarrow> TxKey t = RsKey s
          \<and> entries_positive t \<and> tx_net t mod 2 ^ 64 = 0)
        \<and> (in64 (RsTotal s) \<and> in64 (RsDust s + paid_total s) \<longrightarrow>
          (\<exists>t. TransactionFor ev = Inr t \<and> tx_net t = 0) = (RsDust s + paid_total s = RsTotal s)
          \<and> (TransactionFor ev = Inl (Ledger ErrUnbalanced)) = (RsDust s + paid_total s \<noteq> RsTotal s)))"
proof (cases ev)
  case (WagerEvent w)
  then have "0 < WpAmount w" using decoded_valid [OF assms]
    by (auto simp: validateWagerPlaced_def invalid_def split: if_splits)
  then show ?thesis
    using tx_net_wager [of w] by (simp add: WagerEvent entries_positive_def transactionForWager_def)
next
  case (SettledEvent s)
  then have ok: "validateRoundSettled s = Inr ()" using decoded_valid [OF assms] by simp
  then have nn: "0 \<le> RsTotal s" "0 \<le> RsDust s" by (auto simp: validateRoundSettled_def invalid_def split: if_splits)
  have "TxKey t = RsKey s \<and> entries_positive t \<and> tx_net t mod 2 ^ 64 = 0" if "transactionForSettlement s = Inr t" for t
    using transactionForSettlement_positive [OF ok that] tx_net_settlement(2) [OF that nn] that
    by (simp add: transactionForSettlement_Inr)
  moreover have "(\<exists>t. transactionForSettlement s = Inr t \<and> tx_net t = 0) = (RsDust s + paid_total s = RsTotal s)"
    "(transactionForSettlement s = Inl (Ledger ErrUnbalanced)) = (RsDust s + paid_total s \<noteq> RsTotal s)"
    if "in64 (RsTotal s)" "in64 (RsDust s + paid_total s)"
  proof -
    have "0 \<le> paid_total s" unfolding paid_total_def
      by (rule sum_list_nonneg) (auto dest: validated_payouts [OF ok])
    with nn that have "in64 (RsDust s)" by (simp add: in64_def)
    note exact = transactionForSettlement_exact [OF that(1) this that(2)]
    then show "(\<exists>t. transactionForSettlement s = Inr t \<and> tx_net t = 0) = (RsDust s + paid_total s = RsTotal s)"
      using tx_net_settlement(1) [OF _ nn] by fastforce
    have "(\<exists>t. transactionForSettlement s = Inr t) \<or> transactionForSettlement s = Inl (Ledger ErrUnbalanced)"
      by (simp add: transactionForSettlement_def Let_def)
    with exact show "(transactionForSettlement s = Inl (Ledger ErrUnbalanced)) = (RsDust s + paid_total s \<noteq> RsTotal s)" by auto
  qed
  ultimately show ?thesis by (simp add: SettledEvent)
qed

text \<open>An empty refund decodes, and its transaction is empty.\<close>

theorem transaction_balanced_witness:
  "\<exists>t. TransactionFor (SettledEvent demo_refund) = Inr t \<and> TxKey t = ''k9'' \<and> tx_net t = 0"
  using transaction_balanced [OF demo_refund_decodes] by (simp add: demo_refund_def paid_total_def payouts_of_def in64_def) metis

text \<open>
  C24. Double entry, whatever fails. After any sequence of batches - faults before and after any
  statement, commits whose answer is lost - the schema's keys are distinct, every entry has a
  positive amount and refers to a stored transaction and account, the debits of every
  transaction equal its credits, and so the debits of the whole ledger equal its credits.
\<close>

theorem ledger_double_entry:
  assumes "postgres_server P view" and "ledger_history P view sha1 s ls"
  shows "tables_ok (saved (view s)) \<and> balanced (saved (view s)) \<and> (\<Sum>e\<leftarrow>entries (saved (view s)). signed e) = 0"
proof -
  have ok: "tables_ok (saved (view s))" "balanced (saved (view s))"
    using postgres_server.history_ok [OF assms] by blast+
  with net_all_zero show ?thesis by blast
qed

text \<open>The wager of a bettor, written twice.\<close>

theorem ledger_double_entry_witness:
  "tables_ok (demo_booked ''k1'') \<and> balanced (demo_booked ''k1'') \<and> (\<Sum>e\<leftarrow>entries (demo_booked ''k1''). signed e) = 0"
  using ledger_double_entry [OF mem_pg.postgres_server_axioms demo_history] by simp

text \<open>
  C25. Exactly once, per batch all or nothing. The ledger refines a book that posts a
  transaction unless its key is already there: each batch took effect as a whole, or reported
  an error and did nothing; a batch that reported success did take effect; no key is posted
  twice, however often its transaction is written.
\<close>

theorem ledger_exactly_once:
  assumes "postgres_server P view" and "ledger_history P view sha1 s ls"
  shows "(\<exists>es. list_all2 effect_of ls es
      \<and> book (saved (view s)) = post_all (posting_for (UuidText P) sha1) [] (concat es))
    \<and> distinct (map PostKey (book (saved (view s))))
    \<and> (\<forall>ts n t. (ts, Inr n) \<in> set ls \<and> t \<in> set ts \<longrightarrow> TxKey t \<in> PostKey ` set (book (saved (view s))))"
proof -
  obtain es where es: "list_all2 effect_of ls es"
    "book (saved (view s)) = post_all (posting_for (UuidText P) sha1) [] (concat es)" and ok: "tables_ok (saved (view s))"
    using postgres_server.history_ok [OF assms] by blast
  have "distinct (map PostKey (book (saved (view s))))"
    using ok by (simp add: tables_ok_def book_def posting_of_def o_def)
  moreover have "TxKey t \<in> PostKey ` set (book (saved (view s)))" if "(ts, Inr n) \<in> set ls" "t \<in> set ts" for ts n t
  proof -
    from es(1) that(1) have "ts \<in> set es"
      by (induction rule: list_all2_induct) (auto simp: effect_of_def)
    with that(2) have "t \<in> set (concat es)" by auto
    then show ?thesis by (simp add: es(2) post_all_keys [of "posting_for (UuidText P) sha1"] posting_for_def)
  qed
  ultimately show ?thesis using es by blast
qed

text \<open>The second write of the same wager found its key.\<close>

theorem ledger_exactly_once_witness:
  "distinct (map PostKey (book (demo_booked ''k1''))) \<and> ''k1'' \<in> PostKey ` set (book (demo_booked ''k1''))"
proof -
  let ?t = "transactionForWager (demo_placed ''k1'')"
  note once = ledger_exactly_once [OF mem_pg.postgres_server_axioms demo_history]
  from once [THEN conjunct2, THEN conjunct2, rule_format, of "[?t]" 1 ?t] once show ?thesis
    by (simp add: transactionForWager_def demo_placed_def)
qed

end
