(* ===== verification/MirrorSpec.thy ===== *)
theory MirrorSpec
  imports EventSpec LedgerSpec RoundLife
begin

text \<open>
  The outbox mirrors the books. Every script that moves the tokens of a round appends, in the same
  step, an event whose ledger transaction makes the same movement: whatever runs against the room,
  the transactions of the entries appended in between add up to the change of every wallet, of the
  pool and of the dust.
\<close>

section \<open>What the ledger books for a stretch of the stream\<close>

definition tx_effect :: "Transaction \<Rightarrow> AccountRef \<Rightarrow> int" where
  "tx_effect t a = (\<Sum>e\<leftarrow>TxEntries t. if EntryAccount e = a then - entry_net e else 0)"

definition entry_transaction :: "(string \<times> string) list \<Rightarrow> err + Transaction" where
  "entry_transaction e = sum_bind (Decode (map_of e)) TransactionFor"

definition concerns :: "string \<Rightarrow> (string \<times> string) list \<Rightarrow> bool" where
  "concerns rid e \<longleftrightarrow> map_of e ''round_id'' = Some rid"

definition booked_by :: "string \<Rightarrow> AccountRef \<Rightarrow> (string \<times> string) list \<Rightarrow> int" where
  "booked_by rid a e = (if concerns rid e then
     (case entry_transaction e of Inl _ \<Rightarrow> 0 | Inr t \<Rightarrow> tx_effect t a) else 0)"

definition booked :: "string \<Rightarrow> (string \<times> string) list list \<Rightarrow> AccountRef \<Rightarrow> int" where
  "booked rid es a = (\<Sum>e\<leftarrow>es. booked_by rid a e)"

definition postable :: "string \<Rightarrow> (string \<times> string) list list \<Rightarrow> bool" where
  "postable rid es \<longleftrightarrow> (\<forall>e\<in>set es. concerns rid e \<longrightarrow> (\<exists>t. entry_transaction e = Inr t))"

lemma booked_simps [simp]:
  "booked rid [] a = 0" "booked rid (es @ fs) a = booked rid es a + booked rid fs a"
  "booked rid [e] a = booked_by rid a e"
  "postable rid []" "postable rid (es @ fs) \<longleftrightarrow> postable rid es \<and> postable rid fs"
  "postable rid [e] \<longleftrightarrow> (concerns rid e \<longrightarrow> (\<exists>t. entry_transaction e = Inr t))"
  by (auto simp: booked_def postable_def)

lemma account_refs [simp]:
  "user_wallet u = user_wallet u' \<longleftrightarrow> u = u'" "round_pool r = round_pool r' \<longleftrightarrow> r = r'"
  "user_wallet u \<noteq> round_pool r" "round_pool r \<noteq> user_wallet u" "user_wallet u \<noteq> system_dust"
  "system_dust \<noteq> user_wallet u" "round_pool r \<noteq> system_dust" "system_dust \<noteq> round_pool r"
  by (simp_all add: user_wallet_def round_pool_def system_dust_def)

lemma tx_effect_wager:
  "tx_effect (transactionForWager w) (user_wallet u) = (if u = WpUser w then - WpAmount w else 0)"
  "tx_effect (transactionForWager w) (round_pool r) = (if r = WpRoom w then WpAmount w else 0)"
  "tx_effect (transactionForWager w) system_dust = 0"
  by (simp_all add: tx_effect_def transactionForWager_def entry_net_def)

lemma payouts_effect:
  "(\<Sum>e\<leftarrow>map payout_entry (map wire ps). if EntryAccount e = user_wallet u then - entry_net e else 0) = user_paid ps u"
  "(\<Sum>e\<leftarrow>map payout_entry ps'. if EntryAccount e = round_pool r then - entry_net e else 0) = 0"
  "(\<Sum>e\<leftarrow>map payout_entry ps'. if EntryAccount e = system_dust then - entry_net e else 0) = 0"
proof -
  show "(\<Sum>e\<leftarrow>map payout_entry (map wire ps). if EntryAccount e = user_wallet u then - entry_net e else 0) = user_paid ps u"
    by (induction ps) (simp_all add: payout_entry_def wire_def entry_net_def)
qed (induction ps', simp_all add: payout_entry_def)+

text \<open>The transaction of a settlement or refund that adds up.\<close>

lemma settlement_effect:
  fixes refunded rid room key tot dust win ps
  defines "s \<equiv> round_settled refunded rid room key tot dust win ps"
  assumes "dust + paid_out ps = tot" "0 \<le> dust" "0 \<le> tot" "in64 tot" "in64 dust"
  shows "\<exists>t. TransactionFor (SettledEvent s) = Inr t
    \<and> (\<forall>u. tx_effect t (user_wallet u) = user_paid ps u)
    \<and> tx_effect t (round_pool room) = - tot \<and> tx_effect t system_dust = dust"
proof -
  have sel: "RsTotal s = tot" "RsDust s = dust" "RsRoom s = room" "payouts_of s = map wire ps"
    by (simp_all add: s_def round_settled_def payouts_of_def)
  have "paid_total s = paid_out ps"
    by (simp add: paid_total_def sel paid_out_def o_def wire_def)
  with assms(2) have sum: "RsDust s + paid_total s = RsTotal s" by (simp add: sel)
  moreover have "in64 (RsDust s + paid_total s)" unfolding sum sel(1) by (rule assms(5))
  ultimately obtain t where t: "transactionForSettlement s = Inr t"
    using transactionForSettlement_exact [of s] assms sel by auto
  then have es: "TxEntries t = settlement_entries s" unfolding transactionForSettlement_Inr by simp
  have "tx_effect t (user_wallet u) = user_paid ps u" for u
    unfolding tx_effect_def es settlement_entries_def map_append sum_list_append sel payouts_effect by simp
  moreover have "tx_effect t (round_pool room) = - tot" "tx_effect t system_dust = dust"
    unfolding tx_effect_def es settlement_entries_def map_append sum_list_append sel payouts_effect
    using assms(3,4) by (simp_all add: entry_net_def)
  ultimately show ?thesis using t by auto
qed

section \<open>The books of a round and what may happen to them\<close>

abbreviation status_of :: "rview \<Rightarrow> string \<Rightarrow> string option" where
  "status_of v rid \<equiv> round_hash v rid ''status''"

text \<open>The tokens of the pool, which the end of the round takes out of it.\<close>

definition pot :: "rview \<Rightarrow> string \<Rightarrow> int" where
  "pot v rid = (if ended (status_of v rid) then 0 else amt (pools v rid ''total''))"

definition in_play :: "rview \<Rightarrow> string \<Rightarrow> string \<Rightarrow> int" where
  "in_play v room rid = hsum (wallets v room) + pot v rid"

definition mirrors :: "string \<Rightarrow> string \<Rightarrow> string \<Rightarrow> rview \<Rightarrow> rview \<Rightarrow> bool" where
  "mirrors outbox room rid v v' \<longleftrightarrow> (\<exists>new. streams v' outbox = streams v outbox @ new \<and> postable rid new
     \<and> (\<forall>u. amt (wallets v' room u) = amt (wallets v room u) + booked rid new (user_wallet u))
     \<and> pot v' rid = pot v rid + booked rid new (round_pool room)
     \<and> in_play v room rid = in_play v' room rid + booked rid new system_dust)"

text \<open>A round that runs has its books in order, with amounts for which settlement is exact.\<close>

definition running :: "rview \<Rightarrow> string \<Rightarrow> string \<Rightarrow> int \<Rightarrow> bool" where
  "running v room rid n \<longleftrightarrow> (status_of v rid = Some RoundOpen \<or> status_of v rid = Some RoundLocked)
     \<and> table_ok v room rid n \<and> round_hash v rid ''room_id'' = Some room
     \<and> table_tokens v room rid \<le> max_total \<and> (\<forall>u\<in>bettors v rid. valid_utf8 u)"

definition in_books :: "rview \<Rightarrow> string \<Rightarrow> string \<Rightarrow> int \<Rightarrow> bool" where
  "in_books v room rid n \<longleftrightarrow> ended (status_of v rid) \<or> running v room rid n"

text \<open>
  The relation every step keeps: from books in order to books in order, mirrored in the outbox;
  an ended round stays ended, and once betting has closed it stays closed and the wagers stay as
  they are.
\<close>

definition tracked :: "string \<Rightarrow> string \<Rightarrow> string \<Rightarrow> int \<Rightarrow> rview \<Rightarrow> rview \<Rightarrow> bool" where
  "tracked outbox room rid n v v' \<longleftrightarrow> (in_books v room rid n \<longrightarrow>
     in_books v' room rid n \<and> mirrors outbox room rid v v'
     \<and> (ended (status_of v rid) \<longrightarrow> ended (status_of v' rid))
     \<and> (status_of v rid \<noteq> Some RoundOpen \<longrightarrow>
          status_of v' rid \<noteq> Some RoundOpen \<and> wagers v' rid = wagers v rid))"

definition tracks :: "('s \<Rightarrow> rview) \<Rightarrow> string \<Rightarrow> string \<Rightarrow> string \<Rightarrow> int \<Rightarrow> 's \<Rightarrow> 's \<Rightarrow> bool" where
  "tracks view outbox room rid n s s' \<longleftrightarrow> tracked outbox room rid n (view s) (view s')"

lemma mirrors_same:
  assumes "streams v' outbox = streams v outbox" "wallets v' room = wallets v room" "pot v' rid = pot v rid"
  shows "mirrors outbox room rid v v'"
  unfolding mirrors_def in_play_def by (rule exI [of _ "[]"]) (simp add: assms)

lemma mirrors_trans: "mirrors outbox room rid u v \<Longrightarrow> mirrors outbox room rid v w \<Longrightarrow> mirrors outbox room rid u w"
  unfolding mirrors_def
proof (elim exE conjE)
  fix es fs
  assume "streams v outbox = streams u outbox @ es" "streams w outbox = streams v outbox @ fs"
    "postable rid es" "postable rid fs"
    "\<forall>x. amt (wallets v room x) = amt (wallets u room x) + booked rid es (user_wallet x)"
    "\<forall>x. amt (wallets w room x) = amt (wallets v room x) + booked rid fs (user_wallet x)"
    "pot v rid = pot u rid + booked rid es (round_pool room)" "pot w rid = pot v rid + booked rid fs (round_pool room)"
    "in_play u room rid = in_play v room rid + booked rid es system_dust"
    "in_play v room rid = in_play w room rid + booked rid fs system_dust"
  then show "\<exists>new. streams w outbox = streams u outbox @ new \<and> postable rid new
     \<and> (\<forall>x. amt (wallets w room x) = amt (wallets u room x) + booked rid new (user_wallet x))
     \<and> pot w rid = pot u rid + booked rid new (round_pool room)
     \<and> in_play u room rid = in_play w room rid + booked rid new system_dust"
    by (intro exI [of _ "es @ fs"]) simp
qed

lemma tracks_refl: "reflp (tracks view outbox room rid n)"
  by (rule reflpI) (simp add: tracks_def tracked_def mirrors_same)

lemma tracks_trans: "transp (tracks view outbox room rid n)"
proof (rule transpI)
  fix s t u assume "tracks view outbox room rid n s t" "tracks view outbox room rid n t u"
  then show "tracks view outbox room rid n s u"
    unfolding tracks_def tracked_def by (auto intro: mirrors_trans)
qed

section \<open>Steps that move no tokens of the round\<close>

text \<open>What the books read of the state, the stream apart.\<close>

definition same_books :: "string \<Rightarrow> string \<Rightarrow> rview \<Rightarrow> rview \<Rightarrow> bool" where
  "same_books room rid v v' \<longleftrightarrow> round_hash v' rid = round_hash v rid \<and> wallets v' room = wallets v room
     \<and> pools v' rid = pools v rid \<and> wagers v' rid = wagers v rid \<and> bettors v' rid = bettors v rid"

lemma same_books_in_books: "same_books room rid v v' \<Longrightarrow> in_books v' room rid n = in_books v room rid n"
  by (simp add: same_books_def in_books_def running_def table_ok_def table_tokens_def)

lemma tracked_aside:
  assumes "same_books room rid v v'" "streams v' outbox = streams v outbox @ new" "\<forall>e\<in>set new. \<not> concerns rid e"
  shows "tracked outbox room rid n v v'"
proof -
  have "booked rid new a = 0" for a
    using assms(3) by (induction new) (simp_all add: booked_def booked_by_def)
  moreover have "postable rid new" using assms(3) by (auto simp: postable_def)
  ultimately have "mirrors outbox room rid v v'"
    using assms(1,2) unfolding mirrors_def in_play_def pot_def same_books_def by (intro exI [of _ new]) simp
  then show ?thesis using assms(1) same_books_in_books [OF assms(1)]
    by (simp add: tracked_def) (simp add: same_books_def)
qed

lemma tracked_trans:
  "tracked outbox room rid n u v \<Longrightarrow> tracked outbox room rid n v w \<Longrightarrow> tracked outbox room rid n u w"
  unfolding tracked_def by (auto intro: mirrors_trans)

lemma tracked_refl [simp]: "tracked outbox room rid n v v"
  by (simp add: tracked_def mirrors_same)

section \<open>A wager\<close>

lemma wager_mirrored:
  assumes run: "running v room rid n" and ok: "wager_ok v rq" and rq: "ReqRoom rq = room" "ReqRound rq = rid"
    and utf: "valid_utf8 room" "valid_utf8 rid" "valid_utf8 (ReqUser rq)" "valid_utf8 (ReqKey rq)"
  shows "tracked outbox room rid n v (wager_view outbox rq v)"
proof -
  let ?v = "wager_view outbox rq v" and ?w = "wager_placed v rq" and ?e = "wager_event v rq" and ?a = "ReqAmount rq"
  let ?W = "wallets v room" and ?u = "ReqUser rq" and ?P = "pools v rid"
  have T: "table_ok v (ReqRoom rq) (ReqRound rq) n" using run by (simp add: running_def rq)
  note room = table_ok_room_for [OF T ok]
  have t: "small_hash ?W" "finite (dom ?W)" "small_hash ?P" "n \<le> 4" using T by (simp_all add: table_ok_def rq MaxOutcomes_def)
  have r: "0 < ?a" "?a \<le> amt (?W ?u)" "amt (?P ''total'') + ?a < max_amt"
    using room(1) by (simp_all add: room_for_def rq)
  have bal: "0 \<le> amt (?W ?u)" "amt (?W ?u) < max_amt" "0 \<le> amt (?P ''total'')"
    using t small_hash_amt by blast+
  have in64s: "in64 (amt (?W ?u) - ?a)" "in64 ?a" "in64 (amt (?P ''total'') + ?a)" "in64 (ReqOutcome rq)"
    using r bal room(2,3) t(4) by (auto intro!: small_in64 simp: max_amt_def)
  then have "event_plain (WagerEvent ?w)" using utf by (simp add: wager_placed_def rq)
  then have "entry_transaction ?e = Inr (transactionForWager ?w)"
    by (simp add: entry_transaction_def Decode_wager_event sum_bind_def)
  moreover have "concerns rid ?e" by (simp add: concerns_def wager_event_def rq)
  ultimately have e: "postable rid [?e]" "booked rid [?e] a = tx_effect (transactionForWager ?w) a" for a
    by (simp_all add: booked_by_def)
  have st: "status_of v rid = Some RoundOpen" "\<not> ended (Some RoundOpen)"
    using ok by (simp_all add: wager_ok_def rq ended_def status_defs)
  note reads = wager_view_reads [of outbox rq v, unfolded rq]
  have tokens: "table_tokens ?v room rid = table_tokens v room rid"
    using wager_view_ok(2) [OF T ok, of outbox] by (simp add: rq)
  have pot: "pot ?v rid = pot v rid + ?a" "pot v rid = amt (?P ''total'')" "pot ?v rid = amt (pools ?v rid ''total'')"
    using in64s(3) by (simp_all add: pot_def reads st num_simps)
  have "mirrors outbox room rid v ?v"
    unfolding mirrors_def
  proof (intro exI [of _ "[?e]"] conjI allI)
    show "amt (wallets ?v room u) = amt (?W u) + booked rid [?e] (user_wallet u)" for u
      unfolding e(2) tx_effect_wager using in64s(1) by (simp add: reads wager_placed_def num_simps)
    show "pot ?v rid = pot v rid + booked rid [?e] (round_pool room)"
      unfolding e(2) tx_effect_wager by (simp add: pot(1) wager_placed_def rq)
    show "in_play v room rid = in_play ?v room rid + booked rid [?e] system_dust"
      unfolding e(2) tx_effect_wager using tokens by (simp add: in_play_def pot(2,3) table_tokens_def)
  qed (simp_all add: reads e(1) del: booked_simps(6))
  moreover have "running ?v room rid n"
    using run tokens wager_view_ok(1) [OF T ok, of outbox] utf(3) by (simp add: running_def reads rq)
  ultimately show ?thesis using st by (simp add: tracked_def in_books_def)
qed

section \<open>The end of a round\<close>

lemma member_le_paid: "\<forall>p\<in>set ps. 0 \<le> PayAmount p \<Longrightarrow> p \<in> set ps \<Longrightarrow> PayAmount p \<le> paid_out ps"
proof (induction ps)
  case (Cons q ps)
  then have "0 \<le> paid_out ps" by (auto simp: paid_out_def intro!: sum_list_nonneg_int)
  with Cons show ?case by auto
qed simp

lemma ending_mirrored:
  fixes v v' :: rview
  assumes run: "running v room rid n" and lk: "status_of v rid = Some RoundLocked"
    and utf: "valid_utf8 room" "valid_utf8 rid" "valid_utf8 key" "\<forall>p\<in>set ps. valid_utf8 (PayUserID p)"
    and tot: "tot = amt (pools v rid ''total'')" "dust + paid_out ps = tot" "0 \<le> dust"
    and pos: "\<forall>p\<in>set ps. 0 \<le> PayAmount p" and win: "in64 win"
    and v': "wallets v' room = credited ps (wallets v room)" "ended (status_of v' rid)" "wagers v' rid = wagers v rid"
      "streams v' outbox = streams v outbox @ [settle_event (if refunded then ''round_refunded'' else ''round_settled'')
         rid room key tot dust (if refunded then [] else itoa win) ps]"
  shows "tracked outbox room rid n v v'"
proof -
  let ?e = "settle_event (if refunded then ''round_refunded'' else ''round_settled'') rid room key tot dust
    (if refunded then [] else itoa win) ps"
  let ?s = "round_settled refunded rid room key tot dust win ps" and ?W = "wallets v room"
  have t: "small_hash ?W" "finite (dom ?W)" "table_tokens v room rid = hsum ?W + tot" "table_tokens v room rid \<le> max_total"
    "small_hash (pools v rid)"
    using run by (auto simp: running_def table_ok_def table_tokens_def tot)
  have nn: "0 \<le> hsum ?W" "0 \<le> tot" "0 \<le> paid_out ps"
    using hsum_nonneg [OF t(1)] small_hash_amt [OF t(5)] pos
    by (auto simp: tot(1) paid_out_def intro!: sum_list_nonneg_int)
  have le: "tot \<le> max_total" "dust \<le> max_total" "paid_out ps \<le> max_total" using t nn tot(2,3) by linarith+
  have in64s: "in64 tot" "in64 dust" using nn le tot(3) by (auto intro: in64_small)
  have "in64 (PayAmount p)" if "p \<in> set ps" for p
    using member_le_paid [OF pos that] pos that le by (intro in64_small) auto
  then have "list_all payout_plain (map wire ps)"
    using utf(4) by (auto simp: list_all_iff payout_plain_def wire_def)
  then have "event_plain (SettledEvent ?s)"
    using utf in64s win by (simp add: round_settled_def payouts_of_def in64_def)
  then have dec: "entry_transaction ?e = TransactionFor (SettledEvent ?s)"
    unfolding entry_transaction_def by (subst Decode_settle_event) (simp_all add: sum_bind_def)
  obtain x where x: "TransactionFor (SettledEvent ?s) = Inr x" "\<forall>u. tx_effect x (user_wallet u) = user_paid ps u"
    "tx_effect x (round_pool room) = - tot" "tx_effect x system_dust = dust"
    using settlement_effect [OF tot(2,3) nn(2) in64s, of refunded rid room key win] by blast
  have "concerns rid ?e" by (simp add: concerns_def settle_event_def)
  then have e: "postable rid [?e]" "booked rid [?e] a = tx_effect x a" for a
    by (simp_all add: booked_by_def dec x(1) del: TransactionFor.simps)
  have "hsum ?W + paid_out ps < max_amt" using t tot(2,3) by (simp add: max_amt_def max_total_def)
  note c = credited_facts [OF t(1,2) pos this, folded v'(1)]
  have pots: "pot v rid = tot" "pot v' rid = 0" using v'(2) lk by (simp_all add: pot_def tot(1) ended_def status_defs)
  have "mirrors outbox room rid v v'"
    unfolding mirrors_def
  proof (intro exI [of _ "[?e]"] conjI allI)
    show "in_play v room rid = in_play v' room rid + booked rid [?e] system_dust"
      unfolding e(2) in_play_def pots x using c tot(2) by simp
  qed (use c x pots v'(4) e in simp_all)
  with v'(2,3) show ?thesis by (auto simp: tracked_def in_books_def ended_def status_defs)
qed

text \<open>What the stakes read from the wagers have to be.\<close>

definition read_as :: "stake list \<Rightarrow> int \<Rightarrow> (string \<rightharpoonup> string) \<Rightarrow> bool" where
  "read_as ss n h \<longleftrightarrow> in_order h ss \<and> valid_stakes ss n \<and> staked ss = hsum h"

lemma read_as_bettor: "read_as ss n h \<Longrightarrow> st \<in> set ss \<Longrightarrow> WagerField (UserID st) (Outcome st) \<in> dom h"
  by (auto simp: read_as_def in_order_def stakes_in_def)

lemma running_stakes:
  assumes "running v room rid n" "read_as ss n (wagers v rid)"
  shows "\<forall>u\<in>UserID ` set ss. valid_utf8 u" "staked ss = amt (pools v rid ''total'')" "small_round ss"
    "staked ss < max_amt" "hsum (wallets v room) + staked ss < max_amt" "small_hash (wallets v room)"
proof -
  have T: "table_ok v room rid n" "table_tokens v room rid \<le> max_total" "\<forall>u\<in>bettors v rid. valid_utf8 u"
    using assms(1) by (simp_all add: running_def)
  have "UserID ` set ss \<subseteq> bettors v rid"
  proof
    fix u assume "u \<in> UserID ` set ss"
    then obtain st where "st \<in> set ss" "u = UserID st" by blast
    then have "WagerField u (Outcome st) \<in> dom (wagers v rid)" using read_as_bettor [OF assms(2)] by simp
    moreover have "bettors v rid = {u. \<exists>i. WagerField u i \<in> dom (wagers v rid)}"
      using T(1) by (simp only: table_ok_def)
    ultimately show "u \<in> bettors v rid" by blast
  qed
  with T(3) show "\<forall>u\<in>UserID ` set ss. valid_utf8 u" by blast
  show eq: "staked ss = amt (pools v rid ''total'')" using assms(2) T(1) by (simp add: read_as_def table_ok_def)
  show W: "small_hash (wallets v room)" using T(1) by (simp add: table_ok_def)
  show "small_round ss" "staked ss < max_amt" "hsum (wallets v room) + staked ss < max_amt"
    using T(2) hsum_nonneg [OF W] by (simp_all add: table_tokens_def eq small_round_def max_total_def max_amt_def)
qed

lemma settled_mirrored:
  assumes run: "running v room rid n" and lk: "status_of v rid = Some RoundLocked"
    and utf: "valid_utf8 room" "valid_utf8 rid" "valid_utf8 key"
    and ss: "read_as ss n (wagers v rid)" and st: "Settle ss win n = Inr st"
  shows "tracked outbox room rid n v (settled_view outbox rid room key win (staked ss) st v)"
proof -
  note facts = running_stakes [OF run ss]
  have spec: "st = settle_spec ss win" "valid_stakes ss n" "ValidateOutcomeIndex win n = None"
    using Settle_InrD [OF st facts(3)] by simp_all
  note pay = settle_spec_payouts [OF spec(2), of win, folded spec(1)]
  have "n \<le> 4" using run by (simp add: running_def table_ok_def MaxOutcomes_def)
  then have win: "in64 win" using spec(3) by (auto simp: ValidateOutcomeIndex_def in64_def split: if_splits)
  show ?thesis
  proof (rule ending_mirrored [OF run lk utf _ facts(2) _ _ _ win])
    show "\<forall>p\<in>set (Payouts st). valid_utf8 (PayUserID p)" using pay(1) facts(1) by blast
    show "Dust st + paid_out (Payouts st) = staked ss" "0 \<le> Dust st"
      using pay(3) by (simp_all add: spec(1) settle_spec_def Let_def)
    show "\<forall>p\<in>set (Payouts st). 0 \<le> PayAmount p" using pay(2) by (simp add: less_imp_le)
    show "wagers (settled_view outbox rid room key win (staked ss) st v) rid = wagers v rid"
      by (simp add: settled_view_def Let_def table_reads view_simps key_simps)
  qed (auto simp: settled_view_reads ended_def)
qed

lemma refunded_mirrored:
  assumes run: "running v room rid n" and lk: "status_of v rid = Some RoundLocked"
    and utf: "valid_utf8 room" "valid_utf8 rid" "valid_utf8 key" and ss: "read_as ss n (wagers v rid)"
  shows "tracked outbox room rid n v
    (refunded_view outbox rid room key (map (prow (user_staked ss)) (first_users ss)) (staked ss) v)"
proof -
  note facts = running_stakes [OF run ss]
  have v: "valid_stakes ss n" using ss by (simp add: read_as_def)
  note pay = user_refunds [OF v]
  show ?thesis
  proof (rule ending_mirrored [OF run lk utf _ facts(2), where dust = 0 and refunded = True and win = 0])
    show "\<forall>p\<in>set (map (prow (user_staked ss)) (first_users ss)). valid_utf8 (PayUserID p)"
      using facts(1) by (auto simp: first_users_def set_add_new)
    show "wagers (refunded_view outbox rid room key (map (prow (user_staked ss)) (first_users ss)) (staked ss) v) rid
      = wagers v rid"
      by (simp add: refunded_view_def table_reads view_simps key_simps)
  qed (auto simp: refunded_view_reads ended_def pay in64_def)
qed

section \<open>The scripts\<close>

context redis_server
begin

lemma wager_call_tracks:
  assumes "ReqRoom rq = room" "ReqRound rq = rid"
    and "valid_utf8 room" "valid_utf8 rid" "valid_utf8 (ReqUser rq)" "valid_utf8 (ReqKey rq)"
  shows "step_guar (tracks view outbox room rid n) (wager_call R outbox rq)"
  unfolding step_guar_def tracks_def
proof
  fix s
  let ?s = "snd (wager_call R outbox rq s)"
  show "tracked outbox room rid n (view s) (view ?s)"
  proof (cases "strs (view s) (IdemKey (ReqKey rq)) = None \<and> wager_ok (view s) rq \<and> in_books (view s) room rid n")
    case True
    then have ok: "wager_ok (view s) rq" "running (view s) room rid n"
      using assms(2) by (auto simp: in_books_def wager_ok_def ended_def status_defs)
    then have T: "table_ok (view s) (ReqRoom rq) (ReqRound rq) n" using assms(1,2) by (simp add: running_def)
    from wager_call_accepted [OF T _ ok(1), of outbox] True obtain x where
      x: "view ?s = v_set (IdemKey (ReqKey rq)) x (Some 86400000) (wager_view outbox rq (view s))"
      by auto
    have "tracked outbox room rid n (wager_view outbox rq (view s)) (view ?s)"
      unfolding x by (rule tracked_aside [where new = "[]"]) (simp_all add: same_books_def table_reads view_simps)
    with wager_mirrored [OF ok(2,1) assms, of outbox] show ?thesis by (rule tracked_trans)
  next
    case False
    show ?thesis
    proof (cases "in_books (view s) room rid n")
      case True
      then have "?s = s"
        using False wager_call_refused [of s rq outbox] wager_call_replayed [of s rq]
        by (cases "strs (view s) (IdemKey (ReqKey rq))") auto
      then show ?thesis by simp
    qed (simp add: tracked_def)
  qed
qed

text \<open>A wager in another room leaves this one's books alone.\<close>

definition leaves :: "string \<Rightarrow> string \<Rightarrow> string \<Rightarrow> 's \<Rightarrow> 's \<Rightarrow> bool" where
  "leaves outbox room rid s s' \<longleftrightarrow> same_books room rid (view s) (view s')
     \<and> (\<exists>new. streams (view s') outbox = streams (view s) outbox @ new \<and> (\<forall>e\<in>set new. \<not> concerns rid e))"

lemma leaves_tracks: "leaves outbox room rid s s' \<Longrightarrow> tracks view outbox room rid n s s'"
  unfolding leaves_def tracks_def by (blast intro: tracked_aside)

lemma leaves_refl: "reflp (leaves outbox room rid)"
  by (rule reflpI) (simp add: leaves_def same_books_def)

lemma leaves_trans: "transp (leaves outbox room rid)"
proof (rule transpI)
  fix s t u assume st: "leaves outbox room rid s t" and tu: "leaves outbox room rid t u"
  obtain es where es: "streams (view t) outbox = streams (view s) outbox @ es" "\<forall>e\<in>set es. \<not> concerns rid e"
    using st by (auto simp: leaves_def)
  obtain fs where fs: "streams (view u) outbox = streams (view t) outbox @ fs" "\<forall>e\<in>set fs. \<not> concerns rid e"
    using tu by (auto simp: leaves_def)
  have "streams (view u) outbox = streams (view s) outbox @ es @ fs" by (simp add: es fs)
  moreover have "\<forall>e\<in>set (es @ fs). \<not> concerns rid e" using es(2) fs(2) by auto
  ultimately show "leaves outbox room rid s u"
    using st tu unfolding leaves_def same_books_def by metis
qed

lemma hincrby_leaves:
  assumes "k \<noteq> RoundKey rid" "k \<noteq> RoomWalletsKey room" "k \<noteq> RoundPoolsKey rid" "k \<noteq> RoundWagersKey rid"
  shows "step_guar (leaves outbox room rid) (hincrby R k f m)"
  unfolding step_guar_def
proof
  fix s
  obtain r t where t: "HINCRBY R k f m s = (r, t)" by (cases "HINCRBY R k f m s")
  have "leaves outbox room rid s t"
    using HINCRBY [OF t] assms
    by (auto simp: leaves_def same_books_def table_reads view_simps split: option.splits)
  then show "leaves outbox room rid s (snd (hincrby R k f m s))"
    using t by (cases r) (auto simp: hincrby_def eff_simps reflpD [OF leaves_refl])
qed

lemma wager_elsewhere_tracks:
  assumes "plain_id rid" "ReqRoom rq \<noteq> room" "ReqRound rq \<noteq> rid"
  shows "step_guar (tracks view outbox room rid n) (wager_call R outbox rq)"
proof (rule step_mono [OF _ leaves_tracks])
  have writes: "leaves outbox room rid s (SADD R (RoundBettorsKey (ReqRound rq)) m s)"
    "leaves outbox room rid s (SETEX R k x j s)"
    "leaves outbox room rid s (XADD R outbox [(''type'', ty), (''user'', u), (''outcome'', oc), (''amount'', a),
       (''balance'', b), (''idempotency_key'', key), (''room_id'', r), (''round_id'', ReqRound rq)] s)"
    for s k m x j ty u oc a b key r
    using assms by (auto simp: leaves_def same_books_def table_reads writes view_simps key_simps concerns_def)
  show "step_guar (leaves outbox room rid) (wager_call R outbox rq)"
    unfolding wager_call_def place_wager_def wager_guarded_def wager_apply_def
    by (intro step_rules step_exec hincrby_leaves leaves_refl leaves_trans writes)
      (use assms in \<open>simp_all add: key_simps\<close>)
qed

lemma lock_call_tracks:
  assumes "x = rid \<or> plain_id x"
  shows "step_guar (tracks view outbox room rid n) (lock_round R (RoundKey x))"
  unfolding step_guar_def tracks_def
proof
  fix s
  let ?s = "snd (lock_round R (RoundKey x) s)"
  have "?s = s \<or> status_of (view s) x = Some RoundOpen
      \<and> view ?s = v_hset (RoundKey x) [(''status'', RoundLocked)] (view s)"
    by (auto simp: lock_round_def eff_simps reads writes round_hash_def status_defs)
  then consider "?s = s" | "status_of (view s) x = Some RoundOpen"
      "view ?s = v_hset (RoundKey x) [(''status'', RoundLocked)] (view s)" by blast
  then show "tracked outbox room rid n (view s) (view ?s)"
  proof cases
    case 2
    have same: "wallets (view ?s) room = wallets (view s) room" "streams (view ?s) = streams (view s)"
      "bettors (view ?s) rid = bettors (view s) rid"
      by (simp_all add: 2(2) table_reads view_simps key_simps)
    show ?thesis
    proof (cases "x = rid")
      case True
      have at: "pools (view ?s) rid = pools (view s) rid" "wagers (view ?s) rid = wagers (view s) rid"
        "round_hash (view ?s) rid = (round_hash (view s) rid)(''status'' \<mapsto> RoundLocked)"
        by (simp_all add: 2(2) [unfolded True] True table_reads view_simps key_simps)
      have "pot (view ?s) rid = pot (view s) rid"
        using 2(1) [unfolded True] by (simp add: pot_def at ended_def status_defs)
      then have "mirrors outbox room rid (view s) (view ?s)" by (intro mirrors_same) (simp_all add: same)
      then show ?thesis using 2(1) [unfolded True]
        by (auto simp: tracked_def in_books_def running_def same at table_ok_def table_tokens_def ended_def status_defs)
    next
      case False
      then have "same_books room rid (view s) (view ?s)"
        using assms by (simp add: same_books_def same 2(2)) (simp add: table_reads view_simps key_simps)
      then show ?thesis by (rule tracked_aside [where new = "[]"]) (simp_all add: same)
    qed
  qed simp
qed

text \<open>The scripts that end the round, with the stakes as they stand when they run.\<close>

definition settled_stakes :: "string \<Rightarrow> string \<Rightarrow> int \<Rightarrow> stake list \<Rightarrow> 's \<Rightarrow> bool" where
  "settled_stakes room rid n ss s \<longleftrightarrow> in_books (view s) room rid n \<and> status_of (view s) rid \<noteq> Some RoundOpen
     \<and> (ended (status_of (view s) rid) \<or> read_as ss n (wagers (view s) rid))"

lemma settled_stakes_cases:
  assumes "settled_stakes room rid n ss s" "status_of (view s) rid = Some RoundLocked"
  shows "running (view s) room rid n" "read_as ss n (wagers (view s) rid)"
  using assms by (auto simp: settled_stakes_def in_books_def ended_def status_defs)

lemma ending_calls_idle:
  assumes "status_of (view s) rid \<noteq> Some RoundLocked"
  shows "snd (settle_call R outbox rid room win key tot st s) = s"
    "snd (refund_call R outbox rid room key ps tot s) = s"
  using assms by (auto simp: settle_call_def settle_round_def refund_call_def refund_round_def eff_simps reads
      round_hash_def RoundLocked_def)

lemma settle_call_tracks:
  assumes "settled_stakes room rid n ss s" and "Settle ss win n = Inr st"
    and utf: "valid_utf8 room" "valid_utf8 rid" "valid_utf8 key"
  shows "tracks view outbox room rid n s (snd (settle_call R outbox rid room win key (sum_amounts ss) st s))"
proof (cases "status_of (view s) rid = Some RoundLocked")
  case lk: True
  note run = settled_stakes_cases [OF assms(1) lk]
  note facts = running_stakes [OF run]
  have spec: "st = settle_spec ss win" "valid_stakes ss n" using Settle_InrD [OF assms(2) facts(3)] by simp_all
  note pay = settle_spec_payouts(2,3) [OF spec(2), of win, folded spec(1)]
  have "\<forall>p\<in>set (Payouts st). 0 \<le> PayAmount p" using pay(1) by (simp add: less_imp_le)
  moreover have "hsum (wallets (view s) room) + paid_out (Payouts st) < max_amt" using pay(2) facts(5) by linarith
  moreover have "sum_amounts ss = staked ss" by (rule sum_amounts_eq [OF spec(2) facts(4)])
  ultimately have "view (snd (settle_call R outbox rid room win key (sum_amounts ss) st s))
      = settled_view outbox rid room key win (staked ss) st (view s)"
    using settle_call_run [OF lk facts(6), of st outbox win key "staked ss"] by auto
  then show ?thesis
    unfolding tracks_def using settled_mirrored [OF run(1) lk utf run(2) assms(2)] by simp
qed (simp add: ending_calls_idle tracks_def)

lemma refund_call_tracks:
  assumes "settled_stakes room rid n ss s" and "aggregateStakes ss = (ps, tot)"
    and utf: "valid_utf8 room" "valid_utf8 rid" "valid_utf8 key"
  shows "tracks view outbox room rid n s (snd (refund_call R outbox rid room key ps tot s))"
proof (cases "status_of (view s) rid = Some RoundLocked")
  case lk: True
  note run = settled_stakes_cases [OF assms(1) lk]
  note facts = running_stakes [OF run]
  have v: "valid_stakes ss n" using run(2) by (simp add: read_as_def)
  have ps: "ps = map (prow (user_staked ss)) (first_users ss)" "tot = staked ss"
    using aggregateStakes_eq [OF v facts(4)] assms(2) by simp_all
  have "\<forall>p\<in>set ps. 0 \<le> PayAmount p" "hsum (wallets (view s) room) + paid_out ps < max_amt"
    using user_refunds(1,2) [OF v] facts(5) by (simp_all add: ps)
  then have "view (snd (refund_call R outbox rid room key ps tot s)) = refunded_view outbox rid room key ps (staked ss) (view s)"
    using refund_call_run [OF lk facts(6), of ps outbox key tot] by (auto simp: ps(2))
  then show ?thesis
    unfolding tracks_def using refunded_mirrored [OF run(1) lk utf run(2)] by (simp add: ps(1))
qed (simp add: ending_calls_idle tracks_def)

section \<open>The methods of the store\<close>

lemmas track_guar = guar_pure [OF tracks_refl] guar_andThen [OF tracks_trans] trips_guar [OF tracks_refl tracks_trans]

lemma call_script_tracks:
  "step_guar (tracks view outbox room rid n) f \<Longrightarrow> guar (tracks view outbox room rid n) (call_script f)"
  unfolding call_script_def by (auto intro!: track_guar)

lemma reads_tracks: "guar (tracks view outbox room rid n) (hgetall R k)"
  unfolding hgetall_def by (intro track_guar step_pure tracks_refl)

text \<open>What \<open>m\<close> keeps when it starts in a state with \<open>P\<close>, and how what is read becomes known.\<close>

definition guar_from :: "('s \<Rightarrow> bool) \<Rightarrow> ('s \<Rightarrow> 's \<Rightarrow> bool) \<Rightarrow> ('s, 'x, 'a) go \<Rightarrow> bool" where
  "guar_from P Q m \<longleftrightarrow> (\<forall>w. rely Q w \<longrightarrow> P (db w) \<longrightarrow> Q (db w) (db (snd (m w))))"

lemma guar_from_read:
  fixes m :: "('s, 'x, 'a) go" and k :: "'a \<Rightarrow> ('s, 'x, 'b) go"
  assumes "transp Q" "guar Q m" "\<And>x. guar_from (P x) Q (k x)"
    and "\<And>w x w'. rely Q w \<Longrightarrow> P0 (db w) \<Longrightarrow> m w = (Inr x, w') \<Longrightarrow> Q (db w) (db w') \<Longrightarrow> P x (db w')"
  shows "guar_from P0 Q (andThen m k)"
  unfolding guar_from_def
proof (intro allI impI)
  fix w :: "('s, 'x) world_scheme" assume w: "rely Q w" "P0 (db w)"
  obtain r u where m: "m w = (r, u)" by (cases "m w")
  with guarD [OF assms(2) w(1)] have u: "Q (db w) (db u)" "rely Q u" by simp_all
  show "Q (db w) (db (snd (andThen m k w)))"
  proof (cases r)
    case (Inr x)
    then have "P x (db u)" using assms(4) [OF w] m u(1) by simp
    with assms(3) [of x] u(2) have "Q (db u) (db (snd (k x u)))" by (simp add: guar_from_def)
    with u(1) assms(1) m Inr show ?thesis by (auto simp: eff_simps dest: transpD)
  qed (simp add: eff_simps m u)
qed

lemma guar_from_pure:
  assumes "reflp Q"
  shows "guar_from P Q (ret x)" "guar_from P Q (raise e)"
  using assms by (simp_all add: guar_from_def eff_simps reflpD)

lemma guar_from_if:
  "(b \<Longrightarrow> guar_from P Q m1) \<Longrightarrow> (\<not> b \<Longrightarrow> guar_from P Q m2) \<Longrightarrow> guar_from P Q (if b then m1 else m2)"
  by simp

text \<open>A last script that keeps \<open>Q\<close> from the states of \<open>K\<close>, which \<open>Q\<close> preserves.\<close>

lemma guar_from_script:
  fixes g :: "string list \<Rightarrow> err" and a :: 'a
  assumes Q: "reflp Q" "transp Q" and K: "\<And>s t. K s \<Longrightarrow> Q s t \<Longrightarrow> K t"
    and f: "\<And>s. K s \<Longrightarrow> Q s (snd (f s))"
  shows "guar_from K Q (andThen (call_script f)
    (\<lambda>reply. if hd reply \<noteq> ''OK'' then raise (g reply) else ret a) :: ('s, 'x, 'a) go)"
  unfolding guar_from_def
proof (intro allI impI)
  define Q' where "Q' s t \<longleftrightarrow> (K s \<longrightarrow> Q s t)" for s t
  have Q': "reflp Q'" "transp Q'"
    using Q K by (auto simp: Q'_def reflp_def transp_def)
  have "step_guar Q' f" using f by (simp add: step_guar_def Q'_def)
  then have "guar Q' (andThen (call_script f)
      (\<lambda>reply. if hd reply \<noteq> ''OK'' then raise (g reply) else ret a) :: ('s, 'x, 'a) go)"
    unfolding call_script_def using Q' by (auto intro!: guar_pure guar_andThen trips_guar)
  moreover fix w :: "('s, 'x) world_scheme" assume "rely Q w" "K (db w)"
  moreover from this(1) have "rely Q' w" by (auto simp: rely_def Q'_def)
  ultimately show "Q (db w) (db (snd (andThen (call_script f)
      (\<lambda>reply. if hd reply \<noteq> ''OK'' then raise (g reply) else ret a) w)))"
    using guarD unfolding Q'_def by blast
qed

lemma hgetall_Inr:
  assumes "hgetall R k w = (Inr fs, w')"
  shows "map_of fs = hashes (view (db w')) k" "distinct (map fst fs)"
proof -
  have "roundtrip (asks (HGETALL R k)) w = (Inr fs, w')" using assms by (simp add: hgetall_def)
  then obtain s where "asks (HGETALL R k) s = (Inr fs :: err + _, db w')" by (rule roundtrip_Inr) blast
  then have "fs = HGETALL R k (db w')" by (auto simp: eff_simps)
  then show "map_of fs = hashes (view (db w')) k" "distinct (map fst fs)"
    by (simp_all add: HGETALL HGETALL_distinct)
qed

lemma GetRound_Inr:
  assumes "GetRound R rid w = (Inr rd, w')"
  shows "round_is (view (db w')) rid rd"
proof -
  from assms obtain fs u where fs: "hgetall R (RoundKey rid) w = (Inr fs, u)" "decode_round rid fs = Inr rd" "u = w'"
    unfolding GetRound_def by (auto simp: eff_simps elim!: andThen_InrE split: sum.splits prod.splits)
  then show ?thesis using hgetall_Inr(1) [OF fs(1)] by (auto simp: round_is_def round_hash_def)
qed

lemma ReadStakes_Inr:
  assumes "ReadStakes R rid w = (Inr ss, w')" "wagers_ok (wagers (view (db w')) rid) n"
  shows "read_as ss n (wagers (view (db w')) rid)"
proof -
  from assms(1) obtain fs ss0 u where fs: "hgetall R (RoundWagersKey rid) w = (Inr fs, u)" "stakes_of fs = Inr ss0"
    "ss = sort_stakes ss0" "u = w'"
    unfolding ReadStakes_def by (auto simp: eff_simps elim!: andThen_InrE split: sum.splits prod.splits)
  then have "map_of fs = wagers (view (db w')) rid" "distinct (map fst fs)"
    using hgetall_Inr [OF fs(1)] by (simp_all add: wagers_def)
  with hash_list_stakes [OF assms(2), of fs] fs(2,3) show ?thesis by (auto simp: read_as_def)
qed

lemma GetRound_tracks: "guar (tracks view outbox room rid n) (GetRound R x)"
  unfolding GetRound_def by (intro track_guar reads_tracks)

lemma ReadStakes_tracks: "guar (tracks view outbox room rid n) (ReadStakes R x)"
  unfolding ReadStakes_def by (intro track_guar reads_tracks)

text \<open>What the two reads of a settlement or refund establish.\<close>

definition seen_locked :: "string \<Rightarrow> string \<Rightarrow> int \<Rightarrow> Round \<Rightarrow> 's \<Rightarrow> bool" where
  "seen_locked room rid n rd s \<longleftrightarrow> in_books (view s) room rid n
     \<and> (Status rd = RoundLocked \<longrightarrow> status_of (view s) rid \<noteq> Some RoundOpen \<and> RoundRoom rd = room \<and> OutcomeCount rd = n)"

lemma seen_lockedI:
  assumes "in_books (view s) room rid n" "round_is (view s) rid rd"
  shows "seen_locked room rid n rd s"
proof -
  obtain fs where fs: "map_of fs = round_hash (view s) rid" "decode_round rid fs = Inr rd"
    using assms(2) by (auto simp: round_is_def)
  note d = decode_round_fields [OF fs(2)]
  have "status_of (view s) rid \<noteq> Some RoundOpen \<and> RoundRoom rd = room \<and> OutcomeCount rd = n" if "Status rd = RoundLocked"
  proof -
    have st: "status_of (view s) rid = Some RoundLocked"
      using d that fs(1) by (auto simp: field_def RoundLocked_def split: option.splits)
    then have run: "running (view s) room rid n" using assms(1) by (auto simp: in_books_def ended_def status_defs)
    then have h: "round_hash (view s) rid ''room_id'' = Some room"
      "round_hash (view s) rid ''outcome_count'' = Some (itoa n)" "in64 n"
      by (auto simp: running_def table_ok_def MaxOutcomes_def in64_def)
    have "RoundRoom rd = room" using d fs(1) h(1) by (simp add: field_def)
    with st round_is_sel(2) [OF assms(2) h(2,3)] show ?thesis by (simp add: status_defs)
  qed
  with assms(1) show ?thesis by (simp add: seen_locked_def)
qed

lemma settled_stakesI:
  assumes "seen_locked room rid n rd (db w)" "Status rd = RoundLocked" "ReadStakes R rid w = (Inr ss, w')"
    and "tracks view outbox room rid n (db w) (db w')"
  shows "settled_stakes room rid n ss (db w')"
proof -
  have b: "in_books (view (db w')) room rid n" "status_of (view (db w')) rid \<noteq> Some RoundOpen"
    using assms(1,2,4) by (simp_all add: seen_locked_def tracks_def tracked_def)
  show ?thesis
  proof (cases "ended (status_of (view (db w')) rid)")
    case False
    then have "table_ok (view (db w')) room rid n" using b(1) by (simp add: in_books_def running_def)
    from ReadStakes_Inr [OF assms(3) table_wagers_ok [OF this]] b show ?thesis by (simp add: settled_stakes_def)
  qed (use b in \<open>simp add: settled_stakes_def\<close>)
qed

lemma settled_stakes_kept:
  "settled_stakes room rid n ss s \<Longrightarrow> tracks view outbox room rid n s t \<Longrightarrow> settled_stakes room rid n ss t"
  by (auto simp: settled_stakes_def tracks_def tracked_def)

lemma guar_from_fact: "(C \<Longrightarrow> guar_from P Q m) \<Longrightarrow> guar_from (\<lambda>s. P s \<and> C) Q m"
  by (simp add: guar_from_def)

lemma ending_reads:
  fixes k :: "Round \<Rightarrow> stake list \<Rightarrow> ('s, 'x, 'a) go"
  assumes "\<And>rd ss. RoundRoom rd = room \<Longrightarrow> OutcomeCount rd = n \<Longrightarrow>
    guar_from (settled_stakes room rid n ss) (tracks view outbox room rid n) (k rd ss)"
  shows "guar_from (\<lambda>s. in_books (view s) room rid n) (tracks view outbox room rid n)
    (andThen (GetRound R rid) (\<lambda>round.
       if Status round = RoundResolved \<or> Status round = RoundRefunded then raise (Store ErrAlreadySettled)
       else if Status round \<noteq> RoundLocked then raise (Store ErrNotLocked)
       else andThen (ReadStakes R rid) (k round)))"
proof (rule guar_from_read [where P = "seen_locked room rid n"])
  show "guar (tracks view outbox room rid n) (GetRound R rid :: ('s, 'x, Round) go)" by (rule GetRound_tracks)
  show "seen_locked room rid n rd (db w')"
    if "in_books (view (db w)) room rid n" "GetRound R rid w = (Inr rd, w')" "tracks view outbox room rid n (db w) (db w')"
    for w w' :: "('s, 'x) world_scheme" and rd
    using that by (intro seen_lockedI GetRound_Inr [OF that(2)]) (simp add: tracks_def tracked_def)
  fix rd
  show "guar_from (seen_locked room rid n rd) (tracks view outbox room rid n)
      (if Status rd = RoundResolved \<or> Status rd = RoundRefunded then raise (Store ErrAlreadySettled)
       else if Status rd \<noteq> RoundLocked then raise (Store ErrNotLocked) else andThen (ReadStakes R rid) (k rd))"
  proof (intro guar_from_if guar_from_pure tracks_refl)
    assume lk: "\<not> Status rd \<noteq> RoundLocked"
    show "guar_from (seen_locked room rid n rd) (tracks view outbox room rid n) (andThen (ReadStakes R rid) (k rd))"
    proof (rule guar_from_read [where
          P = "\<lambda>ss s. settled_stakes room rid n ss s \<and> (RoundRoom rd = room \<and> OutcomeCount rd = n)"])
      show "guar (tracks view outbox room rid n) (ReadStakes R rid :: ('s, 'x, stake list) go)" by (rule ReadStakes_tracks)
      show "guar_from (\<lambda>s. settled_stakes room rid n ss s \<and> (RoundRoom rd = room \<and> OutcomeCount rd = n))
          (tracks view outbox room rid n) (k rd ss)" for ss
        by (rule guar_from_fact) (simp add: assms)
      show "settled_stakes room rid n ss (db w') \<and> (RoundRoom rd = room \<and> OutcomeCount rd = n)"
        if "seen_locked room rid n rd (db w)" "ReadStakes R rid w = (Inr ss, w')" "tracks view outbox room rid n (db w) (db w')"
        for w w' :: "('s, 'x) world_scheme" and ss
        using settled_stakesI [OF that(1) _ that(2,3)] that(1) lk by (simp add: seen_locked_def)
    qed (rule tracks_trans)
  qed
qed (rule tracks_trans)

lemma ending_methods_track:
  assumes utf: "valid_utf8 room" "valid_utf8 rid" "valid_utf8 key"
  shows "guar_from (\<lambda>s. in_books (view s) room rid n) (tracks view outbox room rid n) (SettleRound R outbox rid win key)"
    and "guar_from (\<lambda>s. in_books (view s) room rid n) (tracks view outbox room rid n) (RefundRound R outbox rid key)"
proof -
  show "guar_from (\<lambda>s. in_books (view s) room rid n) (tracks view outbox room rid n) (SettleRound R outbox rid win key)"
    unfolding SettleRound_def
  proof (rule ending_reads)
    fix rd ss assume rd: "RoundRoom rd = room" "OutcomeCount rd = n"
    show "guar_from (settled_stakes room rid n ss) (tracks view outbox room rid n)
      (andThen (lift_sum (Settle ss win (OutcomeCount rd))) (\<lambda>st.
       andThen (call_script (settle_call R outbox rid (RoundRoom rd) win key (sum_amounts ss) st)) (\<lambda>reply.
       if hd reply \<noteq> ''OK'' then raise (mapSettleStatus (hd reply)) else ret st)))"
      unfolding rd
    proof (cases "Settle ss win n")
      case (Inr st)
      have "guar_from (settled_stakes room rid n ss) (tracks view outbox room rid n)
        (andThen (call_script (settle_call R outbox rid room win key (sum_amounts ss) st)) (\<lambda>reply.
         if hd reply \<noteq> ''OK'' then raise (mapSettleStatus (hd reply)) else ret st))"
        by (rule guar_from_script [OF tracks_refl tracks_trans], erule (1) settled_stakes_kept,
            erule settle_call_tracks [OF _ Inr utf])
      then show "guar_from (settled_stakes room rid n ss) (tracks view outbox room rid n)
        (andThen (lift_sum (Settle ss win n)) (\<lambda>st.
         andThen (call_script (settle_call R outbox rid room win key (sum_amounts ss) st)) (\<lambda>reply.
         if hd reply \<noteq> ''OK'' then raise (mapSettleStatus (hd reply)) else ret st)))"
        by (simp add: Inr guar_from_def eff_simps)
    qed (simp add: guar_from_def eff_simps reflpD [OF tracks_refl])
  qed
  show "guar_from (\<lambda>s. in_books (view s) room rid n) (tracks view outbox room rid n) (RefundRound R outbox rid key)"
    unfolding RefundRound_def
  proof (rule ending_reads)
    fix rd ss assume rd: "RoundRoom rd = room" "OutcomeCount rd = n"
    obtain ps tot where agg: "aggregateStakes ss = (ps, tot)" by (meson surj_pair)
    show "guar_from (settled_stakes room rid n ss) (tracks view outbox room rid n)
      (let (payouts, tot) = aggregateStakes ss in
       andThen (call_script (refund_call R outbox rid (RoundRoom rd) key payouts tot)) (\<lambda>reply.
       if hd reply \<noteq> ''OK'' then raise (mapSettleStatus (hd reply)) else ret tot))"
      unfolding agg Let_def prod.case rd
      by (rule guar_from_script [OF tracks_refl tracks_trans], erule (1) settled_stakes_kept,
          erule refund_call_tracks [OF _ agg utf])
  qed
qed

lemma wager_methods_track:
  assumes "ReqRoom rq = room \<and> ReqRound rq = rid \<and> valid_utf8 (ReqUser rq) \<and> valid_utf8 (ReqKey rq)
      \<or> ReqRoom rq \<noteq> room \<and> ReqRound rq \<noteq> rid"
    and "plain_id rid" "valid_utf8 room" "valid_utf8 rid" "x = rid \<or> plain_id x"
  shows "guar (tracks view outbox room rid n) (PlaceWager R outbox rq)" "guar (tracks view outbox room rid n) (LockRound R x)"
proof -
  have "step_guar (tracks view outbox room rid n) (wager_call R outbox rq)"
    using assms wager_call_tracks wager_elsewhere_tracks by blast
  then show "guar (tracks view outbox room rid n) (PlaceWager R outbox rq)"
    unfolding PlaceWager_def by (auto intro!: track_guar call_script_tracks)
  show "guar (tracks view outbox room rid n) (LockRound R x)"
    unfolding LockRound_def using lock_call_tracks [OF assms(5)] by (auto intro!: track_guar call_script_tracks)
qed

end

section \<open>Properties\<close>


text \<open>The demonstration room, settled while a player tries to bet.\<close>

definition late_bet :: "mem world" where
  "late_bet = \<lparr>db = demo_locked, turns = [Turn [] (\<lambda>s. snd (wager_call mem_redis OutboxStream demo_wager s)) Answered]\<rparr>"

lemma demo_ids: "valid_utf8 ''r1''" "valid_utf8 ''x1''" "valid_utf8 ''k9''" "valid_utf8 ''a''" "valid_utf8 ''b''" "valid_utf8 ''k1''"
  by code_simp+

lemma demo_in_books: "in_books (mem_view demo_locked) ''r1'' ''x1'' 2"
proof -
  have amounts: "amt (Some ''1000'') = 1000" "amt (Some ''700'') = 700" "amt (Some ''300'') = 300" by code_simp+
  have "table_tokens (mem_view demo_locked) ''r1'' ''x1'' = 3000"
    unfolding table_tokens_def demo_locked_reads demo_reads
    by (simp add: hsum_map_of amounts del: map_of.simps; simp add: amounts)
  moreover have "round_hash (mem_view demo_locked) ''x1'' ''room_id'' = Some ''r1''"
    unfolding demo_locked_reads by (simp add: table_reads demo_slots)
  ultimately have "running (mem_view demo_locked) ''r1'' ''x1'' 2"
    using demo_locked_table demo_locked_status
    by (simp add: running_def max_total_def demo_locked_reads demo_reads demo_ids)
  then show ?thesis by (simp add: in_books_def)
qed


end
