(* ===== verification/BalanceSpec.thy ===== *)
theory BalanceSpec
  imports MirrorSpec
begin

text \<open>
  What the balance queries of the ledger return, and the reconciliation of the ledger with Redis:
  once the events of a round are posted, the queries give what the wallets, the pool and the dust
  have changed by.
\<close>

section \<open>The accounts of the ledger\<close>

definition refs_of :: "Transaction \<Rightarrow> AccountRef set" where
  "refs_of t = EntryAccount ` set (TxEntries t)"

definition row_for :: "('s, 'u) postgres \<Rightarrow> (string \<Rightarrow> 'u) \<Rightarrow> AccountRef \<Rightarrow> 'u account_row \<Rightarrow> bool" where
  "row_for P sha1 a r \<longleftrightarrow> ArId r = ID sha1 a \<and> ArKind r = kind_text (RefKind a)
     \<and> uuid_arg (UuidText P) (null_if_empty (RefUser a)) = Some (ArUser r)
     \<and> uuid_arg (UuidText P) (null_if_empty (RefRoom a)) = Some (ArRoom r)"

definition known_accounts :: "('s, 'u) postgres \<Rightarrow> (string \<Rightarrow> 'u) \<Rightarrow> AccountRef set \<Rightarrow> 'u tables \<Rightarrow> bool" where
  "known_accounts P sha1 A T \<longleftrightarrow> (\<forall>r\<in>set (accounts T). \<exists>a\<in>A. row_for P sha1 a r)"

definition knows :: "('s, 'u) postgres \<Rightarrow> (string \<Rightarrow> 'u) \<Rightarrow> AccountRef set \<Rightarrow> 'u pg_view \<Rightarrow> bool" where
  "knows P sha1 A v \<longleftrightarrow> known_accounts P sha1 A (saved v) \<and> (\<forall>T. work v = Some T \<longrightarrow> known_accounts P sha1 A T)"

text \<open>Steps that keep a condition on the database, whatever they return.\<close>

definition retains :: "('s \<Rightarrow> 'v) \<Rightarrow> ('v \<Rightarrow> bool) \<Rightarrow> ('s, 'u, 'x, 'a) led \<Rightarrow> bool" where
  "retains view J m \<longleftrightarrow> (\<forall>w. pg_env view w \<longrightarrow> J (view (db w)) \<longrightarrow>
     pg_env view (snd (m w)) \<and> J (view (db (snd (m w)))))"

lemma retains_pure: "retains view J (ret x)" "retains view J (raise e)"
  by (simp_all add: retains_def eff_simps)

lemma retains_andThen: "retains view J m \<Longrightarrow> (\<And>x. retains view J (k x)) \<Longrightarrow> retains view J (andThen m k)"
  unfolding retains_def andThen_def by (auto split: prod.splits sum.splits)

lemma retains_attempt: "retains view J m \<Longrightarrow> (\<And>x. retains view J (k x)) \<Longrightarrow> retains view J (attempt m k)"
  unfolding retains_def attempt_def by (auto split: prod.splits)

lemma retains_newUUID: "retains view J newUUID"
  by (auto simp: retains_def newUUID_def pg_env_def split: list.split)

lemma retains_trip:
  fixes view :: "'s \<Rightarrow> 'v" and f :: "('s, err, 'a) eff"
  assumes "acts view f F" "\<And>v. J v \<Longrightarrow> J (snd (F v))"
  shows "retains view J (roundtrip f :: ('s, 'u, 'x, 'a) led)"
  unfolding retains_def
proof (intro allI impI)
  fix w :: "('s, 'u, 'x) ledger_world_scheme" assume w: "pg_env view w" "J (view (db w))"
  obtain r w' where r: "roundtrip f w = (r, w')" by (meson surj_pair)
  have "view (db w') = view (db w) \<or> view (db w') = snd (F (view (db w)))"
    using trip_cases [OF assms(1) w(1) r] by (auto simp: prod_eq_iff)
  moreover have "pg_env view w'" using trip_cases [OF assms(1) w(1) r] pg_env_upd [OF w(1), of w'] by blast
  ultimately show "pg_env view (snd (roundtrip f w)) \<and> J (view (db (snd (roundtrip f w))))"
    using assms(2) w(2) by (auto simp: r)
qed

lemma knows_in_txn:
  assumes "knows P sha1 A v" "\<And>T. known_accounts P sha1 A T \<Longrightarrow> known_accounts P sha1 A (snd (f T))"
  shows "knows P sha1 A (snd (in_txn f v))"
  using assms unfolding knows_def in_txn_def
  by (auto split: option.split prod.split sum.split) (metis snd_conv)

lemma insert_account_knows:
  assumes "known_accounts P sha1 A T" "a \<in> A"
  shows "known_accounts P sha1 A (snd (sql_insert_account (UuidText P) (ID sha1 a) (kind_text (RefKind a))
    (null_if_empty (RefUser a)) (null_if_empty (RefRoom a)) T))"
  using assms by (auto simp: known_accounts_def sql_insert_account_def row_for_def Let_def split: option.split)

lemma other_inserts_know:
  assumes "known_accounts P sha1 A T"
  shows "known_accounts P sha1 A (snd (sql_insert_transaction uuid_of i key kind room rnd T))"
    "known_accounts P sha1 A (snd (sql_insert_entry i txn acc dir n T))"
  using assms by (auto simp: known_accounts_def sql_insert_transaction_def sql_insert_entry_def split: option.split)

context postgres_server
begin

lemma retains_insert_accounts:
  "EntryAccount ` set es \<subseteq> A \<Longrightarrow> retains view (knows P sha1 A) (insert_accounts P sha1 es)"
proof (induction es)
  case (Cons e es)
  then have "retains view (knows P sha1 A) (roundtrip (InsertAccount P (ID sha1 (EntryAccount e))
      (kind_text (RefKind (EntryAccount e))) (null_if_empty (RefUser (EntryAccount e))) (null_if_empty (RefRoom (EntryAccount e)))))"
    by (intro retains_trip [OF InsertAccount] knows_in_txn insert_account_knows) auto
  with Cons show ?case by (auto intro: retains_andThen)
qed (simp add: retains_pure)

lemma retains_insert_entries: "retains view (knows P sha1 A) (insert_entries P sha1 txn es)"
proof (induction es)
  case (Cons e es)
  have "retains view (knows P sha1 A) (roundtrip (InsertEntry P i txn acc dir n))" for i acc dir n
    by (intro retains_trip [OF InsertEntry] knows_in_txn other_inserts_know) auto
  with Cons show ?case by (auto intro!: retains_andThen retains_newUUID)
qed (simp add: retains_pure)

lemma retains_write_transactions:
  "\<Union>(refs_of ` set txns) \<subseteq> A \<Longrightarrow> retains view (knows P sha1 A) (write_transactions P sha1 txns n)"
proof (induction txns arbitrary: n)
  case (Cons t ts)
  have "retains view (knows P sha1 A) (roundtrip (InsertTransaction P i key kind room rnd))" for i key kind room rnd
    by (intro retains_trip [OF InsertTransaction] knows_in_txn other_inserts_know) auto
  moreover have "retains view (knows P sha1 A) (insert_accounts P sha1 (TxEntries t))"
    using Cons.prems by (intro retains_insert_accounts) (auto simp: refs_of_def)
  ultimately show ?case using Cons
    by (auto intro!: retains_andThen retains_newUUID retains_insert_entries split: option.split)
qed (simp add: retains_pure)

lemma WriteBatch_accounts:
  fixes w :: "('s, 'u, 'x) ledger_world_scheme"
  assumes "pg_env view w" "known_accounts P sha1 A (saved (view (db w)))" "\<Union>(refs_of ` set txns) \<subseteq> A"
  shows "known_accounts P sha1 A (saved (view (db (snd (WriteBatch P sha1 txns w)))))"
proof -
  let ?rest = "attempt (write_transactions P sha1 txns 0) (\<lambda>r. case r of
       Inl e \<Rightarrow> andThen (exec (\<lambda>w. w\<lparr>db := Rollback P (db w)\<rparr>)) (\<lambda>_. raise e)
     | Inr written \<Rightarrow> andThen (roundtrip (Commit P)) (\<lambda>_. ret written)) :: ('s, 'u, 'x, int) led"
  have "retains view (knows P sha1 A) (exec (\<lambda>w. w\<lparr>db := Rollback P (db w)\<rparr>) :: ('s, 'u, 'x, unit) led)"
    by (simp add: retains_def eff_simps pg_env_def Rollback knows_def)
  moreover have "retains view (knows P sha1 A) (roundtrip (Commit P) :: ('s, 'u, 'x, unit) led)"
    by (rule retains_trip [OF Commit]) (auto simp: sql_commit_def knows_def split: option.split)
  ultimately have rest: "retains view (knows P sha1 A) ?rest"
    using retains_write_transactions [OF assms(3)]
    by (auto intro!: retains_attempt retains_andThen retains_pure split: sum.split)
  obtain b u where b: "roundtrip (Begin P) w = (b, u)" by (meson surj_pair)
  show ?thesis
  proof (cases b)
    case (Inl e)
    then have "snd (WriteBatch P sha1 txns w) = u" using b by (simp add: WriteBatch_def eff_simps)
    moreover have "saved (view (db u)) = saved (view (db w))"
      using calm_begin [unfolded calm_def, rule_format, OF assms(1)] b by simp
    ultimately show ?thesis using assms(2) by simp
  next
    case (Inr x)
    note trip = trip_Inr [OF Begin assms(1) b [unfolded Inr]]
    have "view (db u) = (view (db w))\<lparr>work := Some (saved (view (db w)))\<rparr>" using trip(2) by simp
    then have "knows P sha1 A (view (db u))" using assms(2) by (simp add: knows_def)
    then have "knows P sha1 A (view (db (snd (?rest u))))" using rest trip(1) by (simp add: retains_def)
    then show ?thesis using b Inr by (simp add: WriteBatch_def andThen_def knows_def)
  qed
qed

lemma history_accounts:
  "ledger_history P view sha1 s ls \<Longrightarrow> (\<And>b r t. (b, r) \<in> set ls \<Longrightarrow> t \<in> set b \<Longrightarrow> refs_of t \<subseteq> A) \<Longrightarrow>
     known_accounts P sha1 A (saved (view s))"
proof (induction rule: ledger_history.induct)
  case (batch s ls w txns r w')
  have "known_accounts P sha1 A (saved (view s))"
  proof (rule batch.IH)
    fix b q t assume "(b, q) \<in> set ls" "t \<in> set b"
    then show "refs_of t \<subseteq> A" by (intro batch.prems [of b q t]) simp_all
  qed
  moreover have "\<Union>(refs_of ` set txns) \<subseteq> A" using batch.prems by auto
  ultimately show ?case using WriteBatch_accounts [OF batch.hyps(3)] batch.hyps(2,4) by (metis snd_conv)
qed (simp add: known_accounts_def)

end

section \<open>Sums over the ledger\<close>

text \<open>What is posted, transaction by transaction, and what a transaction brings to the sums.\<close>

definition amount_of :: "string \<Rightarrow> int \<Rightarrow> int" where
  "amount_of d n = (if d = ''credit'' then n else - n)"

lemma posting_entries:
  assumes "tables_ok T"
  shows "(\<Sum>e\<leftarrow>entries T. g (ErTxn e) (line_of e)) = (\<Sum>r\<leftarrow>transactions T. \<Sum>l\<leftarrow>PostLines (posting_of T r). g (TrId r) l :: int)"
proof -
  have "(\<Sum>e\<leftarrow>entries T. g (ErTxn e) (line_of e))
      = (\<Sum>i\<leftarrow>map TrId (transactions T). \<Sum>e\<leftarrow>filter (\<lambda>e. ErTxn e = i) (entries T). g (ErTxn e) (line_of e))"
    using assms by (intro sum_list_group [symmetric]) (auto simp: tables_ok_def)
  also have "\<dots> = (\<Sum>i\<leftarrow>map TrId (transactions T). \<Sum>e\<leftarrow>entries_of T i. g i (line_of e))"
    unfolding entries_of_def by (intro arg_cong [where f = sum_list] map_cong refl) simp
  finally show ?thesis by (simp add: posting_of_def o_def)
qed

lemma find_key: "distinct (map f xs) \<Longrightarrow> x \<in> set xs \<Longrightarrow> find (\<lambda>y. f y = f x) xs = Some x"
  by (induction xs) (auto simp: image_iff)

lemma row_lookups:
  assumes "tables_ok T"
  shows "r \<in> set (transactions T) \<Longrightarrow> txn_of_id T (TrId r) = Some r"
    and "a \<in> set (accounts T) \<Longrightarrow> account_of T (ArId a) = Some a"
  using assms by (simp_all add: tables_ok_def txn_of_id_def account_of_def find_key)

text \<open>A sum over the rows of the three-way join, taken posting by posting.\<close>

lemma joined_sum:
  assumes T: "tables_ok T"
  shows "(\<Sum>e\<leftarrow>filter (\<lambda>e. H (account_of T (ErAccount e))) (joined (\<lambda>a r. Pa a \<and> Pr (TrRoom r)) T). v (ErDirection e) (ErAmount e))
    = (\<Sum>p\<leftarrow>book T. if Pr (PostRoom p)
        then (\<Sum>(acc, d, n)\<leftarrow>PostLines p. if Pa (the (account_of T acc)) \<and> H (account_of T acc) then v d n else 0)
        else (0 :: int))"
proof -
  define g where "g i l = (case l of (acc, d, n) \<Rightarrow> if Pr (TrRoom (the (txn_of_id T i)))
     \<and> Pa (the (account_of T acc)) \<and> H (account_of T acc) then v d n else 0)" for i l
  have row: "(if (case (account_of T (ErAccount e), txn_of_id T (ErTxn e)) of
       (Some a, Some t) \<Rightarrow> Pa a \<and> Pr (TrRoom t) | _ \<Rightarrow> False) \<and> H (account_of T (ErAccount e))
      then v (ErDirection e) (ErAmount e) else 0) = g (ErTxn e) (line_of e)" if "e \<in> set (entries T)" for e
  proof -
    from that T obtain r a where "r \<in> set (transactions T)" "ErTxn e = TrId r" "a \<in> set (accounts T)" "ErAccount e = ArId a"
      unfolding tables_ok_def by blast
    then show ?thesis by (simp add: g_def line_of_def row_lookups [OF T])
  qed
  have "(\<Sum>e\<leftarrow>filter (\<lambda>e. H (account_of T (ErAccount e))) (joined (\<lambda>a r. Pa a \<and> Pr (TrRoom r)) T). v (ErDirection e) (ErAmount e))
      = (\<Sum>e\<leftarrow>entries T. g (ErTxn e) (line_of e))"
    unfolding joined_def filter_filter sum_list_map_filter'
    by (intro arg_cong [where f = sum_list] map_cong refl) (subst row [symmetric], assumption, auto)
  also have "\<dots> = (\<Sum>r\<leftarrow>transactions T. \<Sum>l\<leftarrow>PostLines (posting_of T r). g (TrId r) l)"
    by (rule posting_entries [OF T])
  also have "\<dots> = (\<Sum>r\<leftarrow>transactions T. if Pr (PostRoom (posting_of T r))
        then (\<Sum>(acc, d, n)\<leftarrow>PostLines (posting_of T r). if Pa (the (account_of T acc)) \<and> H (account_of T acc) then v d n else 0)
        else 0)"
  proof (intro arg_cong [where f = sum_list] map_cong refl)
    fix r assume "r \<in> set (transactions T)"
    then have r: "txn_of_id T (TrId r) = Some r" by (rule row_lookups(1) [OF T])
    have room: "PostRoom (posting_of T r) = TrRoom r" by (simp add: posting_of_def)
    show "(\<Sum>l\<leftarrow>PostLines (posting_of T r). g (TrId r) l) = (if Pr (PostRoom (posting_of T r))
        then (\<Sum>(acc, d, n)\<leftarrow>PostLines (posting_of T r). if Pa (the (account_of T acc)) \<and> H (account_of T acc) then v d n else 0)
        else 0)"
      unfolding room by (cases "Pr (TrRoom r)") (simp_all add: g_def r split_def)
  qed
  finally show ?thesis by (simp add: book_def o_def)
qed

text \<open>The row of an account, where no two of the accounts share an identifier.\<close>

lemma account_found:
  assumes "tables_ok T" "known_accounts P sha1 A T" "inj_on (ID sha1) A" "b \<in> A" "ID sha1 b \<in> ArId ` set (accounts T)"
  shows "\<exists>row. account_of T (ID sha1 b) = Some row \<and> row_for P sha1 b row"
proof -
  from assms(5) obtain row where row: "row \<in> set (accounts T)" "ArId row = ID sha1 b" by auto
  with assms(2) obtain a where a: "a \<in> A" "row_for P sha1 a row" unfolding known_accounts_def by blast
  then have "ID sha1 a = ID sha1 b" using row(2) by (simp add: row_for_def)
  with a(1) assms(3,4) have "a = b" by (meson inj_onD)
  with a(2) row row_lookups(2) [OF assms(1) row(1)] show ?thesis by auto
qed

lemma posted_account_exists:
  assumes "tables_ok T" "book T = map (posting_for uuid_of sha1) ts" "t \<in> set ts" "e \<in> set (TxEntries t)"
  shows "ID sha1 (EntryAccount e) \<in> ArId ` set (accounts T)"
proof -
  have "posting_for uuid_of sha1 t \<in> set (book T)" using assms(2,3) by simp
  then obtain r where "posting_for uuid_of sha1 t = posting_of T r" by (auto simp: book_def)
  then have "PostLines (posting_of T r) = PostLines (posting_for uuid_of sha1 t)" by simp
  then have "(ID sha1 (EntryAccount e), direction_text (EntryDirection e), EntryAmount e) \<in> set (map line_of (entries_of T (TrId r)))"
    using assms(4) by (simp add: posting_of_def posting_for_def del: set_map) simp
  then obtain q where "q \<in> set (entries T)" "ErAccount q = ID sha1 (EntryAccount e)"
    by (auto simp: line_of_def entries_of_def)
  then show ?thesis using assms(1) unfolding tables_ok_def by metis
qed

lemma booked_sum:
  assumes T: "tables_ok T" "known_accounts P sha1 A T" "inj_on (ID sha1) A"
    and ts: "book T = map (posting_for (UuidText P) sha1) ts" "\<And>t. t \<in> set ts \<Longrightarrow> refs_of t \<subseteq> A"
    and C: "\<And>b row. b \<in> A \<Longrightarrow> row_for P sha1 b row \<Longrightarrow> (Pa row \<and> H (Some row)) = C b"
  shows "(\<Sum>e\<leftarrow>filter (\<lambda>e. H (account_of T (ErAccount e))) (joined (\<lambda>a r. Pa a \<and> Pr (TrRoom r)) T). v (ErDirection e) (ErAmount e))
    = (\<Sum>t\<leftarrow>ts. if Pr (the (UuidText P (TxRoom t)))
        then (\<Sum>e\<leftarrow>TxEntries t. if C (EntryAccount e) then v (direction_text (EntryDirection e)) (EntryAmount e) else 0)
        else (0 :: int))"
  unfolding joined_sum [OF T(1)] ts(1) map_map
proof (intro arg_cong [where f = sum_list] map_cong refl, unfold o_apply)
  fix t assume t: "t \<in> set ts"
  have line: "(Pa (the (account_of T (ID sha1 (EntryAccount e)))) \<and> H (account_of T (ID sha1 (EntryAccount e)))) = C (EntryAccount e)"
    if e: "e \<in> set (TxEntries t)" for e
  proof -
    have b: "EntryAccount e \<in> A" using ts(2) [OF t] e by (auto simp: refs_of_def)
    obtain row where row: "account_of T (ID sha1 (EntryAccount e)) = Some row" "row_for P sha1 (EntryAccount e) row"
      using account_found [OF T b posted_account_exists [OF T(1) ts(1) t e]] by blast
    then show ?thesis using C [OF b row(2)] by simp
  qed
  have "(\<Sum>(acc, d, n)\<leftarrow>PostLines (posting_for (UuidText P) sha1 t). if Pa (the (account_of T acc)) \<and> H (account_of T acc) then v d n else 0)
      = (\<Sum>e\<leftarrow>TxEntries t. if C (EntryAccount e) then v (direction_text (EntryDirection e)) (EntryAmount e) else 0)"
    unfolding posting_for_def by (simp add: o_def) (intro arg_cong [where f = sum_list] map_cong refl, simp add: line)
  then show "(if Pr (PostRoom (posting_for (UuidText P) sha1 t))
      then (\<Sum>(acc, d, n)\<leftarrow>PostLines (posting_for (UuidText P) sha1 t). if Pa (the (account_of T acc)) \<and> H (account_of T acc) then v d n else 0)
      else 0) = (if Pr (the (UuidText P (TxRoom t)))
      then (\<Sum>e\<leftarrow>TxEntries t. if C (EntryAccount e) then v (direction_text (EntryDirection e)) (EntryAmount e) else 0) else 0)"
    by (simp add: posting_for_def)
qed

section \<open>The queries\<close>

text \<open>Identifiers in the rendering the database itself gives them.\<close>

definition canonical :: "('s, 'u) postgres \<Rightarrow> string \<Rightarrow> bool" where
  "canonical P x \<longleftrightarrow> x \<noteq> [] \<and> (\<exists>u. UuidText P x = Some u \<and> TextOf P u = x)"

text \<open>A transaction as \<open>TransactionFor\<close> makes them.\<close>

definition ledger_entry :: "('s, 'u) postgres \<Rightarrow> string \<Rightarrow> Entry \<Rightarrow> bool" where
  "ledger_entry P room e \<longleftrightarrow> (\<exists>u. EntryAccount e = user_wallet u \<and> canonical P u)
     \<or> EntryAccount e = round_pool room \<or> EntryAccount e = system_dust \<and> EntryDirection e = Credit"

definition ledger_txn :: "('s, 'u) postgres \<Rightarrow> Transaction \<Rightarrow> bool" where
  "ledger_txn P t \<longleftrightarrow> canonical P (TxRoom t) \<and> (\<forall>e\<in>set (TxEntries t). ledger_entry P (TxRoom t) e)"

lemma ledger_txn_wager:
  "canonical P (WpRoom w) \<Longrightarrow> canonical P (WpUser w) \<Longrightarrow> ledger_txn P (transactionForWager w)"
  by (auto simp: ledger_txn_def ledger_entry_def transactionForWager_def)

lemma ledger_txn_settlement:
  assumes "transactionForSettlement s = Inr t" "canonical P (RsRoom s)" "\<forall>p\<in>set (payouts_of s). canonical P (PayoutUser p)"
  shows "ledger_txn P t"
  using assms by (auto simp: transactionForSettlement_Inr ledger_txn_def settlement_entries_def payout_entry_def ledger_entry_def)

definition posts_to :: "Transaction list \<Rightarrow> string \<Rightarrow> AccountRef \<Rightarrow> int" where
  "posts_to ts room a = (\<Sum>t\<leftarrow>filter (\<lambda>t. TxRoom t = room) ts. tx_effect t a)"

text \<open>
  A ledger that has posted \<open>ts\<close>, with accounts of \<open>A\<close>, no two of which share an identifier.
\<close>

definition ledger_account :: "('s, 'u) postgres \<Rightarrow> AccountRef \<Rightarrow> bool" where
  "ledger_account P a \<longleftrightarrow> (\<exists>u. a = user_wallet u \<and> canonical P u) \<or> (\<exists>r. a = round_pool r \<and> canonical P r) \<or> a = system_dust"

definition has_posted :: "('s, 'u) postgres \<Rightarrow> (string \<Rightarrow> 'u) \<Rightarrow> AccountRef set \<Rightarrow> 'u tables \<Rightarrow> Transaction list \<Rightarrow> bool" where
  "has_posted P sha1 A T ts \<longleftrightarrow> tables_ok T \<and> book T = map (posting_for (UuidText P) sha1) ts
     \<and> (\<forall>t\<in>set ts. ledger_txn P t \<and> refs_of t \<subseteq> A) \<and> known_accounts P sha1 A T
     \<and> inj_on (ID sha1) A \<and> (\<forall>a\<in>A. ledger_account P a)"

lemma entry_amount: "amount_of (direction_text (EntryDirection e)) (EntryAmount e) = - entry_net e"
  by (cases "EntryDirection e") (simp_all add: amount_of_def entry_net_def)

lemma credit_net_amounts: "credit_net es = (\<Sum>e\<leftarrow>es. amount_of (ErDirection e) (ErAmount e))"
  by (simp add: credit_net_def amount_of_def)

lemma canonical_eq: "canonical P x \<Longrightarrow> canonical P y \<Longrightarrow> the (UuidText P x) = the (UuidText P y) \<longleftrightarrow> x = y"
  unfolding canonical_def by (metis option.sel)

lemma account_refs_sel [simp]:
  "RefKind (user_wallet u) = KindUserWallet" "RefUser (user_wallet u) = u" "RefRoom (user_wallet u) = []"
  "RefKind (round_pool r) = KindRoundPool" "RefUser (round_pool r) = []" "RefRoom (round_pool r) = r"
  "RefKind system_dust = KindSystemDust" "RefUser system_dust = []" "RefRoom system_dust = []"
  by (simp_all add: user_wallet_def round_pool_def system_dust_def)

lemma ledger_txn_accounts: "ledger_txn P t \<Longrightarrow> b \<in> refs_of t \<Longrightarrow> ledger_account P b"
  by (auto simp: refs_of_def ledger_txn_def ledger_entry_def ledger_account_def)

text \<open>The conditions of the queries, on the row of an account.\<close>

lemma row_of_account:
  assumes "ledger_account P b" "row_for P sha1 b rw"
  obtains (wallet) u where "b = user_wallet u" "canonical P u" "ArKind rw = ''user_wallet''"
      "ArUser rw = Some (the (UuidText P u))" "ArRoom rw = None"
    | (pool) r where "b = round_pool r" "canonical P r" "ArKind rw = ''round_pool''"
      "ArUser rw = None" "ArRoom rw = Some (the (UuidText P r))"
    | (dust) "b = system_dust" "ArKind rw = ''system_dust''" "ArUser rw = None" "ArRoom rw = None"
proof -
  have arg: "uuid_arg (UuidText P) (null_if_empty x) = Some (Some (the (UuidText P x)))" if "canonical P x" for x
    using that by (auto simp: canonical_def uuid_arg_def null_if_empty_def)
  have none: "uuid_arg (UuidText P) (null_if_empty []) = Some None" by (simp add: uuid_arg_def null_if_empty_def)
  from assms(1) consider u where "b = user_wallet u" "canonical P u" | r where "b = round_pool r" "canonical P r" | "b = system_dust"
    unfolding ledger_account_def by blast
  then show ?thesis
  proof cases
    case (1 u)
    with assms(2) show ?thesis by (intro wallet) (auto simp: row_for_def arg none)
  next
    case (2 r)
    with assms(2) show ?thesis by (intro pool) (auto simp: row_for_def arg none)
  next
    case 3
    with assms(2) show ?thesis by (intro dust) (auto simp: row_for_def none)
  qed
qed

lemma row_conditions:
  assumes "ledger_account P b" "row_for P sha1 b rw"
  shows "canonical P x \<Longrightarrow> (ArKind rw = ''user_wallet'' \<and> ArUser rw = Some (the (UuidText P x))) = (b = user_wallet x)"
    and "canonical P x \<Longrightarrow> (ArKind rw = ''round_pool'' \<and> ArRoom rw = Some (the (UuidText P x))) = (b = round_pool x)"
    and "(ArKind rw = ''system_dust'') = (b = system_dust)"
    and "ArKind rw = ''user_wallet'' \<Longrightarrow> \<exists>u. canonical P u \<and> ArUser rw = Some (the (UuidText P u))"
  by (rule row_of_account [OF assms]; auto simp: canonical_eq)+

lemma posted_sum:
  assumes posted: "has_posted P sha1 A T ts"
    and C: "\<And>b rw. ledger_account P b \<Longrightarrow> row_for P sha1 b rw \<Longrightarrow> (Pa rw \<and> H (Some rw)) = C b"
  shows "(\<Sum>e\<leftarrow>filter (\<lambda>e. H (account_of T (ErAccount e))) (joined (\<lambda>a r. Pa a \<and> Pr (TrRoom r)) T). v (ErDirection e) (ErAmount e))
    = (\<Sum>t\<leftarrow>ts. if Pr (the (UuidText P (TxRoom t)))
        then (\<Sum>e\<leftarrow>TxEntries t. if C (EntryAccount e) then v (direction_text (EntryDirection e)) (EntryAmount e) else 0)
        else (0 :: int))"
proof (rule booked_sum [where P = P and ?sha1.0 = sha1 and A = A])
  show "(Pa rw \<and> H (Some rw)) = C b" if "b \<in> A" "row_for P sha1 b rw" for b rw
    using posted that by (intro C) (simp_all add: has_posted_def)
qed (use posted in \<open>simp_all add: has_posted_def\<close>)

lemma wallet_sum:
  assumes posted: "has_posted P sha1 A T ts" and can: "canonical P room" "canonical P u"
  shows "credit_net (filter (\<lambda>e. Option.bind (account_of T (ErAccount e)) ArUser = Some (the (UuidText P u)))
      (joined (\<lambda>a r. ArKind a = ''user_wallet'' \<and> TrRoom r = the (UuidText P room)) T)) = posts_to ts room (user_wallet u)"
proof -
  have "credit_net (filter (\<lambda>e. Option.bind (account_of T (ErAccount e)) ArUser = Some (the (UuidText P u)))
      (joined (\<lambda>a r. ArKind a = ''user_wallet'' \<and> TrRoom r = the (UuidText P room)) T))
    = (\<Sum>t\<leftarrow>ts. if the (UuidText P (TxRoom t)) = the (UuidText P room) then (\<Sum>e\<leftarrow>TxEntries t.
        if EntryAccount e = user_wallet u then amount_of (direction_text (EntryDirection e)) (EntryAmount e) else 0) else 0)"
    unfolding credit_net_amounts
    by (rule posted_sum [OF posted, where H = "\<lambda>x. Option.bind x ArUser = Some (the (UuidText P u))"])
      (simp add: row_conditions(1) [OF _ _ can(2)])
  also have "\<dots> = posts_to ts room (user_wallet u)"
    unfolding posts_to_def sum_list_map_filter' entry_amount tx_effect_def [symmetric]
  proof (intro arg_cong [where f = sum_list] map_cong refl)
    fix t assume "t \<in> set ts"
    then have "canonical P (TxRoom t)" using posted by (simp add: has_posted_def ledger_txn_def)
    then show "(if the (UuidText P (TxRoom t)) = the (UuidText P room) then tx_effect t (user_wallet u) else 0)
        = (if TxRoom t = room then tx_effect t (user_wallet u) else 0)"
      by (simp add: canonical_eq can)
  qed
  finally show ?thesis .
qed

lemma pool_sum:
  assumes posted: "has_posted P sha1 A T ts" and can: "canonical P room"
  shows "sql_pool (the (UuidText P room)) T = posts_to ts room (round_pool room)"
proof -
  have "sql_pool (the (UuidText P room)) T = (\<Sum>t\<leftarrow>ts. if True then (\<Sum>e\<leftarrow>TxEntries t.
        if EntryAccount e = round_pool room then amount_of (direction_text (EntryDirection e)) (EntryAmount e) else 0) else 0)"
    unfolding sql_pool_def credit_net_amounts
    using posted_sum [OF posted, where H = "\<lambda>_. True" and Pr = "\<lambda>_. True" and v = amount_of
        and Pa = "\<lambda>a. ArKind a = ''round_pool'' \<and> ArRoom a = Some (the (UuidText P room))"
        and C = "\<lambda>b. b = round_pool room", simplified, OF row_conditions(2) [OF _ _ can]]
    by simp
  also have "\<dots> = posts_to ts room (round_pool room)"
    unfolding posts_to_def sum_list_map_filter' entry_amount tx_effect_def [symmetric]
  proof (intro arg_cong [where f = sum_list] map_cong refl)
    fix t assume t: "t \<in> set ts"
    have "tx_effect t (round_pool room) = 0" if "TxRoom t \<noteq> room"
    proof -
      have "EntryAccount e \<noteq> round_pool room" if "e \<in> set (TxEntries t)" for e
        using posted t that \<open>TxRoom t \<noteq> room\<close>
        by (auto simp: has_posted_def ledger_txn_def ledger_entry_def dest!: bspec)
      then show ?thesis by (simp add: tx_effect_def cong: map_cong)
    qed
    then show "(if True then tx_effect t (round_pool room) else 0)
        = (if TxRoom t = room then tx_effect t (round_pool room) else 0)" by simp
  qed
  finally show ?thesis .
qed

lemma dust_sum:
  assumes posted: "has_posted P sha1 A T ts" and can: "canonical P room"
  shows "sql_dust (the (UuidText P room)) T = posts_to ts room system_dust"
proof -
  have "sql_dust (the (UuidText P room)) T = (\<Sum>t\<leftarrow>ts. if the (UuidText P (TxRoom t)) = the (UuidText P room)
      then (\<Sum>e\<leftarrow>TxEntries t. if EntryAccount e = system_dust then EntryAmount e else 0) else 0)"
    unfolding sql_dust_def
    using posted_sum [OF posted, where H = "\<lambda>_. True" and Pr = "\<lambda>r. r = the (UuidText P room)" and v = "\<lambda>d n. n"
        and Pa = "\<lambda>a. ArKind a = ''system_dust''" and C = "\<lambda>b. b = system_dust", simplified,
        OF row_conditions(3) [where P = P and ?sha1.0 = sha1]]
    by simp
  also have "\<dots> = posts_to ts room system_dust"
    unfolding posts_to_def sum_list_map_filter'
  proof (intro arg_cong [where f = sum_list] map_cong refl)
    fix t assume t: "t \<in> set ts"
    then have lt: "ledger_txn P t" using posted by (simp add: has_posted_def)
    have "(if EntryAccount e = system_dust then EntryAmount e else 0) = (if EntryAccount e = system_dust then - entry_net e else 0)"
      if "e \<in> set (TxEntries t)" for e
      using lt that by (auto simp: ledger_txn_def ledger_entry_def entry_net_def dest!: bspec)
    then have "(\<Sum>e\<leftarrow>TxEntries t. if EntryAccount e = system_dust then EntryAmount e else 0) = tx_effect t system_dust"
      unfolding tx_effect_def by (intro arg_cong [where f = sum_list] map_cong refl)
    then show "(if the (UuidText P (TxRoom t)) = the (UuidText P room)
        then (\<Sum>e\<leftarrow>TxEntries t. if EntryAccount e = system_dust then EntryAmount e else 0) else 0)
        = (if TxRoom t = room then tx_effect t system_dust else 0)"
      using canonical_eq [OF _ can] lt by (simp add: ledger_txn_def)
  qed
  finally show ?thesis .
qed

lemma count_sum:
  assumes posted: "has_posted P sha1 A T ts" and can: "canonical P room"
  shows "sql_count (the (UuidText P room)) T = int (length (filter (\<lambda>t. TxRoom t = room) ts))"
proof -
  have "map TrRoom (transactions T) = map PostRoom (book T)" by (simp add: book_def posting_of_def o_def)
  also have "\<dots> = map (\<lambda>t. the (UuidText P (TxRoom t))) ts" using posted by (simp add: has_posted_def posting_for_def o_def)
  finally have rooms: "map TrRoom (transactions T) = map (\<lambda>t. the (UuidText P (TxRoom t))) ts" .
  have "length (filter (\<lambda>r. TrRoom r = x) (transactions T)) = length (filter (\<lambda>r. r = x) (map TrRoom (transactions T)))" for x
    by (simp add: filter_map o_def)
  also have "length (filter (\<lambda>r. r = the (UuidText P room)) (map TrRoom (transactions T)))
      = length (filter (\<lambda>t. the (UuidText P (TxRoom t)) = the (UuidText P room)) ts)"
    unfolding rooms by (simp add: filter_map o_def)
  also have "filter (\<lambda>t. the (UuidText P (TxRoom t)) = the (UuidText P room)) ts = filter (\<lambda>t. TxRoom t = room) ts"
    using posted by (intro filter_cong refl canonical_eq [OF _ can]) (simp add: has_posted_def ledger_txn_def)
  finally show ?thesis by (simp add: sql_count_def)
qed

section \<open>What the repository answers\<close>

lemma roundtrip_query:
  assumes "acts view f (\<lambda>v. (G v, v))" "turns w = []"
  shows "fst (roundtrip f w) = G (view (db w))"
proof -
  have "fst (f (db w)) = G (view (db w))" using assms(1) by (simp add: acts_def)
  with assms(2) show ?thesis by (cases "f (db w)") (simp add: roundtrip_def delivered_def)
qed

lemma andThen_fst: "fst (m w) = Inr a \<Longrightarrow> fst (andThen m k w) = fst (k a (snd (m w)))"
  by (cases "m w") (simp add: andThen_def)

lemma foldl_updates:
  "inj_on k (insert h (set hs)) \<Longrightarrow>
   foldl (\<lambda>m (u, n). m(u \<mapsto> n)) m (map (\<lambda>h. (k h, g h)) hs) (k h) = (if h \<in> set hs then Some (g h) else m (k h))"
proof (induction hs arbitrary: m)
  case (Cons x hs)
  then have "inj_on k (insert h (set hs))" by (auto simp: inj_on_def)
  moreover have "k h = k x \<longleftrightarrow> h = x" using Cons.prems by (auto simp: inj_on_def)
  ultimately show ?case using Cons.IH [of "m(k x \<mapsto> g x)"] by auto
qed simp

lemma scan_wallets:
  "\<forall>h\<in>set hs. h \<noteq> None \<and> in64 (g h) \<Longrightarrow>
   try_map scan_wallet (map (\<lambda>h. (map_option f h, g h)) hs) = Inr (map (\<lambda>h. (f (the h), g h)) hs)"
  by (induction hs) (auto simp: scan_wallet_def scan64_def sum_bind_def)

definition balance :: "(string \<rightharpoonup> int) \<Rightarrow> string \<Rightarrow> int" where
  "balance m u = (case m u of None \<Rightarrow> 0 | Some n \<Rightarrow> n)"

context postgres_server
begin

lemma WalletBalances_posted:
  fixes w :: "('s, 'u, 'x) ledger_world_scheme"
  assumes posted: "has_posted P sha1 A (saved (view (db w))) ts" and room: "canonical P room" and quiet: "turns w = []"
    and small: "\<And>u. in64 (posts_to ts room (user_wallet u))"
  shows "\<exists>m. fst (WalletBalancesForRoom P room w) = Inr m
    \<and> (\<forall>u. canonical P u \<longrightarrow> balance m u = posts_to ts room (user_wallet u))"
proof -
  let ?T = "saved (view (db w))" and ?R = "the (UuidText P room)"
  define rows where "rows = joined (\<lambda>a t. ArKind a = ''user_wallet'' \<and> TrRoom t = ?R) ?T"
  define holder where "holder = (\<lambda>e :: 'u entry_row. Option.bind (account_of ?T (ErAccount e)) ArUser)"
  define net where "net h = credit_net (filter (\<lambda>e. holder e = h) rows)" for h
  define hs where "hs = remdups (map holder rows)"
  have wallets: "sql_wallets ?R ?T = map (\<lambda>h. (h, net h)) hs"
    by (simp add: sql_wallets_def rows_def [symmetric] holder_def [symmetric] hs_def net_def Let_def)
  have sum: "net (Some (the (UuidText P u))) = posts_to ts room (user_wallet u)" if "canonical P u" for u
    using wallet_sum [OF posted room that] by (simp add: net_def rows_def holder_def)
  have holders: "\<exists>u. canonical P u \<and> h = Some (the (UuidText P u))" if "h \<in> set hs" for h
  proof -
    from that obtain e where e: "e \<in> set rows" "h = holder e" by (auto simp: hs_def)
    then obtain rw where rw: "account_of ?T (ErAccount e) = Some rw" "ArKind rw = ''user_wallet''"
      by (auto simp: rows_def joined_def split: option.splits)
    then have "rw \<in> set (accounts ?T)" by (auto simp: account_of_def find_Some_iff)
    then obtain a where "a \<in> A" "row_for P sha1 a rw" "ledger_account P a"
      using posted unfolding has_posted_def known_accounts_def by blast
    from row_conditions(4) [OF this(3,2) rw(2)] rw(1) e(2) show ?thesis by (simp add: holder_def)
  qed
  then have ok: "\<forall>h\<in>set hs. h \<noteq> None \<and> in64 (net h)" using sum small by fastforce
  define m where "m = foldl (\<lambda>m (u, n). m(u \<mapsto> n)) Map.empty (map (\<lambda>h. (TextOf P (the h), net h)) hs)"
  have "fst (roundtrip (SelectWallets P room) w) = Inr (map (\<lambda>h. (map_option (TextOf P) h, net h)) hs)"
    using roundtrip_query [OF SelectWallets quiet] room wallets
    by (auto simp: sql_query_def canonical_def)
  then have "fst (WalletBalancesForRoom P room w) = Inr m"
    unfolding WalletBalancesForRoom_def by (simp add: andThen_fst scan_wallets [OF ok] eff_simps m_def)
  moreover have "balance m u = posts_to ts room (user_wallet u)" if u: "canonical P u" for u
  proof -
    let ?h = "Some (the (UuidText P u))"
    have inj: "inj_on (\<lambda>h. TextOf P (the h)) (insert ?h (set hs))"
    proof (rule inj_onI)
      fix x y assume xy: "x \<in> insert ?h (set hs)" "y \<in> insert ?h (set hs)" "TextOf P (the x) = TextOf P (the y)"
      then have "the x = the y" using text_of by (metis option.inject)
      moreover have "x \<noteq> None" "y \<noteq> None" using xy(1,2) ok by auto
      ultimately show "x = y" by (metis option.collapse)
    qed
    have named: "TextOf P (the ?h) = u" using u by (auto simp: canonical_def)
    have "m u = (if ?h \<in> set hs then Some (net ?h) else None)"
      using foldl_updates [OF inj, where m = Map.empty and g = net] unfolding named m_def by simp
    moreover have "net ?h = 0" if "?h \<notin> set hs"
    proof -
      have "filter (\<lambda>e. holder e = ?h) rows = []" 
        unfolding filter_empty_conv using that by (metis hs_def image_eqI set_map set_remdups)
      then show ?thesis by (simp add: net_def credit_net_def)
    qed
    ultimately show ?thesis using sum [OF u] by (auto simp: balance_def)
  qed
  ultimately show ?thesis by blast
qed

lemma sums_posted:
  fixes w :: "('s, 'u, 'x) ledger_world_scheme"
  assumes posted: "has_posted P sha1 A (saved (view (db w))) ts" and room: "canonical P room" and quiet: "turns w = []"
  shows "fst (PoolBalance P room w) = scan64 (posts_to ts room (round_pool room))"
    and "fst (DustForRoom P room w) = scan64 (posts_to ts room system_dust)"
    and "fst (TransactionCount P room w) = scan64 (int (length (filter (\<lambda>t. TxRoom t = room) ts)))"
proof -
  obtain r where r: "UuidText P room = Some r" using room by (auto simp: canonical_def)
  have lift: "fst (lift_sum x w') = x" for x :: "err + int" and w' :: "('s, 'u, 'x) ledger_world_scheme"
    by (cases x) (simp_all add: eff_simps)
  show "fst (PoolBalance P room w) = scan64 (posts_to ts room (round_pool room))"
    unfolding PoolBalance_def using roundtrip_query [OF SelectPool quiet, of room] pool_sum [OF posted room]
    by (simp add: andThen_fst sql_query_def r lift)
  show "fst (DustForRoom P room w) = scan64 (posts_to ts room system_dust)"
    unfolding DustForRoom_def using roundtrip_query [OF SelectDust quiet, of room] dust_sum [OF posted room]
    by (simp add: andThen_fst sql_query_def r lift)
  show "fst (TransactionCount P room w) = scan64 (int (length (filter (\<lambda>t. TxRoom t = room) ts)))"
    unfolding TransactionCount_def using roundtrip_query [OF SelectCount quiet, of room] count_sum [OF posted room]
    by (simp add: andThen_fst sql_query_def r lift)
qed

end

text \<open>What a ledger has been given, and what it holds after any history of batches.\<close>

definition given :: "(Transaction list \<times> (err + int)) list \<Rightarrow> Transaction list" where
  "given ls = concat (map fst ls)"

lemma history_posted:
  assumes "postgres_server P view" "ledger_history P view sha1 s ls" "\<forall>t\<in>set (given ls). ledger_txn P t"
    and "inj_on (ID sha1) (\<Union>(refs_of ` set (given ls)))"
    and "book (saved (view s)) = map (posting_for (UuidText P) sha1) ts" "set ts \<subseteq> set (given ls)"
  shows "has_posted P sha1 (\<Union>(refs_of ` set (given ls))) (saved (view s)) ts"
proof -
  have "known_accounts P sha1 (\<Union>(refs_of ` set (given ls))) (saved (view s))"
    by (rule postgres_server.history_accounts [OF assms(1,2)]) (force simp: given_def)
  moreover have "tables_ok (saved (view s))" using postgres_server.history_ok [OF assms(1,2)] by blast
  moreover have "\<forall>a\<in>\<Union>(refs_of ` set (given ls)). ledger_account P a"
    using assms(3) ledger_txn_accounts by blast
  ultimately show ?thesis using assms(3-6) by (auto simp: has_posted_def)
qed

lemma posts_booked:
  assumes "\<forall>e\<in>set new. concerns rid e"
    and "mset (map Inr (filter (\<lambda>t. TxRoom t = room) ts)) = mset (map entry_transaction new)"
  shows "posts_to ts room a = booked rid new a"
proof -
  define f :: "err + Transaction \<Rightarrow> int" where "f x = (case x of Inl _ \<Rightarrow> 0 | Inr t \<Rightarrow> tx_effect t a)" for x
  have "posts_to ts room a = (\<Sum>x\<leftarrow>map Inr (filter (\<lambda>t. TxRoom t = room) ts). f x)"
    by (simp add: posts_to_def f_def o_def)
  also have "\<dots> = sum_mset (image_mset f (mset (map Inr (filter (\<lambda>t. TxRoom t = room) ts))))"
    by (simp add: sum_mset_sum_list flip: mset_map)
  also have "\<dots> = sum_mset (image_mset f (mset (map entry_transaction new)))" by (simp only: assms(2))
  also have "\<dots> = (\<Sum>x\<leftarrow>map entry_transaction new. f x)"
    by (simp add: sum_mset_sum_list flip: mset_map)
  also have "\<dots> = booked rid new a"
    unfolding booked_def map_map by (intro arg_cong [where f = sum_list] map_cong refl) (use assms(1) in \<open>simp add: booked_by_def f_def\<close>)
  finally show ?thesis .
qed

section \<open>Properties\<close>

text \<open>
  The balance queries. After any history of batches of transactions as the events make
  them, with any faults in between, let \<open>ts\<close> be the transactions posted, each once. With no two
  accounts sharing an identifier and sums of 64 bits, \<open>WalletBalancesForRoom\<close> gives every user
  the credits less the debits of the room's transactions on the user's wallet, \<open>PoolBalance\<close>
  and \<open>DustForRoom\<close> those on the room's pool and on the dust account, and \<open>TransactionCount\<close> how
  many of them there are.
\<close>

theorem balances_are_postings:
  fixes w :: "('s, 'u, 'x) ledger_world_scheme"
  assumes "postgres_server P view" and "ledger_history P view sha1 (db w) ls"
    and "\<forall>t\<in>set (given ls). ledger_txn P t" "inj_on (ID sha1) (\<Union>(refs_of ` set (given ls)))"
    and "book (saved (view (db w))) = map (posting_for (UuidText P) sha1) ts" "set ts \<subseteq> set (given ls)"
    and "canonical P room" "turns w = []" "\<forall>a. in64 (posts_to ts room a)"
  shows "(\<exists>m. fst (WalletBalancesForRoom P room w) = Inr m
      \<and> (\<forall>u. canonical P u \<longrightarrow> balance m u = posts_to ts room (user_wallet u)))
    \<and> fst (PoolBalance P room w) = Inr (posts_to ts room (round_pool room))
    \<and> fst (DustForRoom P room w) = Inr (posts_to ts room system_dust)
    \<and> fst (TransactionCount P room w) = scan64 (int (length (filter (\<lambda>t. TxRoom t = room) ts)))"
proof -
  note posted = history_posted [OF assms(1-6)]
  have "in64 (posts_to ts room a)" for a using assms(9) by blast
  with postgres_server.WalletBalances_posted [OF assms(1) posted assms(7,8)]
    postgres_server.sums_posted [OF assms(1) posted assms(7,8)]
  show ?thesis by (simp add: scan64_def)
qed

text \<open>The ledger with the wager of a bettor, written twice.\<close>

definition demo_ledger_world :: "(string pg_view, string) ledger_world" where
  "demo_ledger_world = \<lparr>db = \<lparr>saved = demo_booked ''k1'', work = None\<rparr>, turns = [], random_uuids = []\<rparr>"

definition demo_txn :: Transaction where
  "demo_txn = transactionForWager (demo_placed ''k1'')"

lemma canonical_mem: "canonical mem_pg x \<longleftrightarrow> x \<noteq> []"
  by (simp add: canonical_def mem_pg_def)

lemma demo_txn_facts:
  "ledger_txn mem_pg demo_txn" "refs_of demo_txn = {user_wallet ''b'', round_pool ''r1''}" "TxRoom demo_txn = ''r1''"
  "tx_effect demo_txn a = (if a = user_wallet ''b'' then - 100 else if a = round_pool ''r1'' then 100 else 0)"
  by (auto simp: demo_txn_def canonical_mem demo_placed_def refs_of_def transactionForWager_def
      ledger_txn_def ledger_entry_def tx_effect_def entry_net_def)

lemma demo_ledger_facts:
  "ledger_history mem_pg id id (db demo_ledger_world) [([demo_txn], Inr 1), ([demo_txn], Inr 0)]"
  "book (saved (id (db demo_ledger_world))) = map (posting_for (UuidText mem_pg) id) [demo_txn]"
  "inj_on (ID id) (\<Union>(refs_of ` set (given [([demo_txn], Inr 1), ([demo_txn], Inr 0)])))"
  "posts_to [demo_txn] ''r1'' a = tx_effect demo_txn a"
proof -
  show "ledger_history mem_pg id id (db demo_ledger_world) [([demo_txn], Inr 1), ([demo_txn], Inr 0)]"
    using demo_history by (simp add: demo_ledger_world_def demo_txn_def)
  show "book (saved (id (db demo_ledger_world))) = map (posting_for (UuidText mem_pg) id) [demo_txn]"
    by (simp add: demo_ledger_world_def demo_booked_def demo_txn_def demo_placed_def transactionForWager_def book_def
        posting_of_def entries_of_def line_of_def posting_for_def mem_pg_def ID_def account_key_def user_wallet_def round_pool_def)
  show "inj_on (ID id) (\<Union>(refs_of ` set (given [([demo_txn], Inr 1), ([demo_txn], Inr 0)])))"
    by (simp add: given_def demo_txn_facts ID_def account_key_def)
  show "posts_to [demo_txn] ''r1'' a = tx_effect demo_txn a"
    by (simp add: posts_to_def demo_txn_facts)
qed

theorem balances_are_postings_witness:
  "(\<exists>m. fst (WalletBalancesForRoom mem_pg ''r1'' demo_ledger_world) = Inr m \<and> balance m ''b'' = - 100)
   \<and> fst (PoolBalance mem_pg ''r1'' demo_ledger_world) = Inr 100
   \<and> fst (TransactionCount mem_pg ''r1'' demo_ledger_world) = Inr 1"
proof -
  have "\<forall>t\<in>set (given [([demo_txn], Inr 1), ([demo_txn], Inr 0)]). ledger_txn mem_pg t"
    "set [demo_txn] \<subseteq> set (given [([demo_txn], Inr 1), ([demo_txn], Inr 0)])"
    "\<forall>a. in64 (posts_to [demo_txn] ''r1'' a)" "turns demo_ledger_world = []"
    by (simp_all add: given_def demo_txn_facts demo_ledger_facts(4) in64_def demo_ledger_world_def)
  note balances = balances_are_postings [OF mem_pg.postgres_server_axioms demo_ledger_facts(1) this(1) demo_ledger_facts(3,2)
      this(2) _ this(4,3)]
  have "posts_to [demo_txn] ''r1'' (user_wallet ''b'') = - 100" "posts_to [demo_txn] ''r1'' (round_pool ''r1'') = 100"
    "scan64 (int (length (filter (\<lambda>t. TxRoom t = ''r1'') [demo_txn]))) = Inr 1"
    by (simp_all add: demo_ledger_facts(4) demo_txn_facts scan64_def in64_def)
  with balances show ?thesis by (metis canonical_mem list.distinct(1))
qed


text \<open>The bettor's wager in Redis and in the ledger.\<close>

definition demo_hundred :: WagerRequest where
  "demo_hundred = demo_wager\<lparr>ReqAmount := 100\<rparr>"

definition demo_after_bet :: mem where
  "demo_after_bet = snd (wager_call mem_redis OutboxStream demo_hundred demo)"

lemma demo_running: "in_books (mem_view demo) ''r1'' ''x1'' 2"
proof -
  have amounts: "amt (Some ''1000'') = 1000" "amt (Some ''700'') = 700" "amt (Some ''300'') = 300" by code_simp+
  have "table_tokens (mem_view demo) ''r1'' ''x1'' = 3000"
    unfolding table_tokens_def demo_reads
    by (simp add: hsum_map_of amounts del: map_of.simps; simp add: amounts)
  moreover have "round_hash (mem_view demo) ''x1'' ''room_id'' = Some ''r1''" by (simp add: table_reads demo_slots)
  ultimately have "running (mem_view demo) ''r1'' ''x1'' 2"
    using demo_table by (simp add: running_def max_total_def demo_reads demo_ids RoundOpen_def)
  then show ?thesis by (simp add: in_books_def)
qed

lemma demo_bet:
  "tracks mem_view OutboxStream ''r1'' ''x1'' 2 demo demo_after_bet"
  "streams (mem_view demo_after_bet) OutboxStream = streams (mem_view demo) OutboxStream @ [wager_event (mem_view demo) demo_hundred]"
  "concerns ''x1'' (wager_event (mem_view demo) demo_hundred)"
  "entry_transaction (wager_event (mem_view demo) demo_hundred) = Inr demo_txn"
  "amt (wallets (mem_view demo) ''r1'' ''b'') = 1000"
proof -
  have num: "itoa 1000 = ''1000''" "amt (Some ''1000'') = 1000" by code_simp+
  show bal: "amt (wallets (mem_view demo) ''r1'' ''b'') = 1000" by (simp add: demo_reads num)
  have "tonumber ''1000'' = Some 1000" using num(1) tonumber_itoa [of 1000] by (simp add: dbl_id)
  then have ok: "wager_ok (mem_view demo) demo_hundred"
    by (simp add: wager_ok_def demo_hundred_def demo_reads demo_numbers demo_slots num_simps now_ms_def RoundOpen_def)
  show "tracks mem_view OutboxStream ''r1'' ''x1'' 2 demo demo_after_bet"
    using mem.wager_call_tracks [where rq = demo_hundred and room = "''r1''" and rid = "''x1''" and n = 2
        and outbox = OutboxStream]
    by (simp add: step_guar_def demo_after_bet_def demo_ids demo_hundred_def)
  obtain x where "mem_view demo_after_bet = v_set (IdemKey ''k1'') x (Some 86400000) (wager_view OutboxStream demo_hundred (mem_view demo))"
    using mem.wager_call_accepted [of demo demo_hundred 2 OutboxStream] ok demo_table
    by (auto simp: demo_after_bet_def demo_hundred_def demo_fresh)
  then show "streams (mem_view demo_after_bet) OutboxStream
      = streams (mem_view demo) OutboxStream @ [wager_event (mem_view demo) demo_hundred]"
    by (simp add: wager_view_reads view_simps)
  show "concerns ''x1'' (wager_event (mem_view demo) demo_hundred)"
    by (simp add: concerns_def wager_event_def demo_hundred_def)
  have placed: "wager_placed (mem_view demo) demo_hundred = demo_placed ''k1''"
    using bal by (simp add: wager_placed_def demo_hundred_def demo_placed_def)
  have "event_plain (WagerEvent (demo_placed ''k1''))" by (simp add: demo_placed_def demo_ids in64_def)
  then show "entry_transaction (wager_event (mem_view demo) demo_hundred) = Inr demo_txn"
    by (simp add: entry_transaction_def Decode_wager_event placed sum_bind_def demo_txn_def)
qed


end
