(* ===== verification/RateSpec.thy ===== *)
theory RateSpec
  imports StoreSpec WagerBook
begin

text \<open>
  The sliding-window limiter of \<open>rate_limit.lua\<close> against its reference: a set of members with
  the times they were let in, of which only those younger than the window count.
\<close>

section \<open>The reference\<close>

definition young :: "int \<Rightarrow> int \<Rightarrow> (string \<rightharpoonup> int) \<Rightarrow> (string \<rightharpoonup> int)" where
  "young now window z = drop_range 0 (now - window) z"

definition slots_used :: "int \<Rightarrow> int \<Rightarrow> (string \<rightharpoonup> int) \<Rightarrow> int" where
  "slots_used now window z = int (card (dom (young now window z)))"

definition let_in :: "int \<Rightarrow> int \<Rightarrow> int \<Rightarrow> (string \<rightharpoonup> int) \<Rightarrow> bool" where
  "let_in now window limit z \<longleftrightarrow> slots_used now window z < limit"

definition slots_after :: "int \<Rightarrow> int \<Rightarrow> int \<Rightarrow> string \<Rightarrow> (string \<rightharpoonup> int) \<Rightarrow> (string \<rightharpoonup> int)" where
  "slots_after now window limit m z =
     (if let_in now window limit z then (young now window z)(m \<mapsto> now) else young now window z)"

definition oldest :: "(string \<rightharpoonup> int) \<Rightarrow> int \<Rightarrow> bool" where
  "oldest z t \<longleftrightarrow> t \<in> ran z \<and> (\<forall>x\<in>ran z. t \<le> x)"

text \<open>Instants whose sums with the window every number of the script renders exactly.\<close>

definition instants_ok :: "int \<Rightarrow> int \<Rightarrow> (string \<rightharpoonup> int) \<Rightarrow> bool" where
  "instants_ok now window z \<longleftrightarrow> 0 \<le> now \<and> 0 < window \<and> now + window < 10 ^ 14
     \<and> (\<forall>sc\<in>ran z. 0 \<le> sc \<and> sc + window < 10 ^ 14)"

lemma young_Some: "young now window z m = Some sc \<longleftrightarrow> z m = Some sc \<and> \<not> (0 \<le> sc \<and> sc \<le> now - window)"
  by (cases "z m") (auto simp: young_def drop_range_def)

lemma ran_young: "ran (young now window z) \<subseteq> ran z"
  by (auto simp: ran_def young_Some)

lemma young_ge: "sc \<in> ran (young now window z) \<Longrightarrow> 0 \<le> sc \<Longrightarrow> now - window < sc"
  unfolding ran_def young_Some by force

context redis_server
begin

lemma ZFIRST_oldest:
  assumes "zsets (view s) k \<noteq> Map.empty"
  obtains m t where "ZFIRST R k s = Some (m, itoa t)" "oldest (zsets (view s) k) t"
proof -
  obtain m x where mx: "ZFIRST R k s = Some (m, x)" using assms ZFIRST_None [of k s] by auto
  then obtain sc where "zsets (view s) k m = Some sc" "x = itoa sc"
    "\<forall>m' sc'. zsets (view s) k m' = Some sc' \<longrightarrow> sc \<le> sc'"
    using ZFIRST_Some by blast
  with that mx show thesis by (fastforce simp: oldest_def ran_def)
qed

lemma rate_limit_run:
  fixes s :: 's and k :: string
  defines "now \<equiv> now_ms (clock (view s))" and "z \<equiv> zsets (view s) k"
  assumes ok: "instants_ok now window z" and lim: "0 < limit" "limit < 10 ^ 14"
  shows "\<exists>s' t. rate_limit R k (itoa window) (itoa limit) m s = (Inr (table
      (if let_in now window limit z
       then [''ALLOWED'', itoa (limit - slots_used now window z - 1), m, itoa (t + window)]
       else [''DENIED'', ''0'', [], itoa (max 1 (t + window - now)), itoa (t + window)])), s')
    \<and> oldest (slots_after now window limit m z) t
    \<and> zsets (view s') = (zsets (view s))(k := slots_after now window limit m z)
    \<and> hashes (view s') = hashes (view s) \<and> strs (view s') = strs (view s)
    \<and> streams (view s') = streams (view s) \<and> rsets (view s') = rsets (view s)
    \<and> clock (view s') = clock (view s)"
proof -
  have w: "dbl window = window" "dbl limit = limit" using ok lim
    by (auto simp: instants_ok_def dbl_id)
  define s1 where "s1 = ZREMRANGEBYSCORE R k 0 (now - window) s"
  have v1: "view s1 = v_zset k (young now window z) (view s)"
    by (simp add: s1_def writes young_def z_def)
  have n: "int (card (dom (zsets (view s1) k))) = slots_used now window z"
    by (simp add: v1 view_simps slots_used_def)
  have nn: "0 \<le> slots_used now window z" by (simp add: slots_used_def)
  have head: "rate_limit R k (itoa window) (itoa limit) m s =
      (if limit \<le> slots_used now window z then rate_denied R k now window s1
       else rate_allowed R k now window m (limit - slots_used now window z - 1) s1)"
    by (simp add: rate_limit_def eff_simps reads tonumber_itoa w now_def [symmetric] s1_def [symmetric] n)
  have bnd: "0 \<le> sc \<and> sc + window < 10 ^ 14" if "sc \<in> ran (slots_after now window limit m z)" for sc
  proof -
    have "sc \<in> ran z \<or> sc = now"
      using that ran_young [of now window z] unfolding slots_after_def ran_def
      by (auto split: if_splits)
    then show ?thesis using ok by (auto simp: instants_ok_def)
  qed
  show ?thesis
  proof (cases "let_in now window limit z")
    case False
    then have full: "limit \<le> slots_used now window z" by (simp add: let_in_def)
    then have "young now window z \<noteq> Map.empty" using lim by (auto simp: slots_used_def)
    then obtain u t where t: "ZFIRST R k s1 = Some (u, itoa t)" "oldest (young now window z) t"
      using ZFIRST_oldest [of s1 k] by (auto simp: v1 view_simps)
    have tb: "0 \<le> t" "t + window < 10 ^ 14" "now - window < t"
      using t(2) bnd [of t] young_ge [of t now window z] False by (auto simp: oldest_def slots_after_def)
    have num: "tonumber (itoa t) = Some t" "tostring (t + window) = itoa (t + window)"
      "tostring (max 1 (t + window - now)) = itoa (max 1 (t + window - now))"
      using tb ok by (simp_all add: tonumber_itoa dbl_id instants_ok_def tostring_small)
    have "(if t + window - now < 1 then 1 else t + window - now) = max 1 (t + window - now)" by simp
    with t num full False v1 head show ?thesis
      by (intro exI [of _ s1] exI [of _ t])
        (simp add: rate_denied_def eff_simps Let_def slots_after_def view_simps)
  next
    case True
    define s2 where "s2 = ZADD R k now m s1"
    define s3 where "s3 = PEXPIRE R k window s2"
    have v2: "view s2 = v_zset k ((young now window z)(m \<mapsto> now)) (view s1)"
      by (simp add: s2_def writes v1 view_simps)
    have "zsets (view s2) k \<noteq> Map.empty" by (simp add: v2 view_simps)
    then have v3: "view s3 = (view s2)\<lparr>ttls := (ttls (view s2))(k \<mapsto> window)\<rparr>" by (simp add: s3_def PEXPIRE)
    have z3: "zsets (view s3) k = slots_after now window limit m z"
      using True by (simp add: v3 v2 view_simps slots_after_def)
    then have "zsets (view s3) k \<noteq> Map.empty" using True by (auto simp: slots_after_def)
    then obtain u t where t: "ZFIRST R k s3 = Some (u, itoa t)" "oldest (slots_after now window limit m z) t"
      using ZFIRST_oldest [of s3 k] by (auto simp: z3)
    have "0 \<le> t" "t + window < 10 ^ 14" using t(2) bnd [of t] by (auto simp: oldest_def)
    then have num: "tonumber (itoa t) = Some t" "tostring (t + window) = itoa (t + window)"
      "tostring (limit - slots_used now window z - 1) = itoa (limit - slots_used now window z - 1)"
      using True lim nn ok by (simp_all add: tonumber_itoa dbl_id instants_ok_def tostring_small let_in_def)
    have "rate_limit R k (itoa window) (itoa limit) m s = (Inr (table
        [''ALLOWED'', itoa (limit - slots_used now window z - 1), m, itoa (t + window)]), s3)"
      using True head t num
      by (simp add: rate_allowed_def eff_simps let_in_def flip: s2_def s3_def)
    with True t(2) z3 show ?thesis
      by (intro exI [of _ s3] exI [of _ t]) (auto simp: v3 v2 v1 view_simps)
  qed
qed

end

section \<open>What \<open>Allow\<close> reports\<close>

text \<open>The state after a call: the limiter's key has its new members, all else is as before.\<close>

definition only_slots :: "string \<Rightarrow> (string \<rightharpoonup> int) \<Rightarrow> rview \<Rightarrow> rview \<Rightarrow> bool" where
  "only_slots k z v v' \<longleftrightarrow> zsets v' = (zsets v)(k := z) \<and> hashes v' = hashes v \<and> strs v' = strs v
     \<and> streams v' = streams v \<and> rsets v' = rsets v \<and> clock v' = clock v"

definition decision_is :: "Decision \<Rightarrow> int \<Rightarrow> int \<Rightarrow> int \<Rightarrow> string \<Rightarrow> (string \<rightharpoonup> int) \<Rightarrow> bool" where
  "decision_is d now window limit m z \<longleftrightarrow> Allowed d = let_in now window limit z
     \<and> (\<exists>t. oldest (slots_after now window limit m z) t \<and> ResetAt d = t + window
        \<and> (if Allowed d then Remaining d = limit - slots_used now window z - 1 \<and> RetryAfter d = 0 \<and> Member d = m
           else Remaining d = 0 \<and> Member d = [] \<and> RetryAfter d = i64 (max 1 (t + window - now) * Millisecond)))"

context redis_server
begin

lemma rate_call_run:
  fixes s :: 's
  defines "now \<equiv> now_ms (clock (view s))"
  assumes ok: "instants_ok now (go_div window Millisecond) (zsets (view s) (RateLimitKey scope u))"
    and lim: "0 < limit" "limit < 10 ^ 14"
  shows "\<exists>s' d vs. rate_call R m scope u limit window s = (Inr vs, s') \<and> decodeRateLimitReply vs = Inr d
    \<and> decision_is d now (go_div window Millisecond) limit m (zsets (view s) (RateLimitKey scope u))
    \<and> only_slots (RateLimitKey scope u) (slots_after now (go_div window Millisecond) limit m
         (zsets (view s) (RateLimitKey scope u))) (view s) (view s')"
proof -
  let ?z = "zsets (view s) (RateLimitKey scope u)" and ?w = "go_div window Millisecond"
  let ?vs = "\<lambda>t. if let_in now ?w limit ?z
       then [''ALLOWED'', itoa (limit - slots_used now ?w ?z - 1), m, itoa (t + ?w)]
       else [''DENIED'', ''0'', [], itoa (max 1 (t + ?w - now)), itoa (t + ?w)]"
  obtain s' t where run: "rate_limit R (RateLimitKey scope u) (itoa ?w) (itoa limit) m s = (Inr (table (?vs t)), s')"
    "oldest (slots_after now ?w limit m ?z) t"
    "only_slots (RateLimitKey scope u) (slots_after now ?w limit m ?z) (view s) (view s')"
    using rate_limit_run [OF ok [unfolded now_def] lim, of m] unfolding now_def only_slots_def by blast
  have "t \<in> ran ?z \<or> t = now"
    using run(2) ran_young [of now ?w ?z] unfolding oldest_def slots_after_def ran_def
    by (auto split: if_splits)
  then have tb: "0 \<le> t" "t + ?w < 10 ^ 14" using ok by (auto simp: instants_ok_def)
  have nb: "0 \<le> slots_used now ?w ?z" by (simp add: slots_used_def)
  define d where "d = (if let_in now ?w limit ?z
      then \<lparr>Allowed = True, Remaining = limit - slots_used now ?w ?z - 1, RetryAfter = 0, Member = m, ResetAt = t + ?w\<rparr>
      else \<lparr>Allowed = False, Remaining = 0, RetryAfter = i64 (max 1 (t + ?w - now) * Millisecond), Member = [],
        ResetAt = t + ?w\<rparr>)"
  have in64: "in64 (t + ?w)" "in64 (max 1 (t + ?w - now))"
    "let_in now ?w limit ?z \<Longrightarrow> in64 (limit - slots_used now ?w ?z - 1)"
    using tb ok lim nb by (auto simp: in64_def instants_ok_def let_in_def max_def)
  then have "decodeRateLimitReply (table (?vs t)) = Inr d"
    by (simp add: decodeRateLimitReply_def d_def ParseInt_itoa)
  moreover have "decision_is d now ?w limit m ?z"
    unfolding decision_is_def d_def using run(2) by (auto intro!: exI [of _ t])
  ultimately show ?thesis using run(1,3) unfolding rate_call_def by blast
qed

lemma Allow_quiet:
  assumes "turns w = []"
    and "instants_ok (now_ms (clock (view (db w)))) (go_div window Millisecond)
      (zsets (view (db w)) (RateLimitKey scope u))" "0 < limit" "limit < 10 ^ 14"
  shows "\<exists>s' d. Allow R m scope u limit window w = (Inr d, w\<lparr>db := s'\<rparr>)
    \<and> decision_is d (now_ms (clock (view (db w)))) (go_div window Millisecond) limit m
        (zsets (view (db w)) (RateLimitKey scope u))
    \<and> only_slots (RateLimitKey scope u) (slots_after (now_ms (clock (view (db w)))) (go_div window Millisecond) limit m
         (zsets (view (db w)) (RateLimitKey scope u))) (view (db w)) (view s')"
proof -
  obtain s' d vs where "rate_call R m scope u limit window (db w) = (Inr vs, s')" "decodeRateLimitReply vs = Inr d"
    "decision_is d (now_ms (clock (view (db w)))) (go_div window Millisecond) limit m
        (zsets (view (db w)) (RateLimitKey scope u))"
    "only_slots (RateLimitKey scope u) (slots_after (now_ms (clock (view (db w)))) (go_div window Millisecond) limit m
         (zsets (view (db w)) (RateLimitKey scope u))) (view (db w)) (view s')"
    using rate_call_run [OF assms(2-4)] by blast
  with assms(1) show ?thesis
    by (auto simp: Allow_def eff_simps roundtrip_quiet(1) [where f = "rate_call R m scope u limit window"])
qed

end

section \<open>Runs of the limiter\<close>

text \<open>
  Calls with fresh members on one key, with any activity between them that leaves the key's
  young members alone - time passing, other keys changing, the key expiring once all its
  members are old. The log has the instant of each call and whether it was let in.
\<close>

inductive limiter_run :: "'s redis \<Rightarrow> ('s \<Rightarrow> rview) \<Rightarrow> string \<Rightarrow> int \<Rightarrow> int \<Rightarrow> 's \<Rightarrow> (int \<times> bool) list \<Rightarrow> bool"
  for R view k window limit where
  start: "zsets (view s) k = Map.empty \<Longrightarrow> limiter_run R view k window limit s []"
| other: "limiter_run R view k window limit s ls \<Longrightarrow> now_ms (clock (view s)) \<le> now_ms (clock (view s')) \<Longrightarrow>
    zsets (view s') k \<subseteq>\<^sub>m zsets (view s) k \<Longrightarrow>
    \<forall>m sc. zsets (view s) k m = Some sc \<longrightarrow> now_ms (clock (view s')) - window < sc \<longrightarrow> zsets (view s') k m = Some sc \<Longrightarrow>
    limiter_run R view k window limit s' ls"
| call: "limiter_run R view k window limit s ls \<Longrightarrow> zsets (view s) k m = None \<Longrightarrow>
    instants_ok (now_ms (clock (view s))) window (zsets (view s) k) \<Longrightarrow>
    rate_limit R k (itoa window) (itoa limit) m s = (Inr vs, s') \<Longrightarrow>
    limiter_run R view k window limit s' (ls @ [(now_ms (clock (view s)), hd vs = LStr ''ALLOWED'')])"

text \<open>How many calls of the log were let in later than \<open>t\<close>, and no later than \<open>u\<close>.\<close>

definition let_in_between :: "int \<Rightarrow> int \<Rightarrow> (int \<times> bool) list \<Rightarrow> int" where
  "let_in_between t u ls = int (length (filter (\<lambda>(x, a). a \<and> t < x \<and> x \<le> u) ls))"

definition later :: "int \<Rightarrow> (string \<rightharpoonup> int) \<Rightarrow> string set" where
  "later t z = {m. \<exists>sc. z m = Some sc \<and> t < sc}"

lemma let_in_between_snoc: "let_in_between t u (ls @ [(x, a)])
    = let_in_between t u ls + (if a \<and> t < x \<and> x \<le> u then 1 else 0)"
  by (simp add: let_in_between_def)

lemma let_in_between_cap:
  assumes "\<forall>c\<in>set ls. fst c \<le> u" "u \<le> v"
  shows "let_in_between t v ls = let_in_between t u ls"
proof -
  have "filter (\<lambda>(x, a). a \<and> t < x \<and> x \<le> v) ls = filter (\<lambda>(x, a). a \<and> t < x \<and> x \<le> u) ls"
    by (rule filter_cong) (use assms in auto)
  then show ?thesis by (simp add: let_in_between_def)
qed

definition limiter_ok :: "rview \<Rightarrow> string \<Rightarrow> int \<Rightarrow> int \<Rightarrow> (int \<times> bool) list \<Rightarrow> bool" where
  "limiter_ok v k window limit ls \<longleftrightarrow> (\<forall>c\<in>set ls. fst c \<le> now_ms (clock v))
     \<and> (\<forall>t \<ge> now_ms (clock v) - window. let_in_between t (now_ms (clock v)) ls = int (card (later t (zsets v k))))
     \<and> (\<forall>u. let_in_between (u - window) u ls \<le> limit)"

lemma later_mono: "t \<le> u \<Longrightarrow> later u z \<subseteq> later t z"
  by (auto simp: later_def)

lemma later_finite: "finite (dom z) \<Longrightarrow> finite (later t z)"
  by (rule finite_subset [of _ "dom z"]) (auto simp: later_def)

lemma later_young: "(\<And>m sc. z m = Some sc \<Longrightarrow> 0 \<le> sc) \<Longrightarrow> now - window \<le> t \<Longrightarrow> later t (young now window z) = later t z"
  by (auto simp: later_def young_def drop_range_def ran_def split: option.splits if_splits)

lemma young_dom: "(\<And>m sc. z m = Some sc \<Longrightarrow> 0 \<le> sc) \<Longrightarrow> dom (young now window z) = later (now - window) z"
  by (fastforce simp: later_def young_def drop_range_def split: option.splits if_splits)

lemma later_upd: "z m = None \<Longrightarrow> later t (z(m \<mapsto> x)) = (if t < x then insert m (later t z) else later t z)"
  by (auto simp: later_def)

context redis_server
begin

lemma limiter_run_ok:
  assumes "limiter_run R view k window limit s ls" "0 < limit" "limit < 10 ^ 14"
  shows "limiter_ok (view s) k window limit ls"
  using assms
proof (induction rule: limiter_run.induct)
  case (start s)
  then show ?case by (simp add: limiter_ok_def let_in_between_def later_def)
next
  case (other s ls s')
  let ?now = "now_ms (clock (view s))" and ?now' = "now_ms (clock (view s'))"
  have old: "\<forall>c\<in>set ls. fst c \<le> ?now"
    "\<forall>t \<ge> ?now - window. let_in_between t ?now ls = int (card (later t (zsets (view s) k)))"
    "\<forall>u. let_in_between (u - window) u ls \<le> limit"
    using other.IH other.prems by (auto simp: limiter_ok_def)
  have "later t (zsets (view s') k) = later t (zsets (view s) k)" if "?now' - window \<le> t" for t
  proof -
    have "zsets (view s) k m = Some sc" if "zsets (view s') k m = Some sc" for m sc
      using that other.hyps(3) unfolding map_le_def by (metis domI)
    moreover have "zsets (view s') k m = Some sc" if "zsets (view s) k m = Some sc" "t < sc" for m sc
      using that other.hyps(4) \<open>?now' - window \<le> t\<close> by auto
    ultimately show ?thesis unfolding later_def by blast
  qed
  then show ?case
    using old let_in_between_cap [OF old(1) other.hyps(2)] other.hyps(2)
    by (fastforce simp: limiter_ok_def)
next
  case (call s ls m vs s')
  let ?now = "now_ms (clock (view s))" and ?z = "zsets (view s) k"
  have old: "\<forall>c\<in>set ls. fst c \<le> ?now"
    "\<And>t. ?now - window \<le> t \<Longrightarrow> let_in_between t ?now ls = int (card (later t ?z))"
    "\<And>u. let_in_between (u - window) u ls \<le> limit"
    using call.IH call.prems by (auto simp: limiter_ok_def)
  have nn: "?z m = Some sc \<Longrightarrow> 0 \<le> sc" for m sc
    using call.hyps(3) by (auto simp: instants_ok_def intro: ranI)
  have run: "hd vs = LStr ''ALLOWED'' \<longleftrightarrow> let_in ?now window limit ?z"
    "zsets (view s') k = slots_after ?now window limit m ?z" "clock (view s') = clock (view s)"
    using rate_limit_run [OF call.hyps(3) call.prems, of m] call.hyps(4) by (auto simp: table_def split: if_splits)
  have fin: "finite (dom ?z)" by (rule finite_zset)
  have fresh: "young ?now window ?z m = None" using call.hyps(2) by (simp add: young_def drop_range_def)
  have used: "slots_used ?now window ?z = int (card (later (?now - window) ?z))"
    by (simp add: slots_used_def young_dom [OF nn])
  have card: "int (card (later t (zsets (view s') k)))
      = int (card (later t ?z)) + (if let_in ?now window limit ?z \<and> t < ?now then 1 else 0)"
    if "?now - window \<le> t" for t
  proof -
    have "m \<notin> later t ?z" using call.hyps(2) by (simp add: later_def)
    then show ?thesis
      using later_young [OF nn that] later_finite [OF fin] fresh
      by (simp add: run(2) slots_after_def later_upd)
  qed
  have bound: "let_in_between (u - window) u (ls @ [(?now, let_in ?now window limit ?z)]) \<le> limit" for u
  proof (cases "let_in ?now window limit ?z \<and> u - window < ?now \<and> ?now \<le> u")
    case True
    have "let_in_between (u - window) u ls = int (card (later (u - window) ?z))"
      using let_in_between_cap [OF old(1), of u "u - window"] old(2) [of "u - window"] True by simp
    also have "\<dots> \<le> int (card (later (?now - window) ?z))"
      using True by (intro of_nat_mono card_mono later_finite fin later_mono) simp
    also have "\<dots> < limit" using True used by (simp add: let_in_def)
    finally show ?thesis by (simp add: let_in_between_snoc)
  qed (use old(3) [of u] in \<open>auto simp: let_in_between_snoc\<close>)
  have "let_in_between t ?now (ls @ [(?now, let_in ?now window limit ?z)]) = int (card (later t (zsets (view s') k)))"
    if "?now - window \<le> t" for t
    using old(2) [OF that] card [OF that] by (simp add: let_in_between_snoc)
  with old(1) bound show ?case by (simp add: limiter_ok_def run(1,3))
qed

end

section \<open>Properties\<close>


text \<open>
  A decision is exact. \<open>Allow\<close> lets a call in just when fewer than \<open>limit\<close> members are
  young, tells how many slots remain, and when the oldest of them frees its slot; a refused
  call takes no slot and learns when to come back.
\<close>

theorem allow_decides:
  assumes "redis_server R view" and "turns w = []"
    and "instants_ok (now_ms (clock (view (db w)))) (go_div window Millisecond)
      (zsets (view (db w)) (RateLimitKey scope u))" "0 < limit" "limit < 10 ^ 14"
  shows "\<exists>s' d. Allow R m scope u limit window w = (Inr d, w\<lparr>db := s'\<rparr>)
    \<and> decision_is d (now_ms (clock (view (db w)))) (go_div window Millisecond) limit m
        (zsets (view (db w)) (RateLimitKey scope u))
    \<and> only_slots (RateLimitKey scope u) (slots_after (now_ms (clock (view (db w)))) (go_div window Millisecond) limit m
         (zsets (view (db w)) (RateLimitKey scope u))) (view (db w)) (view s')"
  by (rule redis_server.Allow_quiet [OF assms])

lemma demo_slots_free: "zsets (mem_view demo) k = Map.empty" "now_ms (clock (mem_view demo)) = 3000"
  by (simp_all add: demo_def slot_def now_ms_def)

lemma demo_instants: "0 < window \<Longrightarrow> window < 10 ^ 13 \<Longrightarrow>
    instants_ok (now_ms (clock (mem_view demo))) window (zsets (mem_view demo) k)"
  by (simp add: instants_ok_def demo_slots_free del: mem_view_sel)


theorem allow_decides_witness:
  "\<exists>s' d. Allow mem_redis ''m'' ''wager'' ''b'' 20 10000000000 (\<lparr>db = demo, turns = []\<rparr> :: mem world)
     = (Inr d, \<lparr>db = s', turns = []\<rparr>) \<and> Allowed d \<and> Remaining d = 19"
proof -
  have w: "go_div 10000000000 Millisecond = 10000" by code_simp
  have "let_in 3000 10000 20 Map.empty" "slots_used 3000 10000 Map.empty = 0"
    by (simp_all add: let_in_def slots_used_def young_def drop_range_def dom_def)
  then show ?thesis
    using allow_decides [OF mem.redis_server_axioms, of "\<lparr>db = demo, turns = []\<rparr> :: mem world" 10000000000
        "''wager''" "''b''" 20 "''m''"] demo_instants [of 10000 "RateLimitKey ''wager'' ''b''"]
    by (auto simp: w demo_slots_free decision_is_def simp del: mem_view_sel)
qed

end
