(* ===== verification/WagerService.thy ===== *)
theory WagerService
  imports Service
begin

text \<open>
  \<open>internal/wager/service.go\<close>: validating and placing a wager, then announcing the new odds.
  \<open>uuid_version\<close> stands for \<open>uuid.Parse\<close> followed by \<open>Version\<close>, of a library.
\<close>

definition WagerScope :: string where "WagerScope = ''wager''"
definition WagerLimit :: int where "WagerLimit = 20"
definition WagerWindow :: int where "WagerWindow = 10 * 10 ^ 9"

record Request =
  RqRoom :: string
  RqRound :: string
  RqUser :: string
  RqOutcome :: int
  RqAmount :: tokens
  RqKey :: string

record Accepted =
  AccRound :: string
  AccBalance :: tokens
  AccPools :: "tokens list"
  AccTotal :: tokens
  AccMultipliers :: "rat list"
  AccBettors :: int
  AccPlayers :: int

definition accepted_of :: "string \<Rightarrow> WagerResult \<Rightarrow> int \<Rightarrow> Accepted" where
  "accepted_of roundID result players =
     \<lparr>AccRound = roundID, AccBalance = NewBalance result, AccPools = NewPools result,
      AccTotal = NewTotal result, AccMultipliers = Multipliers (NewTotal result) (NewPools result),
      AccBettors = BettorCount result, AccPlayers = players\<rparr>"

definition odds_event :: "string \<Rightarrow> WagerResult \<Rightarrow> Accepted \<Rightarrow> OddsEvent" where
  "odds_event roundID result accepted =
     \<lparr>OddsRound = roundID, OddsPools = NewPools result, OddsTotal = NewTotal result,
      OddsMultipliers = AccMultipliers accepted, OddsBettors = AccBettors accepted,
      OddsPlayers = AccPlayers accepted\<rparr>"

text \<open>The checks between the preflight reads and the script: the round to bet on, or an error.\<close>

definition check_request :: "(string \<Rightarrow> int option) \<Rightarrow> Request \<Rightarrow> Preflight \<Rightarrow> err + string" where
  "check_request uuid_version req pre =
     (if \<not> Allowed (PreDecision pre) then Inl (Wager (RateLimitError (RetryAfter (PreDecision pre))))
      else if uuid_version (RqKey req) \<noteq> Some 4 then Inl (Wager ErrBadIdempotency)
      else case ValidateStakeAmount (RqAmount req) of Some e \<Rightarrow> Inl e
      | None \<Rightarrow>
        let roundID = (if RqRound req = [] then PreRound pre else RqRound req)
        in if roundID = [] then Inl (Wager WagerNoActiveRound) else Inr roundID)"

definition store_request :: "Request \<Rightarrow> string \<Rightarrow> WagerRequest" where
  "store_request req roundID =
     \<lparr>ReqRoom = RqRoom req, ReqRound = roundID, ReqUser = RqUser req, ReqOutcome = RqOutcome req,
      ReqAmount = RqAmount req, ReqKey = RqKey req\<rparr>"

definition place_body :: "(string \<Rightarrow> int option) \<Rightarrow> 's redis \<Rightarrow> string \<Rightarrow> string \<Rightarrow> string \<Rightarrow> Request \<Rightarrow>
    ('s, 'x, Accepted) svc" where
  "place_body uuid_version R outbox member1 member2 req =
     andThen (WagerPreflight R member1 member2 WagerScope (RqUser req) (RqRoom req) WagerLimit
       WagerWindow) (\<lambda>pre.
     andThen (lift_sum (check_request uuid_version req pre)) (\<lambda>roundID.
     andThen (PlaceWager R outbox (store_request req roundID)) (\<lambda>result.
     let accepted = accepted_of roundID result (PrePlayers pre) in
     andThen (publish (RqRoom req) ''odds_updated'' (OddsMsg (odds_event roundID result accepted)))
       (\<lambda>_. ret accepted))))"

text \<open>The deferred latency sample; \<open>okRec\<close> and \<open>errRec\<close> say which recorder is not nil.\<close>

definition Place :: "(string \<Rightarrow> int option) \<Rightarrow> 's redis \<Rightarrow> string \<Rightarrow> string \<Rightarrow> string \<Rightarrow> bool \<Rightarrow> bool \<Rightarrow>
    int \<Rightarrow> Request \<Rightarrow> ('s, 'x, Accepted) svc" where
  "Place uuid_version R outbox member1 member2 okRec errRec elapsed req =
     attempt (place_body uuid_version R outbox member1 member2 req) (\<lambda>r. case r of
       Inl e \<Rightarrow> if errRec then andThen (Observe False elapsed) (\<lambda>_. raise e) else raise e
     | Inr accepted \<Rightarrow> if okRec then andThen (Observe True elapsed) (\<lambda>_. ret accepted) else ret accepted)"

end
