(* ===== verification/PlaceSpec.thy ===== *)
theory PlaceSpec
  imports WagerService RateSpec Frames RoundSpec
begin

text \<open>
  What \<open>wager.Service.Place\<close> promises: which wagers reach the script, what the caller is told
  and what the room is told.
\<close>

section \<open>The reads before a wager\<close>

context redis_server
begin

lemma WagerPreflight_quiet:
  assumes "turns w = []"
    and "instants_ok (now_ms (clock (view (db w)))) (go_div window Millisecond)
      (zsets (view (db w)) (RateLimitKey scope u))" "0 < limit" "limit < 10 ^ 14"
  shows "\<exists>s' d. WagerPreflight R m m' scope u room limit window w
      = (Inr \<lparr>PreDecision = d, PreRound = (case strs (view (db w)) (RoomRoundKey room) of None \<Rightarrow> [] | Some r \<Rightarrow> r),
          PrePlayers = players_of (int (card (dom (wallets (view (db w)) room))))\<rparr>, w\<lparr>db := s'\<rparr>)
    \<and> decision_is d (now_ms (clock (view (db w)))) (go_div window Millisecond) limit m
        (zsets (view (db w)) (RateLimitKey scope u))
    \<and> only_slots (RateLimitKey scope u) (slots_after (now_ms (clock (view (db w)))) (go_div window Millisecond) limit m
         (zsets (view (db w)) (RateLimitKey scope u))) (view (db w)) (view s')"
proof -
  obtain s' d vs where run: "rate_call R m scope u limit window (db w) = (Inr vs, s')" "decodeRateLimitReply vs = Inr d"
    "decision_is d (now_ms (clock (view (db w)))) (go_div window Millisecond) limit m
        (zsets (view (db w)) (RateLimitKey scope u))"
    "only_slots (RateLimitKey scope u) (slots_after (now_ms (clock (view (db w)))) (go_div window Millisecond) limit m
         (zsets (view (db w)) (RateLimitKey scope u))) (view (db w)) (view s')"
    using rate_call_run [OF assms(2-4)] by blast
  have "evalsha (rate_call R m scope u limit window) w = (Inr vs, w\<lparr>db := s'\<rparr>)"
    by (rule roundtrip_quiet(2) [where f = "rate_call R m scope u limit window", OF assms(1) run(1)])
  moreover have "strs (view s') = strs (view (db w))" "hashes (view s') = hashes (view (db w))"
    using run(4) by (simp_all add: only_slots_def)
  ultimately have "WagerPreflight R m m' scope u room limit window w
      = (Inr \<lparr>PreDecision = d, PreRound = (case strs (view (db w)) (RoomRoundKey room) of None \<Rightarrow> [] | Some r \<Rightarrow> r),
          PrePlayers = players_of (int (card (dom (wallets (view (db w)) room))))\<rparr>, w\<lparr>db := s'\<rparr>)"
    using assms(1) run(2)
    by (simp add: WagerPreflight_def runWagerPreflightPipeline_def eff_simps quiet_simps reads wallets_def)
  with run(3,4) show ?thesis by blast
qed

lemma PlaceWager_quiet:
  assumes "turns w = []" "table_ok (view (db w)) (ReqRoom rq) (ReqRound rq) n"
    and "strs (view (db w)) (IdemKey (ReqKey rq)) = None" "wager_ok (view (db w)) rq"
  shows "\<exists>s' x. PlaceWager R outbox rq w = (Inr (wager_result (view (db w)) rq n), w\<lparr>db := s'\<rparr>)
    \<and> view s' = v_set (IdemKey (ReqKey rq)) x (Some 86400000) (wager_view outbox rq (view (db w)))"
proof -
  obtain s' where s': "wager_call R outbox rq (db w) = (Inr (wager_reply (view (db w)) rq n), s')"
    "view s' = v_set (IdemKey (ReqKey rq)) (cjson_encode R (wager_reply (view (db w)) rq n)) (Some 86400000)
        (wager_view outbox rq (view (db w)))"
    using wager_call_accepted [OF assms(2-4)] by blast
  have "PlaceWager R outbox rq w = (Inr (wager_result (view (db w)) rq n), w\<lparr>db := s'\<rparr>)"
    by (rule PlaceWager_decoded [OF _ assms(2,4)])
      (rule roundtrip_quiet(1) [where f = "wager_call R outbox rq", OF assms(1) s'(1)])
  with s'(2) show ?thesis by blast
qed

end

text \<open>Taking a slot of the limiter changes nothing a wager reads.\<close>

lemma only_slots_reads:
  assumes "only_slots k z v v'"
  shows "wallets v' room = wallets v room" "pools v' rid = pools v rid" "wagers v' rid = wagers v rid"
    "bettors v' rid = bettors v rid" "round_hash v' rid = round_hash v rid" "room_hash v' room = room_hash v room"
    "strs v' = strs v" "streams v' = streams v" "clock v' = clock v"
  using assms by (simp_all add: only_slots_def table_reads)

lemma only_slots_books:
  assumes "only_slots k z v v'"
  shows "table_ok v' room rid n = table_ok v room rid n" "table_tokens v' room rid = table_tokens v room rid"
    "wager_ok v' rq = wager_ok v rq" "wager_result v' rq n = wager_result v rq n" "wager_event v' rq = wager_event v rq"
  by (simp_all add: table_ok_def table_tokens_def wager_ok_def wager_result_def wager_event_def
      only_slots_reads [OF assms])

section \<open>Announcing\<close>

definition odds_of :: "Accepted \<Rightarrow> OddsEvent" where
  "odds_of acc = \<lparr>OddsRound = AccRound acc, OddsPools = AccPools acc, OddsTotal = AccTotal acc,
     OddsMultipliers = Multipliers (AccTotal acc) (AccPools acc), OddsBettors = AccBettors acc,
     OddsPlayers = AccPlayers acc\<rparr>"

lemma odds_event_of: "odds_event rid res (accepted_of rid res n) = odds_of (accepted_of rid res n)"
  by (simp add: odds_event_def odds_of_def accepted_of_def)

lemma place_body_speaks:
  "speaks (place_body uuid_version R outbox m m' req :: ('s, 'x, Accepted) svc)
     (\<lambda>acc before w'. announced (RqRoom req) ''odds_updated'' (OddsMsg (odds_of acc)) before w'
       \<and> (\<forall>w :: ('s, 'x) service_scheme. world.more w = before \<longrightarrow> samples w' = samples w))"
  (is "speaks _ ?Q")
proof -
  have last: "speaks (andThen (publish (RqRoom req) ''odds_updated'' (OddsMsg (odds_of acc))) (\<lambda>_. ret acc)) ?Q" for acc
    by (auto simp: speaks_def eff_simps announced_def dest: more_service)
  show ?thesis unfolding place_body_def Let_def odds_event_of
    by (rule last speak_rules frame_rules)+
qed

section \<open>Properties\<close>

text \<open>
  Odds are announced, stakes are not. In any environment, a \<open>Place\<close> that fails sends
  nothing; one that succeeds sends exactly one message, a function of the round, the pools,
  their total and the numbers of bettors and players - neither the wagerer nor the balance or
  the amount enters it - and one latency sample is recorded, by the recorder for the outcome
  when there is one.
\<close>

theorem place_announces_odds:
  fixes w :: "('s, 'x) service_scheme"
  assumes "Place uuid_version R outbox m m' okRec errRec elapsed req w = (r, w')"
  shows "(\<exists>e. r = Inl e \<and> sent w' = sent w
        \<and> samples w' = samples w @ (if errRec then [(False, elapsed)] else []))
    \<or> (\<exists>acc. r = Inr acc
        \<and> sent w' = sent w @ [(RqRoom req, \<lparr>MsgType = ''odds_updated'', MsgData = OddsMsg (odds_of acc)\<rparr>)]
        \<and> samples w' = samples w @ (if okRec then [(True, elapsed)] else []))"
proof -
  obtain q u where q: "place_body uuid_version R outbox m m' req w = (q, u)" by (meson surj_pair)
  show ?thesis
    using place_body_speaks [unfolded speaks_def, rule_format, OF q] more_service [of u w] assms q
    by (cases q) (auto simp: Place_def attempt_eq eff_simps Observe_def dest!: announcedD split: if_splits)
qed

text \<open>The round a request bets on, and what its answer tells, for a view of the store.\<close>

definition bet_round :: "Request \<Rightarrow> rview \<Rightarrow> string" where
  "bet_round req v = (if RqRound req \<noteq> [] then RqRound req
     else (case strs v (RoomRoundKey (RqRoom req)) of None \<Rightarrow> [] | Some r \<Rightarrow> r))"

definition bet_request :: "Request \<Rightarrow> rview \<Rightarrow> WagerRequest" where
  "bet_request req v = store_request req (bet_round req v)"

definition bet_answer :: "Request \<Rightarrow> nat \<Rightarrow> rview \<Rightarrow> Accepted" where
  "bet_answer req n v = accepted_of (bet_round req v) (wager_result v (bet_request req v) n)
     (players_of (int (card (dom (wallets v (RqRoom req))))))"

lemma bet_request_sel:
  "ReqRoom (bet_request req v) = RqRoom req" "ReqRound (bet_request req v) = bet_round req v"
  "ReqKey (bet_request req v) = RqKey req" "ReqUser (bet_request req v) = RqUser req"
  "ReqAmount (bet_request req v) = RqAmount req" "ReqOutcome (bet_request req v) = RqOutcome req"
  by (simp_all add: bet_request_def store_request_def)

lemma table_ok_cached:
  "table_ok (v_set k y t v) room rid n = table_ok v room rid n"
  "table_tokens (v_set k y t v) room rid = table_tokens v room rid"
  "wallets (v_set k y t v) room = wallets v room"
  by (simp_all add: table_ok_def table_tokens_def table_reads view_simps)

lemma Place_runs:
  fixes w :: "('s, 'x) service_scheme" and req :: Request and view :: "'s \<Rightarrow> rview" and n :: nat
  assumes "redis_server R view" and "turns w = []"
    and "instants_ok (now_ms (clock (view (db w)))) 10000 (zsets (view (db w)) (RateLimitKey WagerScope (RqUser req)))"
    and "let_in (now_ms (clock (view (db w)))) 10000 WagerLimit (zsets (view (db w)) (RateLimitKey WagerScope (RqUser req)))"
    and "uuid_version (RqKey req) = Some 4" and "bet_round req (view (db w)) \<noteq> []"
    and "table_ok (view (db w)) (RqRoom req) (bet_round req (view (db w))) n"
    and "strs (view (db w)) (IdemKey (RqKey req)) = None" and "wager_ok (view (db w)) (bet_request req (view (db w)))"
  shows "\<exists>s'. Place uuid_version R outbox m m' True True elapsed req w
      = (Inr (bet_answer req n (view (db w))), w\<lparr>db := s',
         sent := sent w @ [(RqRoom req, \<lparr>MsgType = ''odds_updated'',
           MsgData = OddsMsg (odds_of (bet_answer req n (view (db w))))\<rparr>)],
         samples := samples w @ [(True, elapsed)]\<rparr>)
    \<and> wallets (view s') (RqRoom req) = (wallets (view (db w)) (RqRoom req))
        (RqUser req \<mapsto> itoa (amt (wallets (view (db w)) (RqRoom req) (RqUser req)) - RqAmount req))
    \<and> AccBalance (bet_answer req n (view (db w)))
        = amt (wallets (view (db w)) (RqRoom req) (RqUser req)) - RqAmount req
    \<and> table_ok (view s') (RqRoom req) (bet_round req (view (db w))) n
    \<and> table_tokens (view s') (RqRoom req) (bet_round req (view (db w)))
        = table_tokens (view (db w)) (RqRoom req) (bet_round req (view (db w)))
    \<and> streams (view s') outbox
        = streams (view (db w)) outbox @ [wager_event (view (db w)) (bet_request req (view (db w)))]"
proof -
  note server = assms(1)
  let ?v = "view (db w)" and ?now = "now_ms (clock (view (db w)))" and ?room = "RqRoom req"
  let ?rq = "bet_request req ?v" and ?z = "zsets ?v (RateLimitKey WagerScope (RqUser req))"
  let ?pre = "\<lambda>d. \<lparr>PreDecision = d, PreRound = (case strs ?v (RoomRoundKey ?room) of None \<Rightarrow> [] | Some r \<Rightarrow> r),
      PrePlayers = players_of (int (card (dom (wallets ?v ?room))))\<rparr>"
  have win: "go_div WagerWindow Millisecond = 10000" by code_simp
  obtain s1 d where pre: "WagerPreflight R m m' WagerScope (RqUser req) ?room WagerLimit WagerWindow w
      = (Inr (?pre d), w\<lparr>db := s1\<rparr>)" "Allowed d"
    "only_slots (RateLimitKey WagerScope (RqUser req)) (slots_after ?now 10000 WagerLimit m ?z) ?v (view s1)"
    using redis_server.WagerPreflight_quiet [OF server assms(2), of WagerWindow WagerScope "RqUser req" WagerLimit m m' ?room]
      assms(3,4) unfolding win by (auto simp: WagerLimit_def decision_is_def)
  note same = only_slots_reads [OF pre(3)] only_slots_books [OF pre(3)]
  have "ValidateStakeAmount (RqAmount req) = None"
    using assms(9) by (simp add: ValidateStakeAmount_def wager_ok_def bet_request_sel)
  then have chk: "check_request uuid_version req (?pre d) = Inr (bet_round req ?v)"
    using pre(2) assms(5,6) by (auto simp: check_request_def bet_round_def Let_def)
  have ok: "table_ok (view s1) (ReqRoom ?rq) (ReqRound ?rq) n" "wager_ok (view s1) ?rq"
    using assms(7,9) by (simp_all add: bet_request_sel same)
  obtain s2 x where s2: "PlaceWager R outbox ?rq (w\<lparr>db := s1\<rparr>) = (Inr (wager_result ?v ?rq n), w\<lparr>db := s2\<rparr>)"
    "view s2 = v_set (IdemKey (RqKey req)) x (Some 86400000) (wager_view outbox ?rq (view s1))"
    using redis_server.PlaceWager_quiet [OF server, of "w\<lparr>db := s1\<rparr>" ?rq n outbox] assms(2,8) ok
    by (auto simp: bet_request_sel same)
  have "Place uuid_version R outbox m m' True True elapsed req w = (Inr (bet_answer req n ?v), w\<lparr>db := s2,
      sent := sent w @ [(?room, \<lparr>MsgType = ''odds_updated'', MsgData = OddsMsg (odds_of (bet_answer req n ?v))\<rparr>)],
      samples := samples w @ [(True, elapsed)]\<rparr>)"
    by (simp add: Place_def place_body_def eff_simps pre(1) chk s2(1) [unfolded bet_request_def] Let_def odds_event_of
        Observe_def bet_answer_def bet_request_def)
  then show ?thesis
    using wager_view_ok [OF ok, of outbox] wager_view_reads(1,6) [of outbox ?rq "view s1"]
    by (intro exI [of _ s2])
      (simp add: s2(2) table_ok_cached same view_simps bet_answer_def accepted_of_def wager_result_def bet_request_sel)
qed

text \<open>
  A wager end to end. A player whose limiter has a free slot, with a fresh version 4 key
  and every guard of the script met, places a wager on the round named or on the room's
  current one: the slot is taken, the wallet charged once, the books stay in order with the
  same tokens, one event enters the outbox, the player is told the balance, pools, total and
  odds after the wager, and the room gets the odds.
\<close>

theorem place_end_to_end:
  fixes w :: "('s, 'x) service_scheme" and req :: Request and view :: "'s \<Rightarrow> rview" and n :: nat
  assumes "redis_server R view" and "turns w = []"
    and "instants_ok (now_ms (clock (view (db w)))) 10000 (zsets (view (db w)) (RateLimitKey WagerScope (RqUser req)))"
    and "let_in (now_ms (clock (view (db w)))) 10000 WagerLimit (zsets (view (db w)) (RateLimitKey WagerScope (RqUser req)))"
    and "uuid_version (RqKey req) = Some 4" and "bet_round req (view (db w)) \<noteq> []"
    and "table_ok (view (db w)) (RqRoom req) (bet_round req (view (db w))) n"
    and "strs (view (db w)) (IdemKey (RqKey req)) = None" and "wager_ok (view (db w)) (bet_request req (view (db w)))"
  shows "\<exists>s'. Place uuid_version R outbox m m' True True elapsed req w
      = (Inr (bet_answer req n (view (db w))), w\<lparr>db := s',
         sent := sent w @ [(RqRoom req, \<lparr>MsgType = ''odds_updated'',
           MsgData = OddsMsg (odds_of (bet_answer req n (view (db w))))\<rparr>)],
         samples := samples w @ [(True, elapsed)]\<rparr>)
    \<and> wallets (view s') (RqRoom req) = (wallets (view (db w)) (RqRoom req))
        (RqUser req \<mapsto> itoa (amt (wallets (view (db w)) (RqRoom req) (RqUser req)) - RqAmount req))
    \<and> AccBalance (bet_answer req n (view (db w)))
        = amt (wallets (view (db w)) (RqRoom req) (RqUser req)) - RqAmount req
    \<and> table_ok (view s') (RqRoom req) (bet_round req (view (db w))) n
    \<and> table_tokens (view s') (RqRoom req) (bet_round req (view (db w)))
        = table_tokens (view (db w)) (RqRoom req) (bet_round req (view (db w)))
    \<and> streams (view s') outbox
        = streams (view (db w)) outbox @ [wager_event (view (db w)) (bet_request req (view (db w)))]"
  by (rule Place_runs [where uuid_version = uuid_version]) (fact assms)+

text \<open>Player \<open>b\<close> bets on the demonstration room's current round without naming it.\<close>

definition demo_bet :: Request where
  "demo_bet = \<lparr>RqRoom = ''r1'', RqRound = [], RqUser = ''b'', RqOutcome = 1, RqAmount = 400, RqKey = ''k1''\<rparr>"

lemma demo_bet_round: "bet_round demo_bet (mem_view demo) = ''x1''" "bet_request demo_bet (mem_view demo) = demo_wager"
proof -
  show r: "bet_round demo_bet (mem_view demo) = ''x1''"
    by (simp add: bet_round_def demo_bet_def demo_reads del: mem_view_sel)
  show "bet_request demo_bet (mem_view demo) = demo_wager"
    unfolding bet_request_def r by (simp add: store_request_def demo_bet_def demo_wager_def)
qed

lemma demo_bet_sel:
  "RqRoom demo_bet = ''r1''" "RqUser demo_bet = ''b''" "RqAmount demo_bet = 400" "RqKey demo_bet = ''k1''"
  by (simp_all add: demo_bet_def)

theorem place_end_to_end_witness:
  "\<exists>s' acc. Place (\<lambda>_. Some 4) mem_redis OutboxStream ''m'' ''m2'' True True 7 demo_bet (demo_service demo)
      = (Inr acc, (demo_service demo)\<lparr>db := s', sent := [(''r1'', \<lparr>MsgType = ''odds_updated'', MsgData = OddsMsg (odds_of acc)\<rparr>)],
         samples := [(True, 7)]\<rparr>)
    \<and> AccBalance acc = 600 \<and> table_ok (mem_view s') ''r1'' ''x1'' 2"
proof -
  have free: "let_in 3000 10000 WagerLimit Map.empty"
    by (simp add: let_in_def slots_used_def young_def drop_range_def dom_def WagerLimit_def)
  have b: "amt (Some ''1000'') = 1000" by code_simp
  have smp: "samples (demo_service demo) = []" "now_ms (3, 0) = 3000" by (simp_all add: demo_service_def now_ms_def)
  show ?thesis
    using place_end_to_end [OF mem.redis_server_axioms, of "demo_service demo" demo_bet "\<lambda>_. Some 4" 2 OutboxStream
        "''m''" "''m2''" 7] demo_instants [of 10000] demo_table demo_wager_ok free
    by (auto simp: demo_slots_free demo_bet_round demo_bet_sel demo_reads b smp key_simps simp del: mem_view_sel)
qed

theorem place_announces_odds_witness:
  "\<exists>acc. sent (snd (Place (\<lambda>_. Some 4) mem_redis OutboxStream ''m'' ''m2'' True True 7 (demo_bet\<lparr>RqKey := ''k2''\<rparr>)
      (demo_service demo))) \<in> {[], [(''r1'', \<lparr>MsgType = ''odds_updated'', MsgData = OddsMsg (odds_of acc)\<rparr>)]}"
proof -
  obtain r w' where r: "Place (\<lambda>_. Some 4) mem_redis OutboxStream ''m'' ''m2'' True True 7 (demo_bet\<lparr>RqKey := ''k2''\<rparr>)
      (demo_service demo) = (r, w')" by (meson surj_pair)
  from place_announces_odds [OF this] show ?thesis by (auto simp: r demo_bet_sel)
qed

end
