(* ===== verification/Auth.thy ===== *)
theory Auth
  imports Json
begin

text \<open>
  \<open>internal/auth\<close>: credential rules (\<open>credentials.go\<close>), password hashes in the PHC format
  (\<open>password.go\<close>) and identity tokens (\<open>token.go\<close>). Strings are bytes. The argon2 and JWT
  libraries, the clock, random bytes and the Unicode case table are arguments.
\<close>

section \<open>Strings\<close>

text \<open>
  \<open>strings.ToLower\<close>: \<open>lower\<close> maps the encoding of a rune beyond ASCII to that of its
  lower case; an invalid byte becomes U+FFFD.
\<close>

definition ascii_lower :: "char \<Rightarrow> char" where
  "ascii_lower c = (if between 65 90 c then char_of (byte c + 32) else c)"

lemma rune_len_le: "rune_len (c # s) \<le> Suc (length s)"
  by (auto simp: rune_len_def split: list.split)

function ToLower :: "(string \<Rightarrow> string) \<Rightarrow> string \<Rightarrow> string" where
  "ToLower lower [] = []"
| "ToLower lower (c # s) =
     (let n = rune_len (c # s)
      in if n = 0 then utf8 0xFFFD @ ToLower lower s
         else if n = 1 then ascii_lower c # ToLower lower s
         else lower (take n (c # s)) @ ToLower lower (drop (n - 1) s))"
  by pat_completeness auto
termination by (relation "measure (\<lambda>(_, s). length s)") auto

text \<open>\<open>unicode.IsControl\<close>: the C0 and C1 controls and delete.\<close>

definition is_control :: "string \<Rightarrow> bool" where
  "is_control r = (case r of [c] \<Rightarrow> byte c < 32 \<or> byte c = 127
     | [c, d] \<Rightarrow> byte c = 0xC2 \<and> byte d < 0xA0 | _ \<Rightarrow> False)"

text \<open>\<open>strings.Split\<close> and \<open>strings.Contains\<close>.\<close>

fun split_on :: "char \<Rightarrow> string \<Rightarrow> string list" where
  "split_on x [] = [[]]"
| "split_on x (c # s) = (if c = x then [] # split_on x s
     else case split_on x s of [] \<Rightarrow> [[c]] | p # ps \<Rightarrow> (c # p) # ps)"

fun contains :: "string \<Rightarrow> string \<Rightarrow> bool" where
  "contains p [] \<longleftrightarrow> p = []"
| "contains p (c # s) \<longleftrightarrow> is_prefix p (c # s) \<or> contains p s"

definition has_suffix :: "string \<Rightarrow> string \<Rightarrow> bool" where
  "has_suffix p s \<longleftrightarrow> is_prefix (rev p) (rev s)"

section \<open>Credentials\<close>

definition MinPasswordLen :: nat where "MinPasswordLen = 12"
definition MaxPasswordLen :: nat where "MaxPasswordLen = 128"
definition MaxDisplayNameLen :: nat where "MaxDisplayNameLen = 32"

definition NormalizeEmail :: "(string \<Rightarrow> string) \<Rightarrow> string \<Rightarrow> string" where
  "NormalizeEmail lower raw = ToLower lower (TrimSpace raw)"

definition has_blank :: "string \<Rightarrow> bool" where
  "has_blank s \<longleftrightarrow> CHR '' '' \<in> set s \<or> CHR 0x09 \<in> set s"

definition valid_local :: "string \<Rightarrow> bool" where
  "valid_local s \<longleftrightarrow> 1 \<le> length s \<and> length s \<le> 64 \<and> \<not> has_blank s"

definition valid_host :: "string \<Rightarrow> bool" where
  "valid_host s \<longleftrightarrow> contains ''.'' s \<and> \<not> is_prefix ''.'' s \<and> \<not> has_suffix ''.'' s
     \<and> \<not> contains ''..'' s \<and> \<not> has_blank s
     \<and> list_all (\<lambda>label. 1 \<le> length label \<and> length label \<le> 63) (split_on (CHR ''.'') s)"

definition ValidateEmail :: "string \<Rightarrow> err option" where
  "ValidateEmail normalized =
     (if length normalized < 3 \<or> length normalized > 254 then Some (Auth ErrInvalidEmail)
      else let loc = takeWhile (\<lambda>c. c \<noteq> CHR ''@'') normalized;
               rest = dropWhile (\<lambda>c. c \<noteq> CHR ''@'') normalized
      in if rest = [] \<or> CHR ''@'' \<in> set (tl rest) then Some (Auth ErrInvalidEmail)
      else if \<not> valid_local loc then Some (Auth ErrInvalidEmail)
      else if \<not> valid_host (tl rest) then Some (Auth ErrInvalidEmail) else None)"

definition ValidatePassword :: "string \<Rightarrow> err option" where
  "ValidatePassword plain =
     (if length plain < MinPasswordLen \<or> length plain > MaxPasswordLen
      then Some (Auth ErrWeakPassword) else None)"

definition NormalizeDisplayName :: "string \<Rightarrow> string" where
  "NormalizeDisplayName raw = TrimSpace raw"

definition ValidateDisplayName :: "string \<Rightarrow> err option" where
  "ValidateDisplayName normalized =
     (let n = length (runes normalized) in
      if n < 1 \<or> n > MaxDisplayNameLen then Some (Auth ErrInvalidDisplayName)
      else if list_ex is_control (runes normalized) then Some (Auth ErrInvalidDisplayName)
      else None)"

section \<open>Base 64\<close>

text \<open>\<open>base64.RawStdEncoding\<close>: no padding; the decoder skips line ends.\<close>

definition b64_alphabet :: string where
  "b64_alphabet = ''ABCDEFGHIJKLMNOPQRSTUVWXYZabcdefghijklmnopqrstuvwxyz0123456789+/''"

definition b64_char :: "nat \<Rightarrow> char" where
  "b64_char n = b64_alphabet ! n"

definition b64_val :: "char \<Rightarrow> nat option" where
  "b64_val c = (if between 65 90 c then Some (byte c - 65)
     else if between 97 122 c then Some (byte c - 71)
     else if between 48 57 c then Some (byte c + 4)
     else if c = CHR ''+'' then Some 62 else if c = CHR ''/'' then Some 63 else None)"

fun b64_encode :: "string \<Rightarrow> string" where
  "b64_encode [] = []"
| "b64_encode [x] = [b64_char (byte x div 4), b64_char (byte x mod 4 * 16)]"
| "b64_encode [x, y] = [b64_char (byte x div 4), b64_char (byte x mod 4 * 16 + byte y div 16),
     b64_char (byte y mod 16 * 4)]"
| "b64_encode (x # y # z # s) = b64_char (byte x div 4) # b64_char (byte x mod 4 * 16 + byte y div 16)
     # b64_char (byte y mod 16 * 4 + byte z div 64) # b64_char (byte z mod 64) # b64_encode s"

fun b64_quanta :: "nat list \<Rightarrow> string option" where
  "b64_quanta [] = Some []"
| "b64_quanta [a] = None"
| "b64_quanta [a, b] = Some [char_of (a * 4 + b div 16)]"
| "b64_quanta [a, b, c] = Some [char_of (a * 4 + b div 16), char_of (b mod 16 * 16 + c div 4)]"
| "b64_quanta (a # b # c # d # s) = map_option
     (\<lambda>t. char_of (a * 4 + b div 16) # char_of (b mod 16 * 16 + c div 4) # char_of (c mod 4 * 64 + d) # t)
     (b64_quanta s)"

definition b64_decode :: "string \<Rightarrow> string option" where
  "b64_decode s =
     (let vs = map b64_val (filter (\<lambda>c. byte c \<noteq> 10 \<and> byte c \<noteq> 13) s)
      in if None \<in> set vs then None else b64_quanta (map the vs))"

section \<open>Password hashes\<close>

definition argon2Time :: int where "argon2Time = 2"
definition argon2Memory :: int where "argon2Memory = 19456"
definition argon2Threads :: int where "argon2Threads = 1"
definition argon2KeyLen :: nat where "argon2KeyLen = 32"
definition saltLen :: nat where "saltLen = 16"

text \<open>
  \<open>argon2.IDKey\<close>: password, salt, time, memory, threads, key length; it panics (\<open>None\<close>) on
  parameters it refuses.
\<close>

type_synonym argon2 = "string \<Rightarrow> string \<Rightarrow> int \<Rightarrow> int \<Rightarrow> int \<Rightarrow> nat \<Rightarrow> string option"

record phcParams =
  memory :: int
  time :: int
  threads :: int

definition phc_text :: "string \<Rightarrow> string \<Rightarrow> string" where
  "phc_text salt hash = ''$argon2id$v=19$m='' @ itoa argon2Memory @ '',t='' @ itoa argon2Time
     @ '',p='' @ itoa argon2Threads @ ''$'' @ b64_encode salt @ ''$'' @ b64_encode hash"

text \<open>\<open>salt\<close> is what \<open>rand.Read\<close> gave, \<open>None\<close> for its error.\<close>

definition HashPassword :: "argon2 \<Rightarrow> string option \<Rightarrow> string \<Rightarrow> err + string" where
  "HashPassword IDKey salt plain = (case salt of None \<Rightarrow> Inl Library
     | Some salt \<Rightarrow>
       (case IDKey plain salt argon2Time argon2Memory argon2Threads argon2KeyLen of
          None \<Rightarrow> Inl Panic | Some hash \<Rightarrow> Inr (phc_text salt hash)))"

text \<open>
  \<open>fmt.Sscanf\<close> as used here. A literal must match; \<open>%d\<close> into an unsigned field of
  \<open>bits\<close> bits skips white space (not a newline), then takes the longest run of digits.
\<close>

definition scan_literal :: "string \<Rightarrow> string \<Rightarrow> string option" where
  "scan_literal p s = (if is_prefix p s then Some (drop (length p) s) else None)"

definition scan_uint :: "nat \<Rightarrow> string \<Rightarrow> (int \<times> string) option" where
  "scan_uint bits s =
     (let t = trim_left_n (length s) (filter (\<lambda>r. r \<noteq> [CHR 0x0A]) space_runes) s;
          ds = takeWhile is_digit t
      in case parse_nat ds of None \<Rightarrow> None
         | Some n \<Rightarrow> if n < 2 ^ bits then Some (n, dropWhile is_digit t) else None)"

definition scan_params :: "string \<Rightarrow> phcParams option" where
  "scan_params s =
     Option.bind (scan_literal ''m='' s) (\<lambda>s. Option.bind (scan_uint 32 s) (\<lambda>(m, s).
     Option.bind (scan_literal '',t='' s) (\<lambda>s. Option.bind (scan_uint 32 s) (\<lambda>(t, s).
     Option.bind (scan_literal '',p='' s) (\<lambda>s. Option.bind (scan_uint 8 s) (\<lambda>(p, s).
     Some \<lparr>memory = m, time = t, threads = p\<rparr>))))))"

definition parsePHC :: "string \<Rightarrow> (phcParams \<times> string \<times> string) option" where
  "parsePHC encoded =
     (let parts = split_on (CHR ''$'') encoded in
      if length parts \<noteq> 6 then None
      else if parts ! 1 \<noteq> ''argon2id'' then None
      else if parts ! 2 \<noteq> ''v=19'' then None
      else Option.bind (scan_params (parts ! 3)) (\<lambda>p.
           Option.bind (b64_decode (parts ! 4)) (\<lambda>salt.
           Option.bind (b64_decode (parts ! 5)) (\<lambda>hash. Some (p, salt, hash)))))"

definition VerifyPassword :: "argon2 \<Rightarrow> string \<Rightarrow> string \<Rightarrow> err + unit" where
  "VerifyPassword IDKey encoded plain = (case parsePHC encoded of None \<Rightarrow> Inl (Auth ErrMalformedHash)
     | Some (p, salt, wantHash) \<Rightarrow>
       (case IDKey plain salt (time p) (memory p) (threads p) (length wantHash) of
          None \<Rightarrow> Inl Panic
        | Some gotHash \<Rightarrow> if gotHash \<noteq> wantHash then Inl (Auth ErrPasswordMismatch) else Inr ()))"

text \<open>The decoy hash is computed once, of a random value; the result of the check is dropped.\<close>

definition VerifyDecoyPassword :: "argon2 \<Rightarrow> string \<Rightarrow> string \<Rightarrow> err + unit" where
  "VerifyDecoyPassword IDKey decoyHash plain =
     (if VerifyPassword IDKey decoyHash plain = Inl Panic then Inl Panic else Inr ())"

section \<open>Tokens\<close>

definition MinSecretLen :: nat where "MinSecretLen = 32"
definition IssuerName :: string where "IssuerName = ''callit''"

record Claims =
  ClaimUser :: string
  ClaimName :: string
  ClaimRoom :: string
  ClaimGuest :: bool
  ClaimHost :: bool

record Issuer =
  secret :: string
  ttl :: int

text \<open>
  The JWT library: \<open>SignedString\<close> of a claim set, and \<open>jwt.Parse\<close> restricted to HS256 at
  a given instant, which fails because the token has expired (\<open>True\<close>) or otherwise.
\<close>

datatype claim_val =
    CStr string
  | CBool bool
  | CDate int
  | COther

record token =
  MapClaims :: "(string \<rightharpoonup> claim_val) option"
  TokenValid :: bool

record jwt =
  SignedString :: "string \<Rightarrow> (string \<rightharpoonup> claim_val) \<Rightarrow> string option"
  ParseToken :: "string \<Rightarrow> int \<Rightarrow> string \<Rightarrow> bool + token"

definition NewIssuer :: "string \<Rightarrow> int \<Rightarrow> err + Issuer" where
  "NewIssuer key life =
     (if length key < MinSecretLen then Inl (Auth ErrWeakSecret)
      else if life \<le> 0 then Inl Library else Inr \<lparr>secret = key, ttl = life\<rparr>)"

text \<open>\<open>now1\<close> and \<open>now2\<close> are the two readings of the clock.\<close>

definition claim_map :: "Claims \<Rightarrow> int \<Rightarrow> int \<Rightarrow> string \<rightharpoonup> claim_val" where
  "claim_map c iat expiry = [''sub'' \<mapsto> CStr (ClaimUser c), ''name'' \<mapsto> CStr (ClaimName c),
     ''room_id'' \<mapsto> CStr (ClaimRoom c), ''guest'' \<mapsto> CBool (ClaimGuest c),
     ''host'' \<mapsto> CBool (ClaimHost c), ''iss'' \<mapsto> CStr IssuerName, ''iat'' \<mapsto> CDate iat, ''exp'' \<mapsto> CDate expiry]"

definition Issue :: "jwt \<Rightarrow> Issuer \<Rightarrow> int \<Rightarrow> int \<Rightarrow> Claims \<Rightarrow> err + string" where
  "Issue J i now1 now2 c =
     (case SignedString J (secret i) (claim_map c now1 (now2 + ttl i)) of
        None \<Rightarrow> Inl Library | Some t \<Rightarrow> Inr t)"

definition claim_str :: "(string \<rightharpoonup> claim_val) \<Rightarrow> string \<Rightarrow> string" where
  "claim_str cs k = (case cs k of Some (CStr v) \<Rightarrow> v | _ \<Rightarrow> [])"

definition claim_bool :: "(string \<rightharpoonup> claim_val) \<Rightarrow> string \<Rightarrow> bool" where
  "claim_bool cs k = (case cs k of Some (CBool v) \<Rightarrow> v | _ \<Rightarrow> False)"

definition Verify :: "jwt \<Rightarrow> Issuer \<Rightarrow> int \<Rightarrow> string \<Rightarrow> err + Claims" where
  "Verify J i now tokenString = (case ParseToken J (secret i) now tokenString of
       Inl expired \<Rightarrow> Inl (Auth (if expired then ErrTokenExpired else ErrInvalidToken))
     | Inr t \<Rightarrow> (case MapClaims t of None \<Rightarrow> Inl (Auth ErrInvalidToken)
        | Some cs \<Rightarrow>
          if \<not> TokenValid t then Inl (Auth ErrInvalidToken)
          else if cs ''iss'' \<noteq> Some (CStr IssuerName) then Inl (Auth ErrInvalidToken)
          else Inr \<lparr>ClaimUser = claim_str cs ''sub'', ClaimName = claim_str cs ''name'',
                 ClaimRoom = claim_str cs ''room_id'', ClaimGuest = claim_bool cs ''guest'',
                 ClaimHost = claim_bool cs ''host''\<rparr>))"

end
