(* ===== verification/AuthSpec.thy ===== *)
theory AuthSpec
  imports Auth
begin

text \<open>
  Password hashes and tokens are read back: a hash verifies the password it was made of and no
  password with another digest, and a token's claims are those it was issued for.
\<close>

section \<open>Base 64\<close>

text \<open>The six-bit numbers of an encoding.\<close>

fun sextets :: "string \<Rightarrow> nat list" where
  "sextets [] = []"
| "sextets [x] = [byte x div 4, byte x mod 4 * 16]"
| "sextets [x, y] = [byte x div 4, byte x mod 4 * 16 + byte y div 16, byte y mod 16 * 4]"
| "sextets (x # y # z # s) = byte x div 4 # (byte x mod 4 * 16 + byte y div 16) # (byte y mod 16 * 4 + byte z div 64)
     # byte z mod 64 # sextets s"

lemma byte_less: "byte c < 256"
  by (simp add: byte_def)

lemma b64_encode_sextets: "b64_encode s = map b64_char (sextets s)"
  by (induction s rule: sextets.induct) simp_all

lemma byte_parts: "byte x div 4 < 64" "byte x div 16 < 16" "byte x div 64 < 4" "byte x mod 4 \<le> 3" "byte x mod 16 \<le> 15"
  "byte x mod 64 < 64"
  using byte_less [of x] less_Suc_eq_le [of "byte x mod 4" 3] less_Suc_eq_le [of "byte x mod 16" 15]
  by (simp_all add: div_less_iff_less_mult)

lemma sextet_mix: "(a :: nat) \<le> 3 \<Longrightarrow> b < 16 \<Longrightarrow> a * 16 + b < 64" "(a :: nat) \<le> 15 \<Longrightarrow> b < 4 \<Longrightarrow> a * 4 + b < 64"
  "(a :: nat) \<le> 3 \<Longrightarrow> a * 16 < 64" "(a :: nat) \<le> 15 \<Longrightarrow> a * 4 < 64"
  by simp_all

lemma sextets_small: "n \<in> set (sextets s) \<Longrightarrow> n < 64"
proof (induction s rule: sextets.induct)
  case (2 x)
  then show ?case using byte_parts [of x] sextet_mix by auto
next
  case (3 x y)
  from 3 consider "n = byte x div 4" | "n = byte x mod 4 * 16 + byte y div 16" | "n = byte y mod 16 * 4" by auto
  then show ?case by cases (simp_all only: byte_parts sextet_mix)
next
  case (4 x y z s)
  from "4.prems" consider "n = byte x div 4" | "n = byte x mod 4 * 16 + byte y div 16" | "n = byte y mod 16 * 4 + byte z div 64"
    | "n = byte z mod 64" | "n \<in> set (sextets s)" by auto
  then show ?case by cases (simp_all only: byte_parts sextet_mix "4.IH")
qed simp

lemma quanta_sextets: "b64_quanta (sextets s) = Some s"
proof (induction s rule: sextets.induct)
  case (2 x)
  show ?case by (simp add: char_of_byte)
next
  case (3 x y)
  show ?case using byte_parts [of y] by (simp add: char_of_byte)
next
  case (4 x y z s)
  then show ?case using byte_parts [of y] byte_parts [of z] by (simp add: char_of_byte)
qed simp

lemma b64_chars: "n < 64 \<Longrightarrow> b64_val (b64_char n) = Some n \<and> byte (b64_char n) \<noteq> 10 \<and> byte (b64_char n) \<noteq> 13 \<and> b64_char n \<noteq> CHR ''$''"
proof -
  assume n: "n < 64"
  have vals: "map b64_val b64_alphabet = map Some [0..<64]" and len: "length b64_alphabet = 64"
    and plain: "list_all (\<lambda>c. byte c \<noteq> 10 \<and> byte c \<noteq> 13 \<and> c \<noteq> CHR ''$'') b64_alphabet"
    by code_simp+
  have "b64_val (b64_char n) = map b64_val b64_alphabet ! n" using n len by (simp add: b64_char_def)
  then show ?thesis using vals plain n len by (simp add: b64_char_def list_all_length)
qed

lemma b64_round_trip: "b64_decode (b64_encode s) = Some s"
proof -
  have keep: "filter (\<lambda>c. byte c \<noteq> 10 \<and> byte c \<noteq> 13) (map b64_char (sextets s)) = map b64_char (sextets s)"
    using sextets_small [of _ s] b64_chars by (auto simp: filter_id_conv)
  have "map (b64_val \<circ> b64_char) (sextets s) = map Some (sextets s)"
    using sextets_small [of _ s] b64_chars by simp
  then have "map b64_val (filter (\<lambda>c. byte c \<noteq> 10 \<and> byte c \<noteq> 13) (b64_encode s)) = map Some (sextets s)"
    unfolding b64_encode_sextets keep by (simp only: map_map)
  then show ?thesis by (simp add: b64_decode_def Let_def quanta_sextets comp_def image_iff)
qed

lemma b64_no_dollar: "CHR ''$'' \<notin> set (b64_encode s)"
  unfolding b64_encode_sextets using sextets_small [of _ s] b64_chars by (metis image_iff set_map)

section \<open>The PHC format\<close>

lemma split_on_append: "x \<notin> set a \<Longrightarrow> split_on x (a @ x # s) = a # split_on x s"
  by (induction a) auto

lemma split_on_last: "x \<notin> set a \<Longrightarrow> split_on x a = [a]"
  by (induction a) auto

lemma scan_uint_digits:
  assumes "is_digit c" "list_all is_digit ds" "rest = [] \<or> \<not> is_digit (hd rest)" "parse_nat (c # ds) = Some n" "n < 2 ^ bits"
  shows "scan_uint bits (c # ds @ rest) = Some (n, rest)"
proof -
  have "\<not> is_prefix w (c # ds @ rest)" if "w \<in> set space_runes" for w
    using space_runes_ends [OF that] is_prefix_hd [of w "c # ds @ rest"] assms(1) by (auto simp: is_digit_def)
  then have "trim_left_n (length (c # ds @ rest)) (filter (\<lambda>r. r \<noteq> [CHR 0x0A]) space_runes) (c # ds @ rest) = c # ds @ rest"
    by (intro trim_left_stay) auto
  moreover have "takeWhile is_digit (c # ds @ rest) = c # ds" "dropWhile is_digit (c # ds @ rest) = rest"
    using assms(1-3) by (auto simp: takeWhile_append dropWhile_append list_all_iff takeWhile_eq_Nil_iff dropWhile_eq_self_iff)
  ultimately show ?thesis using assms(4,5) by (simp add: scan_uint_def Let_def)
qed

lemma phc_params: "itoa argon2Memory = ''19456''" "itoa argon2Time = ''2''" "itoa argon2Threads = ''1''"
  by code_simp+

lemma scan_phc: "scan_params ''m=19456,t=2,p=1'' = Some \<lparr>memory = argon2Memory, time = argon2Time, threads = argon2Threads\<rparr>"
proof -
  have "scan_uint 32 ''19456,t=2,p=1'' = Some (19456, '',t=2,p=1'')" "scan_uint 32 ''2,p=1'' = Some (2, '',p=1'')"
    "scan_uint 8 ''1'' = Some (1, [])"
    using scan_uint_digits [of "CHR ''1''" "''9456''" "'',t=2,p=1''" 19456 32] scan_uint_digits [of "CHR ''2''" "[]" "'',p=1''" 2 32]
      scan_uint_digits [of "CHR ''1''" "[]" "[]" 1 8]
    by (simp_all add: is_digit_def parse_nat_def digit_val_def)
  then show ?thesis
    by (simp add: scan_params_def scan_literal_def is_prefix_def argon2Memory_def argon2Time_def argon2Threads_def)
qed

lemma split_phc: "split_on (CHR ''$'') (phc_text salt hash) = [[], ''argon2id'', ''v=19'', ''m=19456,t=2,p=1'', b64_encode salt, b64_encode hash]"
proof -
  have "phc_text salt hash = [] @ CHR ''$'' # ''argon2id'' @ CHR ''$'' # ''v=19'' @ CHR ''$'' # ''m=19456,t=2,p=1'' @ CHR ''$''
      # b64_encode salt @ CHR ''$'' # b64_encode hash"
    by (simp add: phc_text_def phc_params)
  then show ?thesis by (simp only: split_on_append split_on_last b64_no_dollar) (simp add: split_on_append split_on_last b64_no_dollar)
qed

lemma parsePHC_phc_text:
  "parsePHC (phc_text salt hash) = Some (\<lparr>memory = argon2Memory, time = argon2Time, threads = argon2Threads\<rparr>, salt, hash)"
  by (simp add: parsePHC_def split_phc Let_def scan_phc b64_round_trip)

text \<open>A hash verifies exactly the passwords with the digest it holds.\<close>

lemma VerifyPassword_hashed:
  assumes "HashPassword IDKey (Some salt) plain = Inr h"
    and "\<And>k. IDKey plain salt argon2Time argon2Memory argon2Threads argon2KeyLen = Some k \<Longrightarrow> length k = argon2KeyLen"
  shows "VerifyPassword IDKey h other
    = (case IDKey other salt argon2Time argon2Memory argon2Threads argon2KeyLen of
         None \<Rightarrow> Inl Panic
       | Some d \<Rightarrow> if Some d \<noteq> IDKey plain salt argon2Time argon2Memory argon2Threads argon2KeyLen
           then Inl (Auth ErrPasswordMismatch) else Inr ())"
proof -
  obtain k where k: "IDKey plain salt argon2Time argon2Memory argon2Threads argon2KeyLen = Some k" "h = phc_text salt k"
    using assms(1) by (auto simp: HashPassword_def split: option.splits)
  then show ?thesis using assms(2) [OF k(1)] by (simp add: VerifyPassword_def parsePHC_phc_text split: option.split)
qed

section \<open>Tokens\<close>

text \<open>The library gives back the claims it signed while they have not expired.\<close>

definition signs_back :: "jwt \<Rightarrow> string \<Rightarrow> bool" where
  "signs_back J key \<longleftrightarrow> (\<forall>cs t now expiry. SignedString J key cs = Some t \<and> cs ''exp'' = Some (CDate expiry) \<longrightarrow>
     ParseToken J key now t = (if now < expiry then Inr \<lparr>MapClaims = Some cs, TokenValid = True\<rparr> else Inl True))"

lemma Verify_issued:
  assumes "signs_back J (secret i)" "Issue J i now1 now2 c = Inr t"
  shows "Verify J i now t = (if now < now2 + ttl i then Inr c else Inl (Auth ErrTokenExpired))"
proof -
  have s: "SignedString J (secret i) (claim_map c now1 (now2 + ttl i)) = Some t"
    using assms(2) by (auto simp: Issue_def split: option.splits)
  have "claim_map c now1 (now2 + ttl i) ''exp'' = Some (CDate (now2 + ttl i))" by (simp add: claim_map_def)
  with assms(1) s have "ParseToken J (secret i) now t = (if now < now2 + ttl i
      then Inr \<lparr>MapClaims = Some (claim_map c now1 (now2 + ttl i)), TokenValid = True\<rparr> else Inl True)"
    unfolding signs_back_def by blast
  then show ?thesis by (simp add: Verify_def claim_map_def claim_str_def claim_bool_def)
qed

end
