(* ===== verification/AccountService.thy ===== *)
theory AccountService
  imports Store Auth
begin

text \<open>
  \<open>internal/account/service.go\<close>: registration, login and refill claims. \<open>issue\<close> is the
  issuer's \<open>Issue\<close> at the time of the call, \<open>IDKey\<close> the argon2 library.
\<close>

definition RefillScope :: string where "RefillScope = ''refill''"
definition RefillWindow :: int where "RefillWindow = 7 * 24 * 3600 * 10 ^ 9"

record Account =
  AccountID :: string
  AccountEmail :: string
  AccountName :: string
  AccountFunds :: tokens

definition check :: "err option \<Rightarrow> ('s, err, unit) eff" where
  "check r = (case r of None \<Rightarrow> ret () | Some e \<Rightarrow> raise e)"

definition account_claims :: "string \<Rightarrow> string \<Rightarrow> Claims" where
  "account_claims userID name = \<lparr>ClaimUser = userID, ClaimName = name, ClaimRoom = [],
     ClaimGuest = False, ClaimHost = False\<rparr>"

definition Register :: "'s redis \<Rightarrow> argon2 \<Rightarrow> (Claims \<Rightarrow> err + string) \<Rightarrow> (string \<Rightarrow> string) \<Rightarrow> string option \<Rightarrow>
    string \<Rightarrow> int \<Rightarrow> string \<Rightarrow> string \<Rightarrow> string \<Rightarrow> ('s, 'x, Account \<times> string) go" where
  "Register R IDKey issue lower salt userID nowMs email password displayName =
     (let normalizedEmail = NormalizeEmail lower email; normalizedName = NormalizeDisplayName displayName in
      andThen (check (ValidateEmail normalizedEmail)) (\<lambda>_.
      andThen (check (ValidatePassword password)) (\<lambda>_.
      andThen (check (ValidateDisplayName normalizedName)) (\<lambda>_.
      andThen (lift_sum (HashPassword IDKey salt password)) (\<lambda>hash.
      attempt (CreateUser R nowMs \<lparr>UserIDOf = userID, Email = normalizedEmail,
          DisplayName = normalizedName, PasswordHash = hash, UserBalance = StartingBalance,
          UserCreatedAt = 0\<rparr>) (\<lambda>r. case r of
        Inl e \<Rightarrow> raise (if e = Store ErrAlreadyExists then Account ErrEmailTaken else e)
      | Inr _ \<Rightarrow>
        andThen (lift_sum (issue (account_claims userID normalizedName))) (\<lambda>tok.
        ret (\<lparr>AccountID = userID, AccountEmail = normalizedEmail, AccountName = normalizedName,
              AccountFunds = StartingBalance\<rparr>, tok))))))))"

definition Login :: "'s redis \<Rightarrow> argon2 \<Rightarrow> (Claims \<Rightarrow> err + string) \<Rightarrow> (string \<Rightarrow> string) \<Rightarrow> string \<Rightarrow>
    string \<Rightarrow> string \<Rightarrow> ('s, 'x, Account \<times> string) go" where
  "Login R IDKey issue lower decoyHash email password =
     attempt (UserByEmail R (NormalizeEmail lower email)) (\<lambda>r. case r of
       Inl e \<Rightarrow>
         if e = Store ErrNotFound
         then andThen (lift_sum (VerifyDecoyPassword IDKey decoyHash password)) (\<lambda>_.
              raise (Account ErrInvalidCredentials))
         else raise e
     | Inr u \<Rightarrow>
       (case VerifyPassword IDKey (PasswordHash u) password of
          Inl e \<Rightarrow> raise (if e = Panic then Panic else Account ErrInvalidCredentials)
        | Inr _ \<Rightarrow>
          andThen (lift_sum (issue (account_claims (UserIDOf u) (DisplayName u)))) (\<lambda>tok.
          ret (\<lparr>AccountID = UserIDOf u, AccountEmail = Email u, AccountName = DisplayName u,
                AccountFunds = UserBalance u\<rparr>, tok))))"

section \<open>Refills\<close>

record RefillResult =
  Credited :: tokens
  RefillBalance :: tokens
  RefillRemaining :: int
  RefillResetAt :: int

text \<open>The slot of a claim that credited nothing is handed back; a failure to do so is ignored.\<close>

definition ClaimRefill :: "'s redis \<Rightarrow> string \<Rightarrow> string \<Rightarrow> ('s, 'x, RefillResult) go" where
  "ClaimRefill R member userID =
     andThen (GetUser R userID) (\<lambda>u.
     andThen (check (CanRefill (UserBalance u) 0)) (\<lambda>_.
     andThen (Allow R member RefillScope userID RefillQuota RefillWindow) (\<lambda>decision.
     if \<not> Allowed decision then raise (Account (QuotaError (RetryAfter decision)))
     else andThen (TopUpBalance R userID RefillTarget) (\<lambda>(credited, newBalance).
     if credited = 0
     then attempt (Revoke R RefillScope userID (Member decision)) (\<lambda>_.
          raise (Domain ErrRefillNotEligible))
     else ret \<lparr>Credited = credited, RefillBalance = newBalance,
               RefillRemaining = Remaining decision, RefillResetAt = ResetAt decision\<rparr>))))"

end
