(* ===== verification/AccountSpec.thy ===== *)
theory AccountSpec
  imports AuthSpec AccountService StoreSpec
begin

text \<open>
  Registration and login through the store: what a registration leaves behind, what later
  logins and registrations make of it, and what a registration whose reply is lost does.
\<close>

section \<open>Claiming an index\<close>

context redis_server
begin

lemma claim_unique_free:
  assumes "strs (view s) ik = None" "args \<noteq> []" "pairs_of args = Some fvs"
  shows "\<exists>s'. claim_unique R ik ek ident args s = (Inr (table [''OK'']), s')
    \<and> view s' = v_hset ek fvs (v_set ik ident None (view s))"
proof -
  obtain s1 where s1: "SETNX R ik ident s = (True, s1)" "view s1 = v_set ik ident None (view s)"
    using SETNX_run [of ik ident s] assms(1) by auto
  show ?thesis using assms(2,3)
    by (simp add: claim_unique_def eff_simps s1(1) lua_need_def) (simp add: writes s1(2))
qed

lemma claim_unique_taken:
  assumes "strs (view s) ik = Some x"
  shows "\<exists>s'. claim_unique R ik ek ident args s = (Inr [LStr ''TAKEN'', LStr x], s') \<and> view s' = view s"
proof -
  obtain s1 where s1: "SETNX R ik ident s = (False, s1)" "view s1 = view s"
    using SETNX_run [of ik ident s] assms by auto
  show ?thesis
    by (intro exI [of _ s1]) (simp add: claim_unique_def eff_defs s1 reads lua_of_def assms)
qed

end

section \<open>Accounts in the store\<close>

definition user_fields :: "User \<Rightarrow> int \<Rightarrow> (string \<times> string) list" where
  "user_fields u nowMs = [(''email'', Email u), (''display_name'', DisplayName u), (''password_hash'', PasswordHash u),
     (''balance'', itoa (UserBalance u)), (''created_at'', itoa nowMs)]"

definition registered_view :: "User \<Rightarrow> int \<Rightarrow> rview \<Rightarrow> rview" where
  "registered_view u nowMs v =
     v_hset (UserKey (UserIDOf u)) (user_fields u nowMs) (v_set (EmailKey (Email u)) (UserIDOf u) None v)"

lemma registered_user:
  assumes "in64 nowMs" "in64 (UserBalance u)"
  shows "user_is (registered_view u nowMs v) (UserIDOf u) (u\<lparr>UserCreatedAt := nowMs\<rparr>)"
    "strs (registered_view u nowMs v) (EmailKey (Email u)) = Some (UserIDOf u)"
proof -
  have "hashes (registered_view u nowMs v) (UserKey (UserIDOf u)) ''email'' = Some (Email u)"
    by (simp add: registered_view_def user_fields_def view_simps)
  then show "user_is (registered_view u nowMs v) (UserIDOf u) (u\<lparr>UserCreatedAt := nowMs\<rparr>)"
    using assms by (auto simp: user_is_def registered_view_def user_fields_def view_simps hfield_def ParseInt_itoa)
qed (simp add: registered_view_def view_simps)

lemma user_rebalanced:
  assumes "user_is v u acct" "hashes v' (UserKey u) = (hashes v (UserKey u))(''balance'' \<mapsto> itoa b)" "in64 b"
  shows "user_is v' u (acct\<lparr>UserBalance := b\<rparr>)"
  using assms by (auto simp: user_is_def hfield_def ParseInt_itoa)

text \<open>The script \<open>CreateUser\<close> runs.\<close>

definition claim_user :: "'s redis \<Rightarrow> User \<Rightarrow> int \<Rightarrow> ('s, err, lua_val list) eff" where
  "claim_user R u nowMs = claim_unique R (EmailKey (Email u)) (UserKey (UserIDOf u)) (UserIDOf u)
     [''email'', Email u, ''display_name'', DisplayName u, ''password_hash'', PasswordHash u,
      ''balance'', itoa (UserBalance u), ''created_at'', itoa nowMs]"

context redis_server
begin

lemma CreateUser_claims: "CreateUser R nowMs u = andThen (call_script (claim_user R u nowMs)) (\<lambda>reply.
    if hd reply = ''OK'' then ret () else if hd reply = ''TAKEN'' then raise (Store ErrAlreadyExists) else raise Malformed)"
  by (simp add: CreateUser_def claim_user_def)

lemma claim_user_free:
  assumes "strs (view s) (EmailKey (Email u)) = None"
  shows "\<exists>s'. claim_user R u nowMs s = (Inr (table [''OK'']), s') \<and> view s' = registered_view u nowMs (view s)"
  unfolding claim_user_def registered_view_def by (rule claim_unique_free [OF assms]) (simp_all add: user_fields_def)

lemma claim_user_taken:
  assumes "strs (view s) (EmailKey (Email u)) = Some x"
  shows "\<exists>s'. claim_user R u nowMs s = (Inr [LStr ''TAKEN'', LStr x], s') \<and> view s' = view s"
  unfolding claim_user_def by (rule claim_unique_taken [OF assms])

lemma CreateUser_quiet:
  fixes w :: "('s, 'x) world_scheme"
  assumes "turns w = []"
  shows "strs (view (db w)) (EmailKey (Email u)) = None \<Longrightarrow> \<exists>s'. CreateUser R nowMs u w = (Inr (), w\<lparr>db := s'\<rparr>)
      \<and> view s' = registered_view u nowMs (view (db w))"
    "strs (view (db w)) (EmailKey (Email u)) = Some x \<Longrightarrow> \<exists>s'. CreateUser R nowMs u w
      = (Inl (Store ErrAlreadyExists), w\<lparr>db := s'\<rparr>) \<and> view s' = view (db w)"
proof -
  show "\<exists>s'. CreateUser R nowMs u w = (Inr (), w\<lparr>db := s'\<rparr>) \<and> view s' = registered_view u nowMs (view (db w))"
    if free: "strs (view (db w)) (EmailKey (Email u)) = None"
  proof -
    obtain s' where s': "claim_user R u nowMs (db w) = (Inr (table [''OK'']), s')" "view s' = registered_view u nowMs (view (db w))"
      using claim_user_free [OF free] by blast
    with assms show ?thesis
      by (intro exI [of _ s']) (simp add: CreateUser_claims call_script_def eff_simps)
  qed
  show "\<exists>s'. CreateUser R nowMs u w = (Inl (Store ErrAlreadyExists), w\<lparr>db := s'\<rparr>) \<and> view s' = view (db w)"
    if taken: "strs (view (db w)) (EmailKey (Email u)) = Some x"
  proof -
    obtain s' where s': "claim_user R u nowMs (db w) = (Inr [LStr ''TAKEN'', LStr x], s')" "view s' = view (db w)"
      using claim_user_taken [OF taken] by blast
    with assms show ?thesis
      by (intro exI [of _ s']) (simp add: CreateUser_claims call_script_def eff_simps toStringSlice_def)
  qed
qed

lemma UserByEmail_quiet:
  assumes "turns w = []"
  shows "strs (view (db w)) (EmailKey e) = Some u \<Longrightarrow> user_is (view (db w)) u acct \<Longrightarrow> UserByEmail R e w = (Inr acct, w)"
    "strs (view (db w)) (EmailKey e) = None \<Longrightarrow> UserByEmail R e w = (Inl (Store ErrNotFound), w)"
  using assms by (simp_all add: UserByEmail_def eff_simps quiet_simps reads GetUser_quiet)

end

section \<open>Registering and logging in\<close>

text \<open>The checks a registration makes before it hashes the password.\<close>

definition acceptable :: "(string \<Rightarrow> string) \<Rightarrow> string \<Rightarrow> string \<Rightarrow> string \<Rightarrow> bool" where
  "acceptable lower email password name \<longleftrightarrow> ValidateEmail (NormalizeEmail lower email) = None
     \<and> ValidatePassword password = None \<and> ValidateDisplayName (NormalizeDisplayName name) = None"

definition new_user :: "(string \<Rightarrow> string) \<Rightarrow> string \<Rightarrow> string \<Rightarrow> string \<Rightarrow> string \<Rightarrow> User" where
  "new_user lower ident email hash name = \<lparr>UserIDOf = ident, Email = NormalizeEmail lower email,
     DisplayName = NormalizeDisplayName name, PasswordHash = hash, UserBalance = StartingBalance, UserCreatedAt = 0\<rparr>"

definition account_of :: "User \<Rightarrow> Account" where
  "account_of u = \<lparr>AccountID = UserIDOf u, AccountEmail = Email u, AccountName = DisplayName u, AccountFunds = UserBalance u\<rparr>"

lemma Register_unfold:
  "Register R IDKey issue lower salt ident nowMs email password name w =
     (case ValidateEmail (NormalizeEmail lower email) of Some e \<Rightarrow> (Inl e, w) | None \<Rightarrow>
     (case ValidatePassword password of Some e \<Rightarrow> (Inl e, w) | None \<Rightarrow>
     (case ValidateDisplayName (NormalizeDisplayName name) of Some e \<Rightarrow> (Inl e, w) | None \<Rightarrow>
     (case HashPassword IDKey salt password of Inl e \<Rightarrow> (Inl e, w) | Inr h \<Rightarrow>
     (case CreateUser R nowMs (new_user lower ident email h name) w of
        (Inl e, w') \<Rightarrow> (Inl (if e = Store ErrAlreadyExists then Account ErrEmailTaken else e), w')
      | (Inr _, w') \<Rightarrow> (case issue (account_claims ident (NormalizeDisplayName name)) of Inl e \<Rightarrow> (Inl e, w')
          | Inr tok \<Rightarrow> (Inr (account_of (new_user lower ident email h name), tok), w')))))))"
  by (auto simp: Register_def Let_def eff_defs check_def lift_sum_def new_user_def account_of_def
      split: option.splits sum.splits prod.splits)

lemma Login_unfold:
  "Login R IDKey issue lower decoy email password w =
     (case UserByEmail R (NormalizeEmail lower email) w of
        (Inl e, w') \<Rightarrow> (if e = Store ErrNotFound then (case VerifyDecoyPassword IDKey decoy password of
             Inl e \<Rightarrow> (Inl e, w') | Inr _ \<Rightarrow> (Inl (Account ErrInvalidCredentials), w')) else (Inl e, w'))
      | (Inr u, w') \<Rightarrow> (case VerifyPassword IDKey (PasswordHash u) password of
           Inl e \<Rightarrow> (Inl (if e = Panic then Panic else Account ErrInvalidCredentials), w')
         | Inr _ \<Rightarrow> (case issue (account_claims (UserIDOf u) (DisplayName u)) of Inl e \<Rightarrow> (Inl e, w')
             | Inr tok \<Rightarrow> (Inr (account_of u, tok), w'))))"
  by (auto simp: Login_def eff_defs lift_sum_def account_of_def split: sum.splits prod.splits)

context redis_server
begin

lemma Register_succeeded:
  fixes w :: "('s, 'x) world_scheme"
  assumes "turns w = []" "Register R IDKey issue lower salt ident nowMs email password name w = (Inr (acct, tok), w')"
  obtains h where "acceptable lower email password name" "HashPassword IDKey salt password = Inr h"
    "issue (account_claims ident (NormalizeDisplayName name)) = Inr tok"
    "acct = account_of (new_user lower ident email h name)"
    "strs (view (db w)) (EmailKey (NormalizeEmail lower email)) = None"
    "view (db w') = registered_view (new_user lower ident email h name) nowMs (view (db w))" "turns w' = []"
proof -
  from assms(2) obtain h where h: "acceptable lower email password name" "HashPassword IDKey salt password = Inr h"
    "CreateUser R nowMs (new_user lower ident email h name) w = (Inr (), w')"
    "issue (account_claims ident (NormalizeDisplayName name)) = Inr tok" "acct = account_of (new_user lower ident email h name)"
    by (auto simp: Register_unfold acceptable_def split: option.splits sum.splits prod.splits if_splits)
  have free: "strs (view (db w)) (EmailKey (NormalizeEmail lower email)) = None"
  proof (rule ccontr)
    assume "\<not> ?thesis"
    then show False using CreateUser_quiet(2) [OF assms(1), of "new_user lower ident email h name" _ nowMs] h(3)
      by (auto simp: new_user_def)
  qed
  moreover have "view (db w') = registered_view (new_user lower ident email h name) nowMs (view (db w))" "turns w' = []"
    using CreateUser_quiet(1) [OF assms(1), of "new_user lower ident email h name" nowMs] h(3) free assms(1)
    by (auto simp: new_user_def)
  ultimately show thesis using that h(1,2,4,5) by blast
qed

lemma Register_taken:
  fixes w :: "('s, 'x) world_scheme"
  assumes "turns w = []" "strs (view (db w)) (EmailKey (NormalizeEmail lower email)) \<noteq> None"
    and "acceptable lower email password name" "HashPassword IDKey salt password = Inr h"
  shows "\<exists>s'. Register R IDKey issue lower salt ident nowMs email password name w
    = (Inl (Account ErrEmailTaken), w\<lparr>db := s'\<rparr>) \<and> view s' = view (db w)"
proof -
  obtain x where "strs (view (db w)) (EmailKey (NormalizeEmail lower email)) = Some x" using assms(2) by blast
  then obtain s' where "CreateUser R nowMs (new_user lower ident email h name) w = (Inl (Store ErrAlreadyExists), w\<lparr>db := s'\<rparr>)"
    "view s' = view (db w)"
    using CreateUser_quiet(2) [OF assms(1), of "new_user lower ident email h name" x nowMs] by (auto simp: new_user_def)
  with assms(3,4) show ?thesis by (intro exI [of _ s']) (simp add: Register_unfold acceptable_def)
qed

lemma Login_quiet:
  fixes w :: "('s, 'x) world_scheme"
  assumes "turns w = []"
  shows "strs (view (db w)) (EmailKey (NormalizeEmail lower email)) = Some u \<Longrightarrow> user_is (view (db w)) u acct \<Longrightarrow>
      Login R IDKey issue lower decoy email password w =
        (case VerifyPassword IDKey (PasswordHash acct) password of
           Inl e \<Rightarrow> Inl (if e = Panic then Panic else Account ErrInvalidCredentials)
         | Inr _ \<Rightarrow> (case issue (account_claims u (DisplayName acct)) of Inl e \<Rightarrow> Inl e
             | Inr tok \<Rightarrow> Inr (account_of acct, tok)), w)"
    "strs (view (db w)) (EmailKey (NormalizeEmail lower email)) = None \<Longrightarrow>
      Login R IDKey issue lower decoy email password w =
        (case VerifyDecoyPassword IDKey decoy password of Inl e \<Rightarrow> Inl e | Inr _ \<Rightarrow> Inl (Account ErrInvalidCredentials), w)"
  using assms by (auto simp: Login_unfold UserByEmail_quiet user_is_def split: sum.split)

lemma Register_reply_lost:
  fixes w :: "('s, 'x) world_scheme"
  assumes "turns w = [Turn [id] id Answered]" "strs (view (db w)) (EmailKey (NormalizeEmail lower email)) = None"
    and "acceptable lower email password name" "HashPassword IDKey salt password = Inr h"
  shows "\<exists>w'. Register R IDKey issue lower salt ident nowMs email password name w = (Inl (Account ErrEmailTaken), w')
    \<and> view (db w') = registered_view (new_user lower ident email h name) nowMs (view (db w))"
proof -
  define u where "u = new_user lower ident email h name"
  have e: "Email u = NormalizeEmail lower email" by (simp add: u_def new_user_def)
  obtain s1 where s1: "claim_user R u nowMs (db w) = (Inr (table [''OK'']), s1)" "view s1 = registered_view u nowMs (view (db w))"
    using claim_user_free [OF assms(2) [folded e]] by blast
  obtain s2 where s2: "claim_user R u nowMs s1 = (Inr [LStr ''TAKEN'', LStr (UserIDOf u)], s2)" "view s2 = view s1"
    using claim_user_taken [of s1 u "UserIDOf u"] by (auto simp: s1(2) registered_view_def view_simps)
  have "roundtrip (claim_user R u nowMs) w = (Inr [LStr ''TAKEN'', LStr (UserIDOf u)], w\<lparr>db := s2, turns := []\<rparr>)"
    using assms(1) by (simp add: roundtrip_def delivered_def resend_def s1(1) s2(1))
  then have "CreateUser R nowMs u w = (Inl (Store ErrAlreadyExists), w\<lparr>db := s2, turns := []\<rparr>)"
    by (simp add: CreateUser_claims call_script_def eff_simps toStringSlice_def)
  with assms(3,4) show ?thesis
    by (intro exI [of _ "w\<lparr>db := s2, turns := []\<rparr>"]) (simp add: Register_unfold acceptable_def s1(2) s2(2) flip: u_def)
qed

end

text \<open>The digest of a password under the parameters in use.\<close>

abbreviation digest :: "argon2 \<Rightarrow> string \<Rightarrow> string \<Rightarrow> string option" where
  "digest IDKey salt password \<equiv> IDKey password salt argon2Time argon2Memory argon2Threads argon2KeyLen"

context redis_server
begin

lemma login_after_registration:
  fixes w :: "('s, 'x) world_scheme" and w2 :: "('s, 'y) world_scheme"
  assumes "turns w = []" and "in64 nowMs" and "signs_back J (secret i)"
    and "Register R IDKey (Issue J i now1 now2) lower (Some salt) ident nowMs email password name w = (Inr (acct, tok), w')"
    and "\<And>k. digest IDKey salt password = Some k \<Longrightarrow> length k = argon2KeyLen"
    and "turns w2 = []" and "in64 b"
    and "strs (view (db w2)) (EmailKey (AccountEmail acct)) = strs (view (db w')) (EmailKey (AccountEmail acct))"
    and "hashes (view (db w2)) (UserKey ident) = (hashes (view (db w')) (UserKey ident))(''balance'' \<mapsto> itoa b)"
    and "NormalizeEmail lower again = NormalizeEmail lower email"
    and "strs (view (db w2)) (EmailKey (NormalizeEmail lower stranger)) = None"
  shows "acct = \<lparr>AccountID = ident, AccountEmail = NormalizeEmail lower email, AccountName = NormalizeDisplayName name,
        AccountFunds = StartingBalance\<rparr>
    \<and> Verify J i now tok = (if now < now2 + ttl i then Inr (account_claims ident (AccountName acct)) else Inl (Auth ErrTokenExpired))
    \<and> Login R IDKey issue lower decoy again other w2 =
        (case digest IDKey salt other of None \<Rightarrow> Inl Panic
         | Some d \<Rightarrow> if Some d \<noteq> digest IDKey salt password then Inl (Account ErrInvalidCredentials)
             else (case issue (account_claims ident (AccountName acct)) of Inl e \<Rightarrow> Inl e
               | Inr t \<Rightarrow> Inr (acct\<lparr>AccountFunds := b\<rparr>, t)), w2)
    \<and> Login R IDKey issue lower decoy stranger other w2 =
        (case VerifyDecoyPassword IDKey decoy other of Inl e \<Rightarrow> Inl e | Inr _ \<Rightarrow> Inl (Account ErrInvalidCredentials), w2)
    \<and> (acceptable lower again other name2 \<and> HashPassword IDKey salt2 other = Inr h2 \<longrightarrow>
        (\<exists>s. Register R IDKey issue lower salt2 ident2 later again other name2 w2
          = (Inl (Account ErrEmailTaken), w2\<lparr>db := s\<rparr>) \<and> view s = view (db w2)))"
proof -
  from Register_succeeded [OF assms(1,4)] obtain h where h: "HashPassword IDKey (Some salt) password = Inr h"
    "Issue J i now1 now2 (account_claims ident (NormalizeDisplayName name)) = Inr tok"
    "acct = account_of (new_user lower ident email h name)"
    "view (db w') = registered_view (new_user lower ident email h name) nowMs (view (db w))" by blast
  define u where "u = new_user lower ident email h name"
  have u: "UserIDOf u = ident" "Email u = NormalizeEmail lower email" "DisplayName u = NormalizeDisplayName name"
    "PasswordHash u = h" "in64 (UserBalance u)" "UserBalance u = StartingBalance"
    by (simp_all add: u_def new_user_def in64_def StartingBalance_def)
  have acct: "acct = account_of u" "account_of u = \<lparr>AccountID = ident, AccountEmail = NormalizeEmail lower email,
      AccountName = NormalizeDisplayName name, AccountFunds = StartingBalance\<rparr>"
    by (simp_all add: h(3) u_def new_user_def account_of_def)
  have "user_is (view (db w')) ident (u\<lparr>UserCreatedAt := nowMs\<rparr>)" "strs (view (db w')) (EmailKey (NormalizeEmail lower email)) = Some ident"
    using registered_user [OF assms(2) u(5), of "view (db w)"] unfolding u(1,2) by (simp_all add: h(4) u_def)
  then have later: "user_is (view (db w2)) ident (u\<lparr>UserCreatedAt := nowMs, UserBalance := b\<rparr>)"
    "strs (view (db w2)) (EmailKey (NormalizeEmail lower again)) = Some ident"
    using user_rebalanced [OF _ assms(9,7)] assms(8,10) by (simp_all add: acct)
  note login = Login_quiet(1) [OF assms(6) later(2,1), of IDKey issue decoy other]
  have funds: "account_of (u\<lparr>UserCreatedAt := nowMs, UserBalance := b\<rparr>) = acct\<lparr>AccountFunds := b\<rparr>"
    unfolding acct(1) by (simp add: account_of_def)
  have name: "AccountName acct = NormalizeDisplayName name" unfolding acct by simp
  have "Login R IDKey issue lower decoy again other w2 = (case digest IDKey salt other of None \<Rightarrow> Inl Panic
      | Some d \<Rightarrow> if Some d \<noteq> digest IDKey salt password then Inl (Account ErrInvalidCredentials)
          else (case issue (account_claims ident (AccountName acct)) of Inl e \<Rightarrow> Inl e
            | Inr t \<Rightarrow> Inr (acct\<lparr>AccountFunds := b\<rparr>, t)), w2)"
    unfolding login name funds by (simp add: u VerifyPassword_hashed [OF h(1) assms(5)] split: option.split)
  moreover have "acceptable lower again other name2 \<and> HashPassword IDKey salt2 other = Inr h2 \<longrightarrow>
      (\<exists>s. Register R IDKey issue lower salt2 ident2 later again other name2 w2
        = (Inl (Account ErrEmailTaken), w2\<lparr>db := s\<rparr>) \<and> view s = view (db w2))"
    using Register_taken [OF assms(6), of lower again other name2] later(2) by blast
  ultimately show ?thesis using Verify_issued [OF assms(3) h(2)] Login_quiet(2) [OF assms(6,11)] acct by (simp add: account_claims_def)
qed

end

text \<open>
  C19. An account that was registered can be logged in to. When \<open>Register\<close> has succeeded, the token it
  returned names the account until it expires; and at any later time at which the index and the account
  are as they were left but for the balance, \<open>Login\<close> with any spelling of the email that normalises to
  the same returns the account with its balance of then and a token for it exactly if the password has
  the digest of the registered one, and invalid credentials otherwise, the error an email nobody
  registered gets too; and another registration of the email is refused and changes nothing.
\<close>

theorem register_then_login:
  assumes "redis_server R view" and "turns w = []" and "in64 nowMs" and "signs_back J (secret i)"
    and "Register R IDKey (Issue J i now1 now2) lower (Some salt) ident nowMs email password name w = (Inr (acct, tok), w')"
    and "\<And>k. digest IDKey salt password = Some k \<Longrightarrow> length k = argon2KeyLen"
    and "turns w2 = []" and "in64 b"
    and "strs (view (db w2)) (EmailKey (AccountEmail acct)) = strs (view (db w')) (EmailKey (AccountEmail acct))"
    and "hashes (view (db w2)) (UserKey ident) = (hashes (view (db w')) (UserKey ident))(''balance'' \<mapsto> itoa b)"
    and "NormalizeEmail lower again = NormalizeEmail lower email"
    and "strs (view (db w2)) (EmailKey (NormalizeEmail lower stranger)) = None"
  shows "acct = \<lparr>AccountID = ident, AccountEmail = NormalizeEmail lower email, AccountName = NormalizeDisplayName name,
        AccountFunds = StartingBalance\<rparr>
    \<and> Verify J i now tok = (if now < now2 + ttl i then Inr (account_claims ident (AccountName acct)) else Inl (Auth ErrTokenExpired))
    \<and> Login R IDKey issue lower decoy again other w2 =
        (case digest IDKey salt other of None \<Rightarrow> Inl Panic
         | Some d \<Rightarrow> if Some d \<noteq> digest IDKey salt password then Inl (Account ErrInvalidCredentials)
             else (case issue (account_claims ident (AccountName acct)) of Inl e \<Rightarrow> Inl e
               | Inr t \<Rightarrow> Inr (acct\<lparr>AccountFunds := b\<rparr>, t)), w2)
    \<and> Login R IDKey issue lower decoy stranger other w2 =
        (case VerifyDecoyPassword IDKey decoy other of Inl e \<Rightarrow> Inl e | Inr _ \<Rightarrow> Inl (Account ErrInvalidCredentials), w2)
    \<and> (acceptable lower again other name2 \<and> HashPassword IDKey salt2 other = Inr h2 \<longrightarrow>
        (\<exists>s. Register R IDKey issue lower salt2 ident2 later again other name2 w2
          = (Inl (Account ErrEmailTaken), w2\<lparr>db := s\<rparr>) \<and> view s = view (db w2)))"
  by (rule redis_server.login_after_registration [OF assms])

text \<open>
  C20. A registration whose reply is lost is reported as refused. The client of the store sends a
  command again when its reply does not arrive; the second run of the script finds the index the
  first one claimed and ignores that it points at the same account. So \<open>Register\<close> returns
  \<open>ErrEmailTaken\<close> and no token, although the account exists, with the password just chosen.
\<close>

theorem registration_reply_lost:
  assumes "redis_server R view" and "turns w = [Turn [id] id Answered]"
    and "strs (view (db w)) (EmailKey (NormalizeEmail lower email)) = None"
    and "acceptable lower email password name" "HashPassword IDKey salt password = Inr h" "in64 nowMs"
  shows "\<exists>w'. Register R IDKey issue lower salt ident nowMs email password name w = (Inl (Account ErrEmailTaken), w')
    \<and> strs (view (db w')) (EmailKey (NormalizeEmail lower email)) = Some ident
    \<and> user_is (view (db w')) ident (new_user lower ident email h name\<lparr>UserCreatedAt := nowMs\<rparr>)"
proof -
  let ?u = "new_user lower ident email h name"
  have "UserIDOf ?u = ident" "Email ?u = NormalizeEmail lower email" "in64 (UserBalance ?u)"
    by (simp_all add: new_user_def in64_def StartingBalance_def)
  with redis_server.Register_reply_lost [OF assms(1-5)] registered_user [OF assms(6), of ?u "view (db w)"] show ?thesis
    by (metis (no_types))
qed

section \<open>An account\<close>

definition demo_argon2 :: argon2 where
  "demo_argon2 = (\<lambda>password salt _ _ _ n. Some (take n (password @ replicate n (CHR ''0''))))"

definition demo_issuer :: Issuer where
  "demo_issuer = \<lparr>secret = ''key'', ttl = 60\<rparr>"

text \<open>A library that signs one set of claims.\<close>

definition demo_signer :: "(string \<rightharpoonup> claim_val) \<Rightarrow> int \<Rightarrow> jwt" where
  "demo_signer cs expiry = \<lparr>SignedString = (\<lambda>_ cs'. if cs' = cs then Some ''t'' else None),
     ParseToken = (\<lambda>_ now t. if now < expiry then Inr \<lparr>MapClaims = Some cs, TokenValid = True\<rparr> else Inl True)\<rparr>"

definition demo_jwt_for :: "Claims \<Rightarrow> jwt" where
  "demo_jwt_for c = demo_signer (claim_map c 5 66) 66"

lemma demo_signs:
  "signs_back (demo_jwt_for c) (secret demo_issuer)" "Issue (demo_jwt_for c) demo_issuer 5 6 c = Inr ''t''"
  by (auto simp: signs_back_def demo_jwt_for_def demo_signer_def claim_map_def Issue_def demo_issuer_def)

abbreviation demo_mint :: "Claims \<Rightarrow> err + string" where
  "demo_mint \<equiv> Issue (demo_jwt_for (account_claims ''u1'' ''Ann'')) demo_issuer 5 6"

lemma demo_digest: "digest demo_argon2 salt password = Some k \<Longrightarrow> length k = argon2KeyLen"
  by (auto simp: demo_argon2_def)

lemma demo_credentials:
  "NormalizeEmail id '' Ann@x.org'' = ''ann@x.org''" "NormalizeEmail id ''ann@x.org'' = ''ann@x.org''"
  "acceptable id ''ann@x.org'' ''correct horse'' ''Ann''" "NormalizeDisplayName ''Ann'' = ''Ann''"
proof -
  have t: "TrimSpace ''ann@x.org'' = ''ann@x.org''" "TrimSpace ''Ann'' = ''Ann''"
    by (rule TrimSpace_id, simp add: printable_def)+
  have "TrimSpace '' Ann@x.org'' = ''Ann@x.org''" by code_simp
  moreover have "ToLower id ''Ann@x.org'' = ''ann@x.org''" "ToLower id ''ann@x.org'' = ''ann@x.org''" by code_simp+
  ultimately show n: "NormalizeEmail id '' Ann@x.org'' = ''ann@x.org''" "NormalizeEmail id ''ann@x.org'' = ''ann@x.org''"
    "NormalizeDisplayName ''Ann'' = ''Ann''" by (simp_all add: NormalizeEmail_def NormalizeDisplayName_def t)
  have "ValidateEmail ''ann@x.org'' = None" "ValidatePassword ''correct horse'' = None" "ValidateDisplayName ''Ann'' = None"
    by code_simp+
  then show "acceptable id ''ann@x.org'' ''correct horse'' ''Ann''" by (simp add: acceptable_def n)
qed

definition demo_phc :: string where
  "demo_phc = phc_text ''salt'' (''correct horse'' @ replicate 19 (CHR ''0''))"

lemma demo_hash: "HashPassword demo_argon2 (Some ''salt'') ''correct horse'' = Inr demo_phc"
  by (simp add: demo_phc_def HashPassword_def demo_argon2_def argon2KeyLen_def)

lemma demo_unregistered: "strs (mem_view demo) (EmailKey e) = None"
  by (simp add: demo_def slot_def key_simps EmailKey_def RoomRoundKey_def)

theorem register_then_login_witness:
  "\<exists>acct w'. Register mem_redis demo_argon2 demo_mint id (Some ''salt'') ''u1'' 7 ''ann@x.org''
        ''correct horse'' ''Ann'' (\<lparr>db = demo, turns = []\<rparr> :: mem world) = (Inr (acct, ''t''), w')
    \<and> Login mem_redis demo_argon2 (\<lambda>_. Inr ''t2'') id [] '' Ann@x.org'' ''correct horse''
        (w'\<lparr>db := mem_hset (UserKey ''u1'') [(''balance'', itoa 40)] (db w')\<rparr>)
      = (Inr (acct\<lparr>AccountFunds := 40\<rparr>, ''t2''), w'\<lparr>db := mem_hset (UserKey ''u1'') [(''balance'', itoa 40)] (db w')\<rparr>)"
proof -
  let ?w = "\<lparr>db = demo, turns = []\<rparr> :: mem world"
  let ?u = "new_user id ''u1'' ''ann@x.org'' demo_phc ''Ann''"
  have e: "Email ?u = ''ann@x.org''" by (simp add: new_user_def demo_credentials)
  obtain s where s: "CreateUser mem_redis 7 ?u ?w = (Inr (), ?w\<lparr>db := s\<rparr>)" "mem_view s = registered_view ?u 7 (mem_view demo)"
    using mem.CreateUser_quiet(1) [of ?w ?u 7] unfolding e by (auto simp: demo_unregistered simp del: mem_view_sel)
  have reg: "Register mem_redis demo_argon2 demo_mint id (Some ''salt'') ''u1'' 7 ''ann@x.org''
      ''correct horse'' ''Ann'' ?w = (Inr (account_of ?u, ''t''), ?w\<lparr>db := s\<rparr>)"
    using demo_credentials(3) by (simp add: Register_unfold acceptable_def demo_hash s(1) demo_credentials(4) demo_signs(2))
  let ?w2 = "\<lparr>db = mem_hset (UserKey ''u1'') [(''balance'', itoa 40)] s, turns = []\<rparr> :: mem world"
  have v: "mem_view (db ?w2) = v_hset (UserKey ''u1'') [(''balance'', itoa 40)] (mem_view s)" by simp
  have stranger: "strs (mem_view (db ?w2)) (EmailKey (NormalizeEmail id [])) = None"
  proof -
    have "NormalizeEmail id [] = []" by code_simp
    then show ?thesis unfolding v s(2) using demo_unregistered [of "[]"] by (simp add: registered_view_def view_simps e EmailKey_def del: mem_view_sel)
  qed
  have pw: "digest demo_argon2 ''salt'' ''correct horse'' = Some k \<Longrightarrow> length k = argon2KeyLen" for k
    by (rule demo_digest)
  have later: "hashes (mem_view (db ?w2)) (UserKey ''u1'') = (hashes (mem_view s) (UserKey ''u1''))(''balance'' \<mapsto> itoa 40)"
    "strs (mem_view (db ?w2)) = strs (mem_view s)" "in64 (7 :: int)" "in64 (40 :: int)"
    "NormalizeEmail id '' Ann@x.org'' = NormalizeEmail id ''ann@x.org''"
    unfolding v by (simp_all add: view_simps in64_def demo_credentials del: mem_view_sel)
  have name: "AccountName (account_of ?u) = ''Ann''" by (simp add: account_of_def new_user_def demo_credentials)
  have "Login mem_redis demo_argon2 (\<lambda>_. Inr ''t2'') id [] '' Ann@x.org'' ''correct horse'' ?w2
      = (case digest demo_argon2 ''salt'' ''correct horse'' of None \<Rightarrow> Inl Panic
         | Some d \<Rightarrow> if Some d \<noteq> digest demo_argon2 ''salt'' ''correct horse'' then Inl (Account ErrInvalidCredentials)
             else (case (\<lambda>_. Inr ''t2'') (account_claims ''u1'' (AccountName (account_of ?u))) of Inl e \<Rightarrow> Inl e
               | Inr t \<Rightarrow> Inr (account_of ?u\<lparr>AccountFunds := 40\<rparr>, t)), ?w2)"
    by (rule register_then_login [where ?w2.0 = ?w2, OF mem.redis_server_axioms _ later(3) demo_signs(1) reg pw _ later(4) _ _ later(5) stranger,
          THEN conjunct2, THEN conjunct2, THEN conjunct1])
      (use later(1,2) in \<open>simp_all del: mem_view_sel\<close>)
  then have "Login mem_redis demo_argon2 (\<lambda>_. Inr ''t2'') id [] '' Ann@x.org'' ''correct horse'' ?w2
      = (Inr (account_of ?u\<lparr>AccountFunds := 40\<rparr>, ''t2''), ?w2)"
    by (simp add: demo_argon2_def)
  with reg show ?thesis by (intro exI [of _ "account_of ?u"] exI [of _ "?w\<lparr>db := s\<rparr>"]) simp
qed

theorem registration_reply_lost_witness:
  "\<exists>w'. Register mem_redis demo_argon2 demo_mint id (Some ''salt'') ''u1'' 7 ''ann@x.org''
        ''correct horse'' ''Ann'' (\<lparr>db = demo, turns = [Turn [id] id Answered]\<rparr> :: mem world) = (Inl (Account ErrEmailTaken), w')
    \<and> strs (mem_view (db w')) (EmailKey ''ann@x.org'') = Some ''u1''"
  using registration_reply_lost [OF mem.redis_server_axioms _ _ demo_credentials(3) demo_hash, of "\<lparr>db = demo, turns = [Turn [id] id Answered]\<rparr>" 7
      demo_mint "''u1''"]
  by (auto simp: demo_credentials demo_unregistered in64_def simp del: mem_view_sel)

end
