(* ===== verification/RoomService.thy ===== *)
theory RoomService
  imports Store Auth
begin

text \<open>
  \<open>internal/room\<close>: creating a room under a generated code, and joining one by its code as a
  guest or an account holder (\<open>code.go\<close>, \<open>service.go\<close>).
\<close>

section \<open>Room codes\<close>

definition CodeLen :: nat where "CodeLen = 6"
definition CodeAlphabet :: string where "CodeAlphabet = ''ABCDEFGHJKMNPQRSTUVWXYZ23456789''"

text \<open>\<open>buf\<close> is what the reader has to give; too little is an error.\<close>

definition GenerateCode :: "string \<Rightarrow> err + string" where
  "GenerateCode buf =
     (if length buf < CodeLen then Inl Library
      else Inr (map (\<lambda>b. CodeAlphabet ! (byte b mod length CodeAlphabet)) (take CodeLen buf)))"

section \<open>Creating\<close>

definition maxCodeAttempts :: nat where "maxCodeAttempts = 5"

record Created =
  CreatedRoom :: string
  CreatedCode :: string
  CreatedBuyIn :: tokens
  CreatedToken :: string

text \<open>
  The loop over generated codes: \<open>rnd\<close> gives the reader's bytes and the creation time of
  every attempt.
\<close>

function claim_code :: "'s redis \<Rightarrow> (nat \<Rightarrow> string \<times> int) \<Rightarrow> string \<Rightarrow> string \<Rightarrow> tokens \<Rightarrow> nat \<Rightarrow>
    ('s, 'x, string) go" where
  "claim_code R rnd roomID hostID buyIn attmpt =
     (if attmpt \<ge> maxCodeAttempts then raise (Room ErrCodeExhausted)
      else andThen (lift_sum (GenerateCode (fst (rnd attmpt)))) (\<lambda>c.
        attempt (CreateRoom R (snd (rnd attmpt)) roomID c hostID buyIn) (\<lambda>r. case r of
          Inr _ \<Rightarrow> ret c
        | Inl e \<Rightarrow> if e = Store ErrAlreadyExists then claim_code R rnd roomID hostID buyIn (Suc attmpt)
            else raise e)))"
  by pat_completeness auto
termination by (relation "measure (\<lambda>(_, _, _, _, _, k). maxCodeAttempts - k)") auto

declare claim_code.simps [simp del]

text \<open>\<open>issue\<close> is the issuer's \<open>Issue\<close> at the time of the call.\<close>

definition CreateRoomFor :: "'s redis \<Rightarrow> (Claims \<Rightarrow> err + string) \<Rightarrow> (nat \<Rightarrow> string \<times> int) \<Rightarrow> string \<Rightarrow> string \<Rightarrow>
    string \<Rightarrow> tokens \<Rightarrow> ('s, 'x, Created) go" where
  "CreateRoomFor R issue rnd roomID hostID hostName buyIn =
     andThen (claim_code R rnd roomID hostID buyIn 0) (\<lambda>code.
     andThen (JoinRoom R roomID hostID buyIn) (\<lambda>_.
     andThen (lift_sum (issue \<lparr>ClaimUser = hostID, ClaimName = hostName, ClaimRoom = roomID,
       ClaimGuest = False, ClaimHost = True\<rparr>)) (\<lambda>tok.
     ret \<lparr>CreatedRoom = roomID, CreatedCode = code, CreatedBuyIn = buyIn, CreatedToken = tok\<rparr>)))"

section \<open>Joining\<close>

record JoinRequest =
  JoinUser :: string
  JoinName :: string
  JoinGuest :: bool
  AccountBalance :: tokens

record Joined =
  JoinedRoom :: string
  JoinedCode :: string
  JoinedBuyIn :: tokens
  SessionBal :: tokens
  PartialBuyIn :: bool
  JoinedGuest :: bool
  JoinedToken :: string

definition session_balance :: "JoinRequest \<Rightarrow> tokens \<Rightarrow> tokens \<times> bool" where
  "session_balance c buyIn =
     (if \<not> JoinGuest c then (AccountSessionBalance (AccountBalance c) buyIn, IsPartialBuyIn (AccountBalance c) buyIn)
      else (GuestSessionBalance buyIn, False))"

definition Join :: "'s redis \<Rightarrow> (Claims \<Rightarrow> err + string) \<Rightarrow> string \<Rightarrow> string \<Rightarrow> JoinRequest \<Rightarrow>
    ('s, 'x, Joined) go" where
  "Join R issue freshID code c =
     andThen (RoomByCode R code) (\<lambda>roomID.
     andThen (GetRoom R roomID) (\<lambda>rm.
     if RoomStatus rm \<noteq> ''open'' then raise (Room ErrNotJoinable)
     else let userID = (if JoinUser c = [] then freshID else JoinUser c);
              (sessionBalance, partial) = session_balance c (BuyIn rm) in
     andThen (JoinRoom R roomID userID sessionBalance) (\<lambda>effective.
     andThen (lift_sum (issue \<lparr>ClaimUser = userID, ClaimName = JoinName c, ClaimRoom = roomID,
       ClaimGuest = JoinGuest c, ClaimHost = False\<rparr>)) (\<lambda>tok.
     ret \<lparr>JoinedRoom = roomID, JoinedCode = code, JoinedBuyIn = BuyIn rm, SessionBal = effective,
          PartialBuyIn = partial, JoinedGuest = JoinGuest c, JoinedToken = tok\<rparr>))))"

end
