(* ===== verification/RoomSpec.thy ===== *)
theory RoomSpec
  imports AccountSpec RoomService
begin

text \<open>
  Creating a room and joining it by its code, in a store nobody else uses meanwhile.
\<close>

section \<open>Rooms in the store\<close>

definition room_fields :: "string \<Rightarrow> tokens \<Rightarrow> int \<Rightarrow> (string \<times> string) list" where
  "room_fields host buyIn nowMs = [(''host_id'', host), (''buy_in'', itoa buyIn), (''status'', ''open''),
     (''created_at'', itoa nowMs)]"

definition opened_view :: "string \<Rightarrow> string \<Rightarrow> string \<Rightarrow> tokens \<Rightarrow> int \<Rightarrow> rview \<Rightarrow> rview" where
  "opened_view room code host buyIn nowMs v =
     v_hset (RoomKey room) (room_fields host buyIn nowMs) (v_set (RoomCodeKey code) room None v)"

definition new_room :: "string \<Rightarrow> string \<Rightarrow> tokens \<Rightarrow> int \<Rightarrow> Room" where
  "new_room room host buyIn nowMs = \<lparr>RoomIDOf = room, HostID = host, BuyIn = buyIn, RoomStatus = ''open'', RoomCreatedAt = nowMs\<rparr>"

lemma opened_room:
  assumes "in64 nowMs" "in64 buyIn"
  shows "room_is (opened_view room code host buyIn nowMs v) room (new_room room host buyIn nowMs)"
proof -
  have "hashes (opened_view room code host buyIn nowMs v) (RoomKey room) ''host_id'' = Some host"
    by (simp add: opened_view_def room_fields_def view_simps)
  then show ?thesis using assms
    by (auto simp: room_is_def room_hash_def new_room_def opened_view_def room_fields_def view_simps hfield_def ParseInt_itoa)
qed

lemma joined_session:
  assumes "in64 b" "wallets v room u = None" "hashes v (RoomOpeningKey room) u = None"
  shows "session_is (joined_view room u b v) room u b b"
  using assms by (simp add: session_is_def joined_view_def if_absent_def wallets_def view_simps key_simps)

lemma joined_room: "room_is (joined_view room u b v) room rm = room_is v room rm"
  by (simp add: room_is_def room_hash_def joined_view_def view_simps key_simps)

lemma opened_wallets:
  "wallets (opened_view room code host buyIn nowMs v) room = wallets v room"
  "hashes (opened_view room code host buyIn nowMs v) (RoomOpeningKey room) = hashes v (RoomOpeningKey room)"
  by (simp_all add: opened_view_def wallets_def view_simps key_simps)

context redis_server
begin

lemma CreateRoom_quiet:
  fixes w :: "('s, 'x) world_scheme"
  assumes "turns w = []" "ValidateBuyIn buyIn = None"
  shows "strs (view (db w)) (RoomCodeKey code) = None \<Longrightarrow> \<exists>s'. CreateRoom R nowMs room code host buyIn w = (Inr (), w\<lparr>db := s'\<rparr>)
      \<and> view s' = opened_view room code host buyIn nowMs (view (db w))"
    "strs (view (db w)) (RoomCodeKey code) = Some x \<Longrightarrow> \<exists>s'. CreateRoom R nowMs room code host buyIn w
      = (Inl (Store ErrAlreadyExists), w\<lparr>db := s'\<rparr>) \<and> view s' = view (db w)"
proof -
  let ?args = "[''host_id'', host, ''buy_in'', itoa buyIn, ''status'', ''open'', ''created_at'', itoa nowMs]"
  show "\<exists>s'. CreateRoom R nowMs room code host buyIn w = (Inr (), w\<lparr>db := s'\<rparr>)
      \<and> view s' = opened_view room code host buyIn nowMs (view (db w))"
    if free: "strs (view (db w)) (RoomCodeKey code) = None"
  proof -
    have "\<exists>s'. claim_unique R (RoomCodeKey code) (RoomKey room) room ?args (db w) = (Inr (table [''OK'']), s')
        \<and> view s' = opened_view room code host buyIn nowMs (view (db w))"
      unfolding opened_view_def by (rule claim_unique_free [OF free]) (simp_all add: room_fields_def)
    then obtain s' where "claim_unique R (RoomCodeKey code) (RoomKey room) room ?args (db w) = (Inr (table [''OK'']), s')"
      "view s' = opened_view room code host buyIn nowMs (view (db w))" by blast
    with assms show ?thesis by (intro exI [of _ s']) (simp add: CreateRoom_def call_script_def eff_simps)
  qed
  show "\<exists>s'. CreateRoom R nowMs room code host buyIn w = (Inl (Store ErrAlreadyExists), w\<lparr>db := s'\<rparr>) \<and> view s' = view (db w)"
    if taken: "strs (view (db w)) (RoomCodeKey code) = Some x"
  proof -
    obtain s' where "claim_unique R (RoomCodeKey code) (RoomKey room) room ?args (db w) = (Inr [LStr ''TAKEN'', LStr x], s')"
      "view s' = view (db w)" using claim_unique_taken [OF taken] by blast
    with assms show ?thesis by (intro exI [of _ s']) (simp add: CreateRoom_def call_script_def eff_simps toStringSlice_def)
  qed
qed

lemma RoomByCode_quiet:
  "turns w = [] \<Longrightarrow> RoomByCode R code w
     = (case strs (view (db w)) (RoomCodeKey code) of None \<Rightarrow> Inl (Store ErrNotFound) | Some r \<Rightarrow> Inr r, w)"
  by (simp add: RoomByCode_def eff_simps quiet_simps reads split: option.split)

end

section \<open>The code of a room\<close>

text \<open>The code of an attempt, and the first attempt whose code is free.\<close>

definition code_of :: "string \<Rightarrow> string" where
  "code_of buf = map (\<lambda>b. CodeAlphabet ! (byte b mod length CodeAlphabet)) (take CodeLen buf)"

definition first_free :: "rview \<Rightarrow> (nat \<Rightarrow> string \<times> int) \<Rightarrow> nat \<Rightarrow> nat option" where
  "first_free v rnd n = find (\<lambda>k. strs v (RoomCodeKey (code_of (fst (rnd k)))) = None) [n..<maxCodeAttempts]"

lemma code_of_code: "CodeLen \<le> length buf \<Longrightarrow> length (code_of buf) = CodeLen \<and> set (code_of buf) \<subseteq> set CodeAlphabet"
proof -
  have "0 < length CodeAlphabet" by (simp add: CodeAlphabet_def)
  then show "CodeLen \<le> length buf \<Longrightarrow> ?thesis" by (auto simp: code_of_def intro!: nth_mem mod_less_divisor)
qed

context redis_server
begin

lemma claim_code_quiet:
  fixes w :: "('s, 'x) world_scheme"
  assumes "turns w = []" "ValidateBuyIn buyIn = None" "\<And>k. k < maxCodeAttempts \<Longrightarrow> CodeLen \<le> length (fst (rnd k))"
  shows "\<exists>s'. claim_code R rnd room host buyIn n w = (case first_free (view (db w)) rnd n of
        None \<Rightarrow> Inl (Room ErrCodeExhausted) | Some k \<Rightarrow> Inr (code_of (fst (rnd k))), w\<lparr>db := s'\<rparr>)
    \<and> view s' = (case first_free (view (db w)) rnd n of None \<Rightarrow> view (db w)
        | Some k \<Rightarrow> opened_view room (code_of (fst (rnd k))) host buyIn (snd (rnd k)) (view (db w)))"
  using assms(1)
proof (induction "maxCodeAttempts - n" arbitrary: n w)
  case 0
  then show ?case by (intro exI [of _ "db w"]) (simp add: claim_code.simps first_free_def eff_simps)
next
  case (Suc d)
  then have n: "n < maxCodeAttempts" by simp
  let ?c = "code_of (fst (rnd n))"
  have gen: "GenerateCode (fst (rnd n)) = Inr ?c" using assms(3) [OF n] by (simp add: GenerateCode_def code_of_def)
  have ff: "first_free (view (db w)) rnd n = (if strs (view (db w)) (RoomCodeKey ?c) = None then Some n
      else first_free (view (db w)) rnd (Suc n))"
    using n by (simp add: first_free_def upt_conv_Cons)
  show ?case
  proof (cases "strs (view (db w)) (RoomCodeKey ?c)")
    case None
    obtain s' where "CreateRoom R (snd (rnd n)) room ?c host buyIn w = (Inr (), w\<lparr>db := s'\<rparr>)"
      "view s' = opened_view room ?c host buyIn (snd (rnd n)) (view (db w))"
      using CreateRoom_quiet(1) [OF Suc.prems assms(2) None] by blast
    with n None gen ff show ?thesis by (intro exI [of _ s']) (simp add: claim_code.simps eff_simps)
  next
    case (Some x)
    obtain s1 where s1: "CreateRoom R (snd (rnd n)) room ?c host buyIn w = (Inl (Store ErrAlreadyExists), w\<lparr>db := s1\<rparr>)"
      "view s1 = view (db w)"
      using CreateRoom_quiet(2) [OF Suc.prems assms(2) Some] by blast
    have "d = maxCodeAttempts - Suc n" using Suc.hyps(2) by simp
    moreover have "turns (w\<lparr>db := s1\<rparr>) = []" using Suc.prems by simp
    ultimately have "\<exists>s2.
      claim_code R rnd room host buyIn (Suc n) (w\<lparr>db := s1\<rparr>) = (case first_free (view (db w)) rnd (Suc n) of
         None \<Rightarrow> Inl (Room ErrCodeExhausted) | Some k \<Rightarrow> Inr (code_of (fst (rnd k))), w\<lparr>db := s2\<rparr>)
      \<and> view s2 = (case first_free (view (db w)) rnd (Suc n) of None \<Rightarrow> view (db w)
        | Some k \<Rightarrow> opened_view room (code_of (fst (rnd k))) host buyIn (snd (rnd k)) (view (db w)))"
      using Suc.hyps(1) [of "Suc n" "w\<lparr>db := s1\<rparr>"] by (simp add: s1(2) cong: option.case_cong)
    with n Some gen ff s1(1) show ?thesis
      by (simp add: claim_code.simps [of _ _ _ _ _ n] eff_simps)
  qed
qed

lemma JoinRoom_fresh:
  fixes w :: "('s, 'x) world_scheme"
  assumes "turns w = []" "0 < b" "in64 b" "wallets (view (db w)) room u = None" "hashes (view (db w)) (RoomOpeningKey room) u = None"
  shows "\<exists>s'. JoinRoom R room u b w = (Inr b, w\<lparr>db := s'\<rparr>) \<and> view s' = joined_view room u b (view (db w))
    \<and> session_is (view s') room u b b"
  using JoinRoom_quiet [OF assms(1-3), of room u] joined_session [OF assms(3-5)] assms(4) by fastforce

lemma CreateRoomFor_quiet:
  fixes w :: "('s, 'x) world_scheme"
  defines "v \<equiv> view (db w)"
  assumes "turns w = []" "ValidateBuyIn buyIn = None" "\<And>k. k < maxCodeAttempts \<Longrightarrow> CodeLen \<le> length (fst (rnd k))"
    and "wallets v room host = None" "hashes v (RoomOpeningKey room) host = None"
    and "issue \<lparr>ClaimUser = host, ClaimName = hostName, ClaimRoom = room, ClaimGuest = False, ClaimHost = True\<rparr> = Inr tok"
  shows "\<exists>s'. CreateRoomFor R issue rnd room host hostName buyIn w = (case first_free v rnd 0 of
        None \<Rightarrow> Inl (Room ErrCodeExhausted)
      | Some k \<Rightarrow> Inr \<lparr>CreatedRoom = room, CreatedCode = code_of (fst (rnd k)), CreatedBuyIn = buyIn, CreatedToken = tok\<rparr>, w\<lparr>db := s'\<rparr>)
    \<and> view s' = (case first_free v rnd 0 of None \<Rightarrow> v
      | Some k \<Rightarrow> joined_view room host buyIn (opened_view room (code_of (fst (rnd k))) host buyIn (snd (rnd k)) v))"
proof -
  obtain s1 where s1: "claim_code R rnd room host buyIn 0 w = (case first_free v rnd 0 of
        None \<Rightarrow> Inl (Room ErrCodeExhausted) | Some k \<Rightarrow> Inr (code_of (fst (rnd k))), w\<lparr>db := s1\<rparr>)"
    "view s1 = (case first_free v rnd 0 of None \<Rightarrow> v
        | Some k \<Rightarrow> opened_view room (code_of (fst (rnd k))) host buyIn (snd (rnd k)) v)"
    using claim_code_quiet [where rnd = rnd and room = room and host = host and n = 0, OF assms(2-4)] unfolding v_def by blast
  show ?thesis
  proof (cases "first_free v rnd 0")
    case None
    with s1 show ?thesis by (intro exI [of _ s1]) (simp add: CreateRoomFor_def eff_simps)
  next
    case (Some k)
    have buy: "0 < buyIn" "in64 buyIn"
      using assms(3) by (auto simp: ValidateBuyIn_def economy_defs in64_def split: if_splits)
    have "turns (w\<lparr>db := s1\<rparr>) = []" "wallets (view (db (w\<lparr>db := s1\<rparr>))) room host = None"
      "hashes (view (db (w\<lparr>db := s1\<rparr>))) (RoomOpeningKey room) host = None"
      using assms(2,5,6) by (simp_all add: s1(2) Some opened_wallets)
    from JoinRoom_fresh [OF this(1) buy this(2,3)] obtain s2 where
      "JoinRoom R room host buyIn (w\<lparr>db := s1\<rparr>) = (Inr buyIn, w\<lparr>db := s2\<rparr>)" "view s2 = joined_view room host buyIn (view s1)"
      by auto
    with s1 Some assms(7) show ?thesis by (intro exI [of _ s2]) (simp add: CreateRoomFor_def eff_simps)
  qed
qed

end

text \<open>The opening balance of who joins, and whether it is short of the buy-in.\<close>

definition stake_for :: "JoinRequest \<Rightarrow> tokens \<Rightarrow> tokens" where
  "stake_for c buyIn = (if JoinGuest c then buyIn else min (AccountBalance c) (3 * buyIn))"

lemma session_balance_stake:
  assumes "ValidateBuyIn buyIn = None" "JoinGuest c \<or> 0 < AccountBalance c"
  shows "session_balance c buyIn = (stake_for c buyIn, \<not> JoinGuest c \<and> AccountBalance c < buyIn)"
    "0 < stake_for c buyIn" "in64 (stake_for c buyIn)"
proof -
  have b: "0 < buyIn" "buyIn \<le> 10000" using assms(1) by (auto simp: ValidateBuyIn_def economy_defs split: if_splits)
  then have "i64 (buyIn * 3) = buyIn * 3" by (simp add: i64_id in64_def)
  then show "session_balance c buyIn = (stake_for c buyIn, \<not> JoinGuest c \<and> AccountBalance c < buyIn)"
    by (auto simp: session_balance_def stake_for_def GuestSessionBalance_def AccountSessionBalance_def IsPartialBuyIn_def
        economy_defs Let_def min_def)
  show "0 < stake_for c buyIn" "in64 (stake_for c buyIn)" using b assms(2) by (auto simp: stake_for_def in64_def)
qed

context redis_server
begin

lemma Join_quiet:
  fixes w :: "('s, 'x) world_scheme"
  defines "v \<equiv> view (db w)"
  assumes "turns w = []" "strs v (RoomCodeKey code) = Some room" "room_is v room rm" "RoomStatus rm = ''open''"
    and "ValidateBuyIn (BuyIn rm) = None" "JoinGuest c \<or> 0 < AccountBalance c"
    and "u = (if JoinUser c = [] then freshID else JoinUser c)"
    and "wallets v room u = None \<or> wallets v room u = Some (itoa old)" "in64 old"
  shows "\<exists>s'. Join R issue freshID code c w =
      (case issue \<lparr>ClaimUser = u, ClaimName = JoinName c, ClaimRoom = room, ClaimGuest = JoinGuest c, ClaimHost = False\<rparr> of
         Inl e \<Rightarrow> Inl e
       | Inr t \<Rightarrow> Inr \<lparr>JoinedRoom = room, JoinedCode = code, JoinedBuyIn = BuyIn rm,
           SessionBal = (if wallets v room u = None then stake_for c (BuyIn rm) else old),
           PartialBuyIn = (\<not> JoinGuest c \<and> AccountBalance c < BuyIn rm), JoinedGuest = JoinGuest c, JoinedToken = t\<rparr>,
       w\<lparr>db := s'\<rparr>)
    \<and> view s' = joined_view room u (stake_for c (BuyIn rm)) v"
proof -
  note st = session_balance_stake [OF assms(6,7)]
  obtain s' where s': "JoinRoom R room u (stake_for c (BuyIn rm)) w
      = (Inr (if wallets v room u = None then stake_for c (BuyIn rm) else old), w\<lparr>db := s'\<rparr>)"
    "view s' = joined_view room u (stake_for c (BuyIn rm)) v"
    using JoinRoom_quiet [OF assms(2) st(2,3), of room u old] assms(9,10) unfolding v_def by auto
  have "RoomByCode R code w = (Inr room, w)" "GetRoom R room w = (Inr rm, w)"
    using RoomByCode_quiet [OF assms(2), of code] GetRoom_quiet [OF assms(2)] assms(3,4) by (simp_all add: v_def)
  with s' show ?thesis
    by (intro exI [of _ s']) (simp add: Join_def eff_simps assms(5) Let_def st(1) flip: assms(8) split: sum.split)
qed

end

text \<open>
  C18. A room is created under a free code and joined by it. \<open>CreateRoomFor\<close> takes the first of at most
  five generated codes that no room has, and with none free reports so and leaves the store as it was.
  Else the room reads back as created, its host holds the buy-in, and the token names the host of that
  room until it expires. At any later time at which the code still leads to the room, \<open>Join\<close> by the
  code seats the caller: a guest with the buy-in, an account with its balance up to three times the
  buy-in, and a caller who is in the room already with the wallet as it is; and the token handed out
  is for that caller in that room, never for a host.
\<close>

theorem create_then_join:
  assumes "redis_server R view" and "turns w = []" and "ValidateBuyIn buyIn = None"
    and "\<And>k. k < maxCodeAttempts \<Longrightarrow> CodeLen \<le> length (fst (rnd k)) \<and> in64 (snd (rnd k))"
    and "wallets (view (db w)) room host = None" "hashes (view (db w)) (RoomOpeningKey room) host = None"
    and "signs_back J (secret i)"
    and "Issue J i now1 now2 \<lparr>ClaimUser = host, ClaimName = hostName, ClaimRoom = room, ClaimGuest = False, ClaimHost = True\<rparr> = Inr tok"
    and "CreateRoomFor R (Issue J i now1 now2) rnd room host hostName buyIn w = (r, w')"
    and "turns w2 = []" "room_hash (view (db w2)) room = room_hash (view (db w')) room"
    and "\<And>code. strs (view (db w')) (RoomCodeKey code) = Some room \<Longrightarrow> strs (view (db w2)) (RoomCodeKey code) = Some room"
    and "JoinGuest c \<or> 0 < AccountBalance c" "u = (if JoinUser c = [] then freshID else JoinUser c)"
    and "wallets (view (db w2)) room u = None \<or> wallets (view (db w2)) room u = Some (itoa old)" "in64 old"
  shows "case first_free (view (db w)) rnd 0 of
      None \<Rightarrow> r = Inl (Room ErrCodeExhausted) \<and> view (db w') = view (db w)
    | Some k \<Rightarrow> r = Inr \<lparr>CreatedRoom = room, CreatedCode = code_of (fst (rnd k)), CreatedBuyIn = buyIn, CreatedToken = tok\<rparr>
        \<and> room_is (view (db w')) room (new_room room host buyIn (snd (rnd k))) \<and> session_is (view (db w')) room host buyIn buyIn
        \<and> Verify J i now tok = (if now < now2 + ttl i then Inr \<lparr>ClaimUser = host, ClaimName = hostName, ClaimRoom = room,
            ClaimGuest = False, ClaimHost = True\<rparr> else Inl (Auth ErrTokenExpired))
        \<and> (\<exists>s'. Join R issue freshID (code_of (fst (rnd k))) c w2 =
            (case issue \<lparr>ClaimUser = u, ClaimName = JoinName c, ClaimRoom = room, ClaimGuest = JoinGuest c, ClaimHost = False\<rparr> of
               Inl e \<Rightarrow> Inl e
             | Inr t \<Rightarrow> Inr \<lparr>JoinedRoom = room, JoinedCode = code_of (fst (rnd k)), JoinedBuyIn = buyIn,
                 SessionBal = (if wallets (view (db w2)) room u = None then stake_for c buyIn else old),
                 PartialBuyIn = (\<not> JoinGuest c \<and> AccountBalance c < buyIn), JoinedGuest = JoinGuest c, JoinedToken = t\<rparr>,
             w2\<lparr>db := s'\<rparr>)
          \<and> view s' = joined_view room u (stake_for c buyIn) (view (db w2)))"
proof -
  have rnd: "\<And>k. k < maxCodeAttempts \<Longrightarrow> CodeLen \<le> length (fst (rnd k))" using assms(4) by blast
  obtain s' where s': "(r, w') = (case first_free (view (db w)) rnd 0 of None \<Rightarrow> Inl (Room ErrCodeExhausted)
      | Some k \<Rightarrow> Inr \<lparr>CreatedRoom = room, CreatedCode = code_of (fst (rnd k)), CreatedBuyIn = buyIn, CreatedToken = tok\<rparr>, w\<lparr>db := s'\<rparr>)"
    "view s' = (case first_free (view (db w)) rnd 0 of None \<Rightarrow> view (db w)
      | Some k \<Rightarrow> joined_view room host buyIn (opened_view room (code_of (fst (rnd k))) host buyIn (snd (rnd k)) (view (db w))))"
    using redis_server.CreateRoomFor_quiet [where issue = "Issue J i now1 now2" and hostName = hostName and rnd = rnd,
        OF assms(1-3) rnd assms(5,6,8)]
    unfolding assms(9) by blast
  show ?thesis
  proof (cases "first_free (view (db w)) rnd 0")
    case (Some k)
    then have "k < maxCodeAttempts" by (auto simp: first_free_def find_Some_iff)
    with assms(4) have k: "in64 (snd (rnd k))" by blast
    have buy: "in64 buyIn" using assms(3) by (auto simp: ValidateBuyIn_def economy_defs in64_def split: if_splits)
    let ?v = "opened_view room (code_of (fst (rnd k))) host buyIn (snd (rnd k)) (view (db w))" and ?rm = "new_room room host buyIn (snd (rnd k))"
    have v: "view (db w') = joined_view room host buyIn ?v" and r: "r = Inr \<lparr>CreatedRoom = room,
        CreatedCode = code_of (fst (rnd k)), CreatedBuyIn = buyIn, CreatedToken = tok\<rparr>"
      using s' Some by simp_all
    have room: "room_is (view (db w')) room ?rm" unfolding v joined_room by (rule opened_room [OF k buy])
    have host: "session_is (view (db w')) room host buyIn buyIn"
      unfolding v by (rule joined_session [OF buy]) (simp_all add: opened_wallets assms(5,6))
    have code: "strs (view (db w2)) (RoomCodeKey (code_of (fst (rnd k)))) = Some room"
      by (rule assms(12)) (simp add: v joined_view_def opened_view_def view_simps)
    have rm: "RoomStatus ?rm = ''open''" "BuyIn ?rm = buyIn" by (simp_all add: new_room_def)
    have "room_is (view (db w2)) room ?rm" using room assms(11) by (simp add: room_is_def)
    from redis_server.Join_quiet [OF assms(1,10) code this rm(1), unfolded rm(2), OF assms(3,13-16)] Some r room host
      Verify_issued [OF assms(7,8)] show ?thesis by simp
  qed (use s' in simp)
qed

section \<open>A room whose first code is taken\<close>

definition demo_codes :: mem where
  "demo_codes = SET mem_redis (RoomCodeKey ''AAAAAA'') ''r0'' demo"

definition demo_random :: "nat \<Rightarrow> string \<times> int" where
  "demo_random k = (replicate 6 (if k = 0 then CHR 0x00 else CHR 0x01), 9)"

definition demo_host :: Claims where
  "demo_host = \<lparr>ClaimUser = ''h'', ClaimName = ''Host'', ClaimRoom = ''r7'', ClaimGuest = False, ClaimHost = True\<rparr>"

definition demo_guest :: JoinRequest where
  "demo_guest = \<lparr>JoinUser = [], JoinName = ''G'', JoinGuest = True, AccountBalance = 0\<rparr>"

lemma demo_codes_view: "mem_view demo_codes = v_set (RoomCodeKey ''AAAAAA'') ''r0'' None (mem_view demo)"
  unfolding demo_codes_def by (rule mem.SET)

lemma demo_codes_free:
  "first_free (mem_view demo_codes) demo_random 0 = Some 1" "code_of (fst (demo_random 1)) = ''BBBBBB''"
  "wallets (mem_view demo_codes) ''r7'' u = None" "hashes (mem_view demo_codes) (RoomOpeningKey ''r7'') u = None"
proof -
  have c: "code_of (fst (demo_random 0)) = ''AAAAAA''" "code_of (fst (demo_random 1)) = ''BBBBBB''" by code_simp+
  then show "code_of (fst (demo_random 1)) = ''BBBBBB''" by simp
  have "strs (mem_view demo) (RoomCodeKey ''BBBBBB'') = None" by (simp add: demo_def slot_def key_simps)
  then show "first_free (mem_view demo_codes) demo_random 0 = Some 1"
    unfolding demo_codes_view using c by (simp add: first_free_def maxCodeAttempts_def upt_rec view_simps key_simps del: mem_view_sel)
  show "wallets (mem_view demo_codes) ''r7'' u = None" "hashes (mem_view demo_codes) (RoomOpeningKey ''r7'') u = None"
    unfolding demo_codes_view wallets_def by (simp_all add: view_simps del: mem_view_sel) (simp_all add: demo_def slot_def key_defs)
qed

theorem create_then_join_witness:
  "\<exists>s s'. CreateRoomFor mem_redis (Issue (demo_jwt_for demo_host) demo_issuer 5 6) demo_random ''r7'' ''h'' ''Host'' 500
        (\<lparr>db = demo_codes, turns = []\<rparr> :: mem world)
      = (Inr \<lparr>CreatedRoom = ''r7'', CreatedCode = ''BBBBBB'', CreatedBuyIn = 500, CreatedToken = ''t''\<rparr>, \<lparr>db = s, turns = []\<rparr>)
    \<and> Join mem_redis (\<lambda>_. Inr ''t2'') ''g1'' ''BBBBBB'' demo_guest (\<lparr>db = s, turns = []\<rparr> :: mem world)
      = (Inr \<lparr>JoinedRoom = ''r7'', JoinedCode = ''BBBBBB'', JoinedBuyIn = 500, SessionBal = 500, PartialBuyIn = False,
            JoinedGuest = True, JoinedToken = ''t2''\<rparr>, \<lparr>db = s', turns = []\<rparr>)"
proof -
  let ?w = "\<lparr>db = demo_codes, turns = []\<rparr> :: mem world" and ?J = "demo_jwt_for demo_host"
  have buy: "ValidateBuyIn 500 = None" by code_simp
  have rnd: "CodeLen \<le> length (fst (demo_random k)) \<and> in64 (snd (demo_random k))" for k
    by (simp add: CodeLen_def demo_random_def in64_def)
  have host: "Issue ?J demo_issuer 5 6 \<lparr>ClaimUser = ''h'', ClaimName = ''Host'', ClaimRoom = ''r7'', ClaimGuest = False, ClaimHost = True\<rparr>
      = Inr ''t''" using demo_signs(2) [of demo_host] by (simp add: demo_host_def)
  have "\<exists>s. CreateRoomFor mem_redis (Issue ?J demo_issuer 5 6) demo_random ''r7'' ''h'' ''Host'' 500 ?w
      = (Inr \<lparr>CreatedRoom = ''r7'', CreatedCode = ''BBBBBB'', CreatedBuyIn = 500, CreatedToken = ''t''\<rparr>, ?w\<lparr>db := s\<rparr>)
    \<and> mem_view s = joined_view ''r7'' ''h'' 500 (opened_view ''r7'' ''BBBBBB'' ''h'' 500 (snd (demo_random 1)) (mem_view demo_codes))"
    using mem.CreateRoomFor_quiet [where w = ?w and buyIn = 500 and rnd = demo_random and room = "''r7''" and host = "''h''"
        and issue = "Issue ?J demo_issuer 5 6" and hostName = "''Host''" and tok = "''t''"] buy rnd demo_signs(2) [of demo_host]
    by (simp add: demo_codes_free demo_codes_free(2) [unfolded One_nat_def] demo_host_def [symmetric] del: mem_view_sel)
  then obtain s where s: "CreateRoomFor mem_redis (Issue ?J demo_issuer 5 6) demo_random ''r7'' ''h'' ''Host'' 500 ?w
      = (Inr \<lparr>CreatedRoom = ''r7'', CreatedCode = ''BBBBBB'', CreatedBuyIn = 500, CreatedToken = ''t''\<rparr>, ?w\<lparr>db := s\<rparr>)"
    "mem_view s = joined_view ''r7'' ''h'' 500 (opened_view ''r7'' ''BBBBBB'' ''h'' 500 (snd (demo_random 1)) (mem_view demo_codes))" by blast
  have g: "wallets (mem_view s) ''r7'' ''g1'' = None"
    using demo_codes_free(3) [of "''g1''"] unfolding s(2)
    by (simp add: joined_view_def if_absent_def opened_wallets wallets_def view_simps key_simps opened_view_def del: mem_view_sel)
  have "\<exists>s'. Join mem_redis (\<lambda>_. Inr ''t2'') ''g1'' (code_of (fst (demo_random 1))) demo_guest (?w\<lparr>db := s\<rparr>)
      = (Inr \<lparr>JoinedRoom = ''r7'', JoinedCode = code_of (fst (demo_random 1)), JoinedBuyIn = 500, SessionBal = stake_for demo_guest 500,
          PartialBuyIn = False, JoinedGuest = True, JoinedToken = ''t2''\<rparr>, ?w\<lparr>db := s'\<rparr>)"
    using create_then_join [OF mem.redis_server_axioms _ buy rnd _ _ demo_signs(1) host s(1),
        where ?w2.0 = "?w\<lparr>db := s\<rparr>" and c = demo_guest and u = "''g1''" and freshID = "''g1''" and old = 0 and now = 0 and issue = "\<lambda>_. Inr ''t2''"]
    by (auto simp: demo_codes_free g demo_guest_def in64_def simp del: mem_view_sel)
  then show ?thesis using s(1) demo_codes_free(2) by (simp add: stake_for_def demo_guest_def)
qed

end
