(* ===== verification/WorkerSpec.thy ===== *)
theory WorkerSpec
  imports LedgerSpec EventSpec "HOL-Library.Sublist"
begin

text \<open>
  The ledger worker between the two interfaces it is built over: \<open>kafka_consumer\<close> is what it may
  assume of a consumer group, \<open>ledger_pipeline\<close> adds the writer. Offsets are never committed
  ahead of the ledger - as long as no fetch fails in the middle of a batch.
\<close>

section \<open>The interfaces\<close>

text \<open>
  Per topic and partition: the messages in the log, the offset the next fetch takes, the
  offset committed for the group. The log may grow at any time; after a rebalance a fetch
  resumes at the committed offset. A commit moves the group to the highest offset of the batch,
  backwards too.
\<close>

record feed =
  messages :: "string \<times> nat \<Rightarrow> string list"
  position :: "string \<times> nat \<Rightarrow> nat"
  committed :: "string \<times> nat \<Rightarrow> nat"

definition place :: "fetched \<Rightarrow> string \<times> nat" where
  "place m = (FromTopic m, FromPartition m)"

definition log_grows :: "feed \<Rightarrow> feed \<Rightarrow> bool" where
  "log_grows f g \<longleftrightarrow> (\<forall>tp. prefix (messages f tp) (messages g tp))"

definition is_next :: "feed \<Rightarrow> fetched \<Rightarrow> bool" where
  "is_next f m \<longleftrightarrow> AtOffset m \<in> {position f (place m), committed f (place m)}
     \<and> AtOffset m < length (messages f (place m)) \<and> FetchedValue m = messages f (place m) ! AtOffset m"

definition commit_all :: "fetched list \<Rightarrow> (string \<times> nat \<Rightarrow> nat) \<Rightarrow> (string \<times> nat \<Rightarrow> nat)" where
  "commit_all ms c tp = (let os = map AtOffset (filter (\<lambda>m. place m = tp) ms)
     in if os = [] then c tp else Suc (foldr max os 0))"

locale kafka_consumer =
  fixes C :: "'w consumer" and feed :: "'w \<Rightarrow> feed"
  assumes Fetch_Inr: "Fetch C w = (Inr m, w') \<Longrightarrow> \<exists>f. log_grows (feed w) f \<and> position f = position (feed w)
      \<and> committed f = committed (feed w) \<and> is_next f m
      \<and> feed w' = f\<lparr>position := (position f)(place m := Suc (AtOffset m))\<rparr>"
    and Fetch_Inl: "Fetch C w = (Inl e, w') \<Longrightarrow> log_grows (feed w) (feed w')
      \<and> position (feed w') = position (feed w) \<and> committed (feed w') = committed (feed w)"
    and CommitMessages: "CommitMessages C ms w = (r, w') \<Longrightarrow> log_grows (feed w) (feed w')
      \<and> position (feed w') = position (feed w)
      \<and> (committed (feed w') = commit_all ms (committed (feed w))
         \<or> isl r \<and> committed (feed w') = committed (feed w))"

locale ledger_pipeline = kafka_consumer C feed for C :: "'w consumer" and feed +
  fixes W :: "'w ledger_writer" and sound :: "'w \<Rightarrow> bool" and posted :: "'w \<Rightarrow> Transaction \<Rightarrow> bool"
  assumes Fetch_frame: "Fetch C w = (q, w') \<Longrightarrow> sound w' = sound w \<and> posted w' = posted w"
    and Commit_frame: "CommitMessages C ms w = (r, w') \<Longrightarrow> sound w' = sound w \<and> posted w' = posted w"
    and write_posts: "W ts w = (Inr n, w') \<Longrightarrow> sound w \<Longrightarrow> t \<in> set ts \<Longrightarrow> posted w' t"
    and write_frame: "W ts w = (r', w') \<Longrightarrow> sound w \<Longrightarrow> sound w' \<and> feed w' = feed w \<and> (posted w t \<longrightarrow> posted w' t)"

section \<open>What has been recorded\<close>

definition tx_at :: "feed \<Rightarrow> string \<times> nat \<Rightarrow> nat \<Rightarrow> err + Transaction" where
  "tx_at f tp i = sum_bind (DecodeMessage (fst tp) (messages f tp ! i)) TransactionFor"

text \<open>The early return of the gathering loop: the round forgets the messages it has taken.\<close>

definition drops :: "'w consumer \<Rightarrow> 'w \<Rightarrow> bool" where
  "drops C w \<longleftrightarrow> (\<exists>m u v. Fetch C w = (Inr m, u) \<and> gather C (maxBatch - 1) [m] u = (Inr None, v))"

text \<open>Every message below the given offsets has its transaction in the ledger.\<close>

definition recorded :: "feed \<Rightarrow> (Transaction \<Rightarrow> bool) \<Rightarrow> string \<times> nat \<Rightarrow> nat \<Rightarrow> bool" where
  "recorded f p tp i \<longleftrightarrow> i < length (messages f tp) \<and> (\<exists>t. tx_at f tp i = Inr t \<and> p t)"

definition all_recorded :: "feed \<Rightarrow> (Transaction \<Rightarrow> bool) \<Rightarrow> (string \<times> nat \<Rightarrow> nat) \<Rightarrow> bool" where
  "all_recorded f p bound \<longleftrightarrow> (\<forall>tp. \<forall>i<bound tp. recorded f p tp i)"

declare split_paired_All [simp del] split_paired_Ex [simp del]

lemma log_grows_refl [simp]: "log_grows f f"
  by (simp add: log_grows_def)

lemma log_grows_trans: "log_grows f g \<Longrightarrow> log_grows g h \<Longrightarrow> log_grows f h"
  unfolding log_grows_def by (meson prefix_order.trans)

lemma messages_grow: "log_grows f g \<Longrightarrow> i < length (messages f tp) \<Longrightarrow>
    i < length (messages g tp) \<and> messages g tp ! i = messages f tp ! i"
  unfolding log_grows_def prefix_def by (metis nth_append length_append trans_less_add1)

lemma recorded_grow: "log_grows f g \<Longrightarrow> recorded f p tp i \<Longrightarrow> (\<And>t. p t \<Longrightarrow> q t) \<Longrightarrow> recorded g q tp i"
  unfolding recorded_def tx_at_def using messages_grow [of f g i tp] by auto

lemma all_recorded_mono:
  "all_recorded f p u \<Longrightarrow> log_grows f g \<Longrightarrow> (\<And>t. p t \<Longrightarrow> q t) \<Longrightarrow> (\<And>tp. v tp \<le> u tp) \<Longrightarrow> all_recorded g q v"
  unfolding all_recorded_def by (meson order_less_le_trans recorded_grow)

lemma foldr_max_in: "os \<noteq> [] \<Longrightarrow> foldr max os (0 :: nat) \<in> set os"
proof (induction os)
  case (Cons a os)
  then show ?case by (cases "os = []") (auto simp: max_def)
qed simp

lemma commit_all_cases:
  "commit_all ms c tp = c tp \<or> (\<exists>m\<in>set ms. place m = tp \<and> commit_all ms c tp = Suc (AtOffset m))"
proof -
  let ?os = "map AtOffset (filter (\<lambda>m. place m = tp) ms)"
  show ?thesis using foldr_max_in [of ?os] by (auto simp: commit_all_def Let_def)
qed

text \<open>
  In the middle of a batch: what was taken below the position is recorded or among the messages
  at hand, and so is what lies before one of these; they are what the log has there.
\<close>

definition known :: "feed \<Rightarrow> (Transaction \<Rightarrow> bool) \<Rightarrow> fetched list \<Rightarrow> string \<times> nat \<Rightarrow> nat \<Rightarrow> bool" where
  "known f p ms tp i \<longleftrightarrow> recorded f p tp i \<or> (\<exists>m\<in>set ms. place m = tp \<and> AtOffset m = i)"

definition taken_ok :: "feed \<Rightarrow> (Transaction \<Rightarrow> bool) \<Rightarrow> fetched list \<Rightarrow> bool" where
  "taken_ok f p ms \<longleftrightarrow> (\<forall>tp. \<forall>i<position f tp. known f p ms tp i) \<and> all_recorded f p (committed f)
     \<and> (\<forall>m\<in>set ms. AtOffset m < length (messages f (place m)) \<and> FetchedValue m = messages f (place m) ! AtOffset m
          \<and> (\<forall>i<AtOffset m. known f p ms (place m) i))"

lemma known_mono: "known f p ms tp i \<Longrightarrow> log_grows f g \<Longrightarrow> (\<And>t. p t \<Longrightarrow> q t) \<Longrightarrow> set ms \<subseteq> set ms' \<Longrightarrow> known g q ms' tp i"
  unfolding known_def using recorded_grow [of f g p tp i q] by blast

lemma taken_ok_Nil: "taken_ok f p [] \<longleftrightarrow> all_recorded f p (position f) \<and> all_recorded f p (committed f)"
  by (auto simp: taken_ok_def all_recorded_def known_def)

lemma taken_ok_grow:
  assumes "taken_ok f p ms" "log_grows f g" "position g = position f" "committed g = committed f" "\<And>t. p t \<Longrightarrow> q t"
  shows "taken_ok g q ms"
  unfolding taken_ok_def
proof (intro conjI allI ballI impI)
  show "known g q ms tp i" if "i < position g tp" for tp i
    using assms that by (auto simp: taken_ok_def intro: known_mono)
  show "all_recorded g q (committed g)" using assms by (auto simp: taken_ok_def intro: all_recorded_mono)
  fix m assume m: "m \<in> set ms"
  with assms(1) messages_grow [OF assms(2), of "AtOffset m" "place m"]
  show "AtOffset m < length (messages g (place m))" "FetchedValue m = messages g (place m) ! AtOffset m"
    by (auto simp: taken_ok_def)
  show "known g q ms (place m) i" if "i < AtOffset m" for i
  proof -
    have "known f p ms (place m) i" using assms(1) m that by (simp add: taken_ok_def)
    then show ?thesis by (rule known_mono) (use assms in simp_all)
  qed
qed

lemma taken_ok_fetch:
  assumes "taken_ok f p ms" "is_next f m"
  shows "taken_ok (f\<lparr>position := (position f)(place m := Suc (AtOffset m))\<rparr>) p (ms @ [m])" (is "taken_ok ?g p ?ms")
proof -
  have rec: "recorded ?g p tp i = recorded f p tp i" for tp i by (simp add: recorded_def tx_at_def)
  have known: "known ?g p ?ms tp i" if "known f p ms tp i" for tp i
    using that by (auto simp: known_def rec)
  have before: "known f p ms (place m) i" if "i < AtOffset m" for i
  proof -
    consider "i < position f (place m)" | "i < committed f (place m)" using assms(2) \<open>i < AtOffset m\<close> by (auto simp: is_next_def)
    then show ?thesis
    proof cases
      case 1
      with assms(1) show ?thesis by (simp add: taken_ok_def)
    next
      case 2
      with assms(1) show ?thesis by (simp add: taken_ok_def all_recorded_def known_def)
    qed
  qed
  have "known ?g p ?ms tp i" if "i < position ?g tp" for tp i
  proof (cases "tp = place m")
    case True
    with that have "i < AtOffset m \<or> i = AtOffset m" by auto
    then show ?thesis
    proof
      assume "i < AtOffset m"
      with known [OF before] True show ?thesis by simp
    next
      assume "i = AtOffset m"
      with True show ?thesis by (simp add: known_def)
    qed
  next
    case False
    with that assms(1) known show ?thesis by (auto simp: taken_ok_def)
  qed
  then show ?thesis
    using assms known before unfolding taken_ok_def by (auto simp: is_next_def all_recorded_def rec)
qed

section \<open>One round of the worker\<close>

context ledger_pipeline
begin

abbreviation fine :: "'w \<Rightarrow> fetched list \<Rightarrow> bool" where
  "fine w ms \<equiv> sound w \<and> taken_ok (feed w) (posted w) ms"

lemma fetch_fine:
  assumes "fine w ms" "Fetch C w = (q, w')"
  shows "case q of Inl _ \<Rightarrow> fine w' ms | Inr m \<Rightarrow> fine w' (ms @ [m])"
proof (cases q)
  case (Inl e)
  with assms Fetch_Inl [of w e w'] Fetch_frame [of w q w'] show ?thesis
    by (auto intro: taken_ok_grow)
next
  case (Inr m)
  then obtain f where f: "log_grows (feed w) f" "position f = position (feed w)" "committed f = committed (feed w)"
    "is_next f m" "feed w' = f\<lparr>position := (position f)(place m := Suc (AtOffset m))\<rparr>"
    using assms(2) Fetch_Inr by blast
  have "taken_ok f (posted w) ms" by (rule taken_ok_grow [of "feed w"]) (use assms(1) f in simp_all)
  from taken_ok_fetch [OF this f(4)] f(5) Fetch_frame [OF assms(2)] assms(1) Inr show ?thesis by simp
qed

lemma gather_fine:
  "fine w ms \<Longrightarrow> gather C n ms w = (Inr (Some out), w') \<Longrightarrow> fine w' out"
proof (induction n arbitrary: ms w)
  case (Suc n)
  obtain q u where q: "Fetch C w = (q, u)" by (meson surj_pair)
  with fetch_fine [OF Suc.prems(1)] Suc show ?case
    by (cases q) (auto simp: eff_simps split: if_splits)
qed (simp add: eff_simps)

lemma gather_returns: "\<exists>g w'. gather C n ms w = (Inr g, w')"
proof (induction n arbitrary: ms w)
  case (Suc n)
  obtain q u where q: "Fetch C w = (q, u)" by (meson surj_pair)
  with Suc show ?case by (cases q; rename_tac e; case_tac e) (auto simp: eff_simps)
qed (simp add: eff_simps)

text \<open>After a round: everything committed is recorded, and unless it failed everything taken.\<close>

definition safe_point :: "'w \<Rightarrow> bool" where
  "safe_point w \<longleftrightarrow> sound w \<and> all_recorded (feed w) (posted w) (position (feed w))
     \<and> all_recorded (feed w) (posted w) (committed (feed w))"

lemma safe_point_fine: "safe_point w \<longleftrightarrow> fine w []"
  by (auto simp: safe_point_def taken_ok_Nil)

lemma fine_committed: "fine w ms \<Longrightarrow> sound w \<and> all_recorded (feed w) (posted w) (committed (feed w))"
  by (simp add: taken_ok_def)

lemma known_recorded:
  assumes "taken_ok f p ms" "try_map transaction_of ms = Inr ts" "\<And>t. t \<in> set ts \<Longrightarrow> p t" "known f p ms tp i"
  shows "recorded f p tp i"
proof (cases "recorded f p tp i")
  case False
  with assms(4) obtain m where m: "m \<in> set ms" "place m = tp" "AtOffset m = i" by (auto simp: known_def)
  with try_map_member [OF assms(2)] obtain t where "t \<in> set ts" "transaction_of m = Inr t" by blast
  moreover have "i < length (messages f tp)" "FetchedValue m = messages f tp ! i"
    using assms(1) m by (auto simp: taken_ok_def)
  moreover have "fst tp = FromTopic m" using m(2) by (auto simp: place_def)
  ultimately show ?thesis using assms(3) by (auto simp: recorded_def tx_at_def transaction_of_def)
qed

lemma transactions_recorded:
  assumes "taken_ok f p ms" "try_map transaction_of ms = Inr ts" "\<And>t. t \<in> set ts \<Longrightarrow> p t"
  shows "all_recorded f p (position f)" "all_recorded f p (commit_all ms (committed f))"
proof -
  have rec: "recorded f p tp i" if "known f p ms tp i" for tp i
    using known_recorded [OF assms(1,2) _ that] assms(3) by blast
  show "all_recorded f p (position f)" using assms(1) rec by (auto simp: all_recorded_def taken_ok_def)
  show "all_recorded f p (commit_all ms (committed f))" unfolding all_recorded_def
  proof (intro allI impI)
    fix tp i assume i: "i < commit_all ms (committed f) tp"
    from commit_all_cases [of ms "committed f" tp] show "recorded f p tp i"
    proof
      assume "commit_all ms (committed f) tp = committed f tp"
      with i assms(1) show ?thesis by (simp add: taken_ok_def all_recorded_def)
    next
      assume "\<exists>m\<in>set ms. place m = tp \<and> commit_all ms (committed f) tp = Suc (AtOffset m)"
      then obtain m where m: "m \<in> set ms" "place m = tp" "i \<le> AtOffset m" using i by auto
      have "known f p ms tp i"
      proof (cases "i = AtOffset m")
        case False
        with m have "i < AtOffset m" by simp
        with assms(1) m(1,2) show ?thesis unfolding taken_ok_def by blast
      qed (use m in \<open>auto simp: known_def\<close>)
      then show ?thesis by (rule rec)
    qed
  qed
qed

lemma once_keeps:
  assumes safe: "safe_point w" and run: "Once C W w = (r, w')"
    and kept: "\<not> drops C w"
  shows "sound w' \<and> all_recorded (feed w') (posted w') (committed (feed w')) \<and> (\<not> isl r \<longrightarrow> safe_point w')"
proof -
  obtain q u where q: "Fetch C w = (q, u)" by (meson surj_pair)
  note first = fetch_fine [OF safe [unfolded safe_point_fine] q]
  show ?thesis
  proof (cases q)
    case (Inl e)
    with run q have "r = Inr 0" "w' = u" by (simp_all add: Once_def eff_simps)
    with first Inl fine_committed [of u "[]"] show ?thesis by (simp add: safe_point_fine)
  next
    case (Inr m)
    then have u: "fine u [m]" using first by simp
    obtain g v where "gather C (maxBatch - 1) [m] u = (Inr g, v)" using gather_returns by blast
    moreover from this kept q Inr have "g \<noteq> None" unfolding drops_def by auto
    ultimately obtain ms where g: "gather C (maxBatch - 1) [m] u = (Inr (Some ms), v)" by auto
    note v = gather_fine [OF u g]
    show ?thesis
    proof (cases "try_map transaction_of ms")
      case (Inl e)
      with run q Inr g have "w' = v" "isl r" by (auto simp: Once_def eff_simps)
      with fine_committed [OF v] show ?thesis by simp
    next
      case ts: (Inr ts)
      obtain y x where y: "W ts v = (y, x)" by (meson surj_pair)
      note fr = write_frame [OF y]
      have grow: "posted v t \<Longrightarrow> posted x t" for t using fr [of t] v by simp
      have x: "sound x" "feed x = feed v" using fr v by simp_all
      have done': "all_recorded (feed x) (posted x) (committed (feed x))"
        using fine_committed [OF v] grow x(2) by (auto intro: all_recorded_mono)
      show ?thesis
      proof (cases y)
        case (Inl e)
        with run q Inr g ts y have "w' = x" "isl r" by (auto simp: Once_def eff_simps)
        with done' x show ?thesis by simp
      next
        case y': (Inr n)
        have "taken_ok (feed x) (posted x) ms" by (rule taken_ok_grow [of "feed v" "posted v"]) (use v x(2) grow in simp_all)
        note all = transactions_recorded [OF this ts write_posts [OF y [unfolded y']]]
        obtain c z where c: "CommitMessages C ms x = (c, z)" by (meson surj_pair)
        have w': "w' = z" and rc: "isl c \<longrightarrow> isl r"
          using run q Inr g ts y y' c by (cases c; auto simp: Once_def eff_simps)+
        note cm = CommitMessages [OF c] Commit_frame [OF c]
        have "all_recorded (feed z) (posted z) (position (feed z))"
          by (rule all_recorded_mono [OF all(1)]) (use cm v in simp_all)
        moreover have "all_recorded (feed z) (posted z) (committed (feed z))"
          using cm(1)
        proof (elim conjE disjE)
          assume "committed (feed z) = commit_all ms (committed (feed x))"
          then show ?thesis by (intro all_recorded_mono [OF all(2)]) (use cm v in simp_all)
        next
          assume "committed (feed z) = committed (feed x)"
          then show ?thesis by (intro all_recorded_mono [OF done']) (use cm in simp_all)
        qed
        ultimately show ?thesis using cm x w' by (simp add: safe_point_def)
      qed
    qed
  qed
qed

end

section \<open>The repository as the writer\<close>

text \<open>A batch touches the ledger's part of the world only.\<close>

definition led_frame :: "('s, 'u, 'x, 'a) led \<Rightarrow> bool" where
  "led_frame m \<longleftrightarrow> (\<forall>w. \<exists>a b c. snd (m w) = w\<lparr>db := a, turns := b, random_uuids := c\<rparr>)"

named_theorems led_frame_rules \<open>steps of the repository and what they leave alone\<close>

lemma led_same: "\<exists>a b c. w = w\<lparr>db := a, turns := b, random_uuids := c\<rparr>" for w :: "('s, 'u, 'x) ledger_world_scheme"
proof -
  have "w = w\<lparr>db := db w, turns := turns w, random_uuids := random_uuids w\<rparr>" by simp
  then show ?thesis by blast
qed

lemma led_frame_pure [led_frame_rules]: "led_frame (ret x)" "led_frame (raise e)"
  unfolding led_frame_def by (simp_all add: eff_simps) (rule allI, rule led_same)+

lemma led_frame_exec [led_frame_rules]: "led_frame (exec (\<lambda>w. w\<lparr>db := g (db w)\<rparr>))"
  unfolding led_frame_def
proof
  fix w :: "('a, 'b, 'c) ledger_world_scheme"
  have "snd (exec (\<lambda>w. w\<lparr>db := g (db w)\<rparr>) w) = w\<lparr>db := g (db w), turns := turns w, random_uuids := random_uuids w\<rparr>"
    by (simp add: eff_simps)
  then show "\<exists>a b c. snd (exec (\<lambda>w. w\<lparr>db := g (db w)\<rparr>) w) = w\<lparr>db := a, turns := b, random_uuids := c\<rparr>" by blast
qed

lemma led_frame_newUUID [led_frame_rules]: "led_frame newUUID"
  unfolding led_frame_def
proof
  fix w :: "('a, 'b, 'c) ledger_world_scheme"
  have "snd (newUUID w) = w\<lparr>db := db w, turns := turns w, random_uuids := tl (random_uuids w)\<rparr>"
    by (cases "random_uuids w") (simp_all add: newUUID_def)
  then show "\<exists>a b c. snd (newUUID w) = w\<lparr>db := a, turns := b, random_uuids := c\<rparr>" by blast
qed

lemma led_frame_trip [led_frame_rules]: "led_frame (roundtrip f)"
  unfolding led_frame_def
proof
  fix w :: "('a, 'b, 'c) ledger_world_scheme"
  have d: "snd (delivered f w) = w\<lparr>db := snd (f (db w))\<rparr>" for w :: "('a, 'b, 'c) ledger_world_scheme"
    by (simp add: delivered_def split: prod.split)
  have "\<exists>a b. snd (roundtrip f w) = w\<lparr>db := a, turns := b, random_uuids := random_uuids w\<rparr>"
  proof (cases "turns w")
    case Nil
    then have "snd (roundtrip f w) = w\<lparr>db := snd (f (db w)), turns := turns w, random_uuids := random_uuids w\<rparr>"
      by (simp add: roundtrip_def d)
    then show ?thesis by blast
  next
    case (Cons t ts)
    obtain gs g a where t: "t = Turn gs g a" by (cases t)
    let ?s = "g (resend f gs (db w))"
    have "snd (roundtrip f w) = w\<lparr>db := (if a = Unanswered then ?s else snd (f ?s)), turns := ts, random_uuids := random_uuids w\<rparr>"
      by (simp add: roundtrip_def Cons t Let_def d)
    then show ?thesis by blast
  qed
  then show "\<exists>a b c. snd (roundtrip f w) = w\<lparr>db := a, turns := b, random_uuids := c\<rparr>" by blast
qed

lemma led_upd_trans:
  "u = w\<lparr>db := a, turns := b, random_uuids := c\<rparr> \<Longrightarrow> \<exists>a b c. v = u\<lparr>db := a, turns := b, random_uuids := c\<rparr> \<Longrightarrow>
   \<exists>a b c. v = w\<lparr>db := a, turns := b, random_uuids := c\<rparr>" for w :: "('s, 'u, 'x) ledger_world_scheme"
  by auto

lemma led_frame_andThen [led_frame_rules]:
  assumes "led_frame m" "\<And>x. led_frame (k x)"
  shows "led_frame (andThen m k)"
  unfolding led_frame_def
proof
  fix w :: "('a, 'b, 'c) ledger_world_scheme"
  obtain q u where q: "m w = (q, u)" by (meson surj_pair)
  with assms(1) obtain a b c where u: "u = w\<lparr>db := a, turns := b, random_uuids := c\<rparr>" by (metis led_frame_def snd_conv)
  show "\<exists>a b c. snd (andThen m k w) = w\<lparr>db := a, turns := b, random_uuids := c\<rparr>"
  proof (cases q)
    case (Inl e)
    with q u show ?thesis by (auto simp: eff_simps)
  next
    case (Inr x)
    with q have "snd (andThen m k w) = snd (k x u)" by (simp add: eff_simps)
    moreover have "\<exists>a b c. snd (k x u) = u\<lparr>db := a, turns := b, random_uuids := c\<rparr>"
      using assms(2) [of x] by (simp add: led_frame_def)
    ultimately show ?thesis using led_upd_trans [OF u] by metis
  qed
qed

lemma led_frame_attempt [led_frame_rules]:
  assumes "led_frame m" "\<And>x. led_frame (k x)"
  shows "led_frame (attempt m k)"
  unfolding led_frame_def
proof
  fix w :: "('a, 'b, 'c) ledger_world_scheme"
  obtain q u where q: "m w = (q, u)" by (meson surj_pair)
  with assms(1) obtain a b c where u: "u = w\<lparr>db := a, turns := b, random_uuids := c\<rparr>" by (metis led_frame_def snd_conv)
  have "snd (attempt m k w) = snd (k q u)" using q by (simp add: eff_simps)
  moreover have "\<exists>a b c. snd (k q u) = u\<lparr>db := a, turns := b, random_uuids := c\<rparr>"
    using assms(2) [of q] by (simp add: led_frame_def)
  ultimately show "\<exists>a b c. snd (attempt m k w) = w\<lparr>db := a, turns := b, random_uuids := c\<rparr>"
    using led_upd_trans [OF u] by metis
qed

lemma led_frame_WriteBatch: "led_frame (WriteBatch P sha1 txns)"
proof -
  have accounts: "led_frame (insert_accounts P sha1 es)" for es
    by (induction es) (simp_all add: led_frame_rules)
  have entries: "led_frame (insert_entries P sha1 txn es)" for txn es
    by (induction es) (simp_all add: led_frame_rules)
  have "led_frame (write_transactions P sha1 txns n)" for n
    by (induction txns arbitrary: n) (auto intro!: led_frame_rules accounts entries split: option.split)
  then show ?thesis unfolding WriteBatch_def by (auto intro!: led_frame_rules split: sum.split)
qed

text \<open>
  The worker on the repository: a consumer that leaves the ledger's part of the world alone, and
  whose own part the ledger leaves alone.
\<close>

definition ledger_sound :: "('s \<Rightarrow> 'u pg_view) \<Rightarrow> ('s, 'u, 'x) ledger_world_scheme \<Rightarrow> bool" where
  "ledger_sound view w \<longleftrightarrow> pg_env view w \<and> tables_ok (saved (view (db w))) \<and> balanced (saved (view (db w)))"

definition is_posted :: "('s \<Rightarrow> 'u pg_view) \<Rightarrow> ('s, 'u, 'x) ledger_world_scheme \<Rightarrow> Transaction \<Rightarrow> bool" where
  "is_posted view w t \<longleftrightarrow> TxKey t \<in> PostKey ` set (book (saved (view (db w))))"

locale ledger_worker = postgres_server P view + kafka_consumer C feed
  for P :: "('s, 'u) postgres" and view :: "'s \<Rightarrow> 'u pg_view"
    and C :: "('s, 'u, 'x) ledger_world_scheme consumer" and feed :: "('s, 'u, 'x) ledger_world_scheme \<Rightarrow> feed" +
  fixes sha1 :: "string \<Rightarrow> 'u"
  assumes fetch_apart: "Fetch C w = (q, w') \<Longrightarrow> db w' = db w \<and> turns w' = turns w"
    and commit_apart: "CommitMessages C ms w = (r, w') \<Longrightarrow> db w' = db w \<and> turns w' = turns w"
    and ledger_apart: "feed (w\<lparr>db := a, turns := b, random_uuids := c\<rparr>) = feed w"
begin

sublocale ledger_pipeline C feed "WriteBatch P sha1" "ledger_sound view" "is_posted view"
proof unfold_locales
  have same: "db v = db w \<Longrightarrow> turns v = turns w \<Longrightarrow> ledger_sound view v = ledger_sound view w \<and> is_posted view v = is_posted view w"
    for v w :: "('s, 'u, 'x) ledger_world_scheme"
    by (simp add: ledger_sound_def is_posted_def pg_env_def fun_eq_iff)
  show "Fetch C w = (q, w') \<Longrightarrow> ledger_sound view w' = ledger_sound view w \<and> is_posted view w' = is_posted view w" for w q w'
    using fetch_apart same by blast
  show "CommitMessages C ms w = (r, w') \<Longrightarrow> ledger_sound view w' = ledger_sound view w \<and> is_posted view w' = is_posted view w" for ms w r w'
    using commit_apart same by blast
  have keys: "PostKey ` set (post_all (posting_for (UuidText P) sha1) b ts) = PostKey ` set b \<union> TxKey ` set ts" for b ts
    by (rule post_all_keys) (simp add: posting_for_def)
  have wrote: "ledger_sound view w' \<and> feed w' = feed w \<and> (is_posted view w t \<longrightarrow> is_posted view w' t)
      \<and> (\<forall>n. r = Inr n \<longrightarrow> t \<in> set ts \<longrightarrow> is_posted view w' t)"
    if run: "WriteBatch P sha1 ts w = (r, w')" and "ledger_sound view w"
    for ts r t and w w' :: "('s, 'u, 'x) ledger_world_scheme"
  proof -
    have "feed w' = feed w" using led_frame_WriteBatch [of P sha1 ts] run ledger_apart
      unfolding led_frame_def by (metis snd_conv)
    with WriteBatch_outcome [OF run] that(2) keys show ?thesis by (auto simp: is_posted_def ledger_sound_def)
  qed
  show "WriteBatch P sha1 ts w = (Inr n, w') \<Longrightarrow> ledger_sound view w \<Longrightarrow> t \<in> set ts \<Longrightarrow> is_posted view w' t"
    for ts n t and w w' :: "('s, 'u, 'x) ledger_world_scheme"
    using wrote [of ts w "Inr n" w' t] by simp
  show "WriteBatch P sha1 ts w = (r, w') \<Longrightarrow> ledger_sound view w \<Longrightarrow>
      ledger_sound view w' \<and> feed w' = feed w \<and> (is_posted view w t \<longrightarrow> is_posted view w' t)"
    for ts r t and w w' :: "('s, 'u, 'x) ledger_world_scheme"
    using wrote [of ts w r w' t] by simp
qed

end

section \<open>A consumer in memory\<close>

text \<open>What every fetch does is planned; with no plan left a fetch waits for its deadline.\<close>

datatype plan = Deliver "string \<times> nat" | Redeliver "string \<times> nat" | FailFetch fetch_err

record ('s, 'u) worker_world = "('s, 'u) ledger_world" +
  topics :: feed
  plans :: "plan list"

definition deliver :: "string \<times> nat \<Rightarrow> nat \<Rightarrow> ('s, 'u) worker_world \<Rightarrow> (fetch_err + fetched) \<times> ('s, 'u) worker_world" where
  "deliver tp i w = (if i < length (messages (topics w) tp)
     then (Inr \<lparr>FromTopic = fst tp, FromPartition = snd tp, AtOffset = i, FetchedValue = messages (topics w) tp ! i\<rparr>,
       w\<lparr>topics := (topics w)\<lparr>position := (position (topics w))(tp := Suc i)\<rparr>\<rparr>)
     else (Inl DeadlineExceeded, w))"

definition mem_fetch :: "('s, 'u) worker_world \<Rightarrow> (fetch_err + fetched) \<times> ('s, 'u) worker_world" where
  "mem_fetch w = (case plans w of [] \<Rightarrow> (Inl DeadlineExceeded, w)
     | Deliver tp # ps \<Rightarrow> deliver tp (position (topics w) tp) (w\<lparr>plans := ps\<rparr>)
     | Redeliver tp # ps \<Rightarrow> deliver tp (committed (topics w) tp) (w\<lparr>plans := ps\<rparr>)
     | FailFetch e # ps \<Rightarrow> (Inl e, w\<lparr>plans := ps\<rparr>))"

definition mem_kafka :: "('s, 'u) worker_world consumer" where
  "mem_kafka = \<lparr>Fetch = mem_fetch,
     CommitMessages = (\<lambda>ms w. (Inr (), w\<lparr>topics := (topics w)\<lparr>committed := commit_all ms (committed (topics w))\<rparr>\<rparr>))\<rparr>"

lemma deliver_Inr:
  "deliver tp i w = (Inr m, w') \<Longrightarrow> i \<in> {position (topics w) tp, committed (topics w) tp} \<Longrightarrow>
   is_next (topics w) m \<and> topics w' = (topics w)\<lparr>position := (position (topics w))(place m := Suc (AtOffset m))\<rparr>"
  by (auto simp: deliver_def is_next_def place_def split: if_splits)

lemma mem_fetch_Inr: "mem_fetch w = (Inr m, w') \<Longrightarrow> is_next (topics w) m
    \<and> topics w' = (topics w)\<lparr>position := (position (topics w))(place m := Suc (AtOffset m))\<rparr>"
  by (auto simp: mem_fetch_def dest!: deliver_Inr split: list.splits plan.splits)

lemma mem_fetch_apart: "mem_fetch w = (q, w') \<Longrightarrow> db w' = db w \<and> turns w' = turns w \<and> (isl q \<longrightarrow> topics w' = topics w)"
  by (auto simp: mem_fetch_def deliver_def split: list.splits plan.splits if_splits)

interpretation mem_worker: ledger_worker mem_pg id mem_kafka topics id
proof unfold_locales
  show "Fetch mem_kafka w = (Inr m, w') \<Longrightarrow> \<exists>f. log_grows (topics w) f \<and> position f = position (topics w)
      \<and> committed f = committed (topics w) \<and> is_next f m
      \<and> topics w' = f\<lparr>position := (position f)(place m := Suc (AtOffset m))\<rparr>" for w m w'
    using mem_fetch_Inr [of w m w'] by (intro exI [of _ "topics w"]) (simp add: mem_kafka_def)
qed (auto simp: mem_kafka_def log_grows_def dest: mem_fetch_apart)

section \<open>Runs of the worker\<close>

text \<open>
  A worker process goes on after a round that succeeded and is replaced after one that failed,
  or at any time; the new process starts at the committed offsets. In between the log may grow
  and the faults to come are new. No round drops its batch.
\<close>

definition idle :: "('s \<Rightarrow> 'u pg_view) \<Rightarrow> (('s, 'u, 'x) ledger_world_scheme \<Rightarrow> feed) \<Rightarrow>
    ('s, 'u, 'x) ledger_world_scheme \<Rightarrow> ('s, 'u, 'x) ledger_world_scheme \<Rightarrow> bool" where
  "idle view feed w u \<longleftrightarrow> pg_env view u \<and> saved (view (db u)) = saved (view (db w)) \<and> log_grows (feed w) (feed u)
     \<and> committed (feed u) = committed (feed w)"

inductive worker_run :: "('s, 'u) postgres \<Rightarrow> ('s \<Rightarrow> 'u pg_view) \<Rightarrow> ('s, 'u, 'x) ledger_world_scheme consumer \<Rightarrow>
    (('s, 'u, 'x) ledger_world_scheme \<Rightarrow> feed) \<Rightarrow> (string \<Rightarrow> 'u) \<Rightarrow> ('s, 'u, 'x) ledger_world_scheme \<Rightarrow> bool \<Rightarrow> bool"
  for P view C feed sha1 where
    start: "pg_env view w \<Longrightarrow> saved (view (db w)) = \<lparr>transactions = [], accounts = [], entries = []\<rparr> \<Longrightarrow>
      position (feed w) = (\<lambda>_. 0) \<Longrightarrow> committed (feed w) = (\<lambda>_. 0) \<Longrightarrow> worker_run P view C feed sha1 w True"
  | round: "worker_run P view C feed sha1 w True \<Longrightarrow> idle view feed w u \<Longrightarrow> position (feed u) = position (feed w) \<Longrightarrow>
      \<not> drops C u \<Longrightarrow> Once C (WriteBatch P sha1) u = (r, w') \<Longrightarrow> worker_run P view C feed sha1 w' (\<not> isl r)"
  | restart: "worker_run P view C feed sha1 w b \<Longrightarrow> idle view feed w u \<Longrightarrow> position (feed u) = committed (feed u) \<Longrightarrow>
      worker_run P view C feed sha1 u True"

context ledger_worker
begin

lemma idle_keeps:
  assumes "idle view feed w u" "ledger_sound view w" "all_recorded (feed w) (is_posted view w) (committed (feed w))"
  shows "ledger_sound view u \<and> is_posted view u = is_posted view w \<and> all_recorded (feed u) (is_posted view u) (committed (feed u))"
proof -
  have p: "ledger_sound view u" "is_posted view u = is_posted view w"
    using assms(1,2) by (simp_all add: idle_def ledger_sound_def is_posted_def fun_eq_iff)
  moreover have "all_recorded (feed u) (is_posted view u) (committed (feed u))"
    by (rule all_recorded_mono [OF assms(3)]) (use assms(1) p in \<open>simp_all add: idle_def\<close>)
  ultimately show ?thesis by simp
qed

lemma worker_run_safe:
  "worker_run P view C feed sha1 w b \<Longrightarrow> ledger_sound view w
    \<and> all_recorded (feed w) (is_posted view w) (committed (feed w)) \<and> (b \<longrightarrow> safe_point w)"
proof (induction rule: worker_run.induct)
  case (start w)
  then have "ledger_sound view w"
    by (simp add: ledger_sound_def tables_ok_def balanced_def net_of_def entries_of_def)
  with start show ?case by (simp add: safe_point_def all_recorded_def)
next
  case (round w u r w')
  then have w: "safe_point w" "ledger_sound view w" "all_recorded (feed w) (is_posted view w) (committed (feed w))" by auto
  note u = idle_keeps [OF round.hyps(2) w(2,3)]
  have "all_recorded (feed u) (is_posted view u) (position (feed u))"
    by (rule all_recorded_mono [of "feed w" "is_posted view w" "position (feed w)"])
      (use w(1) round.hyps(2,3) u in \<open>simp_all add: safe_point_def idle_def\<close>)
  with u have "safe_point u" unfolding safe_point_def by blast
  from once_keeps [OF this round.hyps(5,4)] show ?case by blast
next
  case (restart w b u)
  then have w: "ledger_sound view w" "all_recorded (feed w) (is_posted view w) (committed (feed w))" by auto
  note u = idle_keeps [OF restart.hyps(2) w]
  with restart.hyps(3) have "safe_point u" unfolding safe_point_def by metis
  with u show ?case by blast
qed

end

section \<open>Properties\<close>

text \<open>
  C26. Offsets never run ahead of the ledger. However often the worker is restarted or rebalanced,
  whichever statements, commits and batches fail, every message below the offset committed for
  its partition decodes to an event whose transaction is in the ledger - provided no round drops
  its batch, which it does when a fetch after the first fails with an error that is neither its
  deadline nor a cancellation.
\<close>

theorem worker_commits_after_posting:
  assumes "ledger_worker P view C feed" and "worker_run P view C feed sha1 w b" and "i < committed (feed w) tp"
  shows "i < length (messages (feed w) tp) \<and> (\<exists>t. tx_at (feed w) tp i = Inr t
    \<and> (\<exists>p\<in>set (book (saved (view (db w)))). PostKey p = TxKey t))"
proof -
  have "all_recorded (feed w) (is_posted view w) (committed (feed w))"
    using ledger_worker.worker_run_safe [OF assms(1,2)] by blast
  with assms(3) have "recorded (feed w) (is_posted view w) tp i" by (simp add: all_recorded_def)
  then show ?thesis by (auto simp: recorded_def is_posted_def)
qed

text \<open>The two wagers in one partition.\<close>

definition demo_topics :: feed where
  "demo_topics = \<lparr>messages = (\<lambda>tp. if tp = (TopicWagersPlaced, 0)
       then map (\<lambda>k. MessageValue (message_of (WagerEvent (demo_placed k)))) [''k1'', ''k2''] else []),
     position = (\<lambda>_. 0), committed = (\<lambda>_. 0)\<rparr>"

definition demo_ledger :: "string list \<Rightarrow> plan list \<Rightarrow> (string pg_view, string) worker_world" where
  "demo_ledger us ps = \<lparr>db = \<lparr>saved = \<lparr>transactions = [], accounts = [], entries = []\<rparr>, work = None\<rparr>, turns = [],
     random_uuids = us, topics = demo_topics, plans = ps\<rparr>"

lemma demo_short:
  "length (MessageValue (message_of (WagerEvent (demo_placed ''k1'')))) \<le> 200"
  "length (MessageValue (message_of (WagerEvent (demo_placed ''k2'')))) \<le> 200"
  by code_simp+

lemma demo_transaction:
  assumes "k \<in> {''k1'', ''k2''}"
  shows "transaction_of \<lparr>FromTopic = TopicWagersPlaced, FromPartition = j, AtOffset = i,
      FetchedValue = MessageValue (message_of (WagerEvent (demo_placed k)))\<rparr> = Inr (transactionForWager (demo_placed k))"
proof -
  have "event_plain (WagerEvent (demo_placed k))" "event_valid (WagerEvent (demo_placed k))"
    using assms by (auto simp: demo_placed_def demo_texts in64_def validateWagerPlaced_def)
  moreover have "length (MessageValue (message_of (WagerEvent (demo_placed k)))) \<le> MaxMessageBytes"
    using assms demo_short by (auto simp: MaxMessageBytes_def)
  ultimately have "DecodeMessage (MessageTopic (message_of (WagerEvent (demo_placed k))))
      (MessageValue (message_of (WagerEvent (demo_placed k)))) = Inr (WagerEvent (demo_placed k))"
    by (rule DecodeMessage_message)
  then show ?thesis by (simp add: transaction_of_def eff_simps message_of_def)
qed

text \<open>A round that finds one message, and one whose second fetch fails.\<close>

lemma demo_gather:
  "Fetch C u = (Inl e, v) \<Longrightarrow> gather C (maxBatch - Suc 0) ms u = (Inr (if e = FetchError then None else Some ms), v)"
proof -
  have "maxBatch - Suc 0 = Suc 98" by (simp add: maxBatch_def)
  then show "Fetch C u = (Inl e, v) \<Longrightarrow> ?thesis" by (simp only: gather.simps) (cases e; simp add: eff_simps)
qed

lemma commit_all_one: "commit_all [m] c = c(place m := Suc (AtOffset m))"
  by (rule ext) (simp add: commit_all_def)

lemma demo_round_one:
  fixes w :: "(string pg_view, string) worker_world"
  assumes "plans w = [Deliver tp]" "position (topics w) tp = i" "i < length (messages (topics w) tp)"
    and "transaction_of \<lparr>FromTopic = fst tp, FromPartition = snd tp, AtOffset = i, FetchedValue = messages (topics w) tp ! i\<rparr> = Inr t"
    and "WriteBatch mem_pg id [t] (w\<lparr>plans := [], topics := (topics w)\<lparr>position := (position (topics w))(tp := Suc i)\<rparr>\<rparr>)
      = (Inr n, w\<lparr>plans := [], topics := (topics w)\<lparr>position := (position (topics w))(tp := Suc i)\<rparr>, db := D, random_uuids := us\<rparr>)"
  shows "Once mem_kafka (WriteBatch mem_pg id) w = (Inr 1, w\<lparr>plans := [], db := D, random_uuids := us,
      topics := (topics w)\<lparr>position := (position (topics w))(tp := Suc i), committed := (committed (topics w))(tp := Suc i)\<rparr>\<rparr>)"
  using assms
  by (simp add: Once_def mem_kafka_def mem_fetch_def deliver_def eff_defs demo_gather sum_bind_simps commit_all_one place_def)

definition demo_partition :: "string \<times> nat" where
  "demo_partition = (TopicWagersPlaced, 0)"

definition demo_after :: "(string pg_view, string) worker_world" where
  "demo_after = (demo_ledger [] [])\<lparr>db := \<lparr>saved = demo_booked ''k1'', work = None\<rparr>,
     topics := demo_topics\<lparr>position := (\<lambda>_. 0)(demo_partition := 1), committed := (\<lambda>_. 0)(demo_partition := 1)\<rparr>\<rparr>"

lemma demo_log:
  "messages demo_topics demo_partition = map (\<lambda>k. MessageValue (message_of (WagerEvent (demo_placed k)))) [''k1'', ''k2'']"
  "position demo_topics = (\<lambda>_. 0)" "committed demo_topics = (\<lambda>_. 0)"
  "fst demo_partition = TopicWagersPlaced" "snd demo_partition = 0"
  by (simp_all add: demo_topics_def demo_partition_def)

lemma demo_first_round:
  "Once mem_kafka (WriteBatch mem_pg id) (demo_ledger [''t1'', ''e1'', ''e2''] [Deliver demo_partition]) = (Inr 1, demo_after)"
proof -
  let ?w = "demo_ledger [''t1'', ''e1'', ''e2''] [Deliver demo_partition]"
  let ?u = "?w\<lparr>plans := [], topics := (topics ?w)\<lparr>position := (position (topics ?w))(demo_partition := Suc 0)\<rparr>\<rparr>"
  have "WriteBatch mem_pg id [transactionForWager (demo_placed ''k1'')] ?u
      = (Inr 1, ?u\<lparr>db := \<lparr>saved = demo_booked ''k1'', work = None\<rparr>, random_uuids := []\<rparr>)"
    by (rule demo_written) (simp_all add: demo_ledger_def)
  then have "Once mem_kafka (WriteBatch mem_pg id) ?w = (Inr 1, ?w\<lparr>plans := [],
      db := \<lparr>saved = demo_booked ''k1'', work = None\<rparr>, random_uuids := [],
      topics := (topics ?w)\<lparr>position := (position (topics ?w))(demo_partition := Suc 0),
        committed := (committed (topics ?w))(demo_partition := Suc 0)\<rparr>\<rparr>)"
    by (intro demo_round_one [where t = "transactionForWager (demo_placed ''k1'')"])
      (simp_all add: demo_ledger_def demo_log demo_transaction)
  then show ?thesis by (simp add: demo_after_def demo_ledger_def demo_log(2,3))
qed

lemma demo_keeps: "\<not> drops mem_kafka (demo_ledger us [Deliver demo_partition])"
proof -
  have "gather mem_kafka (maxBatch - Suc 0) ms v = (Inr (Some ms), v)" if "plans v = []"
    for ms and v :: "(string pg_view, string) worker_world"
  proof -
    from that have "Fetch mem_kafka v = (Inl DeadlineExceeded, v)" by (simp add: mem_kafka_def mem_fetch_def)
    then show ?thesis by (simp add: demo_gather)
  qed
  moreover have "plans u = []" if "Fetch mem_kafka (demo_ledger us [Deliver demo_partition]) = (Inr m, u)" for m u
    using that by (auto simp: mem_kafka_def mem_fetch_def deliver_def demo_ledger_def split: if_splits)
  ultimately show ?thesis by (auto simp: drops_def)
qed

text \<open>After one round the committed offset is 1 and the first wager is in the ledger.\<close>

theorem worker_commits_after_posting_witness:
  "committed (topics demo_after) demo_partition = 1
    \<and> (\<exists>t. tx_at (topics demo_after) demo_partition 0 = Inr t
       \<and> (\<exists>p\<in>set (book (saved (db demo_after))). PostKey p = TxKey t))"
proof -
  let ?w = "demo_ledger [''t1'', ''e1'', ''e2''] [Deliver demo_partition]"
  have w: "pg_env id ?w" "saved (id (db ?w)) = \<lparr>transactions = [], accounts = [], entries = []\<rparr>"
    "position (topics ?w) = (\<lambda>_. 0)" "committed (topics ?w) = (\<lambda>_. 0)"
    by (simp_all add: demo_ledger_def demo_log pg_env_quiet)
  have "idle id topics ?w ?w" using w(1) by (simp add: idle_def log_grows_def)
  moreover have "worker_run mem_pg id mem_kafka topics id ?w True" by (rule worker_run.start) (rule w)+
  ultimately have "worker_run mem_pg id mem_kafka topics id demo_after (\<not> isl (Inr 1 :: err + int))"
    by (intro worker_run.round [OF _ _ refl demo_keeps demo_first_round])
  then have "worker_run mem_pg id mem_kafka topics id demo_after True" by simp
  from worker_commits_after_posting [OF mem_worker.ledger_worker_axioms this, of 0 demo_partition]
  show ?thesis by (auto simp: demo_after_def)
qed


end
