(* ===== verification/Streams.thy ===== *)
theory Streams
  imports Client "HOL-Library.Sublist"
begin

text \<open>
  Redis streams and consumer groups as the relay uses them. Like the other commands they are a
  parameter, a record of functions on an unknown state; the locale \<open>stream_server\<close> states their
  documented effect on the entries of a stream and on a group: how many entries have been
  delivered and which of them are pending, under which consumer. The id of the entry at
  position \<open>i\<close> is \<open>i + 1\<close>, and 0 is \<open>0-0\<close>; nothing deletes entries.
\<close>

section \<open>Commands\<close>

type_synonym stream_entry = "nat \<times> (string \<times> string) list"

record 's streams_api =
  XGROUP_CREATE :: "string \<Rightarrow> string \<Rightarrow> ('s, err, bool) eff"
  XREADGROUP :: "string \<Rightarrow> string \<Rightarrow> string \<Rightarrow> string \<Rightarrow> nat \<Rightarrow> ('s, err, stream_entry list option) eff"
  XACK :: "string \<Rightarrow> string \<Rightarrow> nat list \<Rightarrow> ('s, err, unit) eff"
  XAUTOCLAIM :: "string \<Rightarrow> string \<Rightarrow> string \<Rightarrow> nat \<Rightarrow> nat \<Rightarrow> ('s, err, stream_entry list \<times> nat) eff"

text \<open>
  \<open>XGROUP_CREATE stream group\<close> is \<open>XGROUP CREATE ... 0 MKSTREAM\<close>; it answers \<open>False\<close> for
  \<open>BUSYGROUP\<close>. \<open>XREADGROUP group consumer stream id count\<close> reads new entries when \<open>id\<close> is
  \<open>>\<close> and the consumer's own pending ones when it is \<open>0\<close>; it answers \<open>None\<close> for a nil reply.
  \<open>XAUTOCLAIM stream group consumer start count\<close> is the one with a minimum idle time of 0.
\<close>

record group =
  Delivered :: nat
  Pending :: "(nat \<times> string) list"

record sview =
  entries_in :: "string \<Rightarrow> (string \<times> string) list list"
  group_in :: "string \<Rightarrow> string \<rightharpoonup> group"

section \<open>Their effect\<close>

definition entry_at :: "(string \<times> string) list list \<Rightarrow> nat \<Rightarrow> stream_entry" where
  "entry_at es i = (Suc i, es ! i)"

definition set_group :: "string \<Rightarrow> string \<Rightarrow> group \<Rightarrow> sview \<Rightarrow> sview" where
  "set_group st gr g v = v\<lparr>group_in := (group_in v)(st := (group_in v st)(gr \<mapsto> g))\<rparr>"

definition v_create :: "string \<Rightarrow> string \<Rightarrow> sview \<Rightarrow> (err + bool) \<times> sview" where
  "v_create st gr v = (case group_in v st gr of Some _ \<Rightarrow> (Inr False, v)
     | None \<Rightarrow> (Inr True, set_group st gr \<lparr>Delivered = 0, Pending = []\<rparr> v))"

text \<open>Without the group every command but the acknowledgement is an error.\<close>

definition v_read_new :: "string \<Rightarrow> string \<Rightarrow> string \<Rightarrow> nat \<Rightarrow> sview \<Rightarrow> (err + stream_entry list option) \<times> sview" where
  "v_read_new gr c st n v = (case group_in v st gr of None \<Rightarrow> (Inl RemoteFailure, v)
     | Some g \<Rightarrow> let is = [Delivered g ..< min (Delivered g + n) (length (entries_in v st))] in
         if is = [] then (Inr None, v)
         else (Inr (Some (map (entry_at (entries_in v st)) is)),
           set_group st gr \<lparr>Delivered = Delivered g + length is, Pending = Pending g @ map (\<lambda>i. (i, c)) is\<rparr> v))"

definition own :: "string \<Rightarrow> group \<Rightarrow> nat list" where
  "own c g = map fst (filter (\<lambda>p. snd p = c) (Pending g))"

definition v_read_own :: "string \<Rightarrow> string \<Rightarrow> string \<Rightarrow> nat \<Rightarrow> sview \<Rightarrow> (err + stream_entry list option) \<times> sview" where
  "v_read_own gr c st n v = (case group_in v st gr of None \<Rightarrow> (Inl RemoteFailure, v)
     | Some g \<Rightarrow> (Inr (Some (map (entry_at (entries_in v st)) (take n (own c g)))), v))"

definition v_ack :: "string \<Rightarrow> string \<Rightarrow> nat list \<Rightarrow> sview \<Rightarrow> (err + unit) \<times> sview" where
  "v_ack st gr ids v = (case group_in v st gr of None \<Rightarrow> (Inr (), v)
     | Some g \<Rightarrow> (Inr (), set_group st gr (g\<lparr>Pending := filter (\<lambda>p. Suc (fst p) \<notin> set ids) (Pending g)\<rparr>) v))"

definition claim :: "string \<Rightarrow> nat list \<Rightarrow> nat \<times> string \<Rightarrow> nat \<times> string" where
  "claim c is p = (if fst p \<in> set is then (fst p, c) else p)"

text \<open>A claim goes on at the first pending entry it has not looked at.\<close>

definition v_autoclaim :: "string \<Rightarrow> string \<Rightarrow> string \<Rightarrow> nat \<Rightarrow> nat \<Rightarrow> sview \<Rightarrow> (err + stream_entry list \<times> nat) \<times> sview" where
  "v_autoclaim st gr c start n v = (case group_in v st gr of None \<Rightarrow> (Inl RemoteFailure, v)
     | Some g \<Rightarrow> let todo = filter (\<lambda>i. start \<le> Suc i) (map fst (Pending g)); is = take n todo in
         (Inr (map (entry_at (entries_in v st)) is, case drop n todo of [] \<Rightarrow> 0 | i # _ \<Rightarrow> Suc i),
          set_group st gr (g\<lparr>Pending := map (claim c is) (Pending g)\<rparr>) v))"

text \<open>Pending entries are in order, each once, and have been delivered.\<close>

definition group_ok :: "nat \<Rightarrow> group \<Rightarrow> bool" where
  "group_ok n g \<longleftrightarrow> sorted_wrt (<) (map fst (Pending g)) \<and> Delivered g \<le> n \<and> (\<forall>p\<in>set (Pending g). fst p < Delivered g)"

definition groups_ok :: "sview \<Rightarrow> bool" where
  "groups_ok v \<longleftrightarrow> (\<forall>st gr g. group_in v st gr = Some g \<longrightarrow> group_ok (length (entries_in v st)) g)"

locale stream_server =
  fixes X :: "'s streams_api" and view :: "'s \<Rightarrow> sview"
  assumes XGROUP_CREATE: "acts view (XGROUP_CREATE X st gr) (v_create st gr)"
    and XREADGROUP_new: "0 < n \<Longrightarrow> acts view (XREADGROUP X gr c st ''>'' n) (v_read_new gr c st n)"
    and XREADGROUP_own: "0 < n \<Longrightarrow> acts view (XREADGROUP X gr c st ''0'' n) (v_read_own gr c st n)"
    and XACK: "acts view (XACK X st gr ids) (v_ack st gr ids)"
    and XAUTOCLAIM: "0 < n \<Longrightarrow> acts view (XAUTOCLAIM X st gr c start n) (v_autoclaim st gr c start n)"

section \<open>What every command keeps\<close>

text \<open>The entries of a group that have been acknowledged.\<close>

definition acked :: "string \<Rightarrow> string \<Rightarrow> sview \<Rightarrow> nat set" where
  "acked st gr v = (case group_in v st gr of None \<Rightarrow> {}
     | Some g \<Rightarrow> {i. i < Delivered g \<and> i \<notin> fst ` set (Pending g)})"

text \<open>Entries are only appended, groups stay in order, and nothing outside \<open>A\<close> is acknowledged.\<close>

definition acks_only :: "string \<Rightarrow> string \<Rightarrow> nat set \<Rightarrow> sview \<Rightarrow> sview \<Rightarrow> bool" where
  "acks_only st gr A v v' \<longleftrightarrow> (\<forall>k. prefix (entries_in v k) (entries_in v' k)) \<and> (groups_ok v \<longrightarrow> groups_ok v')
     \<and> acked st gr v' \<subseteq> acked st gr v \<union> A"

lemma acks_only_refl: "reflp (acks_only st gr A)"
  by (rule reflpI) (simp add: acks_only_def)

lemma acks_only_trans: "transp (acks_only st gr A)"
  unfolding acks_only_def by (rule transpI) (blast intro: prefix_order.order_trans)

lemma acks_only_mono: "acks_only st gr A v v' \<Longrightarrow> A \<subseteq> B \<Longrightarrow> acks_only st gr B v v'"
  unfolding acks_only_def by blast

lemma set_group_sel [simp]:
  "entries_in (set_group st gr g v) = entries_in v"
  "group_in (set_group st gr g v) st' gr' = (if st' = st \<and> gr' = gr then Some g else group_in v st' gr')"
  by (simp_all add: set_group_def)

lemma groups_ok_set: "groups_ok v \<Longrightarrow> group_ok (length (entries_in v st)) g \<Longrightarrow> groups_ok (set_group st gr g v)"
  by (simp add: groups_ok_def)

lemma group_ok_filter: "group_ok n g \<Longrightarrow> group_ok n (g\<lparr>Pending := filter P (Pending g)\<rparr>)"
  by (auto simp: group_ok_def sorted_wrt_map sorted_wrt_filter)

lemma fst_claim [simp]: "fst (claim c is p) = fst p"
  by (simp add: claim_def)

lemma group_ok_claim: "group_ok n g \<Longrightarrow> group_ok n (g\<lparr>Pending := map (claim c is) (Pending g)\<rparr>)"
  by (auto simp: group_ok_def sorted_wrt_map)

lemma commands_groups_ok:
  assumes "groups_ok v"
  shows "groups_ok (snd (v_create st gr v))" "groups_ok (snd (v_read_new gr c st n v))"
    "groups_ok (snd (v_read_own gr c st n v))" "groups_ok (snd (v_ack st gr ids v))"
    "groups_ok (snd (v_autoclaim st gr c start n v))"
proof -
  have g: "group_ok (length (entries_in v st)) g" if "group_in v st gr = Some g" for g
    using assms that by (auto simp: groups_ok_def)
  show "groups_ok (snd (v_create st gr v))"
    using assms by (auto simp: v_create_def group_ok_def intro!: groups_ok_set split: option.split)
  show "groups_ok (snd (v_read_own gr c st n v))" using assms by (simp add: v_read_own_def split: option.split)
  show "groups_ok (snd (v_ack st gr ids v))"
    using assms g by (auto simp: v_ack_def intro!: groups_ok_set group_ok_filter split: option.split)
  show "groups_ok (snd (v_autoclaim st gr c start n v))"
    using assms g by (auto simp: v_autoclaim_def Let_def intro!: groups_ok_set group_ok_claim split: option.split)
  show "groups_ok (snd (v_read_new gr c st n v))"
    using assms g
    by (fastforce simp: v_read_new_def Let_def group_ok_def sorted_wrt_append sorted_wrt_map sorted_wrt_upt o_def
        intro!: groups_ok_set split: option.split)
qed

lemma commands_ack:
  "acks_only st' gr' {} v (snd (v_create st gr v))" "acks_only st' gr' {} v (snd (v_read_new gr c st n v))"
  "acks_only st' gr' {} v (snd (v_read_own gr c st n v))" "acks_only st' gr' {} v (snd (v_autoclaim st gr c start n v))"
  "acks_only st' gr' {i. Suc i \<in> set ids} v (snd (v_ack st gr ids v))"
proof -
  note ok = commands_groups_ok [of v]
  show "acks_only st' gr' {} v (snd (v_create st gr v))"
    using ok(1) by (auto simp: acks_only_def v_create_def acked_def split: option.splits)
  show "acks_only st' gr' {} v (snd (v_read_new gr c st n v))"
  proof (cases "group_in v st gr")
    case (Some g)
    let ?is = "[Delivered g ..< min (Delivered g + n) (length (entries_in v st))]"
    have "fst ` (\<lambda>i. (i, c)) ` set ?is = set ?is" by force
    then have "acked st' gr' (snd (v_read_new gr c st n v)) \<subseteq> acked st' gr' v"
      using Some by (auto simp: v_read_new_def Let_def acked_def image_Un split: option.splits)
    moreover have "entries_in (snd (v_read_new gr c st n v)) = entries_in v"
      using Some by (simp add: v_read_new_def Let_def)
    ultimately show ?thesis using ok(2) [of gr c st n] by (simp only: acks_only_def) simp
  qed (simp add: acks_only_def v_read_new_def)
  show "acks_only st' gr' {} v (snd (v_read_own gr c st n v))"
    by (auto simp: acks_only_def v_read_own_def split: option.splits)
  have "fst ` claim c js ` set ps = fst ` set ps" for ps js by (simp add: image_image)
  then show "acks_only st' gr' {} v (snd (v_autoclaim st gr c start n v))"
    using ok(5) by (auto simp: acks_only_def v_autoclaim_def Let_def acked_def split: option.splits)
  show "acks_only st' gr' {i. Suc i \<in> set ids} v (snd (v_ack st gr ids v))"
    using ok(4) by (auto simp: acks_only_def v_ack_def acked_def image_iff split: option.splits)
qed

text \<open>What a read returns are entries of the stream.\<close>

definition is_entry :: "sview \<Rightarrow> string \<Rightarrow> stream_entry \<Rightarrow> bool" where
  "is_entry v st m \<longleftrightarrow> (\<exists>i < length (entries_in v st). m = entry_at (entries_in v st) i)"

lemma is_entryI: "i < length (entries_in v st) \<Longrightarrow> is_entry v st (entry_at (entries_in v st) i)"
  unfolding is_entry_def by blast

lemma read_new_entries:
  "v_read_new gr c st n v = (Inr (Some ms), v') \<Longrightarrow> m \<in> set ms \<Longrightarrow> is_entry v' st m"
  using is_entryI [of _ v' st]
  by (auto simp: v_read_new_def Let_def split: option.splits if_splits)

lemma read_own_entries:
  assumes "v_read_own gr c st n v = (Inr (Some ms), v')" "groups_ok v'" "m \<in> set ms"
  shows "is_entry v' st m"
proof -
  obtain g where "group_in v st gr = Some g"
    using assms(1) by (cases "group_in v st gr") (simp_all add: v_read_own_def)
  with assms(1) have g: "group_in v st gr = Some g" "ms = map (entry_at (entries_in v st)) (take n (own c g))" "v' = v"
    by (auto simp add: v_read_own_def)
  have "i < length (entries_in v st)" if "i \<in> set (take n (own c g))" for i
  proof -
    from that have "i \<in> set (own c g)" by (rule in_set_takeD)
    then obtain p where "p \<in> set (Pending g)" "i = fst p" by (auto simp: own_def)
    moreover have "group_ok (length (entries_in v st)) g" using assms(2) g(1,3) by (simp add: groups_ok_def)
    ultimately show ?thesis by (auto simp: group_ok_def intro: less_le_trans)
  qed
  then show ?thesis using g(2,3) assms(3) is_entryI [of _ v st] by auto
qed

section \<open>Streams in memory\<close>

text \<open>An instance of the interface, on which the properties are tried.\<close>

definition mem_streams :: "sview streams_api" where
  "mem_streams = \<lparr>XGROUP_CREATE = v_create,
     XREADGROUP = (\<lambda>gr c st start n. if start = ''>'' then v_read_new gr c st n else v_read_own gr c st n),
     XACK = v_ack, XAUTOCLAIM = v_autoclaim\<rparr>"

interpretation mem_streams: stream_server mem_streams id
  by unfold_locales (simp_all add: mem_streams_def acts_def)

end
