(* ===== verification/Relay.thy ===== *)
theory Relay
  imports Streams Events
begin

text \<open>
  \<open>internal/relay\<close>: from the outbox stream to Kafka through a consumer group, with
  \<open>events.KafkaProducer.Produce\<close>. Parameters: the stream commands and the Kafka writer.
\<close>

type_synonym 'w kafka_writer = "message list \<Rightarrow> ('w, err, unit) eff"

text \<open>The events have only fields \<open>json.Marshal\<close> accepts.\<close>

definition Produce :: "'w kafka_writer \<Rightarrow> Event list \<Rightarrow> ('w, err, unit) eff" where
  "Produce writes evs = writes (map message_of evs)"

text \<open>A relay: its stream, group and consumer names.\<close>

record relay =
  RelayStream :: string
  RelayGroup :: string
  RelayConsumer :: string

definition EnsureGroup :: "'s streams_api \<Rightarrow> relay \<Rightarrow> ('s, 'x, unit) go" where
  "EnsureGroup X r = andThen (roundtrip (XGROUP_CREATE X (RelayStream r) (RelayGroup r))) (\<lambda>_. ret ())"

text \<open>The field map of an entry: a field given twice keeps its last value.\<close>

definition values_of :: "(string \<times> string) list \<Rightarrow> (string \<rightharpoonup> string)" where
  "values_of fvs = map_of (rev fvs)"

definition entry_event :: "stream_entry \<Rightarrow> err + Event" where
  "entry_event m = Decode (values_of (snd m))"

definition readDecodeProduceAck :: "'s streams_api \<Rightarrow> ('s, 'x) world_scheme kafka_writer \<Rightarrow> relay \<Rightarrow> string \<Rightarrow> nat \<Rightarrow>
    ('s, 'x, int) go" where
  "readDecodeProduceAck X writes r start batch =
     andThen (roundtrip (XREADGROUP X (RelayGroup r) (RelayConsumer r) (RelayStream r) start batch)) (\<lambda>reply.
     case reply of None \<Rightarrow> ret 0
     | Some messages \<Rightarrow>
         if messages = [] then ret 0
         else andThen (lift_sum (try_map entry_event messages)) (\<lambda>evs.
           andThen (Produce writes evs) (\<lambda>_.
           andThen (roundtrip (XACK X (RelayStream r) (RelayGroup r) (map fst messages))) (\<lambda>_.
           ret (int (length evs))))))"

definition RelayOnce :: "'s streams_api \<Rightarrow> ('s, 'x) world_scheme kafka_writer \<Rightarrow> relay \<Rightarrow> nat \<Rightarrow> ('s, 'x, int) go" where
  "RelayOnce X writes r batch = readDecodeProduceAck X writes r ''>'' batch"

definition Recover :: "'s streams_api \<Rightarrow> ('s, 'x) world_scheme kafka_writer \<Rightarrow> relay \<Rightarrow> nat \<Rightarrow> ('s, 'x, int) go" where
  "Recover X writes r batch = readDecodeProduceAck X writes r ''0'' batch"

text \<open>
  The loops of a relay run until they are done; the model gives them fuel, and \<open>None\<close> is
  running out of it.
\<close>

fun claim_from :: "'s streams_api \<Rightarrow> relay \<Rightarrow> nat \<Rightarrow> nat \<Rightarrow> nat \<Rightarrow> int \<Rightarrow> ('s, 'x, int option) go" where
  "claim_from X r 0 batch start claimed = ret None"
| "claim_from X r (Suc fuel) batch start claimed =
     andThen (roundtrip (XAUTOCLAIM X (RelayStream r) (RelayGroup r) (RelayConsumer r) start batch)) (\<lambda>(msgs, following).
     if following = 0 then ret (Some (claimed + int (length msgs)))
     else claim_from X r fuel batch following (claimed + int (length msgs)))"

definition ClaimOrphans :: "'s streams_api \<Rightarrow> relay \<Rightarrow> nat \<Rightarrow> nat \<Rightarrow> ('s, 'x, int option) go" where
  "ClaimOrphans X r fuel batch = claim_from X r fuel batch 0 0"

fun drain :: "'s streams_api \<Rightarrow> ('s, 'x) world_scheme kafka_writer \<Rightarrow> relay \<Rightarrow> nat \<Rightarrow> ('s, 'x, unit option) go" where
  "drain X writes r 0 = ret None"
| "drain X writes r (Suc fuel) = andThen (Recover X writes r 100) (\<lambda>n.
     if n = 0 then ret (Some ()) else drain X writes r fuel)"

text \<open>What \<open>ctx.Err()\<close> says before a round and after it, \<open>True\<close> when the context is cancelled.\<close>

fun relay_rounds :: "'s streams_api \<Rightarrow> ('s, 'x) world_scheme kafka_writer \<Rightarrow> relay \<Rightarrow> (bool \<times> bool) list \<Rightarrow>
    ('s, 'x, unit option) go" where
  "relay_rounds X writes r [] = ret None"
| "relay_rounds X writes r ((before, after) # cs) =
     (if before then ret (Some ())
      else attempt (RelayOnce X writes r 100) (\<lambda>q. case q of
        Inl e \<Rightarrow> if after then ret (Some ()) else raise e
      | Inr _ \<Rightarrow> relay_rounds X writes r cs))"

definition start_relay :: "'s streams_api \<Rightarrow> ('s, 'x) world_scheme kafka_writer \<Rightarrow> relay \<Rightarrow> nat \<Rightarrow>
    ('s, 'x, unit option) go" where
  "start_relay X writes r fuel =
     andThen (EnsureGroup X r) (\<lambda>_.
     andThen (ClaimOrphans X r fuel 100) (\<lambda>c.
     case c of None \<Rightarrow> ret None | Some _ \<Rightarrow> drain X writes r fuel))"

definition RunRelay :: "'s streams_api \<Rightarrow> ('s, 'x) world_scheme kafka_writer \<Rightarrow> relay \<Rightarrow> nat \<Rightarrow> (bool \<times> bool) list \<Rightarrow>
    ('s, 'x, unit option) go" where
  "RunRelay X writes r fuel cs = andThen (start_relay X writes r fuel) (\<lambda>d.
     case d of None \<Rightarrow> ret None | Some _ \<Rightarrow> relay_rounds X writes r cs)"

end
