(* ===== verification/RelaySpec.thy ===== *)
theory RelaySpec
  imports Relay
begin

text \<open>
  What the relay promises: no entry of the outbox is acknowledged before Kafka has its message,
  whatever fails and whoever interferes; and a start on a quiet server hands over all that is
  pending and ends.
\<close>

section \<open>The Kafka writer\<close>

text \<open>
  A write that succeeds has put every message into the log. One that fails may have put some.
  It does not touch Redis, and Redis does not touch the log.
\<close>

locale kafka_log =
  fixes writes :: "('s, 'x) world_scheme kafka_writer" and log_of :: "('s, 'x) world_scheme \<Rightarrow> message list"
  assumes writes_log: "writes ms w = (r, w') \<Longrightarrow> \<exists>ns. log_of w' = log_of w @ ns \<and> set ns \<subseteq> set ms \<and> (isl r \<or> set ns = set ms)"
    and writes_apart: "writes ms w = (r, w') \<Longrightarrow> db w' = db w \<and> turns w' = turns w"
    and log_apart: "log_of (w\<lparr>db := a, turns := ts\<rparr>) = log_of w"

definition relayed :: "string \<Rightarrow> sview \<Rightarrow> message list \<Rightarrow> nat \<Rightarrow> bool" where
  "relayed st v ms i \<longleftrightarrow> i < length (entries_in v st)
     \<and> (\<exists>ev. Decode (values_of (entries_in v st ! i)) = Inr ev \<and> message_of ev \<in> set ms)"

lemma relayed_mono:
  "relayed st v ms i \<Longrightarrow> prefix (entries_in v st) (entries_in v' st) \<Longrightarrow> set ms \<subseteq> set ms' \<Longrightarrow> relayed st v' ms' i"
  by (auto simp: relayed_def prefix_def nth_append)

text \<open>The invariant: the groups are in order, the environment acknowledges nothing and never takes
  an entry away, and what has been acknowledged is in the log.\<close>

definition relay_ok :: "('s \<Rightarrow> sview) \<Rightarrow> (('s, 'x) world_scheme \<Rightarrow> message list) \<Rightarrow> relay \<Rightarrow> ('s, 'x) world_scheme \<Rightarrow> bool" where
  "relay_ok view log_of r w \<longleftrightarrow> groups_ok (view (db w))
     \<and> rely (\<lambda>s s'. acks_only (RelayStream r) (RelayGroup r) {} (view s) (view s')) w
     \<and> (\<forall>i\<in>acked (RelayStream r) (RelayGroup r) (view (db w)). relayed (RelayStream r) (view (db w)) (log_of w) i)"

definition all_decode :: "string \<Rightarrow> sview \<Rightarrow> bool" where
  "all_decode st v \<longleftrightarrow> (\<forall>i < length (entries_in v st). \<exists>ev. Decode (values_of (entries_in v st ! i)) = Inr ev)"

locale relay_pipeline = stream_server X view + kafka_log writes log_of
  for X :: "'s streams_api" and view :: "'s \<Rightarrow> sview"
    and writes :: "('s, 'x) world_scheme kafka_writer" and log_of :: "('s, 'x) world_scheme \<Rightarrow> message list"
begin

definition keeps :: "relay \<Rightarrow> ('s, 'x, 'a) go \<Rightarrow> bool" where
  "keeps r m \<longleftrightarrow> (\<forall>w. relay_ok view log_of r w \<longrightarrow> relay_ok view log_of r (snd (m w)))"

lemma keepsD: "keeps r m \<Longrightarrow> relay_ok view log_of r w \<Longrightarrow> m w = (q, w') \<Longrightarrow> relay_ok view log_of r w'"
  unfolding keeps_def by (metis snd_conv)

lemma trip_shape: "\<exists>a ts. snd (roundtrip f w) = w\<lparr>db := a, turns := ts\<rparr>" for w :: "('s, 'x) world_scheme"
  by (auto simp: roundtrip_def delivered_def Let_def split: list.split turn.split prod.split)
    (metis world.surjective world.update_convs)+

lemma trip_log: "roundtrip f w = (q, w') \<Longrightarrow> log_of w' = log_of w" for w :: "('s, 'x) world_scheme"
  using trip_shape [of f w] log_apart by auto

lemma trip_turns: "roundtrip f w = (q, w') \<Longrightarrow> set (turns w') \<subseteq> set (turns w)" for w :: "('s, 'x) world_scheme"
  by (auto simp: roundtrip_def delivered_def Let_def split: list.splits turn.splits prod.splits if_splits)

lemma trip_keeps:
  assumes ok: "relay_ok view log_of r w" and f: "acts view f F"
    and F: "\<And>v. acks_only (RelayStream r) (RelayGroup r) A v (snd (F v))"
    and A: "\<forall>i\<in>A. relayed (RelayStream r) (view (db w)) (log_of w) i" and run: "roundtrip f w = (q, w')"
  shows "relay_ok view log_of r w'"
proof -
  let ?Q = "\<lambda>B s s'. acks_only (RelayStream r) (RelayGroup r) B (view s) (view s')"
  have "rely (?Q {}) w" using ok by (simp add: relay_ok_def)
  then have env: "rely (?Q A) w" "rely (?Q {}) w'"
    using trip_turns [OF run] unfolding rely_def by (blast intro: acks_only_mono)+
  have "step_guar (?Q A) f" using f F by (simp add: step_guar_def acts_def)
  moreover have "reflp (?Q A)" "transp (?Q A)"
    using acks_only_refl acks_only_trans unfolding reflp_def transp_def by blast+
  ultimately have "guar (?Q A) (roundtrip f :: ('s, 'x, _) go)" by (intro trips_guar)
  from guarD [OF this env(1)] have step: "?Q A (db w) (db w')" by (simp add: run)
  then have pre: "prefix (entries_in (view (db w)) (RelayStream r)) (entries_in (view (db w')) (RelayStream r))"
    by (simp add: acks_only_def)
  have "relayed (RelayStream r) (view (db w)) (log_of w') i"
    if "i \<in> acked (RelayStream r) (RelayGroup r) (view (db w'))" for i
    using that step A ok trip_log [OF run] unfolding acks_only_def relay_ok_def by fastforce
  with relayed_mono [OF _ pre order_refl] step env(2) ok show ?thesis
    unfolding relay_ok_def by (auto simp: acks_only_def)
qed

lemma keeps_trip:
  assumes "acts view f F" "\<And>v. acks_only (RelayStream r) (RelayGroup r) {} v (snd (F v))"
  shows "keeps r (roundtrip f :: ('s, 'x, 'a) go)"
  unfolding keeps_def using trip_keeps [OF _ assms] by (metis empty_iff surjective_pairing)

lemma keeps_pure: "keeps r (ret x)" "keeps r (raise e)"
  by (simp_all add: keeps_def eff_simps)

lemma keeps_andThen: "keeps r m \<Longrightarrow> (\<And>x. keeps r (k x)) \<Longrightarrow> keeps r (andThen m k)"
  unfolding keeps_def andThen_def by (auto split: prod.splits sum.splits)

lemma keeps_attempt: "keeps r m \<Longrightarrow> (\<And>x. keeps r (k x)) \<Longrightarrow> keeps r (attempt m k)"
  unfolding keeps_def attempt_def by (auto split: prod.splits sum.splits)

text \<open>What has been read, and is then in the log, may be acknowledged.\<close>

lemma read_entries:
  assumes "start \<in> {''>'', ''0''}" "0 < n" "relay_ok view log_of r w'"
    and run: "roundtrip (XREADGROUP X (RelayGroup r) (RelayConsumer r) (RelayStream r) start n) w = (Inr (Some ms), w')"
    and m: "m \<in> set ms"
  shows "is_entry (view (db w')) (RelayStream r) m"
proof -
  obtain s where s: "XREADGROUP X (RelayGroup r) (RelayConsumer r) (RelayStream r) start n s = (Inr (Some ms), db w')"
    using roundtrip_Inr [OF run] by metis
  have ok: "groups_ok (view (db w'))" using assms(3) by (simp add: relay_ok_def)
  show ?thesis
  proof (cases "start = ''>''")
    case True
    from actsD [OF XREADGROUP_new [OF assms(2)] s [unfolded True]] m show ?thesis by (rule read_new_entries)
  next
    case False
    with assms(1) have z: "start = ''0''" by simp
    from actsD [OF XREADGROUP_own [OF assms(2)] s [unfolded z]] ok m show ?thesis by (rule read_own_entries)
  qed
qed

lemma keeps_read:
  assumes "start \<in> {''>'', ''0''}" "0 < n"
  shows "keeps r (readDecodeProduceAck X writes r start n)"
  unfolding keeps_def
proof (intro allI impI)
  fix w :: "('s, 'x) world_scheme" assume ok: "relay_ok view log_of r w"
  let ?m = "readDecodeProduceAck X writes r start n"
  obtain q u where rd: "roundtrip (XREADGROUP X (RelayGroup r) (RelayConsumer r) (RelayStream r) start n) w = (q, u)"
    by (meson surj_pair)
  have "keeps r (roundtrip (XREADGROUP X (RelayGroup r) (RelayConsumer r) (RelayStream r) start n))"
    using assms(1) keeps_trip [OF XREADGROUP_new [OF assms(2)] commands_ack(2)]
      keeps_trip [OF XREADGROUP_own [OF assms(2)] commands_ack(3)] by auto
  from keepsD [OF this ok rd] have u: "relay_ok view log_of r u" .
  show "relay_ok view log_of r (snd (?m w))"
  proof (cases "\<exists>ms evs. q = Inr (Some ms) \<and> ms \<noteq> [] \<and> try_map entry_event ms = Inr evs")
    case False
    then show ?thesis
      using rd u by (cases q) (auto simp: readDecodeProduceAck_def eff_defs split: option.split sum.split)
  next
    case True
    then obtain ms evs where q: "q = Inr (Some ms)" "ms \<noteq> []" "try_map entry_event ms = Inr evs" by blast
    obtain p v where p: "Produce writes evs u = (p, v)" by (meson surj_pair)
    note apart = writes_apart [OF p [unfolded Produce_def]]
    obtain ns where ns: "log_of v = log_of u @ ns" "isl p \<or> set ns = message_of ` set evs"
      using writes_log [OF p [unfolded Produce_def]] by auto
    have v: "relay_ok view log_of r v" using u apart ns(1) relayed_mono [of "RelayStream r" "view (db u)" "log_of u" _ "view (db u)" "log_of v"]
      by (auto simp: relay_ok_def rely_def)
    show ?thesis
    proof (cases p)
      case (Inl e)
      with rd q p v show ?thesis by (simp add: readDecodeProduceAck_def eff_defs)
    next
      case (Inr x)
      have "relayed (RelayStream r) (view (db v)) (log_of v) i" if "Suc i \<in> set (map fst ms)" for i
      proof -
        from that obtain m where m: "m \<in> set ms" "fst m = Suc i" by auto
        from read_entries [OF assms u rd [unfolded q(1)] m(1)] m(2)
        have e: "i < length (entries_in (view (db u)) (RelayStream r))" "snd m = entries_in (view (db u)) (RelayStream r) ! i"
          unfolding is_entry_def entry_at_def by auto
        obtain ev where "ev \<in> set evs" "entry_event m = Inr ev" using try_map_member [OF q(3) m(1)] by blast
        with e ns Inr apart show ?thesis by (auto simp: relayed_def entry_event_def)
      qed
      moreover obtain a z where a: "roundtrip (XACK X (RelayStream r) (RelayGroup r) (map fst ms)) v = (a, z)"
        by (meson surj_pair)
      ultimately have "relay_ok view log_of r z" by (intro trip_keeps [OF v XACK commands_ack(5)]) auto
      with rd q p Inr a show ?thesis by (cases a) (simp_all add: readDecodeProduceAck_def eff_defs)
    qed
  qed
qed

lemma keeps_claims: "keeps r (claim_from X r fuel (Suc n) start k)"
  by (induction fuel arbitrary: start k)
    (auto intro!: keeps_pure keeps_andThen keeps_trip [OF XAUTOCLAIM commands_ack(4)])

lemma keeps_drain: "keeps r (drain X writes r fuel)"
  by (induction fuel) (auto simp: Recover_def intro!: keeps_pure keeps_andThen keeps_read)

lemma keeps_rounds: "keeps r (relay_rounds X writes r cs)"
  by (induction cs) (auto simp: RelayOnce_def intro!: keeps_pure keeps_attempt keeps_read split: sum.split)

lemma keeps_run: "keeps r (RunRelay X writes r fuel cs)"
  using keeps_claims [of r fuel 99 0 0]
  by (auto simp: RunRelay_def start_relay_def EnsureGroup_def ClaimOrphans_def
      intro!: keeps_pure keeps_andThen keeps_drain keeps_rounds keeps_trip [OF XGROUP_CREATE commands_ack(1)]
      split: option.split)

end

section \<open>A quiet start\<close>

lemma sorted_split:
  fixes j :: nat
  assumes "sorted_wrt (<) xs" "drop n xs = j # ys"
  shows "filter (\<lambda>i. j \<le> i) xs = drop n xs" "\<forall>i\<in>set xs. i < j \<longrightarrow> i \<in> set (take n xs)"
proof -
  have s: "sorted_wrt (<) (take n xs @ j # ys)" using assms by (metis append_take_drop_id)
  then have lt: "\<forall>i\<in>set (take n xs). i < j" "\<forall>i\<in>set ys. j < i" by (auto simp: sorted_wrt_append)
  have "filter (\<lambda>i. j \<le> i) (take n xs) = []" "filter (\<lambda>i. j \<le> i) ys = ys"
    using lt by (auto simp: filter_empty_conv intro!: filter_True)
  then have "filter (\<lambda>i. j \<le> i) (take n xs @ j # ys) = j # ys" by simp
  then show "filter (\<lambda>i. j \<le> i) xs = drop n xs" by (metis append_take_drop_id assms(2))
  have "i \<in> set (take n xs) \<or> i \<in> set (j # ys)" if "i \<in> set xs" for i
    using that by (metis Un_iff append_take_drop_id assms(2) set_append)
  then show "\<forall>i\<in>set xs. i < j \<longrightarrow> i \<in> set (take n xs)" using lt(2) by fastforce
qed

lemma sorted_bounded:
  fixes d :: nat
  assumes "sorted_wrt (<) ns" "\<forall>n\<in>set ns. n < d"
  shows "length ns \<le> d"
proof -
  have "card (set ns) \<le> card {..<d}" using assms(2) by (intro card_mono) auto
  then show ?thesis using assms(1) by (simp add: strict_sorted_iff distinct_card)
qed

lemma drop_shorter: "xs \<noteq> [] \<Longrightarrow> 0 < n \<Longrightarrow> length (drop n xs) < length xs"
  by (cases xs) auto

lemma ack_taken:
  fixes ps :: "(nat \<times> string) list"
  assumes "sorted_wrt (<) (map fst ps)"
  shows "filter (\<lambda>p. Suc (fst p) \<notin> Suc ` set (take n (map fst ps))) ps = drop n ps"
proof -
  have d: "distinct (map fst (take n ps @ drop n ps))" using assms by (simp add: strict_sorted_iff)
  have "filter (\<lambda>p. fst p \<notin> set (take n (map fst ps))) (take n ps @ drop n ps) = drop n ps"
    using d unfolding map_append distinct_append filter_append take_map
    by (auto simp: filter_empty_conv intro!: filter_True)
  then show ?thesis by (simp add: inj_image_mem_iff)
qed

lemma set_group_again: "set_group st gr g (set_group st gr h v) = set_group st gr g v"
  "group_in v st gr = Some g \<Longrightarrow> set_group st gr g v = v"
proof -
  show "group_in v st gr = Some g \<Longrightarrow> set_group st gr g v = v"
    unfolding set_group_def by (cases v) (simp add: fun_upd_idem)
qed (simp add: set_group_def)

context relay_pipeline
begin

lemma quiet_trip:
  fixes w :: "('s, 'x) world_scheme"
  assumes "turns w = []" "acts view f F"
  obtains s where "roundtrip f w = (fst (F (view (db w))), w\<lparr>db := s\<rparr>)" "view s = snd (F (view (db w)))"
proof
  show "roundtrip f w = (fst (F (view (db w))), w\<lparr>db := snd (f (db w))\<rparr>)" "view (snd (f (db w))) = snd (F (view (db w)))"
    using assms by (simp_all add: roundtrip_def delivered_def acts_def split_def)
qed

lemma quiet_batch:
  assumes w: "turns w = []" and start: "start \<in> {''>'', ''0''}" "0 < n"
    and F: "(if start = ''>'' then v_read_new else v_read_own) (RelayGroup r) (RelayConsumer r) (RelayStream r) n (view (db w))
      = (Inr (Some ms), v1)"
    and ms: "ms \<noteq> []" "\<forall>m\<in>set ms. \<exists>ev. entry_event m = Inr ev"
    and reliable: "\<forall>ms u. \<exists>u'. writes ms u = (Inr (), u')"
  shows "\<exists>w'. readDecodeProduceAck X writes r start n w = (Inr (int (length ms)), w') \<and> turns w' = []
    \<and> view (db w') = snd (v_ack (RelayStream r) (RelayGroup r) (map fst ms) v1)"
proof -
  have "acts view (XREADGROUP X (RelayGroup r) (RelayConsumer r) (RelayStream r) start n)
      ((if start = ''>'' then v_read_new else v_read_own) (RelayGroup r) (RelayConsumer r) (RelayStream r) n)"
    using start XREADGROUP_new XREADGROUP_own by auto
  from quiet_trip [OF w this] obtain s1 where rd: "roundtrip (XREADGROUP X (RelayGroup r) (RelayConsumer r) (RelayStream r) start n) w
      = (Inr (Some ms), w\<lparr>db := s1\<rparr>)" "view s1 = v1" by (auto simp: F)
  have "\<exists>evs. try_map entry_event xs = Inr evs \<and> length evs = length xs" if "\<forall>m\<in>set xs. \<exists>ev. entry_event m = Inr ev" for xs
    using that by (induction xs) (auto simp: sum_bind_simps)
  then obtain evs where evs: "try_map entry_event ms = Inr evs" "length evs = length ms" using ms(2) by blast
  obtain u where u: "writes (map message_of evs) (w\<lparr>db := s1\<rparr>) = (Inr (), u)" using reliable by blast
  then have ap: "db u = s1" "turns u = []" using writes_apart [OF u] w by simp_all
  have "fst (v_ack (RelayStream r) (RelayGroup r) (map fst ms) v1) = Inr ()" by (simp add: v_ack_def split: option.split)
  with quiet_trip [OF ap(2) XACK, of "RelayStream r" "RelayGroup r" "map fst ms"] obtain s2 where ack:
    "roundtrip (XACK X (RelayStream r) (RelayGroup r) (map fst ms)) u = (Inr (), u\<lparr>db := s2\<rparr>)"
    "view s2 = snd (v_ack (RelayStream r) (RelayGroup r) (map fst ms) v1)"
    unfolding ap(1) rd(2) by metis
  show ?thesis
    using rd evs u ack ms(1) ap(2) by (simp add: readDecodeProduceAck_def eff_defs Produce_def)
qed

lemma claim_quiet:
  fixes w :: "('s, 'x) world_scheme"
  assumes "turns w = []" "group_in (view (db w)) (RelayStream r) (RelayGroup r) = Some g"
    "sorted_wrt (<) (map fst (Pending g))" "\<forall>p\<in>set (Pending g). Suc (fst p) < start \<longrightarrow> snd p = RelayConsumer r"
    "length (filter (\<lambda>i. start \<le> Suc i) (map fst (Pending g))) < fuel"
  shows "\<exists>m w'. claim_from X r fuel 100 start k w = (Inr (Some m), w') \<and> turns w' = []
    \<and> view (db w') = set_group (RelayStream r) (RelayGroup r) (g\<lparr>Pending := map (\<lambda>p. (fst p, RelayConsumer r)) (Pending g)\<rparr>) (view (db w))"
  using assms
proof (induction fuel arbitrary: start k w g)
  case (Suc fuel)
  let ?st = "RelayStream r" and ?gr = "RelayGroup r" and ?c = "RelayConsumer r"
  let ?todo = "filter (\<lambda>i. start \<le> Suc i) (map fst (Pending g))"
  let ?g1 = "g\<lparr>Pending := map (claim ?c (take 100 ?todo)) (Pending g)\<rparr>"
  have sorted: "sorted_wrt (<) ?todo" using Suc.prems(3) by (rule sorted_wrt_filter)
  have "acts view (XAUTOCLAIM X ?st ?gr ?c start 100) (v_autoclaim ?st ?gr ?c start 100)" by (rule XAUTOCLAIM) simp
  from quiet_trip [OF Suc.prems(1) this] obtain s where
    s: "roundtrip (XAUTOCLAIM X ?st ?gr ?c start 100) w = (fst (v_autoclaim ?st ?gr ?c start 100 (view (db w))), w\<lparr>db := s\<rparr>)"
    "view s = snd (v_autoclaim ?st ?gr ?c start 100 (view (db w)))" .
  then have v: "view s = set_group ?st ?gr ?g1 (view (db w))" using Suc.prems(2) by (simp add: v_autoclaim_def Let_def)
  show ?case
  proof (cases "drop 100 ?todo")
    case Nil
    then have "take 100 ?todo = ?todo" by simp
    then have "claim ?c (take 100 ?todo) p = (fst p, ?c)" if "p \<in> set (Pending g)" for p
      using that Suc.prems(4) by (cases p) (force simp: claim_def)
    then have "map (claim ?c (take 100 ?todo)) (Pending g) = map (\<lambda>p. (fst p, ?c)) (Pending g)" by simp
    then have "view s = set_group ?st ?gr (g\<lparr>Pending := map (\<lambda>p. (fst p, ?c)) (Pending g)\<rparr>) (view (db w))"
      using v by (simp only:)
    then show ?thesis using s(1) Suc.prems(1,2) Nil
      by (simp add: eff_defs v_autoclaim_def Let_def)
  next
    case (Cons j js)
    note split = sorted_split [OF sorted Cons]
    have "j \<in> set ?todo" using Cons by (metis in_set_dropD list.set_intros(1))
    then have j: "start \<le> Suc j" by simp
    have eq: "filter (\<lambda>i. Suc j \<le> Suc i) (map fst (Pending ?g1)) = drop 100 ?todo"
    proof -
      have "filter (\<lambda>i. Suc j \<le> Suc i) (map fst (Pending ?g1)) = filter (\<lambda>i. j \<le> i) ?todo"
        unfolding filter_filter using j by (auto simp: o_def intro!: filter_cong)
      with split(1) show ?thesis by simp
    qed
    have mine: "\<forall>p\<in>set (Pending ?g1). Suc (fst p) < Suc j \<longrightarrow> snd p = ?c"
    proof (intro ballI impI)
      fix p assume "p \<in> set (Pending ?g1)" "Suc (fst p) < Suc j"
      then obtain q where q: "q \<in> set (Pending g)" "p = claim ?c (take 100 ?todo) q" "fst q < j" by auto
      show "snd p = ?c"
      proof (cases "start \<le> Suc (fst q)")
        case True
        then have "fst q \<in> set (take 100 ?todo)" using split(2) q by auto
        then show ?thesis by (simp add: q(2) claim_def)
      next
        case False
        then show ?thesis using Suc.prems(4) q by (auto simp: claim_def)
      qed
    qed
    have "\<exists>m w'. claim_from X r fuel 100 (Suc j) (k + int (length (take 100 ?todo))) (w\<lparr>db := s\<rparr>) = (Inr (Some m), w') \<and> turns w' = []
      \<and> view (db w') = set_group ?st ?gr (?g1\<lparr>Pending := map (\<lambda>p. (fst p, ?c)) (Pending ?g1)\<rparr>) (view (db (w\<lparr>db := s\<rparr>)))"
    proof (rule Suc.IH)
      show "length (filter (\<lambda>i. Suc j \<le> Suc i) (map fst (Pending ?g1))) < fuel"
      proof -
        have "?todo \<noteq> []" using Cons by auto
        then have "length (drop 100 ?todo) < length ?todo" by (rule drop_shorter) simp
        with Suc.prems(5) show ?thesis unfolding eq by linarith
      qed
    qed (use Suc.prems v mine in \<open>simp_all add: sorted_wrt_map\<close>)
    then show ?thesis using s Suc.prems(1,2) v Cons
      by (simp add: eff_defs v_autoclaim_def Let_def set_group_again o_def)
  qed
qed simp

text \<open>Draining: every round hands over up to 100 of the pending entries, all of them the relay's own.\<close>

lemma decode_entry: "all_decode st v \<Longrightarrow> i < length (entries_in v st) \<Longrightarrow> \<exists>ev. entry_event (entry_at (entries_in v st) i) = Inr ev"
  by (simp add: all_decode_def entry_event_def entry_at_def)

lemma recover_quiet:
  assumes w: "turns w = []" and g: "group_in (view (db w)) (RelayStream r) (RelayGroup r) = Some g"
    and ok: "group_ok (length (entries_in (view (db w)) (RelayStream r))) g" "\<forall>p\<in>set (Pending g). snd p = RelayConsumer r"
    and dec: "all_decode (RelayStream r) (view (db w))" and reliable: "\<forall>ms u. \<exists>u'. writes ms u = (Inr (), u')"
    and ne: "Pending g \<noteq> []"
  shows "\<exists>w' k. Recover X writes r 100 w = (Inr k, w') \<and> k \<noteq> 0 \<and> turns w' = []
    \<and> view (db w') = set_group (RelayStream r) (RelayGroup r) (g\<lparr>Pending := drop 100 (Pending g)\<rparr>) (view (db w))"
proof -
  let ?ms = "map (entry_at (entries_in (view (db w)) (RelayStream r))) (take 100 (map fst (Pending g)))"
  have own: "own (RelayConsumer r) g = map fst (Pending g)" using ok(2) by (simp add: own_def)
  then have F: "v_read_own (RelayGroup r) (RelayConsumer r) (RelayStream r) 100 (view (db w)) = (Inr (Some ?ms), view (db w))"
    by (simp add: v_read_own_def g)
  have "\<exists>ev. entry_event m = Inr ev" if "m \<in> set ?ms" for m
  proof -
    from that obtain i where "i \<in> set (take 100 (map fst (Pending g)))" "m = entry_at (entries_in (view (db w)) (RelayStream r)) i"
      by auto
    from this(1) have "i \<in> set (map fst (Pending g))" by (rule in_set_takeD)
    then obtain p where "p \<in> set (Pending g)" "m = entry_at (entries_in (view (db w)) (RelayStream r)) (fst p)"
      using \<open>m = _\<close> by auto
    then show ?thesis using decode_entry [OF dec] ok(1) by (auto simp: group_ok_def)
  qed
  then obtain w' where w': "Recover X writes r 100 w = (Inr (int (length ?ms)), w')" "turns w' = []"
    "view (db w') = snd (v_ack (RelayStream r) (RelayGroup r) (map fst ?ms) (view (db w)))"
    using quiet_batch [OF w _ _ _ _ _ reliable, of "''0''" 100 r ?ms "view (db w)"] F ne unfolding Recover_def by auto
  have ids: "set (map fst ?ms) = Suc ` set (take 100 (map fst (Pending g)))" by (auto simp: entry_at_def)
  have "filter (\<lambda>p. Suc (fst p) \<notin> set (map fst ?ms)) (Pending g) = drop 100 (Pending g)"
    unfolding ids using ok(1) by (intro ack_taken) (simp add: group_ok_def)
  then have "view (db w') = set_group (RelayStream r) (RelayGroup r) (g\<lparr>Pending := drop 100 (Pending g)\<rparr>) (view (db w))"
    unfolding w'(3) v_ack_def g by simp
  with w'(1,2) ne show ?thesis by (intro exI [of _ w'] exI [of _ "int (length ?ms)"]) auto
qed

lemma drain_quiet:
  assumes "turns w = []" "group_in (view (db w)) (RelayStream r) (RelayGroup r) = Some g"
    "group_ok (length (entries_in (view (db w)) (RelayStream r))) g" "\<forall>p\<in>set (Pending g). snd p = RelayConsumer r"
    "all_decode (RelayStream r) (view (db w))" "length (Pending g) < fuel"
    and reliable: "\<forall>ms u. \<exists>u'. writes ms u = (Inr (), u')"
  shows "\<exists>w'. drain X writes r fuel w = (Inr (Some ()), w') \<and> turns w' = []
    \<and> view (db w') = set_group (RelayStream r) (RelayGroup r) (g\<lparr>Pending := []\<rparr>) (view (db w))"
  using assms(1-6)
proof (induction fuel arbitrary: w g)
  case (Suc fuel)
  show ?case
  proof (cases "Pending g = []")
    case True
    have "acts view (XREADGROUP X (RelayGroup r) (RelayConsumer r) (RelayStream r) ''0'' 100)
        (v_read_own (RelayGroup r) (RelayConsumer r) (RelayStream r) 100)" by (rule XREADGROUP_own) simp
    from quiet_trip [OF Suc.prems(1) this] obtain s where
      "roundtrip (XREADGROUP X (RelayGroup r) (RelayConsumer r) (RelayStream r) ''0'' 100) w = (Inr (Some []), w\<lparr>db := s\<rparr>)"
      "view s = view (db w)" using True Suc.prems(2) by (auto simp: v_read_own_def own_def)
    moreover have "g\<lparr>Pending := []\<rparr> = g" using True by (cases g) simp
    ultimately show ?thesis using Suc.prems(1,2) set_group_again(2) [OF Suc.prems(2)]
      by (simp add: Recover_def readDecodeProduceAck_def eff_defs)
  next
    case False
    let ?g = "g\<lparr>Pending := drop 100 (Pending g)\<rparr>"
    obtain w1 k where w1: "Recover X writes r 100 w = (Inr k, w1)" "k \<noteq> 0" "turns w1 = []"
      "view (db w1) = set_group (RelayStream r) (RelayGroup r) ?g (view (db w))"
      using recover_quiet [OF Suc.prems(1-5) reliable False] by blast
    have "\<exists>w'. drain X writes r fuel w1 = (Inr (Some ()), w') \<and> turns w' = []
        \<and> view (db w') = set_group (RelayStream r) (RelayGroup r) (?g\<lparr>Pending := []\<rparr>) (view (db w1))"
    proof (rule Suc.IH)
      show "group_ok (length (entries_in (view (db w1)) (RelayStream r))) ?g"
        using Suc.prems(3) by (auto simp: w1(4) group_ok_def drop_map [symmetric] sorted_wrt_drop dest: in_set_dropD)
      show "length (Pending ?g) < fuel" using Suc.prems(6) False by (cases "Pending g") auto
      show "\<forall>p\<in>set (Pending ?g). snd p = RelayConsumer r" using Suc.prems(4) by (auto dest: in_set_dropD)
    qed (use Suc.prems(5) w1 in \<open>simp_all add: all_decode_def\<close>)
    with w1 show ?thesis by (simp add: eff_defs set_group_again)
  qed
qed simp

text \<open>New rounds: each takes up to 100 entries not delivered yet.\<close>

lemma once_quiet:
  assumes w: "turns w = []" and g: "group_in (view (db w)) (RelayStream r) (RelayGroup r) = Some \<lparr>Delivered = d, Pending = []\<rparr>"
    and dec: "all_decode (RelayStream r) (view (db w))" and reliable: "\<forall>ms u. \<exists>u'. writes ms u = (Inr (), u')"
    and d: "d \<le> length (entries_in (view (db w)) (RelayStream r))"
  shows "\<exists>w' k. RelayOnce X writes r 100 w = (Inr k, w') \<and> turns w' = [] \<and> view (db w') = set_group (RelayStream r) (RelayGroup r)
      \<lparr>Delivered = min (d + 100) (length (entries_in (view (db w)) (RelayStream r))), Pending = []\<rparr> (view (db w))"
proof (cases "d = length (entries_in (view (db w)) (RelayStream r))")
  case True
  have "acts view (XREADGROUP X (RelayGroup r) (RelayConsumer r) (RelayStream r) ''>'' 100)
      (v_read_new (RelayGroup r) (RelayConsumer r) (RelayStream r) 100)" by (rule XREADGROUP_new) simp
  from quiet_trip [OF w this] obtain s where
    "roundtrip (XREADGROUP X (RelayGroup r) (RelayConsumer r) (RelayStream r) ''>'' 100) w = (Inr None, w\<lparr>db := s\<rparr>)"
    "view s = view (db w)" using True g by (auto simp: v_read_new_def)
  then show ?thesis using True w set_group_again(2) [OF g]
    by (simp add: RelayOnce_def readDecodeProduceAck_def eff_defs)
next
  case False
  let ?es = "entries_in (view (db w)) (RelayStream r)"
  let ?is = "[d ..< min (d + 100) (length ?es)]" and ?c = "RelayConsumer r"
  let ?ms = "map (entry_at ?es) ?is"
  let ?v = "set_group (RelayStream r) (RelayGroup r) \<lparr>Delivered = d + length ?is, Pending = map (\<lambda>i. (i, ?c)) ?is\<rparr> (view (db w))"
  from False d have "d < min (d + 100) (length ?es)" by simp
  then have "0 < length ?is" unfolding length_upt by linarith
  then have ne: "?is \<noteq> []" by (rule length_greater_0_conv [THEN iffD1])
  then have F: "v_read_new (RelayGroup r) ?c (RelayStream r) 100 (view (db w)) = (Inr (Some ?ms), ?v)"
    by (simp add: v_read_new_def g Let_def)
  have "\<exists>ev. entry_event m = Inr ev" if "m \<in> set ?ms" for m
    using that decode_entry [OF dec] by auto
  then obtain w' where w': "RelayOnce X writes r 100 w = (Inr (int (length ?ms)), w')" "turns w' = []"
    "view (db w') = snd (v_ack (RelayStream r) (RelayGroup r) (map fst ?ms) ?v)"
    using quiet_batch [OF w _ _ _ _ _ reliable, of "''>''" 100 r ?ms ?v] F ne unfolding RelayOnce_def by auto
  have "filter (\<lambda>p. Suc (fst p) \<notin> set (map fst ?ms)) (map (\<lambda>i. (i, ?c)) ?is) = []"
    by (auto simp: filter_empty_conv entry_at_def)
  then have "view (db w') = set_group (RelayStream r) (RelayGroup r)
      \<lparr>Delivered = min (d + 100) (length ?es), Pending = []\<rparr> (view (db w))"
    using d unfolding w'(3) v_ack_def by (simp add: set_group_again)
  with w' show ?thesis by blast
qed

lemma rounds_quiet:
  assumes "turns w = []" "group_in (view (db w)) (RelayStream r) (RelayGroup r) = Some \<lparr>Delivered = d, Pending = []\<rparr>"
    "all_decode (RelayStream r) (view (db w))" "d \<le> length (entries_in (view (db w)) (RelayStream r))"
    "length (entries_in (view (db w)) (RelayStream r)) \<le> d + 100 * n"
    and reliable: "\<forall>ms u. \<exists>u'. writes ms u = (Inr (), u')"
  shows "\<exists>w'. relay_rounds X writes r (replicate n (False, False) @ [(True, b)]) w = (Inr (Some ()), w') \<and> turns w' = []
    \<and> view (db w') = set_group (RelayStream r) (RelayGroup r)
        \<lparr>Delivered = length (entries_in (view (db w)) (RelayStream r)), Pending = []\<rparr> (view (db w))"
  using assms(1-5)
proof (induction n arbitrary: w d)
  case 0
  then show ?case using set_group_again(2) [OF "0.prems"(2)] by (simp add: eff_defs)
next
  case (Suc n)
  let ?l = "length (entries_in (view (db w)) (RelayStream r))"
  obtain w1 k where w1: "RelayOnce X writes r 100 w = (Inr k, w1)" "turns w1 = []"
    "view (db w1) = set_group (RelayStream r) (RelayGroup r) \<lparr>Delivered = min (d + 100) ?l, Pending = []\<rparr> (view (db w))"
    using once_quiet [OF Suc.prems(1-3) reliable Suc.prems(4)] by blast
  have "\<exists>w'. relay_rounds X writes r (replicate n (False, False) @ [(True, b)]) w1 = (Inr (Some ()), w') \<and> turns w' = []
    \<and> view (db w') = set_group (RelayStream r) (RelayGroup r)
        \<lparr>Delivered = length (entries_in (view (db w1)) (RelayStream r)), Pending = []\<rparr> (view (db w1))"
    by (rule Suc.IH [of w1 "min (d + 100) ?l"]) (use Suc.prems w1 in \<open>simp_all add: all_decode_def\<close>)
  with w1 show ?case by (simp add: eff_defs set_group_again)
qed

lemma start_quiet:
  assumes w: "turns w = []" "groups_ok (view (db w))" "all_decode (RelayStream r) (view (db w))"
    and fuel: "length (entries_in (view (db w)) (RelayStream r)) < fuel"
    and reliable: "\<forall>ms u. \<exists>u'. writes ms u = (Inr (), u')"
  shows "\<exists>w' d. start_relay X writes r fuel w = (Inr (Some ()), w') \<and> turns w' = []
    \<and> entries_in (view (db w')) = entries_in (view (db w)) \<and> d \<le> length (entries_in (view (db w)) (RelayStream r))
    \<and> group_in (view (db w')) (RelayStream r) (RelayGroup r) = Some \<lparr>Delivered = d, Pending = []\<rparr>"
proof -
  let ?st = "RelayStream r" and ?gr = "RelayGroup r" and ?c = "RelayConsumer r"
  have "\<exists>b. fst (v_create ?st ?gr (view (db w))) = Inr b" by (auto simp: v_create_def split: option.split)
  with quiet_trip [OF w(1) XGROUP_CREATE, of ?st ?gr] obtain s b where
    s: "roundtrip (XGROUP_CREATE X ?st ?gr) w = (Inr b, w\<lparr>db := s\<rparr>)" "view s = snd (v_create ?st ?gr (view (db w)))"
    by metis
  let ?w1 = "w\<lparr>db := s\<rparr>"
  have s1: "entries_in (view s) = entries_in (view (db w))" "groups_ok (view s)"
    using commands_groups_ok(1) [OF w(2)] by (auto simp: s(2) v_create_def split: option.split)
  have "\<exists>g. group_in (view s) ?st ?gr = Some g"
    by (cases "group_in (view (db w)) ?st ?gr") (simp_all add: s(2) v_create_def)
  then obtain g where g: "group_in (view s) ?st ?gr = Some g" by blast
  with s1 have ok: "group_ok (length (entries_in (view s) ?st)) g" by (auto simp: groups_ok_def)
  then have short: "length (Pending g) < fuel" using sorted_bounded [of "map fst (Pending g)" "Delivered g"] fuel
    by (auto simp: group_ok_def s1(1))
  let ?g = "g\<lparr>Pending := map (\<lambda>p. (fst p, ?c)) (Pending g)\<rparr>"
  have "length (filter (\<lambda>i. 0 \<le> Suc i) (map fst (Pending g))) < fuel" using short by simp
  with ok g w(1) obtain m w2 where w2: "claim_from X r fuel 100 0 0 ?w1 = (Inr (Some m), w2)" "turns w2 = []"
    "view (db w2) = set_group ?st ?gr ?g (view s)"
    using claim_quiet [of ?w1 r g 0 fuel 0] by (auto simp: group_ok_def)
  have "\<exists>w'. drain X writes r fuel w2 = (Inr (Some ()), w') \<and> turns w' = []
    \<and> view (db w') = set_group ?st ?gr (?g\<lparr>Pending := []\<rparr>) (view (db w2))"
    by (rule drain_quiet [OF w2(2) _ _ _ _ _ reliable])
      (use w2(3) ok w(3) short in \<open>auto simp: group_ok_def all_decode_def s1(1) sorted_wrt_map\<close>)
  moreover have "g\<lparr>Pending := []\<rparr> = \<lparr>Delivered = Delivered g, Pending = []\<rparr>" by (cases g) simp
  moreover have "Delivered g \<le> length (entries_in (view (db w)) ?st)" using ok by (simp add: group_ok_def s1(1))
  ultimately show ?thesis using s(1) w2 s1(1)
    by (auto simp: start_relay_def EnsureGroup_def ClaimOrphans_def eff_defs set_group_again)
qed

lemma run_quiet:
  assumes "turns w = []" "relay_ok view log_of r w" "all_decode (RelayStream r) (view (db w))"
    and "length (entries_in (view (db w)) (RelayStream r)) < fuel" "length (entries_in (view (db w)) (RelayStream r)) \<le> 100 * n"
    and reliable: "\<forall>ms u. \<exists>u'. writes ms u = (Inr (), u')"
  shows "\<exists>w'. RunRelay X writes r fuel (replicate n (False, False) @ [(True, b)]) w = (Inr (Some ()), w')
    \<and> entries_in (view (db w')) = entries_in (view (db w))
    \<and> (\<forall>i < length (entries_in (view (db w)) (RelayStream r)). relayed (RelayStream r) (view (db w')) (log_of w') i)"
proof -
  have "groups_ok (view (db w))" using assms(2) by (simp add: relay_ok_def)
  then obtain w1 d where w1: "start_relay X writes r fuel w = (Inr (Some ()), w1)" "turns w1 = []"
    "entries_in (view (db w1)) = entries_in (view (db w))" "d \<le> length (entries_in (view (db w)) (RelayStream r))"
    "group_in (view (db w1)) (RelayStream r) (RelayGroup r) = Some \<lparr>Delivered = d, Pending = []\<rparr>"
    using start_quiet [OF assms(1) _ assms(3,4) reliable] by blast
  have "\<exists>w'. relay_rounds X writes r (replicate n (False, False) @ [(True, b)]) w1 = (Inr (Some ()), w') \<and> turns w' = []
    \<and> view (db w') = set_group (RelayStream r) (RelayGroup r)
        \<lparr>Delivered = length (entries_in (view (db w1)) (RelayStream r)), Pending = []\<rparr> (view (db w1))"
    by (rule rounds_quiet [OF w1(2,5) _ _ _ reliable]) (use assms(3,5) w1 in \<open>simp_all add: all_decode_def\<close>)
  then obtain w' where w': "RunRelay X writes r fuel (replicate n (False, False) @ [(True, b)]) w = (Inr (Some ()), w')"
    "view (db w') = set_group (RelayStream r) (RelayGroup r)
        \<lparr>Delivered = length (entries_in (view (db w)) (RelayStream r)), Pending = []\<rparr> (view (db w1))"
    using w1 by (auto simp: RunRelay_def eff_defs)
  have "relay_ok view log_of r w'" by (rule keepsD [OF keeps_run assms(2) w'(1)])
  moreover have "acked (RelayStream r) (RelayGroup r) (view (db w')) = {..<length (entries_in (view (db w)) (RelayStream r))}"
    by (auto simp: acked_def w'(2))
  ultimately show ?thesis using w' w1(3) by (auto simp: relay_ok_def)
qed

end

section \<open>Kafka in memory\<close>

text \<open>A log that always takes the messages, and one with outages: how many messages each write gets
  in before it fails, \<open>None\<close> for a write that succeeds.\<close>

record 's relay_world = "'s world" +
  kafka :: "message list"
  outages :: "nat option list"

definition steady_writes :: "'s relay_world kafka_writer" where
  "steady_writes ms w = (Inr (), w\<lparr>kafka := kafka w @ ms\<rparr>)"

definition flaky_writes :: "'s relay_world kafka_writer" where
  "flaky_writes ms w = (case outages w of [] \<Rightarrow> (Inr (), w\<lparr>kafka := kafka w @ ms\<rparr>)
     | None # os \<Rightarrow> (Inr (), w\<lparr>kafka := kafka w @ ms, outages := os\<rparr>)
     | Some k # os \<Rightarrow> (Inl RemoteFailure, w\<lparr>kafka := kafka w @ take k ms, outages := os\<rparr>))"

interpretation steady: relay_pipeline mem_streams id steady_writes kafka
  by unfold_locales (auto simp: steady_writes_def)

interpretation flaky: relay_pipeline mem_streams id flaky_writes kafka
  by unfold_locales (auto simp: flaky_writes_def dest: in_set_takeD split: list.splits option.splits)

section \<open>Runs of relays\<close>

text \<open>
  A new group, then one relay process after the other, each under a consumer name of its own and
  each ending anyhow. In between, and within a run at every round trip, entries are appended and
  others may read or claim.
\<close>

inductive relay_run :: "'s streams_api \<Rightarrow> ('s \<Rightarrow> sview) \<Rightarrow> ('s, 'x) world_scheme kafka_writer \<Rightarrow>
    (('s, 'x) world_scheme \<Rightarrow> message list) \<Rightarrow> string \<Rightarrow> string \<Rightarrow> ('s, 'x) world_scheme \<Rightarrow> bool"
  for X view writes log_of st gr where
    fresh: "groups_ok (view (db w)) \<Longrightarrow> group_in (view (db w)) st gr = None \<Longrightarrow> relay_run X view writes log_of st gr w"
  | process: "relay_run X view writes log_of st gr w \<Longrightarrow> acks_only st gr {} (view (db w)) (view (db u)) \<Longrightarrow>
      rely (\<lambda>s s'. acks_only st gr {} (view s) (view s')) u \<Longrightarrow> set (log_of w) \<subseteq> set (log_of u) \<Longrightarrow>
      RelayStream r = st \<Longrightarrow> RelayGroup r = gr \<Longrightarrow> RunRelay X writes r fuel cs u = (q, w') \<Longrightarrow>
      relay_run X view writes log_of st gr w'"

definition handed_over :: "('s \<Rightarrow> sview) \<Rightarrow> (('s, 'x) world_scheme \<Rightarrow> message list) \<Rightarrow> string \<Rightarrow> string \<Rightarrow> ('s, 'x) world_scheme \<Rightarrow> bool" where
  "handed_over view log_of st gr w \<longleftrightarrow> groups_ok (view (db w))
     \<and> (\<forall>i\<in>acked st gr (view (db w)). relayed st (view (db w)) (log_of w) i)"

lemma relay_ok_handed:
  "relay_ok view log_of r w \<longleftrightarrow> handed_over view log_of (RelayStream r) (RelayGroup r) w
     \<and> rely (\<lambda>s s'. acks_only (RelayStream r) (RelayGroup r) {} (view s) (view s')) w"
  by (auto simp: relay_ok_def handed_over_def)

context relay_pipeline
begin

lemma relay_run_ok: "relay_run X view writes log_of st gr w \<Longrightarrow> handed_over view log_of st gr w"
proof (induction rule: relay_run.induct)
  case (fresh w)
  then show ?case by (simp add: handed_over_def acked_def)
next
  case (process w u r fuel cs q w')
  have pre: "prefix (entries_in (view (db w)) st) (entries_in (view (db u)) st)" using process.hyps(2) by (simp add: acks_only_def)
  have "handed_over view log_of st gr u"
    using process.IH process.hyps(2) relayed_mono [OF _ pre process.hyps(4)]
    by (auto simp: handed_over_def acks_only_def)
  then have "relay_ok view log_of r u" using process.hyps(3,5,6) by (simp add: relay_ok_handed)
  from keepsD [OF keeps_run this process.hyps(7)] process.hyps(5,6) show ?case by (simp add: relay_ok_handed)
qed

end

section \<open>Properties\<close>

text \<open>
  C29. At least once. Through any number of relay processes that end in any way, lost replies,
  re-sent commands, failed and half-done writes, every entry the group has delivered is either
  still pending or decodes to an event whose message is in Kafka. Nothing is acknowledged ahead
  of a durable write.
\<close>

theorem relay_at_least_once:
  assumes "relay_pipeline X view writes log_of" and "relay_run X view writes log_of st gr w"
    and "group_in (view (db w)) st gr = Some g" and "i < Delivered g"
  shows "i \<in> fst ` set (Pending g) \<or> (i < length (entries_in (view (db w)) st)
    \<and> (\<exists>ev. Decode (values_of (entries_in (view (db w)) st ! i)) = Inr ev \<and> message_of ev \<in> set (log_of w)))"
proof (rule disjCI)
  assume "\<not> (i < length (entries_in (view (db w)) st)
    \<and> (\<exists>ev. Decode (values_of (entries_in (view (db w)) st ! i)) = Inr ev \<and> message_of ev \<in> set (log_of w)))"
  then have "i \<notin> acked st gr (view (db w))"
    using relay_pipeline.relay_run_ok [OF assms(1,2)] by (auto simp: handed_over_def relayed_def)
  with assms(3,4) show "i \<in> fst ` set (Pending g)" by (simp add: acked_def)
qed

text \<open>
  C30. A relay catches up and its loops end. On a quiet server, with a Kafka that accepts writes
  and entries that decode, a relay started after any history of others - whatever they left
  pending - claims and drains the backlog in at most as many rounds as there are entries, then
  hands over the rest 100 at a time: after one round per hundred entries every entry of the
  outbox is in Kafka, and the cancelled context ends the run without error.
\<close>

theorem relay_catches_up:
  assumes "relay_pipeline X view writes log_of" and "relay_run X view writes log_of (RelayStream r) (RelayGroup r) w"
    and "turns w = []" and "all_decode (RelayStream r) (view (db w))" and "\<forall>ms u. \<exists>u'. writes ms u = (Inr (), u')"
    and "length (entries_in (view (db w)) (RelayStream r)) < fuel"
    and "length (entries_in (view (db w)) (RelayStream r)) \<le> 100 * n"
  shows "\<exists>w'. RunRelay X writes r fuel (replicate n (False, False) @ [(True, b)]) w = (Inr (Some ()), w')
    \<and> entries_in (view (db w')) = entries_in (view (db w))
    \<and> (\<forall>i < length (entries_in (view (db w)) (RelayStream r)). relayed (RelayStream r) (view (db w')) (log_of w') i)"
proof -
  have "relay_ok view log_of r w"
    using relay_pipeline.relay_run_ok [OF assms(1,2)] assms(3) by (simp add: relay_ok_handed rely_def)
  from relay_pipeline.run_quiet [OF assms(1,3) this assms(4,6,7,5)] show ?thesis .
qed

text \<open>An outbox with a wager and the settlement of its round.\<close>

definition demo_wager_entry :: "(string \<times> string) list" where
  "demo_wager_entry = [(''type'', ''wager_placed''), (''user'', ''b''), (''outcome'', ''1''), (''amount'', ''100''),
     (''balance'', ''900''), (''idempotency_key'', ''k1''), (''room_id'', ''r1''), (''round_id'', ''x1'')]"

definition demo_settle_entry :: "(string \<times> string) list" where
  "demo_settle_entry = [(''type'', ''round_settled''), (''round_id'', ''x1''), (''room_id'', ''r1''), (''total'', ''100''),
     (''dust'', ''0''), (''winning_outcome'', ''1''), (''payouts'', ''[]''), (''idempotency_key'', ''s1'')]"

definition demo_relay :: relay where
  "demo_relay = \<lparr>RelayStream = ''outbox'', RelayGroup = ''g'', RelayConsumer = ''c''\<rparr>"

definition demo_streams :: "(string \<times> string) list list \<Rightarrow> sview" where
  "demo_streams es = \<lparr>entries_in = (\<lambda>st. if st = ''outbox'' then es else []), group_in = (\<lambda>_. Map.empty)\<rparr>"

definition demo_outbox :: "sview \<Rightarrow> sview turn list \<Rightarrow> nat option list \<Rightarrow> sview relay_world" where
  "demo_outbox v ts os = \<lparr>db = v, turns = ts, kafka = [], outages = os\<rparr>"

definition demo_bet :: Event where
  "demo_bet = WagerEvent \<lparr>WpRoom = ''r1'', WpRound = ''x1'', WpUser = ''b'', WpKey = ''k1'', WpOutcome = 1, WpAmount = 100,
     WpBalance = 900\<rparr>"

definition demo_ending :: Event where
  "demo_ending = SettledEvent \<lparr>RsRoom = ''r1'', RsRound = ''x1'', RsKey = ''s1'', RsOutcome = 1, RsTotal = 100, RsDust = 0,
     RsPayouts = Some [], RsRefunded = False\<rparr>"

lemma demo_decoded:
  "Decode (values_of demo_wager_entry) = Inr demo_bet" "Decode (values_of demo_settle_entry) = Inr demo_ending"
  by code_simp+

lemma demo_streams_ok: "groups_ok (demo_streams es)" "group_in (demo_streams es) st gr = None"
  by (simp_all add: demo_streams_def groups_ok_def)

text \<open>Kafka is down when the wager is to be written: the entry stays pending.\<close>

lemma demo_outage:
  "\<exists>w'. RunRelay mem_streams flaky_writes demo_relay 1 [(False, False)] (demo_outbox (demo_streams [demo_wager_entry]) [] [Some 0])
      = (Inl RemoteFailure, w') \<and> group_in (db w') ''outbox'' ''g'' = Some \<lparr>Delivered = 1, Pending = [(0, ''c'')]\<rparr>"
  by (simp add: RunRelay_def start_relay_def EnsureGroup_def ClaimOrphans_def Recover_def RelayOnce_def readDecodeProduceAck_def
      eff_defs roundtrip_def delivered_def demo_outbox_def mem_streams_def v_create_def demo_streams_def demo_relay_def
      v_autoclaim_def v_read_own_def v_read_new_def own_def entry_at_def entry_event_def demo_decoded sum_bind_simps Produce_def
      flaky_writes_def)

theorem relay_at_least_once_witness:
  "\<exists>w g. snd (RunRelay mem_streams flaky_writes demo_relay 1 [(False, False)] (demo_outbox (demo_streams [demo_wager_entry]) [] [Some 0])) = w
    \<and> group_in (db w) ''outbox'' ''g'' = Some g \<and> Delivered g = 1 \<and> (0 \<in> fst ` set (Pending g) \<or> (0 < length (entries_in (db w) ''outbox'')
    \<and> (\<exists>ev. Decode (values_of (entries_in (db w) ''outbox'' ! 0)) = Inr ev \<and> message_of ev \<in> set (kafka w))))"
proof -
  let ?w = "demo_outbox (demo_streams [demo_wager_entry]) [] [Some 0]"
  obtain w' where w': "RunRelay mem_streams flaky_writes demo_relay 1 [(False, False)] ?w = (Inl RemoteFailure, w')"
    "group_in (db w') ''outbox'' ''g'' = Some \<lparr>Delivered = 1, Pending = [(0, ''c'')]\<rparr>" using demo_outage by blast
  have "relay_run mem_streams id flaky_writes kafka ''outbox'' ''g'' ?w"
    by (rule relay_run.fresh) (simp_all add: demo_outbox_def demo_streams_ok)
  then have "relay_run mem_streams id flaky_writes kafka ''outbox'' ''g'' w'"
    by (rule relay_run.process [OF _ _ _ _ _ _ w'(1)])
      (simp_all add: acks_only_def demo_relay_def, simp add: rely_def demo_outbox_def)
  from relay_at_least_once [OF flaky.relay_pipeline_axioms this, of _ 0] w' show ?thesis
    by (intro exI [of _ w'] exI [of _ "\<lparr>Delivered = 1, Pending = [(0, ''c'')]\<rparr>"]) simp
qed

text \<open>Two entries, one round.\<close>

theorem relay_catches_up_witness:
  "\<exists>w'. RunRelay mem_streams steady_writes demo_relay 3 [(False, False), (True, False)]
      (demo_outbox (demo_streams [demo_wager_entry, demo_settle_entry]) [] []) = (Inr (Some ()), w')
    \<and> relayed ''outbox'' (db w') (kafka w') 0 \<and> relayed ''outbox'' (db w') (kafka w') 1"
proof -
  let ?w = "demo_outbox (demo_streams [demo_wager_entry, demo_settle_entry]) [] []"
  have run: "relay_run mem_streams id steady_writes kafka (RelayStream demo_relay) (RelayGroup demo_relay) ?w"
    by (rule relay_run.fresh) (simp_all add: demo_outbox_def demo_streams_ok)
  have dec: "all_decode (RelayStream demo_relay) (id (db ?w))"
    by (auto simp: all_decode_def demo_relay_def demo_outbox_def demo_streams_def demo_decoded less_Suc_eq)
  have len: "length (entries_in (id (db ?w)) (RelayStream demo_relay)) = 2"
    by (simp add: demo_relay_def demo_outbox_def demo_streams_def)
  have "\<forall>ms u. \<exists>u'. steady_writes ms u = (Inr (), u')" by (simp add: steady_writes_def)
  from relay_catches_up [OF steady.relay_pipeline_axioms run _ dec this, of 3 1 False] len
  obtain w' where "RunRelay mem_streams steady_writes demo_relay 3 ([(False, False)] @ [(True, False)]) ?w = (Inr (Some ()), w')"
    "\<forall>i<2. relayed (RelayStream demo_relay) (id (db w')) (kafka w') i" by (auto simp: demo_outbox_def)
  then show ?thesis by (intro exI [of _ w']) (simp add: demo_relay_def)
qed


end
