(* ===== verification/WsHub.thy ===== *)
theory WsHub
  imports Errors
begin

text \<open>
  \<open>internal/ws\<close>: clients and their write pumps (\<open>client.go\<close>), rooms (\<open>room.go\<close>) and the hub
  (\<open>hub.go\<close>). A room and the hub are each one goroutine that takes commands from a channel, so a
  command is one step on the state they share: the clients and rooms ever made, a pointer being a
  position in these lists, the hub's table of rooms, and the \<open>onEmpty\<close> goroutines that wait to
  be heard. A map of clients is iterated in the order of its list.
\<close>

section \<open>Clients\<close>

record Identity =
  IdUser :: string
  IdName :: string
  IdGuest :: bool

record outbound =
  OutPayload :: string
  OutEnqueued :: int

record ClientConfig =
  SendBuffer :: nat
  PingInterval :: int
  PongWait :: int
  WriteWait :: int
  MaxMessage :: int

definition DefaultClientConfig :: ClientConfig where
  "DefaultClientConfig = \<lparr>SendBuffer = 64, PingInterval = 30 * 10 ^ 9, PongWait = 60 * 10 ^ 9,
     WriteWait = 10 * 10 ^ 9, MaxMessage = 4096\<rparr>"

datatype frame = TextFrame string | PingFrame | CloseFrame

text \<open>
  A client with the content of its send channel, whether the channel is still open, whether it
  records latencies, and what has been written to its connection.
\<close>

record client =
  ClientIdent :: Identity
  ClientRoom :: string
  ClientCfg :: ClientConfig
  Queue :: "outbound list"
  SendOpen :: bool
  Recorded :: bool
  Frames :: "frame list"
  ConnClosed :: bool

definition NewClient :: "Identity \<Rightarrow> ClientConfig \<Rightarrow> client" where
  "NewClient ident cfg = \<lparr>ClientIdent = ident, ClientRoom = [], ClientCfg = cfg, Queue = [], SendOpen = True,
     Recorded = False, Frames = [], ConnClosed = False\<rparr>"

record room =
  RoomIdent :: string
  Present :: "nat list"
  RoomDone :: bool

record ws =
  clients :: "client list"
  rooms :: "room list"
  registry :: "(string \<times> nat) list"
  notices :: "string list"
  drop_count :: nat
  latencies :: "int list"

type_synonym ('x, 'a) wsm = "('x ws_scheme, err, 'a) eff"

definition upd_client :: "nat \<Rightarrow> (client \<Rightarrow> client) \<Rightarrow> 'x ws_scheme \<Rightarrow> 'x ws_scheme" where
  "upd_client c f w = w\<lparr>clients := (clients w)[c := f (clients w ! c)]\<rparr>"

definition upd_room :: "nat \<Rightarrow> (room \<Rightarrow> room) \<Rightarrow> 'x ws_scheme \<Rightarrow> 'x ws_scheme" where
  "upd_room r f w = w\<lparr>rooms := (rooms w)[r := f (rooms w ! r)]\<rparr>"

text \<open>
  Closing a closed channel panics, and so does a send on one, with a \<open>default\<close> case too. A send
  that finds the buffer full takes the \<open>default\<close> case.
\<close>

definition close_send :: "nat \<Rightarrow> ('x, unit) wsm" where
  "close_send c = andThen (asks (\<lambda>w. SendOpen (clients w ! c))) (\<lambda>open.
     if open then exec (upd_client c (\<lambda>x. x\<lparr>SendOpen := False\<rparr>)) else raise Panic)"

definition try_send :: "nat \<Rightarrow> outbound \<Rightarrow> ('x, bool) wsm" where
  "try_send c out = andThen (asks (\<lambda>w. clients w ! c)) (\<lambda>x.
     if \<not> SendOpen x then raise Panic
     else if SendBuffer (ClientCfg x) \<le> length (Queue x) then ret False
     else andThen (exec (upd_client c (\<lambda>x. x\<lparr>Queue := Queue x @ [out]\<rparr>))) (\<lambda>_. ret True))"

definition Send :: "int \<Rightarrow> nat \<Rightarrow> string \<Rightarrow> ('x, unit) wsm" where
  "Send now c payload = andThen (try_send c \<lparr>OutPayload = payload, OutEnqueued = now\<rparr>) (\<lambda>_. ret ())"

section \<open>The write pump\<close>

text \<open>
  What the pump's \<open>select\<close> finds: something in the send channel, with the outcomes of setting the
  deadline and of writing and the time after it, or a tick with the outcome of the ping. The pump
  has returned when the result is \<open>True\<close>; an empty open channel is not ready.
\<close>

datatype pump_event = FromSend bool bool int | Tick bool

definition write_frame :: "nat \<Rightarrow> frame \<Rightarrow> ('x, unit) wsm" where
  "write_frame c f = exec (upd_client c (\<lambda>x. x\<lparr>Frames := Frames x @ [f]\<rparr>))"

definition close_conn :: "nat \<Rightarrow> ('x, bool) wsm" where
  "close_conn c = andThen (exec (upd_client c (\<lambda>x. x\<lparr>ConnClosed := True\<rparr>))) (\<lambda>_. ret True)"

definition pump_send :: "nat \<Rightarrow> bool \<Rightarrow> bool \<Rightarrow> int \<Rightarrow> ('x, bool) wsm" where
  "pump_send c deadline_set written now = andThen (asks (\<lambda>w. clients w ! c)) (\<lambda>x.
     case Queue x of
       [] \<Rightarrow> if SendOpen x then ret False
         else andThen (write_frame c CloseFrame) (\<lambda>_. close_conn c)
     | out # rest \<Rightarrow>
         andThen (exec (upd_client c (\<lambda>x. x\<lparr>Queue := rest\<rparr>))) (\<lambda>_.
         if \<not> deadline_set then close_conn c
         else if \<not> written then close_conn c
         else andThen (write_frame c (TextFrame (OutPayload out))) (\<lambda>_.
           if Recorded x then andThen (exec (\<lambda>w. w\<lparr>latencies := latencies w @ [now - OutEnqueued out]\<rparr>)) (\<lambda>_. ret False)
           else ret False)))"

fun WritePump :: "nat \<Rightarrow> pump_event list \<Rightarrow> ('x, bool) wsm" where
  "WritePump c [] = ret False"
| "WritePump c (FromSend deadline_set written now # es) =
     andThen (pump_send c deadline_set written now) (\<lambda>returned. if returned then ret True else WritePump c es)"
| "WritePump c (Tick written # es) =
     (if written then andThen (write_frame c PingFrame) (\<lambda>_. WritePump c es) else close_conn c)"

section \<open>Rooms\<close>

definition removeAndNotify :: "nat \<Rightarrow> nat \<Rightarrow> ('x, unit) wsm" where
  "removeAndNotify r c = andThen (asks (\<lambda>w. rooms w ! r)) (\<lambda>room.
     if c \<notin> set (Present room) then ret ()
     else andThen (exec (upd_room r (\<lambda>x. x\<lparr>Present := removeAll c (Present x)\<rparr>))) (\<lambda>_.
       andThen (close_send c) (\<lambda>_.
       if removeAll c (Present room) = [] then exec (\<lambda>w. w\<lparr>notices := notices w @ [RoomIdent room]\<rparr>) else ret ())))"

text \<open>The loops of a broadcast: the clients whose buffer was full, then their eviction.\<close>

fun deliver_to :: "nat list \<Rightarrow> outbound \<Rightarrow> ('x, nat list) wsm" where
  "deliver_to [] out = ret []"
| "deliver_to (c # cs) out = andThen (try_send c out) (\<lambda>ok.
     if ok then deliver_to cs out
     else andThen (exec (\<lambda>w. w\<lparr>drop_count := drop_count w + 1\<rparr>)) (\<lambda>_.
       andThen (deliver_to cs out) (\<lambda>evicted. ret (c # evicted))))"

fun evict :: "nat \<Rightarrow> nat list \<Rightarrow> ('x, unit) wsm" where
  "evict r [] = ret ()"
| "evict r (c # cs) = andThen (removeAndNotify r c) (\<lambda>_. evict r cs)"

text \<open>
  A method of a room: \<open>on_room r gone m\<close> is \<open>m\<close> run by the room's goroutine, or \<open>gone\<close> when that
  has returned. \<open>Join\<close> and the hub's own commands do not look at \<open>done\<close>: they hang.
\<close>

definition on_room :: "nat \<Rightarrow> ('x, 'a) wsm \<Rightarrow> (room \<Rightarrow> ('x, 'a) wsm) \<Rightarrow> ('x, 'a) wsm" where
  "on_room r gone m = andThen (asks (\<lambda>w. rooms w ! r)) (\<lambda>room. if RoomDone room then gone else m room)"

definition RoomJoin :: "nat \<Rightarrow> nat \<Rightarrow> ('x, unit) wsm" where
  "RoomJoin r c = on_room r (raise Hangs) (\<lambda>_.
     andThen (exec (upd_client c (\<lambda>x. x\<lparr>Recorded := True\<rparr>))) (\<lambda>_.
     exec (upd_room r (\<lambda>x. x\<lparr>Present := (if c \<in> set (Present x) then Present x else Present x @ [c])\<rparr>))))"

definition RoomLeave :: "nat \<Rightarrow> nat \<Rightarrow> ('x, unit) wsm" where
  "RoomLeave r c = on_room r (ret ()) (\<lambda>_. removeAndNotify r c)"

definition RoomBroadcast :: "int \<Rightarrow> nat \<Rightarrow> string \<Rightarrow> ('x, unit) wsm" where
  "RoomBroadcast now r payload = on_room r (ret ()) (\<lambda>room.
     andThen (deliver_to (Present room) \<lparr>OutPayload = payload, OutEnqueued = now\<rparr>) (\<lambda>evicted. evict r evicted))"

definition RoomMembers :: "nat \<Rightarrow> ('x, Identity list) wsm" where
  "RoomMembers r = on_room r (ret []) (\<lambda>room. asks (\<lambda>w. map (\<lambda>c. ClientIdent (clients w ! c)) (Present room)))"

definition RoomCount :: "nat \<Rightarrow> ('x, nat) wsm" where
  "RoomCount r = on_room r (ret 0) (\<lambda>room. ret (length (Present room)))"

definition RoomClose :: "nat \<Rightarrow> ('x, bool) wsm" where
  "RoomClose r = on_room r (raise Hangs) (\<lambda>room.
     if Present room = [] then andThen (exec (upd_room r (\<lambda>x. x\<lparr>RoomDone := True\<rparr>))) (\<lambda>_. ret True) else ret False)"

fun close_all :: "nat list \<Rightarrow> ('x, unit) wsm" where
  "close_all [] = ret ()"
| "close_all (c # cs) = andThen (close_send c) (\<lambda>_. close_all cs)"

text \<open>The clients of a room that has returned are no longer anywhere.\<close>

definition RoomShutdown :: "nat \<Rightarrow> ('x, unit) wsm" where
  "RoomShutdown r = on_room r (raise Hangs) (\<lambda>room.
     andThen (close_all (Present room)) (\<lambda>_. exec (upd_room r (\<lambda>x. x\<lparr>Present := [], RoomDone := True\<rparr>))))"

section \<open>The hub\<close>

definition NewRoom :: "string \<Rightarrow> ('x, nat) wsm" where
  "NewRoom roomID = runs (\<lambda>w. (length (rooms w), w\<lparr>rooms := rooms w @ [\<lparr>RoomIdent = roomID, Present = [], RoomDone = False\<rparr>]\<rparr>))"

definition HubJoin :: "string \<Rightarrow> nat \<Rightarrow> ('x, nat) wsm" where
  "HubJoin roomID c = andThen (asks (\<lambda>w. map_of (registry w) roomID)) (\<lambda>known.
     andThen (case known of Some r \<Rightarrow> ret r
       | None \<Rightarrow> andThen (NewRoom roomID) (\<lambda>r.
           andThen (exec (\<lambda>w. w\<lparr>registry := (roomID, r) # registry w\<rparr>)) (\<lambda>_. ret r))) (\<lambda>r.
     andThen (RoomJoin r c) (\<lambda>_. ret r)))"

text \<open>A connection: the handler makes the client and has the hub join it to the room of its token.\<close>

definition connect :: "Identity \<Rightarrow> string \<Rightarrow> ClientConfig \<Rightarrow> ('x, nat \<times> nat) wsm" where
  "connect ident roomID cfg =
     andThen (runs (\<lambda>w. (length (clients w), w\<lparr>clients := clients w @ [(NewClient ident cfg)\<lparr>ClientRoom := roomID\<rparr>]\<rparr>))) (\<lambda>c.
     andThen (HubJoin roomID c) (\<lambda>r. ret (c, r)))"

definition HubRoomCount :: "('x, nat) wsm" where
  "HubRoomCount = asks (\<lambda>w. length (registry w))"

fun shutdown_all :: "nat list \<Rightarrow> ('x, unit) wsm" where
  "shutdown_all [] = ret ()"
| "shutdown_all (r # rs) = andThen (RoomShutdown r) (\<lambda>_. shutdown_all rs)"

definition HubShutdown :: "('x, unit) wsm" where
  "HubShutdown = andThen (asks (\<lambda>w. map snd (registry w))) (\<lambda>rs.
     andThen (shutdown_all rs) (\<lambda>_. exec (\<lambda>w. w\<lparr>registry := []\<rparr>)))"

definition HubBroadcast :: "int \<Rightarrow> string \<Rightarrow> string \<Rightarrow> ('x, unit) wsm" where
  "HubBroadcast now roomID payload = andThen (asks (\<lambda>w. map_of (registry w) roomID)) (\<lambda>known.
     case known of None \<Rightarrow> ret () | Some r \<Rightarrow> RoomBroadcast now r payload)"

definition HubNames :: "string \<Rightarrow> ('x, string \<rightharpoonup> string) wsm" where
  "HubNames roomID = andThen (asks (\<lambda>w. map_of (registry w) roomID)) (\<lambda>known.
     case known of None \<Rightarrow> ret Map.empty
     | Some r \<Rightarrow> andThen (RoomMembers r) (\<lambda>ms. ret (foldl (\<lambda>names m. names(IdUser m \<mapsto> IdName m)) Map.empty ms)))"

text \<open>The hub hears of a room that was empty.\<close>

definition HubReap :: "string \<Rightarrow> ('x, unit) wsm" where
  "HubReap roomID = andThen (exec (\<lambda>w. w\<lparr>notices := remove1 roomID (notices w)\<rparr>)) (\<lambda>_.
     andThen (asks (\<lambda>w. map_of (registry w) roomID)) (\<lambda>known.
     case known of None \<Rightarrow> ret ()
     | Some r \<Rightarrow> andThen (RoomClose r) (\<lambda>closed.
         if closed then exec (\<lambda>w. w\<lparr>registry := filter (\<lambda>p. fst p \<noteq> roomID) (registry w)\<rparr>) else ret ())))"

end
