(* ===== verification/WsSpec.thy ===== *)
theory WsSpec
  imports WsHub
begin

text \<open>
  What the hub promises: any interleaving of connecting, leaving, broadcasting, reaping, write
  pumps and shutdown keeps the tables in order and never panics or hangs; a broadcast reaches
  exactly the room's members. What it does not: a direct send to a client that has been evicted.
\<close>

section \<open>The invariant\<close>

text \<open>
  \<open>reg\<close> is the hub's table. A live room is registered under its name and, when it is empty, about
  to be reaped; its members have an open send channel and belong to it. An open client is in a room.
\<close>

definition room_ok :: "(string \<times> nat) list \<Rightarrow> 'x ws_scheme \<Rightarrow> nat \<Rightarrow> bool" where
  "room_ok reg w r \<longleftrightarrow> distinct (Present (rooms w ! r)) \<and> (RoomDone (rooms w ! r) \<longrightarrow> Present (rooms w ! r) = [])
     \<and> (\<not> RoomDone (rooms w ! r) \<longrightarrow> (RoomIdent (rooms w ! r), r) \<in> set reg)
     \<and> (\<not> RoomDone (rooms w ! r) \<and> Present (rooms w ! r) = [] \<longrightarrow> RoomIdent (rooms w ! r) \<in> set (notices w))
     \<and> (\<forall>c\<in>set (Present (rooms w ! r)). c < length (clients w) \<and> SendOpen (clients w ! c)
          \<and> ClientRoom (clients w ! c) = RoomIdent (rooms w ! r))"

definition client_ok :: "'x ws_scheme \<Rightarrow> nat \<Rightarrow> bool" where
  "client_ok w c \<longleftrightarrow> (SendOpen (clients w ! c) \<longrightarrow> (\<exists>r < length (rooms w). c \<in> set (Present (rooms w ! r))))
     \<and> length (Queue (clients w ! c)) \<le> SendBuffer (ClientCfg (clients w ! c))"

definition ws_inv :: "(string \<times> nat) list \<Rightarrow> 'x ws_scheme \<Rightarrow> bool" where
  "ws_inv reg w \<longleftrightarrow> distinct (map fst reg)
     \<and> (\<forall>p\<in>set reg. snd p < length (rooms w) \<and> \<not> RoomDone (rooms w ! snd p) \<and> RoomIdent (rooms w ! snd p) = fst p)
     \<and> (\<forall>r < length (rooms w). room_ok reg w r) \<and> (\<forall>c < length (clients w). client_ok w c)"

definition ws_ok :: "'x ws_scheme \<Rightarrow> bool" where
  "ws_ok w \<longleftrightarrow> ws_inv (registry w) w"

lemma upd_sel [simp]:
  "clients (upd_client c f w) = (clients w)[c := f (clients w ! c)]" "rooms (upd_client c f w) = rooms w"
  "registry (upd_client c f w) = registry w" "notices (upd_client c f w) = notices w"
  "rooms (upd_room r g w) = (rooms w)[r := g (rooms w ! r)]" "clients (upd_room r g w) = clients w"
  "registry (upd_room r g w) = registry w" "notices (upd_room r g w) = notices w"
  by (simp_all add: upd_client_def upd_room_def)

text \<open>The parts of the state the invariant is about.\<close>

lemma ws_inv_cong:
  "clients w' = clients w \<Longrightarrow> rooms w' = rooms w \<Longrightarrow> notices w' = notices w \<Longrightarrow> ws_inv reg w' = ws_inv reg w"
  by (simp add: ws_inv_def room_ok_def client_ok_def)

lemma ws_invD:
  assumes "ws_inv reg w"
  shows "map_of reg i = Some r \<Longrightarrow> r < length (rooms w) \<and> \<not> RoomDone (rooms w ! r) \<and> RoomIdent (rooms w ! r) = i"
    and "r < length (rooms w) \<Longrightarrow> \<not> RoomDone (rooms w ! r) \<Longrightarrow> map_of reg (RoomIdent (rooms w ! r)) = Some r"
    and "r < length (rooms w) \<Longrightarrow> c \<in> set (Present (rooms w ! r)) \<Longrightarrow> \<not> RoomDone (rooms w ! r) \<and> c < length (clients w)
      \<and> SendOpen (clients w ! c) \<and> ClientRoom (clients w ! c) = RoomIdent (rooms w ! r)"
  using assms unfolding ws_inv_def room_ok_def by (fastforce dest: map_of_SomeD, simp, fastforce)

lemma one_room:
  assumes "ws_inv reg w" "r < length (rooms w)" "q < length (rooms w)"
    "c \<in> set (Present (rooms w ! r))" "c \<in> set (Present (rooms w ! q))"
  shows "r = q"
  using ws_invD(2) [OF assms(1,2)] ws_invD(2) [OF assms(1,3)] ws_invD(3) [OF assms(1,2,4)] ws_invD(3) [OF assms(1,3,5)]
  by simp

text \<open>A change of a client that keeps its room and its channel.\<close>

lemma ws_inv_client:
  assumes "ws_inv reg w" "c < length (clients w)"
    and "SendOpen x = SendOpen (clients w ! c)" "ClientRoom x = ClientRoom (clients w ! c)"
    and "length (Queue x) \<le> SendBuffer (ClientCfg x)"
  shows "ws_inv reg (w\<lparr>clients := (clients w)[c := x]\<rparr>)"
  using assms unfolding ws_inv_def room_ok_def client_ok_def
  by (auto simp: nth_list_update)

section \<open>Commands of a room\<close>

lemma try_send_ok:
  assumes "ws_inv reg w" "c < length (clients w)" "SendOpen (clients w ! c)"
  shows "try_send c out w = (if length (Queue (clients w ! c)) < SendBuffer (ClientCfg (clients w ! c))
      then (Inr True, upd_client c (\<lambda>x. x\<lparr>Queue := Queue x @ [out]\<rparr>) w) else (Inr False, w))"
    and "ws_inv reg (snd (try_send c out w))"
proof -
  show eq: "try_send c out w = (if length (Queue (clients w ! c)) < SendBuffer (ClientCfg (clients w ! c))
      then (Inr True, upd_client c (\<lambda>x. x\<lparr>Queue := Queue x @ [out]\<rparr>) w) else (Inr False, w))"
    using assms(3) by (simp add: try_send_def eff_defs)
  show "ws_inv reg (snd (try_send c out w))"
    unfolding eq using assms by (simp add: upd_client_def ws_inv_client)
qed

text \<open>Removing a member closes its channel; the last one to go leaves a notice.\<close>

lemma removeAndNotify_ok:
  assumes ok: "ws_inv reg w" and r: "r < length (rooms w)"
  obtains w' where "removeAndNotify r c w = (Inr (), w')" "ws_inv reg w'" "registry w' = registry w"
    "clients w' = (if c \<in> set (Present (rooms w ! r)) then (clients w)[c := (clients w ! c)\<lparr>SendOpen := False\<rparr>] else clients w)"
    "rooms w' = (rooms w)[r := (rooms w ! r)\<lparr>Present := removeAll c (Present (rooms w ! r))\<rparr>]" "drop_count w' = drop_count w"
proof (cases "c \<in> set (Present (rooms w ! r))")
  case False
  then have "removeAndNotify r c w = (Inr (), w)" by (simp add: removeAndNotify_def eff_defs)
  with that [of w] ok False show ?thesis by (simp add: removeAll_id)
next
  case True
  note c = ws_invD(3) [OF ok r True]
  let ?e = "removeAll c (Present (rooms w ! r)) = []"
  let ?v = "upd_client c (\<lambda>x. x\<lparr>SendOpen := False\<rparr>) (upd_room r (\<lambda>x. x\<lparr>Present := removeAll c (Present x)\<rparr>) w)"
  let ?w' = "if ?e then ?v\<lparr>notices := notices ?v @ [RoomIdent (rooms w ! r)]\<rparr> else ?v"
  have run: "removeAndNotify r c w = (Inr (), ?w')"
    using True c by (simp add: removeAndNotify_def close_send_def eff_defs)
  have "ws_inv reg ?w'"
    unfolding ws_inv_def
  proof (intro conjI ballI allI impI)
    show "distinct (map fst reg)" using ok by (simp add: ws_inv_def)
  next
    fix p assume "p \<in> set reg"
    with ok have "snd p < length (rooms w)" "\<not> RoomDone (rooms w ! snd p)" "RoomIdent (rooms w ! snd p) = fst p"
      by (auto simp: ws_inv_def)
    with r show "snd p < length (rooms ?w')" "\<not> RoomDone (rooms ?w' ! snd p)" "RoomIdent (rooms ?w' ! snd p) = fst p"
      by (cases "snd p = r"; simp)+
  next
    fix q assume q: "q < length (rooms ?w')"
    then have q': "q < length (rooms w)" by (simp split: if_splits)
    have "(clients w)[c := (clients w ! c)\<lparr>SendOpen := False\<rparr>] ! d = clients w ! d"
      if "d \<in> set (Present (rooms w ! q))" "q \<noteq> r" for d
      using one_room [OF ok q' r that(1)] that(2) True by (cases "d = c") auto
    moreover have "room_ok reg w q" using ok q' by (simp add: ws_inv_def)
    ultimately show "room_ok reg ?w' q" using r q'
      by (cases "q = r") (auto simp: room_ok_def nth_list_update distinct_removeAll)
  next
    fix d assume d: "d < length (clients ?w')"
    then have d': "d < length (clients w)" by (simp split: if_splits)
    have "\<exists>q<length (rooms w). d \<in> set (Present ((rooms w)[r := (rooms w ! r)\<lparr>Present := removeAll c (Present (rooms w ! r))\<rparr>] ! q))"
      if "d \<noteq> c" "q < length (rooms w)" "d \<in> set (Present (rooms w ! q))" for q
      using that r by (intro exI [of _ q]) (cases "q = r"; simp)
    moreover have "client_ok w d" using ok d' by (simp add: ws_inv_def)
    ultimately show "client_ok ?w' d" using d' c by (cases "d = c") (auto simp: client_ok_def)
  qed
  with that [of ?w'] run True show ?thesis by (auto simp: upd_client_def upd_room_def)
qed

text \<open>What a broadcast does to the clients: those with room in their buffer get the message, the
  others lose their channel.\<close>

definition served :: "outbound \<Rightarrow> client \<Rightarrow> client" where
  "served out x = (if length (Queue x) < SendBuffer (ClientCfg x) then x\<lparr>Queue := Queue x @ [out]\<rparr> else x)"

definition full :: "client \<Rightarrow> bool" where
  "full x \<longleftrightarrow> \<not> length (Queue x) < SendBuffer (ClientCfg x)"

lemma deliver_to_ok:
  assumes "ws_inv reg w" "distinct cs" "\<forall>c\<in>set cs. c < length (clients w) \<and> SendOpen (clients w ! c)"
  shows "\<exists>w'. deliver_to cs out w = (Inr (filter (\<lambda>c. full (clients w ! c)) cs), w') \<and> ws_inv reg w'
    \<and> registry w' = registry w \<and> rooms w' = rooms w \<and> length (clients w') = length (clients w)
    \<and> (\<forall>c < length (clients w). clients w' ! c = (if c \<in> set cs then served out (clients w ! c) else clients w ! c))
    \<and> drop_count w' = drop_count w + length (filter (\<lambda>c. full (clients w ! c)) cs)"
  using assms
proof (induction cs arbitrary: w)
  case (Cons c cs)
  then have c: "c < length (clients w)" "SendOpen (clients w ! c)" "c \<notin> set cs" by auto
  note sent = try_send_ok [OF Cons.prems(1) c(1,2), of out]
  show ?case
  proof (cases "full (clients w ! c)")
    case False
    let ?v = "upd_client c (\<lambda>x. x\<lparr>Queue := Queue x @ [out]\<rparr>) w"
    have run: "try_send c out w = (Inr True, ?v)" using sent(1) False by (simp add: full_def)
    have "ws_inv reg ?v" using sent(2) by (simp add: run)
    moreover have "\<forall>d\<in>set cs. d < length (clients ?v) \<and> SendOpen (clients ?v ! d)" using Cons.prems(3) c(3)
      by (auto simp: nth_list_update)
    moreover have "filter (\<lambda>d. full (clients ?v ! d)) cs = filter (\<lambda>d. full (clients w ! d)) cs"
      using c(1,3) by (intro filter_cong refl) (auto simp: nth_list_update)
    ultimately obtain w' where w': "deliver_to cs out ?v = (Inr (filter (\<lambda>d. full (clients w ! d)) cs), w')" "ws_inv reg w'"
      "registry w' = registry w" "rooms w' = rooms w" "length (clients w') = length (clients w)"
      "\<forall>d < length (clients w). clients w' ! d = (if d \<in> set cs then served out (clients ?v ! d) else clients ?v ! d)"
      "drop_count w' = drop_count w + length (filter (\<lambda>d. full (clients w ! d)) cs)"
      using Cons.IH [of ?v] Cons.prems(2) by (auto simp: upd_client_def)
    have "\<forall>d < length (clients w). clients w' ! d = (if d \<in> set (c # cs) then served out (clients w ! d) else clients w ! d)"
      using w'(6) c(1,3) False by (auto simp: served_def full_def nth_list_update)
    with w' run False show ?thesis by (intro exI [of _ w']) (simp add: eff_simps)
  next
    case True
    let ?v = "w\<lparr>drop_count := drop_count w + 1\<rparr>"
    have run: "try_send c out w = (Inr False, w)" using sent(1) True by (simp add: full_def)
    have "ws_inv reg ?v" using Cons.prems(1) by (subst ws_inv_cong [of _ w]) simp_all
    then obtain w' where w': "deliver_to cs out ?v = (Inr (filter (\<lambda>d. full (clients w ! d)) cs), w')" "ws_inv reg w'"
      "registry w' = registry w" "rooms w' = rooms w" "length (clients w') = length (clients w)"
      "\<forall>d < length (clients w). clients w' ! d = (if d \<in> set cs then served out (clients w ! d) else clients w ! d)"
      "drop_count w' = Suc (drop_count w + length (filter (\<lambda>d. full (clients w ! d)) cs))"
      using Cons.IH [of ?v] Cons.prems(2,3) by auto
    with run True show ?thesis
      by (intro exI [of _ w']) (auto simp: eff_simps served_def full_def)
  qed
qed (simp add: eff_simps)

lemma evict_ok:
  assumes "ws_inv reg w" "r < length (rooms w)" "set cs \<subseteq> set (Present (rooms w ! r))" "distinct cs"
  shows "\<exists>w'. evict r cs w = (Inr (), w') \<and> ws_inv reg w' \<and> registry w' = registry w
    \<and> rooms w' = (rooms w)[r := (rooms w ! r)\<lparr>Present := filter (\<lambda>c. c \<notin> set cs) (Present (rooms w ! r))\<rparr>]
    \<and> length (clients w') = length (clients w) \<and> drop_count w' = drop_count w
    \<and> (\<forall>c < length (clients w). clients w' ! c = (if c \<in> set cs then (clients w ! c)\<lparr>SendOpen := False\<rparr> else clients w ! c))"
  using assms
proof (induction cs arbitrary: w)
  case Nil
  then show ?case by (simp add: eff_simps)
next
  case (Cons c cs)
  then have c: "c \<in> set (Present (rooms w ! r))" by simp
  from removeAndNotify_ok [OF Cons.prems(1,2), of c] obtain v where v: "removeAndNotify r c w = (Inr (), v)" "ws_inv reg v"
    "registry v = registry w" "clients v = (clients w)[c := (clients w ! c)\<lparr>SendOpen := False\<rparr>]"
    "rooms v = (rooms w)[r := (rooms w ! r)\<lparr>Present := removeAll c (Present (rooms w ! r))\<rparr>]" "drop_count v = drop_count w"
    using c by auto
  have "set cs \<subseteq> set (Present (rooms v ! r))" using Cons.prems v(5) by auto
  then obtain w' where w': "evict r cs v = (Inr (), w')" "ws_inv reg w'" "registry w' = registry w" "drop_count w' = drop_count w"
    "rooms w' = (rooms v)[r := (rooms v ! r)\<lparr>Present := filter (\<lambda>c. c \<notin> set cs) (Present (rooms v ! r))\<rparr>]"
    "length (clients w') = length (clients w)"
    "\<forall>d < length (clients v). clients w' ! d = (if d \<in> set cs then (clients v ! d)\<lparr>SendOpen := False\<rparr> else clients v ! d)"
    using Cons.IH [OF v(2)] Cons.prems(2,4) v(3,4,5,6) by auto
  have "c < length (clients w)" using ws_invD(3) [OF Cons.prems(1,2) c] by simp
  with w'(7) v(4) have "\<forall>d < length (clients w). clients w' ! d
      = (if d \<in> set (c # cs) then (clients w ! d)\<lparr>SendOpen := False\<rparr> else clients w ! d)"
    using Cons.prems(4) by (auto simp: nth_list_update)
  moreover have "rooms w' = (rooms w)[r := (rooms w ! r)\<lparr>Present := filter (\<lambda>d. d \<notin> set (c # cs)) (Present (rooms w ! r))\<rparr>]"
    using w'(5) v(5) Cons.prems(2) by (simp add: removeAll_filter_not_eq filter_filter conj_commute)
      (rule arg_cong [of _ _ "\<lambda>z. (rooms w)[r := (rooms w ! r)\<lparr>Present := z\<rparr>]"], rule filter_cong, auto)
  ultimately show ?case using v(1) w' by (intro exI [of _ w']) (simp add: eff_simps)
qed

text \<open>The outcome of a broadcast in a live room.\<close>

definition broadcast_to :: "outbound \<Rightarrow> client \<Rightarrow> client" where
  "broadcast_to out x = (if full x then x\<lparr>SendOpen := False\<rparr> else x\<lparr>Queue := Queue x @ [out]\<rparr>)"

lemma RoomBroadcast_ok:
  assumes ok: "ws_inv reg w" and r: "r < length (rooms w)"
  defines "present \<equiv> if RoomDone (rooms w ! r) then [] else Present (rooms w ! r)"
  shows "\<exists>w'. RoomBroadcast now r payload w = (Inr (), w') \<and> ws_inv reg w' \<and> registry w' = registry w
    \<and> length (clients w') = length (clients w)
    \<and> (\<forall>c < length (clients w). clients w' ! c = (if c \<in> set present
        then broadcast_to \<lparr>OutPayload = payload, OutEnqueued = now\<rparr> (clients w ! c) else clients w ! c))
    \<and> drop_count w' = drop_count w + length (filter (\<lambda>c. full (clients w ! c)) present)"
proof (cases "RoomDone (rooms w ! r)")
  case True
  with ok show ?thesis by (simp add: RoomBroadcast_def on_room_def eff_defs present_def)
next
  case False
  let ?cs = "Present (rooms w ! r)" and ?out = "\<lparr>OutPayload = payload, OutEnqueued = now\<rparr>"
  let ?ev = "filter (\<lambda>c. full (clients w ! c)) ?cs"
  have d: "distinct ?cs" using ok r by (simp add: ws_inv_def room_ok_def)
  have "\<forall>c\<in>set ?cs. c < length (clients w) \<and> SendOpen (clients w ! c)" using ws_invD(3) [OF ok r] by blast
  from deliver_to_ok [OF ok d this, of ?out] obtain v where v: "deliver_to ?cs ?out w = (Inr ?ev, v)" "ws_inv reg v"
    "registry v = registry w" "rooms v = rooms w" "length (clients v) = length (clients w)"
    "\<forall>c < length (clients w). clients v ! c = (if c \<in> set ?cs then served ?out (clients w ! c) else clients w ! c)"
    "drop_count v = drop_count w + length ?ev" by blast
  have "distinct ?ev" "set ?ev \<subseteq> set (Present (rooms v ! r))" "r < length (rooms v)" using d r v(4) by auto
  from evict_ok [OF v(2) this(3,2,1)] obtain w' where w': "evict r ?ev v = (Inr (), w')" "ws_inv reg w'" "registry w' = registry v"
    "length (clients w') = length (clients v)" "drop_count w' = drop_count v"
    "\<forall>c < length (clients v). clients w' ! c = (if c \<in> set ?ev then (clients v ! c)\<lparr>SendOpen := False\<rparr> else clients v ! c)"
    by blast
  have "\<forall>c < length (clients w). clients w' ! c = (if c \<in> set ?cs then broadcast_to ?out (clients w ! c) else clients w ! c)"
    using w'(6) v(5,6) by (auto simp: broadcast_to_def served_def full_def)
  with v w' False show ?thesis
    by (intro exI [of _ w']) (simp add: RoomBroadcast_def on_room_def eff_defs present_def)
qed

section \<open>Joining, reaping, shutting down\<close>

text \<open>A new client in a live room, and one in a new room.\<close>

lemma ws_inv_join:
  assumes ok: "ws_inv reg w" and r: "r < length (rooms w)" "\<not> RoomDone (rooms w ! r)"
    and x: "SendOpen x" "ClientRoom x = RoomIdent (rooms w ! r)" "Queue x = []"
  shows "ws_inv reg (w\<lparr>clients := clients w @ [x],
    rooms := (rooms w)[r := (rooms w ! r)\<lparr>Present := Present (rooms w ! r) @ [length (clients w)]\<rparr>]\<rparr>)" (is "ws_inv reg ?w'")
  unfolding ws_inv_def
proof (intro conjI ballI allI impI)
  show "distinct (map fst reg)" using ok by (simp add: ws_inv_def)
next
  fix p assume "p \<in> set reg"
  with ok have "snd p < length (rooms w)" "\<not> RoomDone (rooms w ! snd p)" "RoomIdent (rooms w ! snd p) = fst p"
    by (auto simp: ws_inv_def)
  with r show "snd p < length (rooms ?w')" "\<not> RoomDone (rooms ?w' ! snd p)" "RoomIdent (rooms ?w' ! snd p) = fst p"
    by (cases "snd p = r"; simp)+
next
  fix q assume "q < length (rooms ?w')"
  then have "room_ok reg w q" "q < length (rooms w)" using ok by (simp_all add: ws_inv_def)
  moreover from this have "c < length (clients w)" if "c \<in> set (Present (rooms w ! q))" for c
    using that by (auto simp: room_ok_def)
  ultimately show "room_ok reg ?w' q" using r x
    by (cases "q = r") (auto simp: room_ok_def nth_append intro: less_SucI)
next
  fix c assume c: "c < length (clients ?w')"
  show "client_ok ?w' c"
  proof (cases "c = length (clients w)")
    case True
    then show ?thesis using r x by (auto simp: client_ok_def intro: exI [of _ r])
  next
    case False
    then have "client_ok w c" using ok c by (simp add: ws_inv_def)
    moreover have "\<exists>q<length (rooms w). c \<in> set (Present (rooms ?w' ! q))"
      if "q < length (rooms w)" "c \<in> set (Present (rooms w ! q))" for q
      using that by (intro exI [of _ q]) (cases "q = r"; simp)
    ultimately show ?thesis using False c by (auto simp: client_ok_def nth_append)
  qed
qed

lemma ws_inv_new_room:
  assumes ok: "ws_inv reg w" and new: "map_of reg rid = None"
    and x: "SendOpen x" "ClientRoom x = rid" "Queue x = []"
  shows "ws_inv ((rid, length (rooms w)) # reg) (w\<lparr>clients := clients w @ [x],
    rooms := rooms w @ [\<lparr>RoomIdent = rid, Present = [length (clients w)], RoomDone = False\<rparr>]\<rparr>)" (is "ws_inv ?reg ?w'")
  unfolding ws_inv_def
proof (intro conjI ballI allI impI)
  show "distinct (map fst ?reg)" using ok new by (simp add: ws_inv_def map_of_eq_None_iff)
next
  fix p assume "p \<in> set ?reg"
  with ok show "snd p < length (rooms ?w')" "\<not> RoomDone (rooms ?w' ! snd p)" "RoomIdent (rooms ?w' ! snd p) = fst p"
    by (auto simp: ws_inv_def nth_append)
next
  fix q assume q: "q < length (rooms ?w')"
  show "room_ok ?reg ?w' q"
  proof (cases "q = length (rooms w)")
    case True
    with x show ?thesis by (simp add: room_ok_def)
  next
    case False
    then have "room_ok reg w q" "q < length (rooms w)" using ok q by (simp_all add: ws_inv_def)
    then show ?thesis by (auto simp: room_ok_def nth_append)
  qed
next
  fix c assume c: "c < length (clients ?w')"
  show "client_ok ?w' c"
  proof (cases "c = length (clients w)")
    case True
    with x show ?thesis by (auto simp: client_ok_def intro: exI [of _ "length (rooms w)"])
  next
    case False
    then have "client_ok w c" using ok c by (simp add: ws_inv_def)
    moreover have "\<exists>q<length (rooms ?w'). c \<in> set (Present (rooms ?w' ! q))"
      if "q < length (rooms w)" "c \<in> set (Present (rooms w ! q))" for q
      using that by (intro exI [of _ q]) (simp add: nth_append)
    ultimately show ?thesis using False c by (auto simp: client_ok_def nth_append)
  qed
qed

lemma connect_ok:
  assumes ok: "ws_ok w"
  shows "\<exists>r w'. connect ident rid cfg w = (Inr (length (clients w), r), w') \<and> ws_ok w'"
proof (cases "map_of (registry w) rid")
  case (Some r)
  note inv = ok [unfolded ws_ok_def]
  note r = ws_invD(1) [OF inv Some]
  let ?x = "(NewClient ident cfg)\<lparr>ClientRoom := rid, Recorded := True\<rparr>"
  let ?w' = "w\<lparr>clients := clients w @ [?x], rooms := (rooms w)[r := (rooms w ! r)\<lparr>Present := Present (rooms w ! r) @ [length (clients w)]\<rparr>]\<rparr>"
  have "ws_inv (registry w) ?w'" by (rule ws_inv_join [OF inv]) (use r in \<open>simp_all add: NewClient_def\<close>)
  then have "ws_ok ?w'" by (simp add: ws_ok_def)
  moreover have "length (clients w) \<notin> set (Present (rooms w ! r))" using ws_invD(3) [OF inv, of r] r by blast
  ultimately show ?thesis using r Some
    by (simp add: connect_def HubJoin_def RoomJoin_def on_room_def eff_defs upd_client_def upd_room_def)
next
  case None
  let ?x = "(NewClient ident cfg)\<lparr>ClientRoom := rid, Recorded := True\<rparr>"
  let ?w' = "w\<lparr>registry := (rid, length (rooms w)) # registry w, clients := clients w @ [?x],
    rooms := rooms w @ [\<lparr>RoomIdent = rid, Present = [length (clients w)], RoomDone = False\<rparr>]\<rparr>"
  let ?v = "w\<lparr>clients := clients w @ [?x], rooms := rooms w @ [\<lparr>RoomIdent = rid, Present = [length (clients w)], RoomDone = False\<rparr>]\<rparr>"
  have "ws_inv ((rid, length (rooms w)) # registry w) ?v"
    by (rule ws_inv_new_room [OF ok [unfolded ws_ok_def] None]) (simp_all add: NewClient_def)
  then have "ws_ok ?w'" unfolding ws_ok_def by (subst ws_inv_cong [of _ ?v]) simp_all
  then show ?thesis using None
    by (simp add: connect_def HubJoin_def NewRoom_def RoomJoin_def on_room_def eff_defs upd_client_def upd_room_def)
qed

text \<open>The room is deleted only when it is empty, and then it takes no more commands.\<close>

lemma HubReap_ok:
  assumes ok: "ws_ok w"
  shows "\<exists>w'. HubReap rid w = (Inr (), w') \<and> ws_ok w' \<and> clients w' = clients w"
proof (cases "map_of (registry w) rid")
  case None
  have other: "RoomIdent (rooms w ! r) \<noteq> rid" if "r < length (rooms w)" "\<not> RoomDone (rooms w ! r)" for r
    using ws_invD(2) [OF ok [unfolded ws_ok_def] that] None by auto
  have "ws_ok (w\<lparr>notices := remove1 rid (notices w)\<rparr>)" unfolding ws_ok_def ws_inv_def
  proof (intro conjI allI impI)
    fix q assume q: "q < length (rooms (w\<lparr>notices := remove1 rid (notices w)\<rparr>))"
    then have "room_ok (registry w) w q" using ok by (simp add: ws_ok_def ws_inv_def)
    then show "room_ok (registry (w\<lparr>notices := remove1 rid (notices w)\<rparr>)) (w\<lparr>notices := remove1 rid (notices w)\<rparr>) q"
      using q other [of q] by (auto simp: room_ok_def in_set_remove1)
  qed (use ok in \<open>auto simp: ws_ok_def ws_inv_def client_ok_def\<close>)
  with None show ?thesis by (simp add: HubReap_def eff_defs)
next
  case (Some r)
  note inv = ok [unfolded ws_ok_def]
  note r = ws_invD(1) [OF inv Some]
  have other: "RoomIdent (rooms w ! q) \<noteq> rid" if "q < length (rooms w)" "\<not> RoomDone (rooms w ! q)" "q \<noteq> r" for q
    using ws_invD(2) [OF inv that(1,2)] that(3) Some by auto
  show ?thesis
  proof (cases "Present (rooms w ! r) = []")
    case False
    have "ws_ok (w\<lparr>notices := remove1 rid (notices w)\<rparr>)" unfolding ws_ok_def ws_inv_def
    proof (intro conjI allI impI)
      fix q assume q: "q < length (rooms (w\<lparr>notices := remove1 rid (notices w)\<rparr>))"
      then have "room_ok (registry w) w q" using inv by (simp add: ws_inv_def)
      then show "room_ok (registry (w\<lparr>notices := remove1 rid (notices w)\<rparr>)) (w\<lparr>notices := remove1 rid (notices w)\<rparr>) q"
        using q False other [of q] by (cases "q = r") (auto simp: room_ok_def in_set_remove1)
    qed (use inv in \<open>auto simp: ws_inv_def client_ok_def\<close>)
    with Some r False show ?thesis by (simp add: HubReap_def RoomClose_def on_room_def eff_defs)
  next
    case True
    let ?w' = "w\<lparr>notices := remove1 rid (notices w), rooms := (rooms w)[r := (rooms w ! r)\<lparr>RoomDone := True\<rparr>],
      registry := filter (\<lambda>p. fst p \<noteq> rid) (registry w)\<rparr>"
    have "ws_ok ?w'" unfolding ws_ok_def ws_inv_def
    proof (intro conjI ballI allI impI)
      show "distinct (map fst (registry ?w'))" using inv by (simp add: ws_inv_def distinct_map_filter)
    next
      fix p assume "p \<in> set (registry ?w')"
      then have p: "p \<in> set (registry w)" "fst p \<noteq> rid" by auto
      with inv have "snd p < length (rooms w)" "\<not> RoomDone (rooms w ! snd p)" "RoomIdent (rooms w ! snd p) = fst p"
        by (auto simp: ws_inv_def)
      with p(2) r show "snd p < length (rooms ?w')" "\<not> RoomDone (rooms ?w' ! snd p)" "RoomIdent (rooms ?w' ! snd p) = fst p"
        by (cases "snd p = r"; simp)+
    next
      fix q assume "q < length (rooms ?w')"
      then have "room_ok (registry w) w q" "q < length (rooms w)" using inv by (simp_all add: ws_inv_def)
      then show "room_ok (registry ?w') ?w' q"
        using True r other [of q] by (cases "q = r") (auto simp: room_ok_def in_set_remove1)
    next
      fix c assume "c < length (clients ?w')"
      then have "client_ok w c" using inv by (simp add: ws_inv_def)
      moreover have "\<exists>q<length (rooms w). c \<in> set (Present (rooms ?w' ! q))"
        if "q < length (rooms w)" "c \<in> set (Present (rooms w ! q))" for q
        using that True by (intro exI [of _ q]) (cases "q = r"; simp)
      ultimately show "client_ok ?w' c" by (auto simp: client_ok_def)
    qed
    with Some r True show ?thesis
      by (simp add: HubReap_def RoomClose_def on_room_def eff_defs upd_room_def)
  qed
qed

lemma close_all_ok:
  assumes "distinct cs" "\<forall>c\<in>set cs. c < length (clients w) \<and> SendOpen (clients w ! c)"
  shows "\<exists>xs. close_all cs w = (Inr (), w\<lparr>clients := xs\<rparr>) \<and> length xs = length (clients w)
    \<and> (\<forall>c < length xs. xs ! c = (if c \<in> set cs then (clients w ! c)\<lparr>SendOpen := False\<rparr> else clients w ! c))"
  using assms
proof (induction cs arbitrary: w)
  case Nil
  then show ?case by (intro exI [of _ "clients w"]) (simp add: eff_simps)
next
  case (Cons c cs)
  let ?v = "upd_client c (\<lambda>x. x\<lparr>SendOpen := False\<rparr>) w"
  have "\<forall>d\<in>set cs. d < length (clients ?v) \<and> SendOpen (clients ?v ! d)" using Cons.prems by (auto simp: nth_list_update)
  then obtain xs where xs: "close_all cs ?v = (Inr (), ?v\<lparr>clients := xs\<rparr>)" "length xs = length (clients w)"
    "\<forall>d < length xs. xs ! d = (if d \<in> set cs then (clients ?v ! d)\<lparr>SendOpen := False\<rparr> else clients ?v ! d)"
    using Cons.IH [of ?v] Cons.prems(1) by auto
  then have "\<forall>d < length xs. xs ! d = (if d \<in> set (c # cs) then (clients w ! d)\<lparr>SendOpen := False\<rparr> else clients w ! d)"
    using Cons.prems by (auto simp: nth_list_update)
  with xs Cons.prems show ?case
    by (intro exI [of _ xs]) (simp add: close_send_def eff_defs upd_client_def)
qed

text \<open>Shutting a room down takes it out of the table that counts.\<close>

lemma RoomShutdown_ok:
  assumes ok: "ws_inv ((rid, r) # reg) w"
  shows "\<exists>w'. RoomShutdown r w = (Inr (), w') \<and> ws_inv reg w' \<and> length (clients w') = length (clients w)
    \<and> (\<forall>c < length (clients w). \<not> SendOpen (clients w ! c) \<longrightarrow> \<not> SendOpen (clients w' ! c))"
proof -
  have r: "r < length (rooms w)" "\<not> RoomDone (rooms w ! r)" "RoomIdent (rooms w ! r) = rid"
    using ws_invD(1) [OF ok, of rid r] by simp_all
  let ?cs = "Present (rooms w ! r)"
  have "distinct ?cs" using ok r by (simp add: ws_inv_def room_ok_def)
  moreover have open_cs: "\<forall>c\<in>set ?cs. c < length (clients w) \<and> SendOpen (clients w ! c)" using ws_invD(3) [OF ok r(1)] by blast
  ultimately obtain xs where xs: "close_all ?cs w = (Inr (), w\<lparr>clients := xs\<rparr>)" "length xs = length (clients w)"
    "\<forall>c < length xs. xs ! c = (if c \<in> set ?cs then (clients w ! c)\<lparr>SendOpen := False\<rparr> else clients w ! c)"
    using close_all_ok by blast
  let ?w' = "upd_room r (\<lambda>x. x\<lparr>Present := [], RoomDone := True\<rparr>) (w\<lparr>clients := xs\<rparr>)"
  have "ws_inv reg ?w'" unfolding ws_inv_def
  proof (intro conjI ballI allI impI)
    show "distinct (map fst reg)" using ok by (simp add: ws_inv_def)
  next
    fix p assume p: "p \<in> set reg"
    have "snd p \<noteq> r"
    proof
      assume "snd p = r"
      with ok p r(3) have "fst p = rid" by (auto simp: ws_inv_def)
      with ok p show False by (force simp: ws_inv_def)
    qed
    moreover have "snd p < length (rooms w)" "\<not> RoomDone (rooms w ! snd p)" "RoomIdent (rooms w ! snd p) = fst p"
      using ok p by (auto simp: ws_inv_def)
    ultimately show "snd p < length (rooms ?w')" "\<not> RoomDone (rooms ?w' ! snd p)" "RoomIdent (rooms ?w' ! snd p) = fst p"
      by simp_all
  next
    fix q assume "q < length (rooms ?w')"
    then have q: "q < length (rooms w)" "room_ok ((rid, r) # reg) w q" using ok by (simp_all add: ws_inv_def)
    have "xs ! c = clients w ! c" if "c \<in> set (Present (rooms w ! q))" "q \<noteq> r" for c
      using one_room [OF ok q(1) r(1) that(1)] that xs(2,3) q(2) by (auto simp: room_ok_def)
    then show "room_ok reg ?w' q" using q r xs(2) by (cases "q = r") (auto simp: room_ok_def)
  next
    fix c assume "c < length (clients ?w')"
    then have c: "c < length (clients w)" "client_ok w c" using ok xs(2) by (simp_all add: ws_inv_def)
    have "\<exists>q<length (rooms w). c \<in> set (Present (rooms ?w' ! q))"
      if "q < length (rooms w)" "c \<in> set (Present (rooms w ! q))" "c \<notin> set ?cs" for q
      using that by (intro exI [of _ q]) (cases "q = r"; simp)
    then show "client_ok ?w' c" using c xs by (auto simp: client_ok_def)
  qed
  moreover have "RoomShutdown r w = (Inr (), ?w')" using r xs(1) by (simp add: RoomShutdown_def on_room_def eff_defs)
  ultimately show ?thesis using xs by (intro exI [of _ ?w']) auto
qed

lemma shutdown_all_ok: "ws_inv reg w \<Longrightarrow> \<exists>w'. shutdown_all (map snd reg) w = (Inr (), w') \<and> ws_inv [] w'"
proof (induction reg arbitrary: w)
  case (Cons p reg)
  obtain rid r where p: "p = (rid, r)" by (cases p)
  from RoomShutdown_ok [OF Cons.prems [unfolded p]] obtain v where v: "RoomShutdown r w = (Inr (), v)" "ws_inv reg v" by blast
  from Cons.IH [OF v(2)] v(1) show ?case by (auto simp: p eff_simps)
qed (simp add: eff_simps)

lemma HubShutdown_ok:
  assumes "ws_ok w"
  shows "\<exists>w'. HubShutdown w = (Inr (), w') \<and> ws_ok w' \<and> (\<forall>c < length (clients w'). \<not> SendOpen (clients w' ! c))"
proof -
  obtain v where v: "shutdown_all (map snd (registry w)) w = (Inr (), v)" "ws_inv [] v"
    using shutdown_all_ok assms unfolding ws_ok_def by blast
  let ?w' = "v\<lparr>registry := []\<rparr>"
  have "ws_ok ?w'" unfolding ws_ok_def using v(2) by (subst ws_inv_cong [of _ v]) simp_all
  moreover have "\<not> SendOpen (clients v ! c)" if "c < length (clients v)" for c
  proof
    assume "SendOpen (clients v ! c)"
    moreover have "client_ok v c" using v(2) that by (simp add: ws_inv_def)
    ultimately obtain r where r: "r < length (rooms v)" "c \<in> set (Present (rooms v ! r))"
      by (auto simp: client_ok_def)
    from ws_invD(2) [OF v(2) r(1)] ws_invD(3) [OF v(2) r] show False by simp
  qed
  ultimately show ?thesis using v(1) by (intro exI [of _ ?w']) (simp add: HubShutdown_def eff_defs)
qed

section \<open>Clients\<close>

lemma write_frame_run: "write_frame c f w = (Inr (), upd_client c (\<lambda>x. x\<lparr>Frames := Frames x @ [f]\<rparr>) w)"
  by (simp add: write_frame_def eff_defs)

lemma close_conn_run: "close_conn c w = (Inr True, upd_client c (\<lambda>x. x\<lparr>ConnClosed := True\<rparr>) w)"
  by (simp add: close_conn_def eff_defs)

lemma ws_ok_client:
  assumes "ws_ok w" "c < length (clients w)"
    and "\<And>x. SendOpen (f x) = SendOpen x \<and> ClientRoom (f x) = ClientRoom x \<and> ClientCfg (f x) = ClientCfg x
      \<and> length (Queue (f x)) \<le> length (Queue x)"
  shows "ws_ok (upd_client c f w)"
proof -
  have "client_ok w c" using assms(1,2) by (simp add: ws_ok_def ws_inv_def)
  then have "length (Queue (f (clients w ! c))) \<le> SendBuffer (ClientCfg (f (clients w ! c)))"
    using assms(3) by (metis client_ok_def order_trans)
  then have "ws_inv (registry w) (w\<lparr>clients := (clients w)[c := f (clients w ! c)]\<rparr>)"
    using assms by (intro ws_inv_client) (simp_all add: ws_ok_def)
  then show ?thesis by (simp add: ws_ok_def upd_client_def)
qed

lemma pump_ok:
  assumes "ws_ok w" "c < length (clients w)"
  shows "\<exists>b w'. WritePump c [e] w = (Inr b, w') \<and> ws_ok w'"
proof -
  have lat: "ws_ok (w\<lparr>latencies := l\<rparr>) = ws_ok w" for l and w :: "'x ws_scheme"
    unfolding ws_ok_def by (subst ws_inv_cong [of _ w]) simp_all
  have keep: "ws_ok (upd_client c (\<lambda>x. x\<lparr>Frames := Frames x @ [g]\<rparr>) v)" "ws_ok (upd_client c (\<lambda>x. x\<lparr>ConnClosed := True\<rparr>) v)"
    if "ws_ok v" "c < length (clients v)" for g v
    using that by (auto intro: ws_ok_client)
  show ?thesis
  proof (cases e)
    case (Tick b)
    then show ?thesis using keep [OF assms] assms(1)
      by (auto simp: write_frame_run close_conn_run eff_simps)
  next
    case (FromSend dl ok now)
    show ?thesis
    proof (cases "Queue (clients w ! c)")
      case Nil
      then show ?thesis using keep [OF assms] keep [OF keep(1) [OF assms]] assms FromSend
        by (auto simp: pump_send_def write_frame_run close_conn_run eff_defs)
    next
      case (Cons q rest)
      have "ws_ok (upd_client c (\<lambda>x. x\<lparr>Queue := drop 1 (Queue x)\<rparr>) w)" by (rule ws_ok_client [OF assms]) auto
      then have v: "ws_ok (upd_client c (\<lambda>x. x\<lparr>Queue := rest\<rparr>) w)" using Cons by (simp add: upd_client_def)
      have l: "c < length (clients (upd_client c (\<lambda>x. x\<lparr>Queue := rest\<rparr>) w))" using assms(2) by simp
      show ?thesis using keep [OF v l] v Cons FromSend
        by (auto simp: pump_send_def write_frame_run close_conn_run eff_defs lat)
    qed
  qed
qed

section \<open>Runs\<close>

text \<open>
  What the goroutines of the server do, one atomic command at a time and in any order. A pointer
  to a room or a client is held only once it exists; a notice is heard once it is given; a pump
  takes no step after it has closed its connection. A panic ends the run.
\<close>

datatype ws_act =
    Connect Identity string ClientConfig
  | SendTo nat string int
  | LeaveRoom nat nat
  | BroadcastIn nat string int
  | BroadcastTo string string int
  | Reap string
  | Pump nat pump_event
  | ShutdownHub

fun ws_do :: "ws_act \<Rightarrow> ('x, unit) wsm" where
  "ws_do (Connect ident rid cfg) w = andThen (connect ident rid cfg) (\<lambda>_. ret ()) w"
| "ws_do (SendTo c p now) w = (if c < length (clients w) then Send now c p w else ret () w)"
| "ws_do (LeaveRoom r c) w = (if r < length (rooms w) then RoomLeave r c w else ret () w)"
| "ws_do (BroadcastIn r p now) w = (if r < length (rooms w) then RoomBroadcast now r p w else ret () w)"
| "ws_do (BroadcastTo rid p now) w = HubBroadcast now rid p w"
| "ws_do (Reap rid) w = (if rid \<in> set (notices w) then HubReap rid w else ret () w)"
| "ws_do (Pump c e) w = (if c < length (clients w) \<and> \<not> ConnClosed (clients w ! c)
     then andThen (WritePump c [e]) (\<lambda>_. ret ()) w else ret () w)"
| "ws_do ShutdownHub w = HubShutdown w"

fun ws_run :: "ws_act list \<Rightarrow> ('x, unit) wsm" where
  "ws_run [] = ret ()"
| "ws_run (a # as) = andThen (ws_do a) (\<lambda>_. ws_run as)"

definition new_hub :: ws where
  "new_hub = \<lparr>clients = [], rooms = [], registry = [], notices = [], drop_count = 0, latencies = []\<rparr>"

lemma Send_ok:
  assumes "ws_ok w" "c < length (clients w)"
  shows "if SendOpen (clients w ! c) then \<exists>w'. Send now c p w = (Inr (), w') \<and> ws_ok w' else Send now c p w = (Inl Panic, w)"
proof (cases "SendOpen (clients w ! c)")
  case True
  note sent = try_send_ok [OF assms(1) [unfolded ws_ok_def] assms(2) True, of "\<lparr>OutPayload = p, OutEnqueued = now\<rparr>"]
  have "registry (snd (try_send c \<lparr>OutPayload = p, OutEnqueued = now\<rparr> w)) = registry w" unfolding sent(1) by simp
  with sent(2) have "ws_ok (snd (try_send c \<lparr>OutPayload = p, OutEnqueued = now\<rparr> w))" by (simp add: ws_ok_def)
  moreover have "Send now c p w = (Inr (), snd (try_send c \<lparr>OutPayload = p, OutEnqueued = now\<rparr> w))"
    by (simp add: Send_def eff_defs sent(1))
  ultimately show ?thesis using True by simp
next
  case False
  then show ?thesis by (simp add: Send_def try_send_def eff_defs)
qed

lemma ws_do_ok:
  assumes ok: "ws_ok w" and run: "ws_do a w = (r, w')"
  shows "ws_ok w' \<and> (r = Inr () \<or> (\<exists>c p now. a = SendTo c p now \<and> r = Inl Panic \<and> c < length (clients w')
    \<and> \<not> SendOpen (clients w' ! c)))"
proof (cases a)
  case (Connect ident rid cfg)
  then show ?thesis using connect_ok [OF ok, of ident rid cfg] run by (auto simp: eff_simps)
next
  case (SendTo c p now)
  show ?thesis
  proof (cases "c < length (clients w)")
    case True
    with Send_ok [OF ok True, of now p] run SendTo ok show ?thesis by (auto split: if_splits)
  qed (use run SendTo ok in \<open>simp add: eff_simps\<close>)
next
  case (LeaveRoom q c)
  show ?thesis
  proof (cases "q < length (rooms w) \<and> \<not> RoomDone (rooms w ! q)")
    case True
    then obtain v where "removeAndNotify q c w = (Inr (), v)" "ws_inv (registry w) v" "registry v = registry w"
      using removeAndNotify_ok [OF ok [unfolded ws_ok_def], of q c] by metis
    with True run LeaveRoom show ?thesis by (simp add: RoomLeave_def on_room_def eff_defs ws_ok_def)
  qed (use run LeaveRoom ok in \<open>auto simp: RoomLeave_def on_room_def eff_defs split: if_splits\<close>)
next
  case (BroadcastIn q p now)
  show ?thesis
  proof (cases "q < length (rooms w)")
    case True
    from RoomBroadcast_ok [OF ok [unfolded ws_ok_def] True, of now p] run BroadcastIn True show ?thesis
      by (auto simp: ws_ok_def)
  qed (use run BroadcastIn ok in \<open>simp add: eff_simps\<close>)
next
  case (BroadcastTo rid p now)
  show ?thesis
  proof (cases "map_of (registry w) rid")
    case (Some q)
    then have "q < length (rooms w)" using ws_invD(1) [OF ok [unfolded ws_ok_def]] by blast
    from RoomBroadcast_ok [OF ok [unfolded ws_ok_def] this, of now p] run BroadcastTo Some show ?thesis
      by (auto simp: ws_ok_def HubBroadcast_def eff_simps)
  qed (use run BroadcastTo ok in \<open>simp add: HubBroadcast_def eff_simps\<close>)
next
  case (Reap rid)
  with HubReap_ok [OF ok, of rid] run ok show ?thesis by (auto simp: eff_simps split: if_splits)
next
  case (Pump c e)
  with pump_ok [OF ok, of c e] run ok show ?thesis by (auto simp: eff_simps split: if_splits)
next
  case ShutdownHub
  with HubShutdown_ok [OF ok] run show ?thesis by auto
qed

lemma ws_run_ok:
  "ws_run as w = (r, w') \<Longrightarrow> ws_ok w \<Longrightarrow> ws_ok w' \<and> (r = Inr () \<or> (\<exists>c p now. SendTo c p now \<in> set as \<and> r = Inl Panic
    \<and> c < length (clients w') \<and> \<not> SendOpen (clients w' ! c)))"
proof (induction as arbitrary: w)
  case Nil
  then show ?case by (simp add: eff_simps)
next
  case (Cons a as)
  obtain q v where v: "ws_do a w = (q, v)" by (meson surj_pair)
  note step = ws_do_ok [OF Cons.prems(2) v]
  show ?case
  proof (cases q)
    case (Inl e)
    with Cons.prems(1) v have "r = Inl e" "w' = v" by (simp_all add: eff_simps)
    with step Inl show ?thesis by auto
  next
    case (Inr x)
    with Cons.prems(1) v have "ws_run as v = (r, w')" by (simp add: eff_simps)
    from Cons.IH [OF this] step Inr show ?thesis by auto
  qed
qed

lemma new_hub_ok: "ws_ok new_hub"
  by (simp add: new_hub_def ws_ok_def ws_inv_def)

text \<open>The members of the room registered under a name are the open clients of that room.\<close>

lemma members_of_name:
  assumes ok: "ws_ok w" and c: "c < length (clients w)"
  shows "(\<exists>r. map_of (registry w) rid = Some r \<and> c \<in> set (Present (rooms w ! r)))
    \<longleftrightarrow> SendOpen (clients w ! c) \<and> ClientRoom (clients w ! c) = rid"
proof
  note inv = ok [unfolded ws_ok_def]
  assume "\<exists>r. map_of (registry w) rid = Some r \<and> c \<in> set (Present (rooms w ! r))"
  then obtain r where r: "map_of (registry w) rid = Some r" "c \<in> set (Present (rooms w ! r))" by blast
  from ws_invD(1) [OF inv r(1)] ws_invD(3) [OF inv _ r(2)] show "SendOpen (clients w ! c) \<and> ClientRoom (clients w ! c) = rid" by simp
next
  note inv = ok [unfolded ws_ok_def]
  assume a: "SendOpen (clients w ! c) \<and> ClientRoom (clients w ! c) = rid"
  moreover have "client_ok w c" using inv c by (simp add: ws_inv_def)
  ultimately obtain r where r: "r < length (rooms w)" "c \<in> set (Present (rooms w ! r))" by (auto simp: client_ok_def)
  from ws_invD(3) [OF inv r] ws_invD(2) [OF inv r(1)] a r
  show "\<exists>r. map_of (registry w) rid = Some r \<and> c \<in> set (Present (rooms w ! r))" by auto
qed

lemma HubBroadcast_ok:
  assumes ok: "ws_ok w"
  shows "\<exists>w'. HubBroadcast now rid payload w = (Inr (), w') \<and> ws_ok w' \<and> length (clients w') = length (clients w)
    \<and> (\<forall>c < length (clients w). clients w' ! c
        = (if SendOpen (clients w ! c) \<and> ClientRoom (clients w ! c) = rid
           then broadcast_to \<lparr>OutPayload = payload, OutEnqueued = now\<rparr> (clients w ! c) else clients w ! c))"
proof (cases "map_of (registry w) rid")
  case None
  with ok members_of_name [OF ok, of _ rid] show ?thesis by (auto simp: HubBroadcast_def eff_simps)
next
  case (Some q)
  note q = ws_invD(1) [OF ok [unfolded ws_ok_def] Some]
  with RoomBroadcast_ok [OF ok [unfolded ws_ok_def], of q now payload] Some
  obtain w' where w': "HubBroadcast now rid payload w = (Inr (), w')" "ws_inv (registry w) w'" "registry w' = registry w"
    "length (clients w') = length (clients w)"
    "\<forall>c < length (clients w). clients w' ! c = (if c \<in> set (Present (rooms w ! q))
      then broadcast_to \<lparr>OutPayload = payload, OutEnqueued = now\<rparr> (clients w ! c) else clients w ! c)"
    by (auto simp: HubBroadcast_def eff_simps)
  moreover have "(c \<in> set (Present (rooms w ! q))) = (SendOpen (clients w ! c) \<and> ClientRoom (clients w ! c) = rid)"
    if "c < length (clients w)" for c using members_of_name [OF ok that, of rid] Some by simp
  ultimately show ?thesis by (auto simp: ws_ok_def)
qed

section \<open>Properties\<close>

text \<open>
  C32. The hub stays in order. However the goroutines of the server interleave - clients connect
  and leave, rooms and the hub broadcast, evict, are reaped and shut down, pumps write or fail -
  a live room is registered under its name, keeps only clients of that room whose channel is
  open, and waits to be reaped when it is empty; every open client is in a room; a room that has
  ended has no members; buffers never exceed their size. No command panics or blocks for ever,
  with one exception: a direct send to a client whose channel is closed.
\<close>

theorem hub_keeps_order:
  assumes "ws_run as new_hub = (r, w)"
  shows "ws_ok w \<and> (r = Inr () \<or> (\<exists>c p now. SendTo c p now \<in> set as \<and> r = Inl Panic
    \<and> c < length (clients w) \<and> \<not> SendOpen (clients w ! c)))"
  by (rule ws_run_ok [OF assms new_hub_ok])

text \<open>A client comes, hears a broadcast and goes; its room is reaped.\<close>

definition demo_ident :: Identity where
  "demo_ident = \<lparr>IdUser = ''b'', IdName = ''Bo'', IdGuest = False\<rparr>"

definition demo_visit :: "ws_act list" where
  "demo_visit = [Connect demo_ident ''r1'' DefaultClientConfig, BroadcastTo ''r1'' ''m'' 5, LeaveRoom 0 0, Reap ''r1'']"

lemma demo_visit_run:
  "fst (ws_run demo_visit new_hub) = Inr ()" "registry (snd (ws_run demo_visit new_hub)) = []"
  "map RoomDone (rooms (snd (ws_run demo_visit new_hub))) = [True]"
  by code_simp+

theorem hub_keeps_order_witness:
  "ws_ok (snd (ws_run demo_visit new_hub)) \<and> registry (snd (ws_run demo_visit new_hub)) = []"
  using hub_keeps_order [OF surjective_pairing, of demo_visit] demo_visit_run by simp

text \<open>
  A broadcast reaches exactly the room. In any state of a running server, announcing
  something to a room succeeds; every connected client of that room with a free place in its
  buffer gets it, queued last; one with a full buffer is evicted and counted; no client of
  another room, and none that has gone, sees any of it.
\<close>

theorem broadcast_reaches_members:
  assumes "ws_run as new_hub = (Inr (), w)" and "HubBroadcast now rid payload w = (r, w')"
  shows "r = Inr () \<and> length (clients w') = length (clients w)
    \<and> (\<forall>c < length (clients w). clients w' ! c
        = (if SendOpen (clients w ! c) \<and> ClientRoom (clients w ! c) = rid
           then broadcast_to \<lparr>OutPayload = payload, OutEnqueued = now\<rparr> (clients w ! c) else clients w ! c))"
proof -
  have "ws_ok w" using ws_run_ok [OF assms(1) new_hub_ok] by blast
  from HubBroadcast_ok [OF this, of now rid payload] assms(2) show ?thesis by auto
qed

text \<open>One client in each of two rooms; a broadcast to the first.\<close>

definition demo_two :: "ws_act list" where
  "demo_two = [Connect demo_ident ''r1'' DefaultClientConfig, Connect demo_ident ''r2'' DefaultClientConfig]"

lemma demo_two_run:
  "fst (ws_run demo_two new_hub) = Inr ()" "length (clients (snd (ws_run demo_two new_hub))) = 2"
  "map ClientRoom (clients (snd (ws_run demo_two new_hub))) = [''r1'', ''r2'']"
  by code_simp+

theorem broadcast_reaches_members_witness:
  "clients (snd (HubBroadcast 5 ''r1'' ''m'' (snd (ws_run demo_two new_hub)))) ! 1 = clients (snd (ws_run demo_two new_hub)) ! 1"
proof -
  let ?w = "snd (ws_run demo_two new_hub)"
  have "ws_run demo_two new_hub = (Inr (), ?w)" by (simp add: prod_eq_iff demo_two_run(1))
  note b = broadcast_reaches_members [OF this surjective_pairing, of 5 "''r1''" "''m''"]
  have "ClientRoom (clients ?w ! 1) = map ClientRoom (clients ?w) ! 1" by (rule nth_map [symmetric]) (simp add: demo_two_run(2))
  then have "ClientRoom (clients ?w ! 1) = ''r2''" by (simp add: demo_two_run(3))
  with b demo_two_run(2) show ?thesis by simp
qed

text \<open>
  The exception happens. A client under the production configuration stops reading while 65
  messages are announced in its room: it is evicted and its channel closed. Its read pump still
  runs, and the reply to the next message it sent is a send on a closed channel, which panics
  although it is the case of a \<open>select\<close> with a \<open>default\<close>; the panic ends the process.
\<close>

theorem send_after_eviction_panics:
  "fst (ws_run (Connect demo_ident ''r1'' DefaultClientConfig # replicate 65 (BroadcastTo ''r1'' ''m'' 5)) new_hub) = Inr ()
    \<and> fst (ws_run (Connect demo_ident ''r1'' DefaultClientConfig # replicate 65 (BroadcastTo ''r1'' ''m'' 5)
        @ [SendTo 0 ''reply'' 6]) new_hub) = Inl Panic"
  by code_simp

end
