(* ===== verification/WsLoops.thy ===== *)
theory WsLoops
  imports WsHub
begin

text \<open>
  \<open>internal/ws\<close>: the owner goroutines themselves, \<open>Room.run\<close> (\<open>room.go\<close>) and \<open>Hub.run\<close>
  (\<open>hub.go\<close>). \<open>WsHub\<close> has each method as one step on the shared state; here are the commands
  the channels carry, the loops that serve them and the methods as what they are, a command sent
  and a reply awaited. The lemmas show that a loop serving commands does what the methods do.
\<close>

section \<open>Rooms\<close>

datatype room_cmd = joinCmd nat | leaveCmd nat | broadcastCmd string int | membersCmd | countCmd | closeCmd | shutdownCmd

text \<open>What a command answers on its reply channel; leaving and broadcasting have none.\<close>

datatype room_reply = NoReply | JoinDone | MembersAre "Identity list" | CountIs nat | MayClose bool | ShutDown

definition membersOf :: "nat list \<Rightarrow> ('x, Identity list) wsm" where
  "membersOf cs = asks (\<lambda>w. map (\<lambda>c. ClientIdent (clients w ! c)) cs)"

text \<open>The cases of the loop. \<open>close(r.done)\<close> is deferred to the two that return.\<close>

fun room_case :: "nat \<Rightarrow> room_cmd \<Rightarrow> ('x, room_reply) wsm" where
  "room_case r (joinCmd c) =
     andThen (exec (upd_client c (\<lambda>x. x\<lparr>Recorded := True\<rparr>))) (\<lambda>_.
     andThen (exec (upd_room r (\<lambda>x. x\<lparr>Present := (if c \<in> set (Present x) then Present x else Present x @ [c])\<rparr>))) (\<lambda>_.
     ret JoinDone))"
| "room_case r (leaveCmd c) = andThen (removeAndNotify r c) (\<lambda>_. ret NoReply)"
| "room_case r (broadcastCmd payload enqueued) =
     andThen (asks (\<lambda>w. Present (rooms w ! r))) (\<lambda>cs.
     andThen (deliver_to cs \<lparr>OutPayload = payload, OutEnqueued = enqueued\<rparr>) (\<lambda>evicted.
     andThen (evict r evicted) (\<lambda>_. ret NoReply)))"
| "room_case r membersCmd =
     andThen (asks (\<lambda>w. Present (rooms w ! r))) (\<lambda>cs. andThen (membersOf cs) (\<lambda>ms. ret (MembersAre ms)))"
| "room_case r countCmd = asks (\<lambda>w. CountIs (length (Present (rooms w ! r))))"
| "room_case r closeCmd =
     andThen (asks (\<lambda>w. Present (rooms w ! r))) (\<lambda>cs.
     if length cs = 0 then andThen (exec (upd_room r (\<lambda>x. x\<lparr>RoomDone := True\<rparr>))) (\<lambda>_. ret (MayClose True))
     else ret (MayClose False))"
| "room_case r shutdownCmd =
     andThen (asks (\<lambda>w. Present (rooms w ! r))) (\<lambda>cs.
     andThen (close_all cs) (\<lambda>_.
     andThen (exec (upd_room r (\<lambda>x. x\<lparr>Present := [], RoomDone := True\<rparr>))) (\<lambda>_. ret ShutDown)))"

definition returns_after :: "room_reply \<Rightarrow> bool" where
  "returns_after q \<longleftrightarrow> q = MayClose True \<or> q = ShutDown"

text \<open>The loop over the commands that arrive, with its replies; those after its return find no reader.\<close>

fun room_loop :: "nat \<Rightarrow> room_cmd list \<Rightarrow> ('x, room_reply list) wsm" where
  "room_loop r [] = ret []"
| "room_loop r (cmd # cmds) = andThen (room_case r cmd) (\<lambda>q.
     if returns_after q then ret [q] else andThen (room_loop r cmds) (\<lambda>qs. ret (q # qs)))"

text \<open>The methods: a send on \<open>cmds\<close>, beside \<open>done\<close> in a \<open>select\<close> where the code has one.\<close>

definition offer :: "nat \<Rightarrow> room_cmd \<Rightarrow> ('x, room_reply) wsm \<Rightarrow> ('x, room_reply) wsm" where
  "offer r cmd gone = andThen (asks (\<lambda>w. RoomDone (rooms w ! r))) (\<lambda>over. if over then gone else room_case r cmd)"

fun unguarded :: "room_cmd \<Rightarrow> bool" where
  "unguarded (joinCmd c) = True"
| "unguarded closeCmd = True"
| "unguarded shutdownCmd = True"
| "unguarded _ = False"

fun when_gone :: "room_cmd \<Rightarrow> room_reply" where
  "when_gone membersCmd = MembersAre []"
| "when_gone countCmd = CountIs 0"
| "when_gone _ = NoReply"

definition ask_room :: "nat \<Rightarrow> room_cmd \<Rightarrow> ('x, room_reply) wsm" where
  "ask_room r cmd = offer r cmd (if unguarded cmd then raise Hangs else ret (when_gone cmd))"

lemmas loop_defs = ask_room_def offer_def on_room_def eff_defs

lemma room_methods:
  "andThen (ask_room r (joinCmd c)) (\<lambda>_. ret ()) = RoomJoin r c"
  "andThen (ask_room r (leaveCmd c)) (\<lambda>_. ret ()) = RoomLeave r c"
  "andThen (ask_room r (broadcastCmd p now)) (\<lambda>_. ret ()) = RoomBroadcast now r p"
  "ask_room r membersCmd = andThen (RoomMembers r) (\<lambda>ms. ret (MembersAre ms))"
  "ask_room r countCmd = andThen (RoomCount r) (\<lambda>n. ret (CountIs n))"
  "ask_room r closeCmd = andThen (RoomClose r) (\<lambda>b. ret (MayClose b))"
  "andThen (ask_room r shutdownCmd) (\<lambda>_. ret ()) = RoomShutdown r"
  by (rule ext; auto simp: loop_defs RoomJoin_def RoomLeave_def RoomBroadcast_def RoomMembers_def RoomCount_def
      RoomClose_def RoomShutdown_def membersOf_def split: prod.splits sum.splits)+

text \<open>A live room's loop serves its commands as the methods would, one after the other.\<close>

fun ask_rooms :: "nat \<Rightarrow> room_cmd list \<Rightarrow> ('x, room_reply list) wsm" where
  "ask_rooms r [] = ret []"
| "ask_rooms r (cmd # cmds) = andThen (ask_room r cmd) (\<lambda>q. andThen (ask_rooms r cmds) (\<lambda>qs. ret (q # qs)))"

definition steady :: "('x, 'a) wsm \<Rightarrow> bool" where
  "steady m \<longleftrightarrow> (\<forall>w. map RoomDone (rooms (snd (m w))) = map RoomDone (rooms w))"

lemma upd_room_done: "RoomDone (f (rooms w ! r)) = RoomDone (rooms w ! r) \<Longrightarrow> map RoomDone (rooms (upd_room r f w)) = map RoomDone (rooms w)"
  by (cases "r < length (rooms w)") (simp_all add: upd_room_def map_update list_update_same_conv list_update_beyond)

lemma steady_intros:
  "steady (ret a)" "steady (raise e)" "steady (asks h)" "steady (exec (upd_client c g))"
  "(\<And>w. rooms (j w) = rooms w) \<Longrightarrow> steady (exec j)"
  "(\<And>x. RoomDone (f x) = RoomDone x) \<Longrightarrow> steady (exec (upd_room r f))"
  by (auto simp: steady_def eff_defs upd_client_def upd_room_done)

lemma steady_andThen: "steady m \<Longrightarrow> (\<And>a. steady (k a)) \<Longrightarrow> steady (andThen m k)"
  unfolding steady_def andThen_def by (auto split: prod.splits sum.splits) (metis snd_conv)+

lemma steady_close_send: "steady (close_send c)"
  unfolding close_send_def by (auto intro!: steady_intros steady_andThen)

lemma steady_try_send: "steady (try_send c out)"
  unfolding try_send_def by (auto intro!: steady_intros steady_andThen)

lemma steady_remove: "steady (removeAndNotify r c)"
  unfolding removeAndNotify_def by (auto intro!: steady_intros steady_andThen steady_close_send)

lemma steady_deliver: "steady (deliver_to cs out)"
  by (induction cs) (auto intro!: steady_intros steady_andThen steady_try_send)

lemma steady_evict: "steady (evict r cs)"
  by (induction cs) (auto intro!: steady_intros steady_andThen steady_remove)

lemma steady_close_all: "steady (close_all cs)"
  by (induction cs) (auto intro!: steady_intros steady_andThen steady_close_send)

lemma steadyD: "steady m \<Longrightarrow> m w = (q, w') \<Longrightarrow> r < length (rooms w) \<Longrightarrow>
    r < length (rooms w') \<and> RoomDone (rooms w' ! r) = RoomDone (rooms w ! r)"
  unfolding steady_def by (metis length_map nth_map snd_conv)

lemma room_case_returns:
  assumes "room_case r cmd w = (Inr q, w')" "r < length (rooms w)" "\<not> RoomDone (rooms w ! r)"
  shows "r < length (rooms w') \<and> RoomDone (rooms w' ! r) = returns_after q"
proof (cases "cmd = closeCmd \<or> cmd = shutdownCmd")
  case False
  then have "steady (room_case r cmd)"
    by (cases cmd) (auto intro!: steady_intros steady_andThen steady_remove steady_deliver steady_evict simp: membersOf_def)
  moreover have "\<not> returns_after q"
    using assms(1) False by (cases cmd) (auto simp: returns_after_def eff_defs membersOf_def split: prod.splits sum.splits)
  ultimately show ?thesis using steadyD assms by blast
next
  case True
  then show ?thesis
  proof
    assume "cmd = closeCmd"
    with assms show ?thesis by (auto simp: returns_after_def eff_defs upd_room_def split: if_splits)
  next
    assume c: "cmd = shutdownCmd"
    obtain z v where v: "close_all (Present (rooms w ! r)) w = (z, v)" by (meson surj_pair)
    then have "r < length (rooms v)" using steadyD [OF steady_close_all v assms(2)] by simp
    with c assms(1) v show ?thesis by (cases z) (auto simp: returns_after_def eff_simps upd_room_def)
  qed
qed

lemma ask_live: "\<not> RoomDone (rooms w ! r) \<Longrightarrow> ask_room r cmd w = room_case r cmd w"
  by (simp add: ask_room_def offer_def eff_simps)

lemma room_loop_methods:
  "room_loop r cmds w = (Inr qs, w') \<Longrightarrow> r < length (rooms w) \<Longrightarrow> \<not> RoomDone (rooms w ! r) \<Longrightarrow>
    \<exists>served rest. cmds = served @ rest \<and> ask_rooms r served w = (Inr qs, w') \<and> (rest = [] \<or> RoomDone (rooms w' ! r))"
proof (induction cmds arbitrary: w qs)
  case Nil
  then show ?case by (simp add: eff_simps)
next
  case (Cons cmd cmds)
  from Cons.prems(1) obtain q v where v: "room_case r cmd w = (Inr q, v)"
    "(if returns_after q then ret [q] else andThen (room_loop r cmds) (\<lambda>qs. ret (q # qs))) v = (Inr qs, w')"
    by (auto elim: andThen_InrE)
  note live = room_case_returns [OF v(1) Cons.prems(2,3)]
  show ?case
  proof (cases "returns_after q")
    case True
    with v live ask_live [OF Cons.prems(3)] show ?thesis
      by (intro exI [of _ "[cmd]"] exI [of _ cmds]) (auto simp: eff_simps)
  next
    case False
    with v(2) obtain ps where ps: "room_loop r cmds v = (Inr ps, w')" "qs = q # ps"
      by (auto elim!: andThen_InrE simp: eff_simps)
    from Cons.IH [OF ps(1)] live False obtain served rest where "cmds = served @ rest"
      "ask_rooms r served v = (Inr ps, w')" "rest = [] \<or> RoomDone (rooms w' ! r)" by blast
    with v(1) ps(2) ask_live [OF Cons.prems(3)] show ?thesis
      by (intro exI [of _ "cmd # served"] exI [of _ rest]) (simp add: eff_simps)
  qed
qed

section \<open>The hub\<close>

datatype hub_cmd = hubJoinCmd string nat | hubRoomCountCmd | hubShutdownCmd | hubBroadcastCmd string string int | hubNamesCmd string
  | emptyRoom string

datatype hub_reply = HubNothing | RoomIs nat | RoomsAre nat | AllDown | NamesAre "string \<rightharpoonup> string"

text \<open>The two cases of its \<open>select\<close>: a command, or the name of a room that was empty.\<close>

fun hub_case :: "hub_cmd \<Rightarrow> ('x, hub_reply) wsm" where
  "hub_case (hubJoinCmd roomID c) =
     andThen (asks (\<lambda>w. map_of (registry w) roomID)) (\<lambda>known. case known of
       Some r \<Rightarrow> andThen (ask_room r (joinCmd c)) (\<lambda>_. ret (RoomIs r))
     | None \<Rightarrow> andThen (NewRoom roomID) (\<lambda>r.
         andThen (exec (\<lambda>w. w\<lparr>registry := (roomID, r) # registry w\<rparr>)) (\<lambda>_.
         andThen (ask_room r (joinCmd c)) (\<lambda>_. ret (RoomIs r)))))"
| "hub_case hubRoomCountCmd = asks (\<lambda>w. RoomsAre (length (registry w)))"
| "hub_case hubShutdownCmd =
     andThen (asks (\<lambda>w. map snd (registry w))) (\<lambda>rs.
     andThen (shutdown_all rs) (\<lambda>_.
     andThen (exec (\<lambda>w. w\<lparr>registry := []\<rparr>)) (\<lambda>_. ret AllDown)))"
| "hub_case (hubBroadcastCmd roomID payload now) =
     andThen (asks (\<lambda>w. map_of (registry w) roomID)) (\<lambda>known. case known of
       Some r \<Rightarrow> andThen (ask_room r (broadcastCmd payload now)) (\<lambda>_. ret HubNothing)
     | None \<Rightarrow> ret HubNothing)"
| "hub_case (hubNamesCmd roomID) =
     andThen (asks (\<lambda>w. map_of (registry w) roomID)) (\<lambda>known. case known of
       Some r \<Rightarrow> andThen (ask_room r membersCmd) (\<lambda>q.
         ret (NamesAre (case q of MembersAre ms \<Rightarrow> foldl (\<lambda>names m. names(IdUser m \<mapsto> IdName m)) Map.empty ms | _ \<Rightarrow> Map.empty)))
     | None \<Rightarrow> ret (NamesAre Map.empty))"
| "hub_case (emptyRoom roomID) =
     andThen (exec (\<lambda>w. w\<lparr>notices := remove1 roomID (notices w)\<rparr>)) (\<lambda>_.
     andThen (asks (\<lambda>w. map_of (registry w) roomID)) (\<lambda>known. case known of
       Some r \<Rightarrow> andThen (ask_room r closeCmd) (\<lambda>q.
         if q = MayClose True then andThen (exec (\<lambda>w. w\<lparr>registry := filter (\<lambda>p. fst p \<noteq> roomID) (registry w)\<rparr>)) (\<lambda>_. ret HubNothing)
         else ret HubNothing)
     | None \<Rightarrow> ret HubNothing))"

fun hub_loop :: "hub_cmd list \<Rightarrow> ('x, hub_reply list) wsm" where
  "hub_loop [] = ret []"
| "hub_loop (cmd # cmds) = andThen (hub_case cmd) (\<lambda>q. andThen (hub_loop cmds) (\<lambda>qs. ret (q # qs)))"

text \<open>The methods of the hub, which never look whether it runs, as it always does.\<close>

fun hub_method :: "hub_cmd \<Rightarrow> ('x, hub_reply) wsm" where
  "hub_method (hubJoinCmd roomID c) = andThen (HubJoin roomID c) (\<lambda>r. ret (RoomIs r))"
| "hub_method hubRoomCountCmd = andThen HubRoomCount (\<lambda>n. ret (RoomsAre n))"
| "hub_method hubShutdownCmd = andThen HubShutdown (\<lambda>_. ret AllDown)"
| "hub_method (hubBroadcastCmd roomID payload now) = andThen (HubBroadcast now roomID payload) (\<lambda>_. ret HubNothing)"
| "hub_method (hubNamesCmd roomID) = andThen (HubNames roomID) (\<lambda>names. ret (NamesAre names))"
| "hub_method (emptyRoom roomID) = andThen (HubReap roomID) (\<lambda>_. ret HubNothing)"

lemma andThen_assoc: "andThen (andThen m k) h = andThen m (\<lambda>x. andThen (k x) h)"
  by (rule ext) (auto simp: andThen_def split: prod.splits sum.splits)

lemma andThen_ret_left: "andThen (ret a) k = k a"
  by (rule ext) (simp add: eff_simps)

lemma hub_case_method: "hub_case cmd = hub_method cmd"
proof -
  have join: "andThen (ask_room r (joinCmd c)) k = andThen (RoomJoin r c) (\<lambda>_. k JoinDone)" for r c and k :: "room_reply \<Rightarrow> ('x, hub_reply) wsm"
    by (rule ext) (auto simp: loop_defs RoomJoin_def split: prod.splits sum.splits)
  have cast: "andThen (ask_room r (broadcastCmd p now)) (\<lambda>_. ret HubNothing) = andThen (RoomBroadcast now r p) (\<lambda>_. ret HubNothing)"
    for r p now
    unfolding room_methods(3) [symmetric] by (simp add: andThen_assoc andThen_ret_left)
  show ?thesis
    by (cases cmd; rule ext)
      (auto simp: HubJoin_def HubRoomCount_def HubShutdown_def HubBroadcast_def HubNames_def HubReap_def join cast
        room_methods eff_defs split: prod.splits sum.splits option.splits if_splits)
qed

fun hub_methods :: "hub_cmd list \<Rightarrow> ('x, hub_reply list) wsm" where
  "hub_methods [] = ret []"
| "hub_methods (cmd # cmds) = andThen (hub_method cmd) (\<lambda>q. andThen (hub_methods cmds) (\<lambda>qs. ret (q # qs)))"

lemma hub_loop_methods: "hub_loop cmds = hub_methods cmds"
  by (induction cmds) (simp_all add: hub_case_method)

section \<open>Property\<close>


text \<open>A client joins, hears a broadcast and leaves; the room closes, and a late command is not served.\<close>

definition demo_loop :: ws where
  "demo_loop = \<lparr>clients = [NewClient \<lparr>IdUser = ''b'', IdName = ''Bo'', IdGuest = False\<rparr> DefaultClientConfig],
     rooms = [\<lparr>RoomIdent = ''r1'', Present = [], RoomDone = False\<rparr>], registry = [(''r1'', 0)], notices = [], drop_count = 0,
     latencies = []\<rparr>"

definition demo_cmds :: "room_cmd list" where
  "demo_cmds = [joinCmd 0, broadcastCmd ''m'' 5, membersCmd, closeCmd, leaveCmd 0, closeCmd, countCmd]"


end
