(* ===== verification/WsRouter.thy ===== *)
theory WsRouter
  imports WsHub Events WagerService Auth
begin

text \<open>
  \<open>internal/ws\<close>: the messages of the socket (\<open>protocol.go\<close>), the router from messages to services
  (\<open>router.go\<close>), the read pump (\<open>client.go\<close>) and the handler that admits a connection
  (\<open>handler.go\<close>). The texts of errors and durations are a parameter, as are the services, the
  sessions and the upgrade of the connection.
\<close>

section \<open>Messages\<close>

text \<open>The data of an envelope is kept as the value its bytes denote.\<close>

record Envelope =
  EnvType :: string
  EnvData :: "json option"

record ConnectedEvent =
  ConnUser :: string
  ConnName :: string
  ConnRoom :: string
  ConnGuest :: bool
  ConnHost :: bool
  ConnBalance :: int

record PresenceEvent =
  PresUser :: string
  PresName :: string
  PresCount :: nat

record WagerAcceptedEvent =
  WaRound :: string
  WaOutcome :: int
  WaAmount :: int
  WaBalance :: int

record ErrorEvent =
  ErrCode :: string
  ErrMessage :: string

definition connected_json :: "ConnectedEvent \<Rightarrow> json" where
  "connected_json e = JObj [(''user_id'', JStr (ConnUser e)), (''display_name'', JStr (ConnName e)),
     (''room_id'', JStr (ConnRoom e)), (''guest'', JBool (ConnGuest e)), (''host'', JBool (ConnHost e)),
     (''balance'', JNum (itoa (ConnBalance e)))]"

definition presence_json :: "PresenceEvent \<Rightarrow> json" where
  "presence_json e = JObj [(''user_id'', JStr (PresUser e)), (''display_name'', JStr (PresName e)),
     (''player_count'', JNum (itoa (int (PresCount e))))]"

definition wager_accepted_json :: "WagerAcceptedEvent \<Rightarrow> json" where
  "wager_accepted_json e = JObj [(''round_id'', JStr (WaRound e)), (''outcome'', JNum (itoa (WaOutcome e))),
     (''amount'', JNum (itoa (WaAmount e))), (''balance'', JNum (itoa (WaBalance e)))]"

definition error_json :: "ErrorEvent \<Rightarrow> json" where
  "error_json e = JObj [(''code'', JStr (ErrCode e)), (''message'', JStr (ErrMessage e))]"

text \<open>\<open>mustEncode\<close> of one of these: encoding them cannot fail.\<close>

definition EncodeMessage :: "string \<Rightarrow> json \<Rightarrow> string" where
  "EncodeMessage msgType d = render (JObj [(''type'', JStr msgType), (''data'', d)])"

definition set_envelope :: "string \<Rightarrow> json \<Rightarrow> Envelope \<Rightarrow> Envelope option" where
  "set_envelope k v e = (case find_field [''type'', ''data''] k of
       None \<Rightarrow> Some e
     | Some f \<Rightarrow> if f = ''type'' then map_option (\<lambda>x. e\<lparr>EnvType := x\<rparr>) (into_string v (EnvType e))
         else Some (e\<lparr>EnvData := Some v\<rparr>))"

definition DecodeEnvelope :: "string \<Rightarrow> err + Envelope" where
  "DecodeEnvelope raw =
     (case Option.bind (parse raw) (\<lambda>v. if 10000 < depth v then None
        else into_struct set_envelope v \<lparr>EnvType = [], EnvData = None\<rparr>) of
        None \<Rightarrow> Inl (Ws ErrMalformed)
      | Some env \<Rightarrow> if EnvType env = [] then Inl (Ws ErrMissingType) else Inr env)"

section \<open>The router\<close>

text \<open>Outcomes decoded into a slice, with what its backing array holds beyond it.\<close>

record createRoundPayload =
  CrQuestion :: string
  CrOutcomes :: "string list"
  CrSpare :: "string list"
  CrLockIn :: int

record placeWagerPayload =
  PwOutcome :: int
  PwAmount :: int
  PwKey :: string

fun fill_strings :: "json list \<Rightarrow> string list \<Rightarrow> string list option" where
  "fill_strings [] slots = Some []"
| "fill_strings (v # vs) slots =
     Option.bind (into_string v (case slots of [] \<Rightarrow> [] | s # _ \<Rightarrow> s)) (\<lambda>s. map_option ((#) s) (fill_strings vs (tl slots)))"

definition set_create :: "string \<Rightarrow> json \<Rightarrow> createRoundPayload \<Rightarrow> createRoundPayload option" where
  "set_create k v p = (case find_field [''question'', ''outcomes'', ''lock_in_ms''] k of
       None \<Rightarrow> Some p
     | Some f \<Rightarrow>
        if f = ''question'' then map_option (\<lambda>x. p\<lparr>CrQuestion := x\<rparr>) (into_string v (CrQuestion p))
        else if f = ''outcomes'' then
          (case v of JNull \<Rightarrow> Some (p\<lparr>CrOutcomes := [], CrSpare := []\<rparr>)
           | JArr [] \<Rightarrow> Some (p\<lparr>CrOutcomes := [], CrSpare := []\<rparr>)
           | JArr vs \<Rightarrow> (let slots = CrOutcomes p @ CrSpare p
               in map_option (\<lambda>xs. p\<lparr>CrOutcomes := xs, CrSpare := drop (length vs) slots\<rparr>) (fill_strings vs slots))
           | _ \<Rightarrow> None)
        else map_option (\<lambda>x. p\<lparr>CrLockIn := x\<rparr>) (into_int v (CrLockIn p)))"

definition set_place :: "string \<Rightarrow> json \<Rightarrow> placeWagerPayload \<Rightarrow> placeWagerPayload option" where
  "set_place k v p = (case find_field [''outcome'', ''amount'', ''idempotency_key''] k of
       None \<Rightarrow> Some p
     | Some f \<Rightarrow>
        if f = ''outcome'' then map_option (\<lambda>x. p\<lparr>PwOutcome := x\<rparr>) (into_int v (PwOutcome p))
        else if f = ''amount'' then map_option (\<lambda>x. p\<lparr>PwAmount := x\<rparr>) (into_int v (PwAmount p))
        else map_option (\<lambda>x. p\<lparr>PwKey := x\<rparr>) (into_string v (PwKey p)))"

definition set_resolve :: "string \<Rightarrow> json \<Rightarrow> int \<Rightarrow> int option" where
  "set_resolve k v p = (case find_field [''winning_outcome''] k of None \<Rightarrow> Some p | Some _ \<Rightarrow> into_int v p)"

text \<open>Missing data is an error.\<close>

definition unmarshal_data :: "(string \<Rightarrow> json \<Rightarrow> 'a \<Rightarrow> 'a option) \<Rightarrow> 'a \<Rightarrow> Envelope \<Rightarrow> 'a option" where
  "unmarshal_data f zero env = Option.bind (EnvData env) (\<lambda>v. into_struct f v zero)"

record 'w services =
  OpenRound :: "string \<Rightarrow> string \<Rightarrow> Spec \<Rightarrow> ('w, err, Opened) eff"
  ResolveRound :: "string \<Rightarrow> string \<Rightarrow> int \<Rightarrow> ('w, err, settlement) eff"
  PlaceBet :: "Request \<Rightarrow> ('w, err, Accepted) eff"

record texts =
  ErrorText :: "err \<Rightarrow> string"
  DurationText :: "int \<Rightarrow> string"

definition replyError :: "int \<Rightarrow> nat \<Rightarrow> string \<Rightarrow> string \<Rightarrow> ('x, unit) wsm" where
  "replyError now c code msg = Send now c (EncodeMessage ''error'' (error_json \<lparr>ErrCode = code, ErrMessage = msg\<rparr>))"

text \<open>The stable code of a service error, \<open>None\<close> for one the table does not list.\<close>

fun service_code :: "err \<Rightarrow> string option" where
  "service_code (Store ErrHostCannotBet) = Some ''host_cannot_bet''"
| "service_code (Store ErrPoolLocked) = Some ''pool_locked''"
| "service_code (Store ErrNotInRoom) = Some ''not_in_room''"
| "service_code (Domain ErrInsufficientFunds) = Some ''insufficient_funds''"
| "service_code (Domain ErrInvalidOutcome) = Some ''invalid_outcome''"
| "service_code (Round ErrNotHost) = Some ''not_host''"
| "service_code (Round ErrInvalidSpec) = Some ''invalid_spec''"
| "service_code (Round ErrRoundInProgress) = Some ''round_in_progress''"
| "service_code (Wager WagerNoActiveRound) = Some ''no_active_round''"
| "service_code (Wager ErrBadIdempotency) = Some ''bad_idempotency_key''"
| "service_code (Wager (RateLimitError d)) = Some ''rate_limited''"
| "service_code _ = None"

definition service_text :: "texts \<Rightarrow> err \<Rightarrow> string" where
  "service_text T e = (case e of
       Wager (RateLimitError d) \<Rightarrow> ErrorText T e @ '' (retry after '' @ DurationText T d @ '')''
     | _ \<Rightarrow> ErrorText T e)"

definition replyServiceError :: "texts \<Rightarrow> int \<Rightarrow> nat \<Rightarrow> err \<Rightarrow> ('x, unit) wsm" where
  "replyServiceError T now c e = (case service_code e of
       Some code \<Rightarrow> replyError now c code (service_text T e)
     | None \<Rightarrow> replyError now c ''internal_error'' ''an internal error occurred'')"

text \<open>A panic of a service unwinds the handler too.\<close>

definition reply_failure :: "texts \<Rightarrow> int \<Rightarrow> nat \<Rightarrow> err \<Rightarrow> ('x, unit) wsm" where
  "reply_failure T now c e = (if e = Panic \<or> e = Hangs then raise e else replyServiceError T now c e)"

definition Handle :: "'x ws_scheme services \<Rightarrow> texts \<Rightarrow> int \<Rightarrow> nat \<Rightarrow> Envelope \<Rightarrow> ('x, unit) wsm" where
  "Handle S T now c env = andThen (asks (\<lambda>w. clients w ! c)) (\<lambda>cl.
     if EnvType env = ''create_round'' then
       (case unmarshal_data set_create \<lparr>CrQuestion = [], CrOutcomes = [], CrSpare = [], CrLockIn = 0\<rparr> env of
          None \<Rightarrow> replyError now c ''malformed'' ''malformed create_round payload''
        | Some p \<Rightarrow>
          attempt (OpenRound S (ClientRoom cl) (IdUser (ClientIdent cl))
              \<lparr>SpecQuestion = CrQuestion p, SpecOutcomes = CrOutcomes p, LockIn = i64 (CrLockIn p * 10 ^ 6)\<rparr>)
            (\<lambda>r. case r of Inl e \<Rightarrow> reply_failure T now c e | Inr _ \<Rightarrow> ret ()))
     else if EnvType env = ''place_wager'' then
       (case unmarshal_data set_place \<lparr>PwOutcome = 0, PwAmount = 0, PwKey = []\<rparr> env of
          None \<Rightarrow> replyError now c ''malformed'' ''malformed place_wager payload''
        | Some p \<Rightarrow>
          attempt (PlaceBet S \<lparr>RqRoom = ClientRoom cl, RqRound = [], RqUser = IdUser (ClientIdent cl),
              RqOutcome = PwOutcome p, RqAmount = PwAmount p, RqKey = PwKey p\<rparr>)
            (\<lambda>r. case r of Inl e \<Rightarrow> reply_failure T now c e
             | Inr accepted \<Rightarrow> Send now c (EncodeMessage ''wager_accepted'' (wager_accepted_json
                 \<lparr>WaRound = AccRound accepted, WaOutcome = PwOutcome p, WaAmount = PwAmount p,
                  WaBalance = AccBalance accepted\<rparr>))))
     else if EnvType env = ''resolve_round'' then
       (case unmarshal_data set_resolve 0 env of
          None \<Rightarrow> replyError now c ''malformed'' ''malformed resolve_round payload''
        | Some win \<Rightarrow>
          attempt (ResolveRound S (ClientRoom cl) (IdUser (ClientIdent cl)) win)
            (\<lambda>r. case r of Inl e \<Rightarrow> reply_failure T now c e | Inr _ \<Rightarrow> ret ()))
     else replyError now c ''unknown_type'' (''unsupported message type: '' @ EnvType env))"

section \<open>The read pump\<close>

text \<open>The messages the connection yields until a read fails; then the connection is closed.\<close>

definition read_message :: "texts \<Rightarrow> int \<Rightarrow> (nat \<Rightarrow> Envelope \<Rightarrow> ('x, unit) wsm) option \<Rightarrow> nat \<Rightarrow> string \<Rightarrow> ('x, unit) wsm" where
  "read_message T now handle c raw = (case DecodeEnvelope raw of
       Inl e \<Rightarrow> replyError now c ''malformed'' (ErrorText T e)
     | Inr env \<Rightarrow> (case handle of
         None \<Rightarrow> replyError now c ''unknown_type'' (''unsupported message type: '' @ EnvType env)
       | Some h \<Rightarrow> h c env))"

fun ReadPump :: "texts \<Rightarrow> int \<Rightarrow> (nat \<Rightarrow> Envelope \<Rightarrow> ('x, unit) wsm) option \<Rightarrow> ('x, unit) wsm \<Rightarrow> nat \<Rightarrow> string list \<Rightarrow>
    ('x, unit) wsm" where
  "ReadPump T now handle onClose c [] = andThen (close_conn c) (\<lambda>_. onClose)"
| "ReadPump T now handle onClose c (raw # raws) =
     andThen (read_message T now handle c raw) (\<lambda>_. ReadPump T now handle onClose c raws)"

section \<open>The handler\<close>

text \<open>What it reads of the request: the Authorization and Origin headers and the token parameter.\<close>

record upgrade_request =
  AuthHeader :: string
  OriginHeader :: string
  TokenParam :: string

definition ExtractToken :: "upgrade_request \<Rightarrow> string" where
  "ExtractToken rq = (if AuthHeader rq \<noteq> [] \<and> is_prefix ''Bearer '' (AuthHeader rq)
     then drop 7 (AuthHeader rq) else TokenParam rq)"

text \<open>\<open>None\<close> leaves the check to the library.\<close>

definition check_origin :: "string list option \<Rightarrow> (upgrade_request \<Rightarrow> bool) \<Rightarrow> upgrade_request \<Rightarrow> bool" where
  "check_origin allowed same_origin rq = (case allowed of None \<Rightarrow> same_origin rq
     | Some origins \<Rightarrow> OriginHeader rq = [] \<or> OriginHeader rq \<in> set origins)"

record 'w sessions =
  ResumeOf :: "string \<Rightarrow> string \<Rightarrow> ('w, err, unit) eff"
  ScheduleEnd :: "string \<Rightarrow> string \<Rightarrow> bool \<Rightarrow> ('w, err, unit) eff"
  BalanceOf :: "string \<Rightarrow> string \<Rightarrow> ('w, err, int) eff"

datatype admission = Refused int string | NotUpgraded | Admitted nat nat

fun announce_others :: "int \<Rightarrow> nat \<Rightarrow> nat \<Rightarrow> string \<Rightarrow> Identity list \<Rightarrow> ('x, unit) wsm" where
  "announce_others now r c me [] = ret ()"
| "announce_others now r c me (m # ms) =
     (if IdUser m = me then announce_others now r c me ms
      else andThen (RoomCount r) (\<lambda>n.
        andThen (Send now c (EncodeMessage ''player_joined'' (presence_json
          \<lparr>PresUser = IdUser m, PresName = IdName m, PresCount = n\<rparr>))) (\<lambda>_.
        announce_others now r c me ms)))"

definition presence :: "int \<Rightarrow> nat \<Rightarrow> string \<Rightarrow> Claims \<Rightarrow> ('x, unit) wsm" where
  "presence now r msgType claims = andThen (RoomCount r) (\<lambda>n.
     RoomBroadcast now r (EncodeMessage msgType (presence_json
       \<lparr>PresUser = ClaimUser claims, PresName = ClaimName claims, PresCount = n\<rparr>)))"

definition admit :: "'x ws_scheme sessions option \<Rightarrow> ClientConfig \<Rightarrow> int \<Rightarrow> Claims \<Rightarrow> ('x, admission) wsm" where
  "admit sessions cfg now claims =
     andThen (case sessions of None \<Rightarrow> ret () | Some s \<Rightarrow> ResumeOf s (ClaimRoom claims) (ClaimUser claims)) (\<lambda>_.
     andThen (connect \<lparr>IdUser = ClaimUser claims, IdName = ClaimName claims, IdGuest = ClaimGuest claims\<rparr>
       (ClaimRoom claims) cfg) (\<lambda>(c, r).
     andThen (case sessions of None \<Rightarrow> ret 0
       | Some s \<Rightarrow> attempt (BalanceOf s (ClaimRoom claims) (ClaimUser claims)) (\<lambda>b. case b of
           Inl e \<Rightarrow> if e = Panic then raise e else ret 0
         | Inr n \<Rightarrow> ret n)) (\<lambda>balance.
     andThen (Send now c (EncodeMessage ''connected'' (connected_json \<lparr>ConnUser = ClaimUser claims,
       ConnName = ClaimName claims, ConnRoom = ClaimRoom claims, ConnGuest = ClaimGuest claims,
       ConnHost = ClaimHost claims, ConnBalance = balance\<rparr>))) (\<lambda>_.
     andThen (RoomMembers r) (\<lambda>ms.
     andThen (announce_others now r c (ClaimUser claims) ms) (\<lambda>_.
     andThen (presence now r ''player_joined'' claims) (\<lambda>_.
     ret (Admitted c r))))))))"

text \<open>\<open>upgraded\<close> says whether the upgrade succeeds once the origin has been accepted.\<close>

definition Handler :: "jwt \<Rightarrow> Issuer \<Rightarrow> string list option \<Rightarrow> (upgrade_request \<Rightarrow> bool) \<Rightarrow> (upgrade_request \<Rightarrow> bool) \<Rightarrow>
    'x ws_scheme sessions option \<Rightarrow> ClientConfig \<Rightarrow> int \<Rightarrow> upgrade_request \<Rightarrow> ('x, admission) wsm" where
  "Handler J issuer allowed same_origin upgraded sessions cfg now rq =
     (let token = ExtractToken rq in
      if token = [] then ret (Refused 401 ''unauthorized'')
      else case Verify J issuer now token of
        Inl _ \<Rightarrow> ret (Refused 401 ''unauthorized'')
      | Inr claims \<Rightarrow>
          if ClaimRoom claims = [] then ret (Refused 403 ''token is not scoped to a room'')
          else if \<not> check_origin allowed same_origin rq \<or> \<not> upgraded rq then ret NotUpgraded
          else admit sessions cfg now claims)"

text \<open>What the read pump runs when it returns.\<close>

definition on_close :: "'x ws_scheme sessions option \<Rightarrow> int \<Rightarrow> Claims \<Rightarrow> nat \<Rightarrow> nat \<Rightarrow> ('x, unit) wsm" where
  "on_close sessions now claims c r =
     andThen (RoomLeave r c) (\<lambda>_.
     andThen (presence now r ''player_left'' claims) (\<lambda>_.
     case sessions of None \<Rightarrow> ret () | Some s \<Rightarrow> ScheduleEnd s (ClaimRoom claims) (ClaimUser claims) (ClaimGuest claims)))"

end
