(* ===== verification/Socket.thy ===== *)
theory Socket
  imports WsRouter
begin

text \<open>
  The server assembled: the router's services over the store, their broadcasters being the hub
  (\<open>round.NewService\<close>, \<open>wager.NewService\<close> and \<open>NewMux\<close> in \<open>cmd/api/main.go\<close>). The state is the hub's,
  extended with the state of a service; \<open>wire\<close> is the text of an announcement.
\<close>

fun broadcast_all :: "(envelope \<Rightarrow> string) \<Rightarrow> int \<Rightarrow> (string \<times> envelope) list \<Rightarrow> ('x, unit) wsm" where
  "broadcast_all wire now [] = ret ()"
| "broadcast_all wire now ((roomID, e) # es) =
     andThen (HubBroadcast now roomID (wire e)) (\<lambda>_. broadcast_all wire now es)"

text \<open>A service method, with what it announces handed to the hub before it returns.\<close>

definition on_hub :: "(envelope \<Rightarrow> string) \<Rightarrow> int \<Rightarrow> ('s, 'x, 'a) svc \<Rightarrow> (('s, 'x) service_scheme, 'a) wsm" where
  "on_hub wire now m w = (case m (ws.more w) of (r, v) \<Rightarrow>
     andThen (broadcast_all wire now (drop (length (sent (ws.more w))) (sent v))) (\<lambda>_. lift_sum r)
       (ws.more_update (\<lambda>_. v) w))"

definition wired :: "(envelope \<Rightarrow> string) \<Rightarrow> int \<Rightarrow> (string \<Rightarrow> string \<Rightarrow> Spec \<Rightarrow> ('s, 'x, Opened) svc) \<Rightarrow>
    (string \<Rightarrow> string \<Rightarrow> int \<Rightarrow> ('s, 'x, settlement) svc) \<Rightarrow> (Request \<Rightarrow> ('s, 'x, Accepted) svc) \<Rightarrow>
    (('s, 'x) service_scheme) ws_scheme services" where
  "wired wire now opens resolves places = \<lparr>OpenRound = (\<lambda>room host spec. on_hub wire now (opens room host spec)),
     ResolveRound = (\<lambda>room caller i. on_hub wire now (resolves room caller i)),
     PlaceBet = (\<lambda>rq. on_hub wire now (places rq))\<rparr>"

end
