(* ===== verification/SocketSpec.thy ===== *)
theory SocketSpec
  imports Socket PlaceSpec WsSpec
begin

text \<open>
  A wager over the socket, from the message of a client to the replies and announcements of the
  assembled server, and what happens to a client that has stopped reading.
\<close>

section \<open>The hub leaves the services' state alone\<close>

definition apart :: "('x, 'a) wsm \<Rightarrow> bool" where
  "apart m \<longleftrightarrow> (\<forall>w. ws.more (snd (m w)) = ws.more w)"

lemma apart_intros:
  "apart (ret a)" "apart (raise e)" "apart (asks h)" "(\<And>w. ws.more (j w) = ws.more w) \<Longrightarrow> apart (exec j)"
  by (simp_all add: apart_def eff_defs)

lemma apart_andThen: "apart m \<Longrightarrow> (\<And>a. apart (k a)) \<Longrightarrow> apart (andThen m k)"
  unfolding apart_def andThen_def by (auto split: prod.splits sum.splits) (metis snd_conv)+

lemma apart_upd: "ws.more (upd_client c f w) = ws.more w" "ws.more (upd_room r g w) = ws.more w"
  by (simp_all add: upd_client_def upd_room_def)

lemma apart_try_send: "apart (try_send c out)"
  unfolding try_send_def by (auto intro!: apart_intros apart_andThen simp: apart_upd)

lemma apart_deliver: "apart (deliver_to cs out)"
  by (induction cs) (auto intro!: apart_intros apart_andThen apart_try_send)

lemma apart_evict: "apart (evict r cs)"
  by (induction cs) (auto intro!: apart_intros apart_andThen simp: removeAndNotify_def close_send_def apart_upd)

lemma apart_HubBroadcast: "apart (HubBroadcast now rid payload)"
  by (auto intro!: apart_intros apart_andThen apart_deliver apart_evict
      simp: HubBroadcast_def RoomBroadcast_def on_room_def split: option.split)

lemma ws_ok_more: "ws_ok (ws.more_update f w) = ws_ok w"
  unfolding ws_ok_def by (simp add: ws_inv_cong [of "ws.more_update f w" w])

section \<open>One announcement and a reply\<close>

definition hears :: "string \<Rightarrow> client \<Rightarrow> bool" where
  "hears rid x \<longleftrightarrow> SendOpen x \<and> ClientRoom x = rid"

lemma announce_then:
  assumes ok: "ws_ok w" and run: "m (ws.more w) = (Inr a, v)" "sent v = sent (ws.more w) @ [(rid, e)]"
  shows "\<exists>w'. on_hub wire now m w = (Inr a, w') \<and> ws_ok w' \<and> ws.more w' = v \<and> length (clients w') = length (clients w)
    \<and> (\<forall>c < length (clients w). clients w' ! c = (if hears rid (clients w ! c)
        then broadcast_to \<lparr>OutPayload = wire e, OutEnqueued = now\<rparr> (clients w ! c) else clients w ! c))"
proof -
  let ?w = "ws.more_update (\<lambda>_. v) w"
  have "ws_ok ?w" using ok by (simp add: ws_ok_more)
  from HubBroadcast_ok [OF this, of now rid "wire e"] obtain w' where w': "HubBroadcast now rid (wire e) ?w = (Inr (), w')"
    "ws_ok w'" "length (clients w') = length (clients w)"
    "\<forall>c < length (clients w). clients w' ! c = (if hears rid (clients w ! c)
        then broadcast_to \<lparr>OutPayload = wire e, OutEnqueued = now\<rparr> (clients w ! c) else clients w ! c)"
    by (auto simp: hears_def)
  moreover have "ws.more w' = v"
    using apart_HubBroadcast [of now rid "wire e"] w'(1) unfolding apart_def by (metis snd_conv ws.select_convs(7) ws.update_convs(7) ws.surjective)
  moreover have "on_hub wire now m w = (Inr a, w')" using run w'(1) by (simp add: on_hub_def eff_simps)
  ultimately show ?thesis by blast
qed

lemma Send_to:
  assumes "ws_ok w" "c < length (clients w)"
  shows "Send now c p w = (if SendOpen (clients w ! c)
      then (Inr (), w\<lparr>clients := (clients w)[c := served \<lparr>OutPayload = p, OutEnqueued = now\<rparr> (clients w ! c)]\<rparr>) else (Inl Panic, w))"
proof (cases "SendOpen (clients w ! c)")
  case True
  note s = try_send_ok(1) [OF assms(1) [unfolded ws_ok_def] assms(2) True, of "\<lparr>OutPayload = p, OutEnqueued = now\<rparr>"]
  show ?thesis using True assms(2) by (simp add: Send_def eff_defs s served_def upd_client_def)
next
  case False
  then show ?thesis by (simp add: Send_def try_send_def eff_defs)
qed

section \<open>A wager\<close>

text \<open>The request the router makes of a message, and the texts of the announcement and of the reply.\<close>

definition socket_bet :: "client \<Rightarrow> placeWagerPayload \<Rightarrow> Request" where
  "socket_bet cl p = \<lparr>RqRoom = ClientRoom cl, RqRound = [], RqUser = IdUser (ClientIdent cl), RqOutcome = PwOutcome p,
     RqAmount = PwAmount p, RqKey = PwKey p\<rparr>"

definition odds_text :: "(envelope \<Rightarrow> string) \<Rightarrow> Accepted \<Rightarrow> string" where
  "odds_text wire acc = wire \<lparr>MsgType = ''odds_updated'', MsgData = OddsMsg (odds_of acc)\<rparr>"

definition accepted_text :: "placeWagerPayload \<Rightarrow> Accepted \<Rightarrow> string" where
  "accepted_text p acc = EncodeMessage ''wager_accepted'' (wager_accepted_json
     \<lparr>WaRound = AccRound acc, WaOutcome = PwOutcome p, WaAmount = PwAmount p, WaBalance = AccBalance acc\<rparr>)"

definition after_bet :: "int \<Rightarrow> string \<Rightarrow> string \<Rightarrow> nat \<Rightarrow> client list \<Rightarrow> nat \<Rightarrow> client" where
  "after_bet now odds reply c cls d =
     (let heard = (if hears (ClientRoom (cls ! c)) (cls ! d)
          then broadcast_to \<lparr>OutPayload = odds, OutEnqueued = now\<rparr> (cls ! d) else cls ! d)
      in if d = c \<and> \<not> full (cls ! c) then served \<lparr>OutPayload = reply, OutEnqueued = now\<rparr> heard else heard)"

lemma Handle_bet:
  assumes "EnvType env = ''place_wager''" "unmarshal_data set_place \<lparr>PwOutcome = 0, PwAmount = 0, PwKey = []\<rparr> env = Some p"
    and "PlaceBet S (socket_bet (clients w ! c) p) w = (Inr acc, w1)"
  shows "Handle S T now c env w = Send now c (accepted_text p acc) w1"
  using assms by (simp add: Handle_def eff_simps socket_bet_def accepted_text_def)

lemma bet_replies:
  assumes ok: "ws_ok w" "c < length (clients w)" "SendOpen (clients w ! c)"
    and env: "EnvType env = ''place_wager''" "unmarshal_data set_place \<lparr>PwOutcome = 0, PwAmount = 0, PwKey = []\<rparr> env = Some p"
    and run: "places (socket_bet (clients w ! c) p) (ws.more w) = (Inr acc, v)"
      "sent v = sent (ws.more w) @ [(ClientRoom (clients w ! c), \<lparr>MsgType = ''odds_updated'', MsgData = OddsMsg (odds_of acc)\<rparr>)]"
  shows "\<exists>w'. Handle (wired wire now opens resolves places) T now c env w
      = (if full (clients w ! c) then Inl Panic else Inr (), w') \<and> ws.more w' = v \<and> length (clients w') = length (clients w)
    \<and> (\<forall>d < length (clients w). clients w' ! d = after_bet now (odds_text wire acc) (accepted_text p acc) c (clients w) d)"
proof -
  let ?odds = "\<lparr>OutPayload = odds_text wire acc, OutEnqueued = now\<rparr>" and ?S = "wired wire now opens resolves places"
  let ?heard = "\<lambda>d. if hears (ClientRoom (clients w ! c)) (clients w ! d) then broadcast_to ?odds (clients w ! d) else clients w ! d"
  from announce_then [where wire = wire and now = now and m = "places (socket_bet (clients w ! c) p)", OF ok(1) run] obtain w1 where w1:
    "PlaceBet ?S (socket_bet (clients w ! c) p) w = (Inr acc, w1)" "ws_ok w1" "ws.more w1 = v" "length (clients w1) = length (clients w)"
    "\<forall>d < length (clients w). clients w1 ! d = ?heard d"
    by (auto simp: wired_def odds_text_def)
  note handled = Handle_bet [OF env w1(1), of T now]
  have me: "clients w1 ! c = broadcast_to ?odds (clients w ! c)" "SendOpen (clients w1 ! c) = (\<not> full (clients w ! c))"
    using w1(5) ok(2,3) by (simp_all add: hears_def broadcast_to_def)
  note sent = Send_to [OF w1(2), of c now "accepted_text p acc"]
  show ?thesis
  proof (cases "full (clients w ! c)")
    case True
    with handled sent me(2) ok(2) w1 show ?thesis by (intro exI [of _ w1]) (simp add: after_bet_def)
  next
    case False
    with handled sent me(2) ok(2) w1 show ?thesis
      by (intro exI [of _ "w1\<lparr>clients := (clients w1)[c := served \<lparr>OutPayload = accepted_text p acc, OutEnqueued = now\<rparr> (clients w1 ! c)]\<rparr>"])
        (auto simp: after_bet_def nth_list_update)
  qed
qed

section \<open>Property\<close>


text \<open>The demonstration's player \<open>b\<close> bets 400 over a socket, with a buffer of two messages and of none.\<close>

definition demo_socket :: "nat \<Rightarrow> (mem service) ws_scheme" where
  "demo_socket cap = \<lparr>clients = [(NewClient \<lparr>IdUser = ''b'', IdName = ''Bo'', IdGuest = False\<rparr>
       (DefaultClientConfig\<lparr>SendBuffer := cap\<rparr>))\<lparr>ClientRoom := ''r1''\<rparr>],
     rooms = [\<lparr>RoomIdent = ''r1'', Present = [0], RoomDone = False\<rparr>], registry = [(''r1'', 0)], notices = [], drop_count = 0,
     latencies = [], \<dots> = demo_service demo\<rparr>"

definition demo_message :: Envelope where
  "demo_message = \<lparr>EnvType = ''place_wager'', EnvData = Some (JObj [(''outcome'', JNum ''1''), (''amount'', JNum ''400''),
     (''idempotency_key'', JStr ''k1'')])\<rparr>"

definition demo_payload :: placeWagerPayload where
  "demo_payload = \<lparr>PwOutcome = 1, PwAmount = 400, PwKey = ''k1''\<rparr>"

lemma demo_socket_sel:
  "ws.more (demo_socket cap) = demo_service demo" "length (clients (demo_socket cap)) = 1"
  "SendOpen (clients (demo_socket cap) ! 0)" "full (clients (demo_socket cap) ! 0) = (cap = 0)"
  "socket_bet (clients (demo_socket cap) ! 0) demo_payload = demo_bet"
  by (simp_all add: demo_socket_def NewClient_def full_def socket_bet_def demo_payload_def demo_bet_def)

lemma demo_socket_ok: "ws_ok (demo_socket cap)"
  by (simp add: ws_ok_def ws_inv_def room_ok_def client_ok_def demo_socket_def NewClient_def)

lemma demo_message_sel: "EnvType demo_message = ''place_wager''" "PwAmount demo_payload = 400"
  by (simp_all add: demo_message_def demo_payload_def)

lemma demo_message_read:
  "unmarshal_data set_place \<lparr>PwOutcome = 0, PwAmount = 0, PwKey = []\<rparr> demo_message = Some demo_payload"
proof -
  have "ParseInt ''1'' = Some 1" "ParseInt ''400'' = Some 400" by code_simp+
  then show ?thesis
    by (simp add: unmarshal_data_def demo_message_def demo_payload_def into_struct_def set_place_def find_field_def into_int_def
        into_string_def)
qed

abbreviation demo_wired :: "(mem service) ws_scheme services" where
  "demo_wired \<equiv> wired (\<lambda>_. ''odds'') 5 (\<lambda>_ _ _. raise Library) (\<lambda>_ _ _. raise Library)
     (Place (\<lambda>_. Some 4) mem_redis OutboxStream ''m'' ''m2'' True True 7)"


end
