(* ===== verification/HttpApi.thy ===== *)
theory HttpApi
  imports RoomService AccountService WsRouter
begin

text \<open>
  \<open>internal/httpapi\<close>: the envelopes of responses and the table of errors (\<open>respond.go\<close>), the
  middleware (\<open>middleware.go\<close>, \<open>cors.go\<close>), the handlers of the REST routes and the throttle of the
  socket. A handler runs in the world of the Redis methods and gives a response. The services it
  calls are fields of \<open>deps\<close>, bound to what is fresh in the request; \<open>net/netip\<close> and the texts of
  errors and instants are parameters. Header names are in their canonical form.
\<close>

section \<open>Requests and responses\<close>

record http_request =
  Method :: string
  HeaderValues :: "string \<Rightarrow> string list"
  RemoteAddr :: string
  QueryToken :: string
  PathCode :: string
  Body :: string

definition header_get :: "http_request \<Rightarrow> string \<Rightarrow> string" where
  "header_get rq k = (case HeaderValues rq k of [] \<Rightarrow> [] | v # _ \<Rightarrow> v)"

type_synonym headers = "(string \<times> string) list"

definition set_header :: "string \<Rightarrow> string \<Rightarrow> headers \<Rightarrow> headers" where
  "set_header k v hs = filter (\<lambda>h. fst h \<noteq> k) hs @ [(k, v)]"

record response =
  RespStatus :: int
  RespHeaders :: headers
  RespBody :: string

text \<open>
  What a handler knows of its call: the time, a fresh member for the limiter, the claims in the
  request's context and the headers set so far.
\<close>

record call_ctx =
  CtxNow :: int
  CtxMember :: string
  CtxClaims :: "Claims option"
  CtxHeaders :: headers

type_synonym ('s, 'x) handler = "call_ctx \<Rightarrow> http_request \<Rightarrow> ('s, 'x, response) go"

definition with_header :: "string \<Rightarrow> string \<Rightarrow> call_ctx \<Rightarrow> call_ctx" where
  "with_header k v c = c\<lparr>CtxHeaders := set_header k v (CtxHeaders c)\<rparr>"

section \<open>Envelopes and errors\<close>

definition write_json :: "call_ctx \<Rightarrow> int \<Rightarrow> json \<Rightarrow> response" where
  "write_json c status v = \<lparr>RespStatus = status,
     RespHeaders = set_header ''Content-Type'' ''application/json'' (CtxHeaders c), RespBody = render v @ [CHR 0x0A]\<rparr>"

definition WriteData :: "call_ctx \<Rightarrow> int \<Rightarrow> json \<Rightarrow> ('s, 'x, response) go" where
  "WriteData c status v = ret (write_json c status (JObj [(''data'', v)]))"

record APIError =
  ApiStatus :: int
  ApiCode :: string
  ApiMessage :: string

text \<open>\<open>QuotaError\<close> unwraps to the exhausted quota; the other sentinels are what they are.\<close>

fun errorTable :: "err \<Rightarrow> (int \<times> string) option" where
  "errorTable (Auth ErrInvalidEmail) = Some (400, ''validation_error'')"
| "errorTable (Auth ErrWeakPassword) = Some (400, ''validation_error'')"
| "errorTable (Auth ErrInvalidDisplayName) = Some (400, ''validation_error'')"
| "errorTable (Domain ErrInvalidBuyIn) = Some (400, ''validation_error'')"
| "errorTable (Auth ErrInvalidToken) = Some (401, ''unauthorized'')"
| "errorTable (Auth ErrTokenExpired) = Some (401, ''unauthorized'')"
| "errorTable (Account ErrInvalidCredentials) = Some (401, ''invalid_credentials'')"
| "errorTable (Store ErrNotFound) = Some (404, ''not_found'')"
| "errorTable (Account ErrEmailTaken) = Some (409, ''email_taken'')"
| "errorTable (Room ErrNotJoinable) = Some (409, ''room_not_joinable'')"
| "errorTable (Domain ErrRefillNotEligible) = Some (409, ''refill_not_eligible'')"
| "errorTable (Domain ErrRefillQuotaExhausted) = Some (429, ''refill_quota_exhausted'')"
| "errorTable (Account (QuotaError d)) = Some (429, ''refill_quota_exhausted'')"
| "errorTable _ = None"

definition apiErrorFor :: "(err \<Rightarrow> string) \<Rightarrow> err \<Rightarrow> APIError" where
  "apiErrorFor text e = (case errorTable e of
       Some (status, code) \<Rightarrow> \<lparr>ApiStatus = status, ApiCode = code, ApiMessage = text e\<rparr>
     | None \<Rightarrow> \<lparr>ApiStatus = 500, ApiCode = ''internal_error'', ApiMessage = ''an internal error occurred''\<rparr>)"

definition write_api :: "call_ctx \<Rightarrow> APIError \<Rightarrow> ('s, 'x, response) go" where
  "write_api c e = ret (write_json c (ApiStatus e)
     (JObj [(''error'', JObj [(''code'', JStr (ApiCode e)), (''message'', JStr (ApiMessage e))])]))"

text \<open>A panic is not an error value: it unwinds the handler.\<close>

definition WriteError :: "(err \<Rightarrow> string) \<Rightarrow> call_ctx \<Rightarrow> err \<Rightarrow> ('s, 'x, response) go" where
  "WriteError text c e = (if e = Panic \<or> e = Hangs then raise e else write_api c (apiErrorFor text e))"

section \<open>Authentication\<close>

text \<open>\<open>None\<close> when there is no Authorization header.\<close>

definition verifyBearer :: "jwt \<Rightarrow> Issuer \<Rightarrow> int \<Rightarrow> http_request \<Rightarrow> (err + Claims) option" where
  "verifyBearer J issuer now rq = (let hdr = header_get rq ''Authorization'' in
     if hdr = [] then None
     else if \<not> is_prefix ''Bearer '' hdr then Some (Inl (Auth ErrInvalidToken))
     else Some (Verify J issuer now (drop 7 hdr)))"

definition RequireAuth :: "(err \<Rightarrow> string) \<Rightarrow> jwt \<Rightarrow> Issuer \<Rightarrow> ('s, 'x) handler \<Rightarrow> ('s, 'x) handler" where
  "RequireAuth text J issuer next_handler c rq = (case verifyBearer J issuer (CtxNow c) rq of
       None \<Rightarrow> WriteError text c (Auth ErrInvalidToken)
     | Some (Inl e) \<Rightarrow> WriteError text c e
     | Some (Inr claims) \<Rightarrow> next_handler (c\<lparr>CtxClaims := Some claims\<rparr>) rq)"

definition OptionalAuth :: "(err \<Rightarrow> string) \<Rightarrow> jwt \<Rightarrow> Issuer \<Rightarrow> ('s, 'x) handler \<Rightarrow> ('s, 'x) handler" where
  "OptionalAuth text J issuer next_handler c rq = (case verifyBearer J issuer (CtxNow c) rq of
       None \<Rightarrow> next_handler c rq
     | Some (Inl e) \<Rightarrow> WriteError text c e
     | Some (Inr claims) \<Rightarrow> next_handler (c\<lparr>CtxClaims := Some claims\<rparr>) rq)"

definition ClaimsFrom :: "call_ctx \<Rightarrow> Claims" where
  "ClaimsFrom c = (case CtxClaims c of Some claims \<Rightarrow> claims
     | None \<Rightarrow> \<lparr>ClaimUser = [], ClaimName = [], ClaimRoom = [], ClaimGuest = False, ClaimHost = False\<rparr>)"

section \<open>Rate limits\<close>

record LimitPolicy =
  LimitScope :: string
  LimitCount :: int
  LimitWindow :: int
  KeyFn :: "call_ctx \<Rightarrow> http_request \<Rightarrow> string"

text \<open>\<open>Duration.Seconds\<close>, a \<open>float64\<close>, and the whole seconds of the Retry-After header.\<close>

definition Second :: int where "Second = 10 ^ 9"

definition Seconds :: "int \<Rightarrow> rat" where
  "Seconds d = f64 (of_int (go_div d Second) + f64 (of_int (d - go_div d Second * Second) / of_int Second))"

definition retry_after :: "int \<Rightarrow> int" where
  "retry_after d = (let sec = \<lceil>Seconds d\<rceil> in if sec < 1 then 1 else sec)"

definition limit_headers :: "int \<Rightarrow> int \<Rightarrow> int \<Rightarrow> call_ctx \<Rightarrow> call_ctx" where
  "limit_headers limit remaining resetAt c =
     with_header ''X-Ratelimit-Reset'' (itoa (resetAt div 1000))
       (with_header ''X-Ratelimit-Remaining'' (itoa remaining)
         (with_header ''X-Ratelimit-Limit'' (itoa limit) c))"

definition RateLimit :: "(err \<Rightarrow> string) \<Rightarrow> 's redis \<Rightarrow> LimitPolicy \<Rightarrow> ('s, 'x) handler \<Rightarrow> ('s, 'x) handler" where
  "RateLimit text R p next_handler c rq =
     attempt (Allow R (CtxMember c) (LimitScope p) (KeyFn p c rq) (LimitCount p) (LimitWindow p)) (\<lambda>r. case r of
       Inl e \<Rightarrow> WriteError text c e
     | Inr d \<Rightarrow> (let c' = limit_headers (LimitCount p) (Remaining d) (ResetAt d) c in
         if \<not> Allowed d
         then write_api (with_header ''Retry-After'' (itoa (retry_after (RetryAfter d))) c')
           \<lparr>ApiStatus = 429, ApiCode = ''rate_limit_exceeded'', ApiMessage = ''rate limit exceeded''\<rparr>
         else next_handler c' rq))"

definition Minute :: int where "Minute = 60 * Second"

definition authThrottle :: "(err \<Rightarrow> string) \<Rightarrow> 's redis \<Rightarrow> (http_request \<Rightarrow> string) \<Rightarrow> ('s, 'x) handler \<Rightarrow> ('s, 'x) handler" where
  "authThrottle text R clientIP =
     RateLimit text R \<lparr>LimitScope = ''auth'', LimitCount = 10, LimitWindow = Minute, KeyFn = (\<lambda>c rq. clientIP rq)\<rparr>"

definition apiThrottle :: "(err \<Rightarrow> string) \<Rightarrow> 's redis \<Rightarrow> ('s, 'x) handler \<Rightarrow> ('s, 'x) handler" where
  "apiThrottle text R =
     RateLimit text R \<lparr>LimitScope = ''api'', LimitCount = 60, LimitWindow = Minute,
       KeyFn = (\<lambda>c rq. ClaimUser (ClaimsFrom c))\<rparr>"

section \<open>The client's address\<close>

text \<open>\<open>net.SplitHostPort\<close>.\<close>

definition SplitHostPort :: "string \<Rightarrow> (string \<times> string) option" where
  "SplitHostPort hostport = (case split_last_colon hostport of None \<Rightarrow> None
     | Some (before, port) \<Rightarrow>
       if before \<noteq> [] \<and> hd before = CHR ''['' then
         (let host = takeWhile (\<lambda>c. c \<noteq> CHR '']'') (tl before); rest = dropWhile (\<lambda>c. c \<noteq> CHR '']'') (tl before) in
          if rest \<noteq> '']'' \<or> CHR ''['' \<in> set (host @ port) \<or> CHR '']'' \<in> set port then None
          else Some (host, port))
       else if CHR '':'' \<in> set before \<or> CHR ''['' \<in> set (before @ port) \<or> CHR '']'' \<in> set (before @ port) then None
       else Some (before, port))"

text \<open>\<open>net/netip\<close>: addresses of type \<open>'a\<close> and prefixes of type \<open>'p\<close>.\<close>

record ('a, 'p) netip =
  ParseAddr :: "string \<Rightarrow> 'a option"
  Unmap :: "'a \<Rightarrow> 'a"
  AddrString :: "'a \<Rightarrow> string"
  Contains :: "'p \<Rightarrow> 'a \<Rightarrow> bool"

text \<open>\<open>strings.Split\<close> and \<open>strings.Join\<close> with a comma.\<close>

fun split_comma :: "string \<Rightarrow> string list" where
  "split_comma [] = [[]]"
| "split_comma (c # s) = (if c = CHR '','' then [] # split_comma s
     else case split_comma s of [] \<Rightarrow> [[c]] | w # ws \<Rightarrow> (c # w) # ws)"

definition is_trusted :: "('a, 'p) netip \<Rightarrow> 'p list \<Rightarrow> 'a \<Rightarrow> bool" where
  "is_trusted N trusted a = list_ex (\<lambda>p. Contains N p a) trusted"

text \<open>The loop over the entries, from the right.\<close>

fun forwarded_ip :: "('a, 'p) netip \<Rightarrow> 'p list \<Rightarrow> string \<Rightarrow> string list \<Rightarrow> string" where
  "forwarded_ip N trusted host [] = host"
| "forwarded_ip N trusted host (e # es) = (let ent = TrimSpace e in
     if ent = [] then forwarded_ip N trusted host es
     else case ParseAddr N ent of None \<Rightarrow> host
       | Some a \<Rightarrow> if \<not> is_trusted N trusted (Unmap N a) then AddrString N (Unmap N a)
           else forwarded_ip N trusted host es)"

definition NewClientIP :: "('a, 'p) netip \<Rightarrow> 'p list \<Rightarrow> http_request \<Rightarrow> string" where
  "NewClientIP N trusted rq = (case SplitHostPort (RemoteAddr rq) of
       None \<Rightarrow> RemoteAddr rq
     | Some (host, _) \<Rightarrow> (case ParseAddr N host of
         None \<Rightarrow> host
       | Some peer \<Rightarrow>
           if \<not> is_trusted N trusted (Unmap N peer) then host
           else forwarded_ip N trusted host (rev (split_comma (commas (HeaderValues rq ''X-Forwarded-For''))))))"

section \<open>Cross-origin requests\<close>

definition CORS :: "string list \<Rightarrow> ('s, 'x) handler \<Rightarrow> ('s, 'x) handler" where
  "CORS origins next_handler c rq =
     (let c1 = c\<lparr>CtxHeaders := CtxHeaders c @ [(''Vary'', ''Origin'')]\<rparr>;
          origin = header_get rq ''Origin'';
          c2 = (if origin \<noteq> [] \<and> origin \<in> set origins
            then with_header ''Access-Control-Allow-Credentials'' ''true'' (with_header ''Access-Control-Allow-Origin'' origin c1)
            else c1) in
      if Method rq = ''OPTIONS'' \<and> header_get rq ''Access-Control-Request-Method'' \<noteq> []
      then ret \<lparr>RespStatus = 204, RespHeaders = CtxHeaders
        (with_header ''Access-Control-Max-Age'' ''600''
        (with_header ''Access-Control-Allow-Headers'' ''Authorization, Content-Type''
        (with_header ''Access-Control-Allow-Methods'' ''GET, POST, OPTIONS'' c2))), RespBody = []\<rparr>
      else next_handler c2 rq)"

section \<open>Request bodies\<close>

text \<open>\<open>Decode\<close> of the first value of the body with \<open>DisallowUnknownFields\<close>.\<close>

datatype 'a decoded = Decoded 'a | BadBody | EndOfBody

definition decode_body :: "(string \<Rightarrow> json \<Rightarrow> 'a \<Rightarrow> 'a option) \<Rightarrow> 'a \<Rightarrow> http_request \<Rightarrow> 'a decoded" where
  "decode_body f zero rq = (if skip_ws (Body rq) = [] then EndOfBody
     else case first_value (Body rq) of None \<Rightarrow> BadBody
       | Some v \<Rightarrow> if 10000 < depth v then BadBody
           else (case into_struct f v zero of None \<Rightarrow> BadBody | Some a \<Rightarrow> Decoded a))"

record credentials =
  ReqEmail :: string
  ReqPassword :: string
  ReqName :: string

definition set_register :: "string \<Rightarrow> json \<Rightarrow> credentials \<Rightarrow> credentials option" where
  "set_register k v p = (case find_field [''email'', ''password'', ''display_name''] k of
       None \<Rightarrow> None
     | Some f \<Rightarrow>
        if f = ''email'' then map_option (\<lambda>x. p\<lparr>ReqEmail := x\<rparr>) (into_string v (ReqEmail p))
        else if f = ''password'' then map_option (\<lambda>x. p\<lparr>ReqPassword := x\<rparr>) (into_string v (ReqPassword p))
        else map_option (\<lambda>x. p\<lparr>ReqName := x\<rparr>) (into_string v (ReqName p)))"

definition set_login :: "string \<Rightarrow> json \<Rightarrow> credentials \<Rightarrow> credentials option" where
  "set_login k v p = (case find_field [''email'', ''password''] k of
       None \<Rightarrow> None
     | Some f \<Rightarrow>
        if f = ''email'' then map_option (\<lambda>x. p\<lparr>ReqEmail := x\<rparr>) (into_string v (ReqEmail p))
        else map_option (\<lambda>x. p\<lparr>ReqPassword := x\<rparr>) (into_string v (ReqPassword p)))"

text \<open>A pointer: \<open>null\<close> makes it nil.\<close>

definition set_buy_in :: "string \<Rightarrow> json \<Rightarrow> int option \<Rightarrow> int option option" where
  "set_buy_in k v p = (case find_field [''buy_in''] k of None \<Rightarrow> None
     | Some _ \<Rightarrow> (case v of JNull \<Rightarrow> Some None | JNum x \<Rightarrow> map_option Some (ParseInt x) | _ \<Rightarrow> None))"

definition set_join :: "string \<Rightarrow> json \<Rightarrow> string \<Rightarrow> string option" where
  "set_join k v p = (case find_field [''display_name''] k of None \<Rightarrow> None | Some _ \<Rightarrow> into_string v p)"

section \<open>Handlers\<close>

record ('s, 'x) deps =
  DepStore :: "'s redis"
  DepJwt :: jwt
  DepIssuer :: Issuer
  RegisterWith :: "string \<Rightarrow> string \<Rightarrow> string \<Rightarrow> ('s, 'x, Account \<times> string) go"
  LoginWith :: "string \<Rightarrow> string \<Rightarrow> ('s, 'x, Account \<times> string) go"
  RefillFor :: "string \<Rightarrow> ('s, 'x, RefillResult) go"
  CreateFor :: "string \<Rightarrow> string \<Rightarrow> tokens \<Rightarrow> ('s, 'x, Created) go"
  JoinWith :: "string \<Rightarrow> JoinRequest \<Rightarrow> ('s, 'x, Joined) go"
  TextOf :: "err \<Rightarrow> string"
  FormatTime :: "int \<Rightarrow> string"
  ClientIP :: "http_request \<Rightarrow> string"

definition malformed_body :: APIError where
  "malformed_body = \<lparr>ApiStatus = 400, ApiCode = ''validation_error'', ApiMessage = ''malformed request body''\<rparr>"

definition account_json :: "Account \<Rightarrow> json" where
  "account_json a = JObj [(''id'', JStr (AccountID a)), (''email'', JStr (AccountEmail a)),
     (''display_name'', JStr (AccountName a)), (''balance'', JNum (itoa (AccountFunds a)))]"

definition answer :: "('s, 'x) deps \<Rightarrow> call_ctx \<Rightarrow> int \<Rightarrow> ('a \<Rightarrow> json) \<Rightarrow> ('s, 'x, 'a) go \<Rightarrow> ('s, 'x, response) go" where
  "answer D c status f m = attempt m (\<lambda>r. case r of Inl e \<Rightarrow> WriteError (TextOf D) c e | Inr a \<Rightarrow> WriteData c status (f a))"

definition session_json :: "Account \<times> string \<Rightarrow> json" where
  "session_json r = JObj [(''account'', account_json (fst r)), (''token'', JStr (snd r))]"

definition no_credentials :: credentials where
  "no_credentials = \<lparr>ReqEmail = [], ReqPassword = [], ReqName = []\<rparr>"

definition handleRegister :: "('s, 'x) deps \<Rightarrow> ('s, 'x) handler" where
  "handleRegister D c rq = (case decode_body set_register no_credentials rq of
       Decoded p \<Rightarrow> answer D c 201 session_json (RegisterWith D (ReqEmail p) (ReqPassword p) (ReqName p))
     | _ \<Rightarrow> write_api c malformed_body)"

definition handleLogin :: "('s, 'x) deps \<Rightarrow> ('s, 'x) handler" where
  "handleLogin D c rq = (case decode_body set_login no_credentials rq of
       Decoded p \<Rightarrow> answer D c 200 session_json (LoginWith D (ReqEmail p) (ReqPassword p))
     | _ \<Rightarrow> write_api c malformed_body)"

definition refill_json :: "('s, 'x) deps \<Rightarrow> RefillResult \<Rightarrow> json" where
  "refill_json D r = JObj [(''credited'', JNum (itoa (Credited r))), (''balance'', JNum (itoa (RefillBalance r))),
     (''remaining'', JNum (itoa (RefillRemaining r))), (''reset_at'', JStr (FormatTime D (RefillResetAt r)))]"

text \<open>The body has no fields, and may be missing.\<close>

definition handleClaimRefill :: "('s, 'x) deps \<Rightarrow> ('s, 'x) handler" where
  "handleClaimRefill D c rq = (case decode_body (\<lambda>k v u. None) () rq of
       BadBody \<Rightarrow> write_api c malformed_body
     | _ \<Rightarrow> attempt (RefillFor D (ClaimUser (ClaimsFrom c))) (\<lambda>r. case r of
         Inl e \<Rightarrow> WriteError (TextOf D)
           (case e of Account (QuotaError d) \<Rightarrow> with_header ''Retry-After'' (itoa (retry_after d)) c | _ \<Rightarrow> c) e
       | Inr a \<Rightarrow> WriteData (limit_headers RefillQuota (RefillRemaining a) (RefillResetAt a) c) 201 (refill_json D a)))"

definition created_json :: "Created \<Rightarrow> json" where
  "created_json r = JObj [(''room_id'', JStr (CreatedRoom r)), (''code'', JStr (CreatedCode r)),
     (''buy_in'', JNum (itoa (CreatedBuyIn r))), (''token'', JStr (CreatedToken r))]"

definition handleCreateRoom :: "('s, 'x) deps \<Rightarrow> ('s, 'x) handler" where
  "handleCreateRoom D c rq = (case decode_body set_buy_in None rq of
       Decoded (Some b) \<Rightarrow> answer D c 201 created_json
         (CreateFor D (ClaimUser (ClaimsFrom c)) (ClaimName (ClaimsFrom c)) b)
     | _ \<Rightarrow> write_api c \<lparr>ApiStatus = 400, ApiCode = ''validation_error'',
              ApiMessage = ''buy_in is required and must be an integer''\<rparr>)"

definition joined_json :: "Joined \<Rightarrow> json" where
  "joined_json r = JObj [(''room_id'', JStr (JoinedRoom r)), (''guest'', JBool (JoinedGuest r)),
     (''session_balance'', JNum (itoa (SessionBal r))), (''partial_buy_in'', JBool (PartialBuyIn r)),
     (''token'', JStr (JoinedToken r))]"

text \<open>Who joins: the account of the claims, or a guest under the name in the body.\<close>

definition join_request :: "('s, 'x) deps \<Rightarrow> call_ctx \<Rightarrow> string \<Rightarrow> ('s, 'x, JoinRequest) go" where
  "join_request D c name = (case CtxClaims c of
       Some claims \<Rightarrow> andThen (GetUser (DepStore D) (ClaimUser claims)) (\<lambda>u.
         ret \<lparr>JoinUser = UserIDOf u, JoinName = DisplayName u, JoinGuest = False, AccountBalance = UserBalance u\<rparr>)
     | None \<Rightarrow> (let normalized = NormalizeDisplayName name in
         andThen (check (ValidateDisplayName normalized)) (\<lambda>_.
         ret \<lparr>JoinUser = [], JoinName = normalized, JoinGuest = True, AccountBalance = 0\<rparr>)))"

definition handleJoinRoom :: "('s, 'x) deps \<Rightarrow> ('s, 'x) handler" where
  "handleJoinRoom D c rq = (case decode_body set_join [] rq of
       Decoded name \<Rightarrow> answer D c 201 joined_json (andThen (join_request D c name) (JoinWith D (PathCode rq)))
     | _ \<Rightarrow> write_api c malformed_body)"

section \<open>Routes\<close>

definition wsThrottleKey :: "jwt \<Rightarrow> Issuer \<Rightarrow> (http_request \<Rightarrow> string) \<Rightarrow> call_ctx \<Rightarrow> http_request \<Rightarrow> string" where
  "wsThrottleKey J issuer clientIP c rq =
     (let token = ExtractToken \<lparr>AuthHeader = header_get rq ''Authorization'', OriginHeader = header_get rq ''Origin'',
            TokenParam = QueryToken rq\<rparr>;
          by_ip = ''ip:'' @ clientIP rq in
      if token = [] then by_ip
      else case Verify J issuer (CtxNow c) token of
        Inr claims \<Rightarrow> if ClaimUser claims = [] then by_ip else ''user:'' @ ClaimUser claims
      | Inl _ \<Rightarrow> by_ip)"

definition wsThrottle :: "('s, 'x) deps \<Rightarrow> ('s, 'x) handler \<Rightarrow> ('s, 'x) handler" where
  "wsThrottle D = RateLimit (TextOf D) (DepStore D) \<lparr>LimitScope = ''ws_connect'', LimitCount = 30,
     LimitWindow = Minute, KeyFn = wsThrottleKey (DepJwt D) (DepIssuer D) (ClientIP D)\<rparr>"

definition HealthHandler :: "('s, 'x) handler" where
  "HealthHandler c rq = ret (write_json c 200 (JObj [(''status'', JStr ''ok'')]))"

text \<open>The patterns of the mux with their handlers; \<open>socket\<close> stands for the handler of \<open>internal/ws\<close>.\<close>

definition registerAuthRoutes :: "('s, 'x) deps \<Rightarrow> (string \<times> ('s, 'x) handler) list" where
  "registerAuthRoutes D =
     [(''POST /api/v1/auth/register'', authThrottle (TextOf D) (DepStore D) (ClientIP D) (handleRegister D)),
      (''POST /api/v1/auth/login'', authThrottle (TextOf D) (DepStore D) (ClientIP D) (handleLogin D))]"

definition registerRoomRoutes :: "('s, 'x) deps \<Rightarrow> (string \<times> ('s, 'x) handler) list" where
  "registerRoomRoutes D =
     [(''POST /api/v1/rooms'', RequireAuth (TextOf D) (DepJwt D) (DepIssuer D)
        (apiThrottle (TextOf D) (DepStore D) (handleCreateRoom D))),
      (''POST /api/v1/rooms/{code}/participants'', OptionalAuth (TextOf D) (DepJwt D) (DepIssuer D) (handleJoinRoom D))]"

definition registerAccountRoutes :: "('s, 'x) deps \<Rightarrow> (string \<times> ('s, 'x) handler) list" where
  "registerAccountRoutes D =
     [(''POST /api/v1/accounts/me/refills'', RequireAuth (TextOf D) (DepJwt D) (DepIssuer D)
        (apiThrottle (TextOf D) (DepStore D) (handleClaimRefill D)))]"

definition registerWSRoutes :: "('s, 'x) deps \<Rightarrow> ('s, 'x) handler \<Rightarrow> (string \<times> ('s, 'x) handler) list" where
  "registerWSRoutes D socket = [(''GET /api/v1/socket'', wsThrottle D socket)]"

definition NewMux :: "('s, 'x) deps \<Rightarrow> ('s, 'x) handler \<Rightarrow> (string \<times> ('s, 'x) handler) list" where
  "NewMux D socket = [(''GET /healthz'', HealthHandler)] @ registerAuthRoutes D @ registerRoomRoutes D
     @ registerAccountRoutes D @ registerWSRoutes D socket"

end
