(* ===== verification/RefillSpec.thy ===== *)
theory RefillSpec
  imports RateSpec HttpApi
begin

text \<open>
  Refills, from the request over the throttle and the limiter to the script that tops up the
  balance.
\<close>

section \<open>The script\<close>

lemma refill_amounts:
  assumes "0 \<le> b" "b < RefillTarget"
  shows "tostring (RefillTarget - b) = itoa (RefillTarget - b)" "tostring RefillTarget = itoa RefillTarget"
    "number_arg RefillTarget = itoa RefillTarget" "dbl b = b" "dbl RefillTarget = RefillTarget"
    "ParseInt (itoa (RefillTarget - b)) = Some (RefillTarget - b)" "ParseInt (itoa RefillTarget) = Some RefillTarget"
  using assms by (simp_all add: RefillTarget_def tostring_small number_arg_small dbl_id ParseInt_itoa in64_def)

context redis_server
begin

lemma TopUpBalance_quiet:
  assumes "turns w = []" "hashes (view (db w)) (UserKey u) ''balance'' = Some (itoa b)" "0 \<le> b" "b < RefillTarget"
  shows "\<exists>s'. TopUpBalance R u RefillTarget w = (Inr (RefillTarget - b, RefillTarget), w\<lparr>db := s'\<rparr>)
    \<and> view s' = balance_view u RefillTarget (view (db w))"
proof -
  note n = refill_amounts [OF assms(3,4)]
  define s' where "s' = HSET R (UserKey u) [(''balance'', itoa RefillTarget)] (db w)"
  have "top_up_balance R (UserKey u) (itoa RefillTarget) (db w)
      = (Inr (table [''OK'', itoa (RefillTarget - b), itoa RefillTarget]), s')"
    using assms(4) by (simp add: top_up_balance_def hget_def eff_simps reads assms(2) tonumber_itoa lua_need_def n s'_def)
  then show ?thesis using assms(1)
    by (auto simp: TopUpBalance_def call_script_def eff_simps n s'_def writes balance_view_def)
qed

lemma ClaimRefill_quiet:
  fixes w :: "('s, 'x) world_scheme" and u :: string
  defines "v \<equiv> view (db w)" and "k \<equiv> RateLimitKey RefillScope u"
  defines "now \<equiv> now_ms (clock v)" and "win \<equiv> go_div RefillWindow Millisecond"
  assumes q: "turns w = []" and u: "user_is v u acct" "hashes v (UserKey u) ''balance'' = Some (itoa (UserBalance acct))"
    and b: "0 \<le> UserBalance acct" and ok: "instants_ok now win (zsets v k)"
  shows "\<exists>r s'. ClaimRefill R m u w = (r, w\<lparr>db := s'\<rparr>)
    \<and> (if RefillTarget \<le> UserBalance acct then r = Inl (Domain ErrRefillNotEligible) \<and> s' = db w
       else (\<exists>d. decision_is d now win RefillQuota m (zsets v k)
         \<and> (if let_in now win RefillQuota (zsets v k)
            then r = Inr \<lparr>Credited = RefillTarget - UserBalance acct, RefillBalance = RefillTarget,
                   RefillRemaining = Remaining d, RefillResetAt = ResetAt d\<rparr>
              \<and> hashes (view s') = hashes (balance_view u RefillTarget v)
            else r = Inl (Account (QuotaError (RetryAfter d))) \<and> hashes (view s') = hashes v)
         \<and> zsets (view s') = (zsets v)(k := slots_after now win RefillQuota m (zsets v k)))
         \<and> strs (view s') = strs v \<and> streams (view s') = streams v \<and> rsets (view s') = rsets v)"
proof -
  note g = GetUser_quiet [OF q u(1) [unfolded v_def]]
  show ?thesis
  proof (cases "RefillTarget \<le> UserBalance acct")
    case True
    then have "ClaimRefill R m u w = (Inl (Domain ErrRefillNotEligible), w)"
      by (simp add: ClaimRefill_def eff_simps g CanRefill_def check_def)
    with True show ?thesis by (intro exI [of _ "Inl (Domain ErrRefillNotEligible)"] exI [of _ "db w"]) simp
  next
    case False
    have lim: "0 < RefillQuota" "RefillQuota < 10 ^ 14" by (simp_all add: RefillQuota_def)
    obtain s1 d where a: "Allow R m RefillScope u RefillQuota RefillWindow w = (Inr d, w\<lparr>db := s1\<rparr>)"
      "decision_is d now win RefillQuota m (zsets v k)" "only_slots k (slots_after now win RefillQuota m (zsets v k)) v (view s1)"
      using Allow_quiet [OF q ok [unfolded now_def win_def k_def v_def] lim, of m] unfolding now_def win_def k_def v_def by blast
    have can: "check (CanRefill (UserBalance acct) 0) w' = (Inr (), w')" for w' :: "('s, 'x) world_scheme"
      using False by (simp add: CanRefill_def check_def RefillQuota_def eff_simps)
    have al: "Allowed d = let_in now win RefillQuota (zsets v k)" using a(2) by (simp add: decision_is_def)
    have s1: "hashes (view s1) = hashes v" "zsets (view s1) = (zsets v)(k := slots_after now win RefillQuota m (zsets v k))"
      "strs (view s1) = strs v" "streams (view s1) = streams v" "rsets (view s1) = rsets v"
      using a(3) by (simp_all add: only_slots_def)
    show ?thesis
    proof (cases "let_in now win RefillQuota (zsets v k)")
      case False': False
      then have "ClaimRefill R m u w = (Inl (Account (QuotaError (RetryAfter d))), w\<lparr>db := s1\<rparr>)"
        by (simp add: ClaimRefill_def eff_simps g can a(1) al)
      with False False' a(2) s1 show ?thesis
        by (intro exI [of _ "Inl (Account (QuotaError (RetryAfter d)))"] exI [of _ s1]) auto
    next
      case True
      obtain s2 where s2: "TopUpBalance R u RefillTarget (w\<lparr>db := s1\<rparr>)
          = (Inr (RefillTarget - UserBalance acct, RefillTarget), w\<lparr>db := s2\<rparr>)"
        "view s2 = balance_view u RefillTarget (view s1)"
        using TopUpBalance_quiet [of "w\<lparr>db := s1\<rparr>" u "UserBalance acct"] q u(2) s1(1) b False by auto
      have "ClaimRefill R m u w = (Inr \<lparr>Credited = RefillTarget - UserBalance acct, RefillBalance = RefillTarget,
          RefillRemaining = Remaining d, RefillResetAt = ResetAt d\<rparr>, w\<lparr>db := s2\<rparr>)"
        using False by (simp add: ClaimRefill_def eff_simps g can a(1) al True s2(1))
      moreover have h: "hashes (view s2) = hashes (balance_view u RefillTarget v)"
        by (simp add: s2(2) balance_view_def view_simps s1)
      moreover have "zsets (view s2) = zsets (view s1)" "strs (view s2) = strs v" "streams (view s2) = streams v"
        "rsets (view s2) = rsets v" by (simp_all add: s2(2) balance_view_def view_simps s1)
      ultimately show ?thesis using False True a(2) s1(2)
        by (intro exI [of _ "Inr \<lparr>Credited = RefillTarget - UserBalance acct, RefillBalance = RefillTarget,
          RefillRemaining = Remaining d, RefillResetAt = ResetAt d\<rparr>"] exI [of _ s2]) auto
    qed
  qed
qed

end

section \<open>The route\<close>

lemma map_of_snoc: "map_of (xs @ [(k, v)]) j = (case map_of xs j of None \<Rightarrow> if j = k then Some v else None | x \<Rightarrow> x)"
  by (simp add: map_add_def split: option.split)

lemma map_of_set_header: "map_of (set_header k v hs) j = (if j = k then Some v else map_of hs j)"
proof -
  have "map_of (filter (\<lambda>h. fst h \<noteq> k) hs) j = (if j = k then None else map_of hs j)" by (induction hs) auto
  then show ?thesis by (simp add: set_header_def map_of_snoc del: map_of_append split: option.split)
qed

lemma header_sel [simp]:
  "CtxHeaders (with_header k v c) = set_header k v (CtxHeaders c)" "CtxClaims (with_header k v c) = CtxClaims c"
  "CtxClaims (limit_headers a b d c) = CtxClaims c" "CtxNow (with_header k v c) = CtxNow c"
  by (simp_all add: with_header_def limit_headers_def)

lemma write_json_sel [simp]:
  "RespStatus (write_json c n v) = n" "RespBody (write_json c n v) = render v @ [CHR 0x0A]"
  "RespHeaders (write_json c n v) = set_header ''Content-Type'' ''application/json'' (CtxHeaders c)"
  by (simp_all add: write_json_def)

definition refill_body :: "('s, 'x) deps \<Rightarrow> RefillResult \<Rightarrow> string" where
  "refill_body D r = render (JObj [(''data'', refill_json D r)]) @ [CHR 0x0A]"

lemma handleClaimRefill_cases:
  assumes "decode_body (\<lambda>k v u. None) () rq \<noteq> BadBody" "RefillFor D (ClaimUser (ClaimsFrom c)) w = (r, w')"
  shows "r = Inr a \<Longrightarrow> \<exists>resp. handleClaimRefill D c rq w = (Inr resp, w') \<and> RespStatus resp = 201 \<and> RespBody resp = refill_body D a"
    "r = Inl (Domain ErrRefillNotEligible) \<Longrightarrow> \<exists>resp. handleClaimRefill D c rq w = (Inr resp, w') \<and> RespStatus resp = 409"
    "r = Inl (Account (QuotaError d)) \<Longrightarrow> \<exists>resp. handleClaimRefill D c rq w = (Inr resp, w') \<and> RespStatus resp = 429
      \<and> map_of (RespHeaders resp) ''Retry-After'' = Some (itoa (retry_after d))"
  using assms
  by (auto simp: handleClaimRefill_def eff_simps WriteData_def WriteError_def write_api_def apiErrorFor_def refill_body_def
      map_of_set_header split: decoded.splits)

text \<open>What a request to the refill route does to an account that holds \<open>b\<close>.\<close>

definition refill_answer :: "('s, 'x) deps \<Rightarrow> string \<Rightarrow> string \<Rightarrow> int \<Rightarrow> tokens \<Rightarrow> rview \<Rightarrow> rview \<Rightarrow> response \<Rightarrow> bool" where
  "refill_answer D m u now b v v' resp \<longleftrightarrow>
     (let slots = zsets v (RateLimitKey ''refill'' u); slots' = zsets v' (RateLimitKey ''refill'' u) in
      (if RefillTarget \<le> b then RespStatus resp = 409 \<and> hashes v' = hashes v \<and> slots' = slots
       else if let_in now 604800000 RefillQuota slots
       then RespStatus resp = 201 \<and> hashes v' = hashes (balance_view u RefillTarget v)
         \<and> slots' = slots_after now 604800000 RefillQuota m slots
         \<and> (\<exists>n t. RespBody resp = refill_body D \<lparr>Credited = RefillTarget - b, RefillBalance = RefillTarget,
               RefillRemaining = n, RefillResetAt = t\<rparr>)
       else RespStatus resp = 429 \<and> hashes v' = hashes v \<and> slots' = slots_after now 604800000 RefillQuota m slots
         \<and> (\<exists>d. map_of (RespHeaders resp) ''Retry-After'' = Some (itoa (retry_after d))))
      \<and> strs v' = strs v \<and> streams v' = streams v \<and> rsets v' = rsets v)"

lemma refill_answer_cong:
  assumes "hashes v1 = hashes v" "strs v1 = strs v" "streams v1 = streams v" "rsets v1 = rsets v"
    "zsets v1 (RateLimitKey ''refill'' u) = zsets v (RateLimitKey ''refill'' u)" "refill_answer D m u now b v1 v' resp"
  shows "refill_answer D m u now b v v' resp"
  using assms by (simp add: refill_answer_def balance_view_def view_simps Let_def)

context redis_server
begin

lemma handleClaimRefill_quiet:
  fixes w :: "('s, 'x) world_scheme"
  assumes q: "turns w = []" and u: "user_is (view (db w)) u acct"
    "hashes (view (db w)) (UserKey u) ''balance'' = Some (itoa (UserBalance acct))" "0 \<le> UserBalance acct"
    and ok: "instants_ok (now_ms (clock (view (db w)))) 604800000 (zsets (view (db w)) (RateLimitKey ''refill'' u))"
    and D: "RefillFor D = ClaimRefill R m" "ClaimUser (ClaimsFrom c) = u" "decode_body (\<lambda>k v u. None) () rq \<noteq> BadBody"
  shows "\<exists>resp s'. handleClaimRefill D c rq w = (Inr resp, w\<lparr>db := s'\<rparr>)
    \<and> refill_answer D m u (now_ms (clock (view (db w)))) (UserBalance acct) (view (db w)) (view s') resp"
proof -
  let ?b = "UserBalance acct" and ?now = "now_ms (clock (view (db w)))" and ?z = "zsets (view (db w)) (RateLimitKey ''refill'' u)"
  have win: "go_div RefillWindow Millisecond = 604800000" by code_simp
  obtain r s' where r: "ClaimRefill R m u w = (r, w\<lparr>db := s'\<rparr>)"
    "if RefillTarget \<le> ?b then r = Inl (Domain ErrRefillNotEligible) \<and> s' = db w
     else (\<exists>d. decision_is d ?now 604800000 RefillQuota m ?z
       \<and> (if let_in ?now 604800000 RefillQuota ?z
          then r = Inr \<lparr>Credited = RefillTarget - ?b, RefillBalance = RefillTarget,
                 RefillRemaining = Remaining d, RefillResetAt = ResetAt d\<rparr>
            \<and> hashes (view s') = hashes (balance_view u RefillTarget (view (db w)))
          else r = Inl (Account (QuotaError (RetryAfter d))) \<and> hashes (view s') = hashes (view (db w)))
       \<and> zsets (view s') = (zsets (view (db w)))(RateLimitKey ''refill'' u := slots_after ?now 604800000 RefillQuota m ?z))
       \<and> strs (view s') = strs (view (db w)) \<and> streams (view s') = streams (view (db w)) \<and> rsets (view s') = rsets (view (db w))"
    using ClaimRefill_quiet [OF q u, unfolded win RefillScope_def, OF ok, of m] by blast
  have call: "RefillFor D (ClaimUser (ClaimsFrom c)) w = (r, w\<lparr>db := s'\<rparr>)" by (simp add: D r(1))
  note cases = handleClaimRefill_cases [OF D(3) call]
  show ?thesis
  proof (cases "RefillTarget \<le> ?b")
    case True
    with r(2) have "r = Inl (Domain ErrRefillNotEligible)" "s' = db w" by simp_all
    with cases(2) obtain resp where "handleClaimRefill D c rq w = (Inr resp, w)" "RespStatus resp = 409" by auto
    with True show ?thesis by (intro exI [of _ resp] exI [of _ "db w"]) (simp add: refill_answer_def)
  next
    case False
    note f = r(2) [unfolded if_not_P [OF False]]
    then obtain d where d: "decision_is d ?now 604800000 RefillQuota m ?z"
      "if let_in ?now 604800000 RefillQuota ?z
       then r = Inr \<lparr>Credited = RefillTarget - ?b, RefillBalance = RefillTarget,
              RefillRemaining = Remaining d, RefillResetAt = ResetAt d\<rparr>
         \<and> hashes (view s') = hashes (balance_view u RefillTarget (view (db w)))
       else r = Inl (Account (QuotaError (RetryAfter d))) \<and> hashes (view s') = hashes (view (db w))"
      "zsets (view s') = (zsets (view (db w)))(RateLimitKey ''refill'' u := slots_after ?now 604800000 RefillQuota m ?z)"
      by blast
    show ?thesis
    proof (cases "let_in ?now 604800000 RefillQuota ?z")
      case True
      with d(2) have r': "r = Inr \<lparr>Credited = RefillTarget - ?b, RefillBalance = RefillTarget,
          RefillRemaining = Remaining d, RefillResetAt = ResetAt d\<rparr>"
        "hashes (view s') = hashes (balance_view u RefillTarget (view (db w)))" by simp_all
      obtain resp where resp: "handleClaimRefill D c rq w = (Inr resp, w\<lparr>db := s'\<rparr>)" "RespStatus resp = 201"
        "RespBody resp = refill_body D \<lparr>Credited = RefillTarget - ?b, RefillBalance = RefillTarget,
           RefillRemaining = Remaining d, RefillResetAt = ResetAt d\<rparr>" using cases(1) [OF r'(1)] by blast
      have "\<exists>n t. RespBody resp = refill_body D \<lparr>Credited = RefillTarget - ?b, RefillBalance = RefillTarget,
          RefillRemaining = n, RefillResetAt = t\<rparr>" using resp(3) by blast
      with resp(1,2) True False d(3) r'(2) f show ?thesis
        by (intro exI [of _ resp] exI [of _ s']) (simp add: refill_answer_def Let_def)
    next
      case False': False
      with d(2) have r': "r = Inl (Account (QuotaError (RetryAfter d)))" "hashes (view s') = hashes (view (db w))" by simp_all
      obtain resp where resp: "handleClaimRefill D c rq w = (Inr resp, w\<lparr>db := s'\<rparr>)" "RespStatus resp = 429"
        "map_of (RespHeaders resp) ''Retry-After'' = Some (itoa (retry_after (RetryAfter d)))" using cases(3) [OF r'(1)] by blast
      with False False' d(3) r'(2) f show ?thesis
        by (intro exI [of _ resp] exI [of _ s']) (auto simp: refill_answer_def Let_def)
    qed
  qed
qed

lemma refill_route_quiet:
  fixes w :: "('s, 'x) world_scheme"
  assumes q: "turns w = []" and D: "DepStore D = R" "RefillFor D = ClaimRefill R m"
    and h: "(''POST /api/v1/accounts/me/refills'', h) \<in> set (NewMux D socket)"
    and auth: "verifyBearer (DepJwt D) (DepIssuer D) (CtxNow c) rq = Some (Inr claims)" "ClaimUser claims = u"
    and body: "decode_body (\<lambda>k v u. None) () rq \<noteq> BadBody"
    and u: "user_is (view (db w)) u acct" "hashes (view (db w)) (UserKey u) ''balance'' = Some (itoa (UserBalance acct))"
      "0 \<le> UserBalance acct"
    and api: "instants_ok (now_ms (clock (view (db w)))) 60000 (zsets (view (db w)) (RateLimitKey ''api'' u))"
      "let_in (now_ms (clock (view (db w)))) 60000 60 (zsets (view (db w)) (RateLimitKey ''api'' u))"
    and ok: "instants_ok (now_ms (clock (view (db w)))) 604800000 (zsets (view (db w)) (RateLimitKey ''refill'' u))"
  shows "\<exists>resp s'. h c rq w = (Inr resp, w\<lparr>db := s'\<rparr>)
    \<and> refill_answer D m u (now_ms (clock (view (db w)))) (UserBalance acct) (view (db w)) (view s') resp"
proof -
  let ?v = "view (db w)" and ?now = "now_ms (clock (view (db w)))"
  have win: "go_div Minute Millisecond = 60000" by code_simp
  have keys: "RateLimitKey ''refill'' u \<noteq> RateLimitKey ''api'' u" by (simp add: RateLimitKey_def)
  obtain s1 d1 where a: "Allow R (CtxMember c) ''api'' u 60 Minute w = (Inr d1, w\<lparr>db := s1\<rparr>)"
    "decision_is d1 ?now 60000 60 (CtxMember c) (zsets ?v (RateLimitKey ''api'' u))"
    "only_slots (RateLimitKey ''api'' u) (slots_after ?now 60000 60 (CtxMember c) (zsets ?v (RateLimitKey ''api'' u))) ?v (view s1)"
    using Allow_quiet [OF q, of Minute "''api''" u 60 "CtxMember c"] api(1) by (auto simp: win)
  have s1: "hashes (view s1) = hashes ?v" "strs (view s1) = strs ?v" "streams (view s1) = streams ?v" "rsets (view s1) = rsets ?v"
    "zsets (view s1) (RateLimitKey ''refill'' u) = zsets ?v (RateLimitKey ''refill'' u)" "clock (view s1) = clock ?v"
    using a(3) keys by (simp_all add: only_slots_def)
  have allowed: "Allowed d1" using a(2) api(2) by (simp add: decision_is_def)
  define c' where "c' = limit_headers 60 (Remaining d1) (ResetAt d1) (c\<lparr>CtxClaims := Some claims\<rparr>)"
  have user: "ClaimUser (ClaimsFrom c') = u" using auth(2) by (simp add: ClaimsFrom_def c'_def)
  have "h = RequireAuth (TextOf D) (DepJwt D) (DepIssuer D) (apiThrottle (TextOf D) (DepStore D) (handleClaimRefill D))"
    using h by (simp add: NewMux_def registerAuthRoutes_def registerRoomRoutes_def registerAccountRoutes_def registerWSRoutes_def)
  then have run: "h c rq w = handleClaimRefill D c' rq (w\<lparr>db := s1\<rparr>)"
    using a(1) allowed D(1) auth by (simp add: RequireAuth_def apiThrottle_def RateLimit_def eff_simps ClaimsFrom_def c'_def)
  obtain resp s' where "handleClaimRefill D c' rq (w\<lparr>db := s1\<rparr>) = (Inr resp, w\<lparr>db := s'\<rparr>)"
    "refill_answer D m u ?now (UserBalance acct) (view s1) (view s') resp"
    using handleClaimRefill_quiet [of "w\<lparr>db := s1\<rparr>" u acct D m c' rq] q u ok D(2) user body by (auto simp: user_is_def s1)
  with refill_answer_cong [OF s1(1-5)] show ?thesis by (intro exI [of _ resp] exI [of _ s']) (auto simp: run)
qed

end


section \<open>An account that is short\<close>

definition demo_poor :: mem where
  "demo_poor = mem_hset (UserKey ''p'') [(''email'', ''p@x.y''), (''balance'', ''40''), (''created_at'', ''1'')] demo"

definition demo_poor_user :: User where
  "demo_poor_user = \<lparr>UserIDOf = ''p'', Email = ''p@x.y'', DisplayName = [], PasswordHash = [], UserBalance = 40,
     UserCreatedAt = 1\<rparr>"

definition demo_jwt :: jwt where
  "demo_jwt = \<lparr>SignedString = (\<lambda>_ _. None), ParseToken = (\<lambda>_ _ t. if t = ''good''
     then Inr \<lparr>MapClaims = Some [''iss'' \<mapsto> CStr ''callit'', ''sub'' \<mapsto> CStr ''p''], TokenValid = True\<rparr> else Inl False)\<rparr>"

definition demo_deps :: "(mem, unit) deps" where
  "demo_deps = \<lparr>DepStore = mem_redis, DepJwt = demo_jwt, DepIssuer = \<lparr>secret = [], ttl = 1\<rparr>,
     RegisterWith = (\<lambda>_ _ _. raise Library), LoginWith = (\<lambda>_ _. raise Library), RefillFor = ClaimRefill mem_redis ''m2'',
     CreateFor = (\<lambda>_ _ _. raise Library), JoinWith = (\<lambda>_ _. raise Library), TextOf = (\<lambda>_. []), FormatTime = itoa,
     ClientIP = RemoteAddr\<rparr>"

definition demo_request :: http_request where
  "demo_request = \<lparr>Method = ''POST'', HeaderValues = (\<lambda>k. if k = ''Authorization'' then [''Bearer good''] else []),
     RemoteAddr = ''1.2.3.4:5'', QueryToken = [], PathCode = [], Body = ''{}''\<rparr>"

definition demo_call :: call_ctx where
  "demo_call = \<lparr>CtxNow = 3, CtxMember = ''m1'', CtxClaims = None, CtxHeaders = []\<rparr>"

lemma demo_poor_view: "mem_view demo_poor = v_hset (UserKey ''p'') [(''email'', ''p@x.y''), (''balance'', ''40''), (''created_at'', ''1'')] (mem_view demo)"
  by (simp add: demo_poor_def)

lemma demo_poor_account:
  "user_is (mem_view demo_poor) ''p'' demo_poor_user" "hashes (mem_view demo_poor) (UserKey ''p'') ''balance'' = Some (itoa 40)"
  "zsets (mem_view demo_poor) k = Map.empty" "clock (mem_view demo_poor) = clock (mem_view demo)"
proof -
  have n: "itoa 40 = ''40''" "ParseInt ''40'' = Some 40" "ParseInt ''1'' = Some 1" by code_simp+
  have none: "hashes (mem_view demo) (UserKey ''p'') = Map.empty" by (simp add: demo_def slot_def key_simps)
  show "user_is (mem_view demo_poor) ''p'' demo_poor_user" "hashes (mem_view demo_poor) (UserKey ''p'') ''balance'' = Some (itoa 40)"
    unfolding demo_poor_view by (simp_all add: user_is_def view_simps none demo_poor_user_def hfield_def n del: mem_view_sel)
  show "zsets (mem_view demo_poor) k = Map.empty" "clock (mem_view demo_poor) = clock (mem_view demo)"
    unfolding demo_poor_view by (simp_all add: view_simps demo_slots_free del: mem_view_sel)
qed


end
