(* ===== verification/Floats.thy ===== *)
theory Floats
  imports Golang
begin

text \<open>
  What rounding to \<open>float64\<close> preserves: comparisons with numbers that 53 bits represent exactly.
\<close>

lemma round_even_le: "x \<le> of_int n \<Longrightarrow> round_even x \<le> n"
proof -
  assume x: "x \<le> of_int n"
  show ?thesis
  proof (cases "x = of_int n")
    case False
    with x have "\<lfloor>x\<rfloor> < n" by (simp add: floor_less_iff)
    then show ?thesis by (auto simp: round_even_def Let_def)
  qed simp
qed

lemma f64_exp_le:
  assumes "0 < r" "r \<le> 2 powi (j + 53)"
  shows "f64_exp r \<le> j + 1"
proof -
  have "(2::rat) powi (f64_exp r + 52) \<le> 2 powi (j + 53)" using f64_exp_bounds(1) [OF assms(1)] assms(2) by linarith
  then show ?thesis using power_int_strict_increasing [of "j + 53" "f64_exp r + 52" "2::rat"] by fastforce
qed

text \<open>A multiple of \<open>2 powi j\<close> below \<open>2 powi (j + 53)\<close> is a multiple of the last place of what is near it.\<close>

lemma grid_int:
  assumes "e \<le> j"
  shows "\<exists>m. (of_int k * 2 powi j :: rat) = of_int m * 2 powi e"
proof -
  obtain i where "j = e + int i" using assms zle_iff_zadd by blast
  then have "(of_int k * 2 powi j :: rat) = of_int (k * 2 ^ i) * 2 powi e" by (simp add: power_int_add)
  then show ?thesis by blast
qed

lemma f64_pos_grid:
  assumes "0 < r" "r < 2 powi (j + 53)"
  shows "of_int k * 2 powi j \<le> r \<Longrightarrow> of_int k * 2 powi j \<le> f64_pos r"
    and "r \<le> of_int k * 2 powi j \<Longrightarrow> f64_pos r \<le> of_int k * 2 powi j"
proof -
  define e where "e = f64_exp r"
  have "(2::rat) powi (e + 52) < 2 powi (j + 53)" using f64_exp_bounds(1) [OF assms(1), folded e_def] assms(2) by linarith
  then have "e \<le> j" using power_int_increasing [of "j + 53" "e + 52" "2::rat"] by fastforce
  then obtain m where m: "(of_int k * 2 powi j :: rat) = of_int m * 2 powi e" using grid_int by blast
  have pe: "0 < (2::rat) powi e" by (simp add: zero_less_power_int)
  have f: "f64_pos r = of_int (round_even (r / 2 powi e)) * 2 powi e" by (simp add: f64_pos_def e_def Let_def)
  show "of_int k * 2 powi j \<le> r \<Longrightarrow> of_int k * 2 powi j \<le> f64_pos r"
    using round_even_ge [of m "r / 2 powi e"] pe by (simp add: m f pos_le_divide_eq)
  show "r \<le> of_int k * 2 powi j \<Longrightarrow> f64_pos r \<le> of_int k * 2 powi j"
    using round_even_le [of "r / 2 powi e" m] pe by (simp add: m f pos_divide_le_eq)
qed

lemma f64_pos_le_1: "0 < r \<Longrightarrow> r \<le> 1 \<Longrightarrow> f64_pos r \<le> 1"
proof -
  assume r: "0 < r" "r \<le> 1"
  have "(1::rat) < 2 ^ 53" by simp
  with r have "r < 2 powi (0 + 53)" by (simp add: power_int_numeral)
  from f64_pos_grid(2) [OF r(1) this, of 1] r(2) show ?thesis by simp
qed

end
