(* ===== verification/HttpSpec.thy ===== *)
theory HttpSpec
  imports RefillSpec Floats
begin

text \<open>
  The edge of the server: routes that need a token, the address a limiter takes for its caller,
  and the seconds a refused caller is told to wait.
\<close>

section \<open>Guarded routes\<close>

definition guarded :: "('s, 'x) deps \<Rightarrow> (string \<times> ('s, 'x) handler) list" where
  "guarded D = [(''POST /api/v1/rooms'', handleCreateRoom D), (''POST /api/v1/accounts/me/refills'', handleClaimRefill D)]"

lemma guarded_route:
  assumes "(p, h) \<in> set (NewMux D socket)" "(p, inner) \<in> set (guarded D)"
  shows "h = RequireAuth (TextOf D) (DepJwt D) (DepIssuer D) (apiThrottle (TextOf D) (DepStore D) inner)"
  using assms
  by (auto simp: guarded_def NewMux_def registerAuthRoutes_def registerRoomRoutes_def registerAccountRoutes_def registerWSRoutes_def)

lemma rate_limit_err: "rate_limit R k wtext ltext m s = (Inl e, s') \<Longrightarrow> e = RemoteFailure"
  by (auto simp: rate_limit_def rate_denied_def rate_allowed_def lua_need_def eff_defs Let_def
      split: option.splits sum.splits prod.splits if_splits)

lemma Allow_err:
  assumes "Allow R m scope u limit window w = (Inl e, w')"
  shows "e = RemoteFailure \<or> e = Malformed"
proof -
  have strs: "toStringSlice vs = Inl x \<Longrightarrow> x = Malformed" for vs and x :: err
    by (simp add: toStringSlice_def split: if_splits)
  have dec: "decodeRateLimitReply res = Inl x \<Longrightarrow> x = Malformed" for res x
    using strs by (auto simp: decodeRateLimitReply_def split: sum.splits option.splits if_splits)
  show ?thesis using assms rate_limit_err dec
    by (fastforce simp: Allow_def roundtrip_def delivered_def rate_call_def eff_defs Let_def
        split: sum.splits prod.splits list.splits turn.splits if_splits)
qed

lemma Verify_err: "Verify J i now t = Inl e \<Longrightarrow> e = Auth ErrInvalidToken \<or> e = Auth ErrTokenExpired"
  by (auto simp: Verify_def split: sum.splits option.splits if_splits)

definition error_body :: "string \<Rightarrow> string \<Rightarrow> string" where
  "error_body code msg = render (JObj [(''error'', JObj [(''code'', JStr code), (''message'', JStr msg)])]) @ [CHR 0x0A]"

lemma write_api_run:
  "write_api c e w = (Inr (write_json c (ApiStatus e)
     (JObj [(''error'', JObj [(''code'', JStr (ApiCode e)), (''message'', JStr (ApiMessage e))])])), w)"
  by (simp add: write_api_def eff_simps)

text \<open>How a guarded route ends: refused by the token, by the limiter's failure or decision, or in its handler.\<close>

definition refused :: "response \<Rightarrow> bool" where
  "refused resp \<longleftrightarrow> (RespStatus resp = 401 \<and> (\<exists>msg. RespBody resp = error_body ''unauthorized'' msg))
     \<or> (RespStatus resp = 429 \<and> RespBody resp = error_body ''rate_limit_exceeded'' ''rate limit exceeded''
        \<and> (\<exists>d. map_of (RespHeaders resp) ''Retry-After'' = Some (itoa (retry_after d))))
     \<or> (RespStatus resp = 500 \<and> RespBody resp = error_body ''internal_error'' ''an internal error occurred'')"

lemma throttle_cases:
  assumes "Allow R (CtxMember c) (LimitScope p) (KeyFn p c rq) (LimitCount p) (LimitWindow p) w = (a, w1)"
  shows "(\<exists>d. a = Inr d \<and> Allowed d \<and> RateLimit text R p inner c rq w
        = inner (limit_headers (LimitCount p) (Remaining d) (ResetAt d) c) rq w1)
    \<or> ((\<forall>d. a = Inr d \<longrightarrow> \<not> Allowed d)
        \<and> (\<exists>resp. RateLimit text R p inner c rq w = (Inr resp, w1) \<and> refused resp \<and> RespStatus resp \<noteq> 401))"
proof (cases a)
  case (Inl e)
  then have "e = RemoteFailure \<or> e = Malformed" using Allow_err assms by blast
  then have "RateLimit text R p inner c rq w = (Inr (write_json c 500 (JObj [(''error'',
      JObj [(''code'', JStr ''internal_error''), (''message'', JStr ''an internal error occurred'')])])), w1)"
    using assms Inl by (auto simp: RateLimit_def eff_simps WriteError_def write_api_run apiErrorFor_def)
  with Inl show ?thesis by (auto simp: refused_def error_body_def)
next
  case (Inr d)
  show ?thesis
  proof (cases "Allowed d")
    case True
    with assms Inr show ?thesis by (simp add: RateLimit_def eff_simps)
  next
    case False
    with assms Inr have "RateLimit text R p inner c rq w
        = (Inr (write_json (with_header ''Retry-After'' (itoa (retry_after (RetryAfter d)))
            (limit_headers (LimitCount p) (Remaining d) (ResetAt d) c)) 429 (JObj [(''error'',
          JObj [(''code'', JStr ''rate_limit_exceeded''), (''message'', JStr ''rate limit exceeded'')])])), w1)"
      by (simp add: RateLimit_def eff_simps write_api_run)
    with Inr False show ?thesis by (auto simp: refused_def error_body_def map_of_set_header)
  qed
qed

lemma unauthorized:
  "e = Auth ErrInvalidToken \<or> e = Auth ErrTokenExpired \<Longrightarrow>
    \<exists>resp. WriteError txt c e w = (Inr resp, w) \<and> refused resp \<and> RespStatus resp = 401"
  by (auto simp: WriteError_def write_api_run apiErrorFor_def refused_def error_body_def write_json_def)



section \<open>Whose address\<close>

lemma split_comma_ne: "split_comma s \<noteq> []"
  by (induction s) (auto split: list.splits)

lemma split_comma_plain: "CHR '','' \<notin> set s \<Longrightarrow> split_comma s = [s]"
  by (induction s) auto

lemma split_comma_append: "split_comma (a @ CHR '','' # b) = split_comma a @ split_comma b"
proof (induction a)
  case (Cons c a)
  then show ?case using split_comma_ne [of a] by (auto split: list.splits)
qed simp

lemma split_comma_entries:
  "CHR '','' \<notin> set e \<Longrightarrow> \<forall>p\<in>set ps. CHR '','' \<notin> set p \<Longrightarrow>
     split_comma (e @ concat (map (\<lambda>p. CHR '','' # p) ps)) = e # ps"
  by (induction ps arbitrary: e) (auto simp: split_comma_plain split_comma_append)

text \<open>An entry that a proxy of ours may have appended: blank, or the address of one of them.\<close>

definition own_entry :: "('a, 'p) netip \<Rightarrow> 'p list \<Rightarrow> string \<Rightarrow> bool" where
  "own_entry N trusted p \<longleftrightarrow> TrimSpace p = []
     \<or> (\<exists>a. ParseAddr N (TrimSpace p) = Some a \<and> is_trusted N trusted (Unmap N a))"

lemma forwarded_ip_own:
  "\<forall>p\<in>set ps. own_entry N trusted p \<Longrightarrow> forwarded_ip N trusted host (ps @ es) = forwarded_ip N trusted host es"
  by (induction ps) (auto simp: own_entry_def Let_def)


definition text_netip :: "(string, string) netip" where
  "text_netip = \<lparr>ParseAddr = (\<lambda>s. if s = [] then None else Some s), Unmap = id, AddrString = id, Contains = (=)\<rparr>"


section \<open>How long to wait\<close>

lemma seconds_near:
  assumes "0 \<le> s" "s < 2 ^ 22" "0 < n" "n < Second"
  shows "of_int s < f64 (of_int s + f64 (of_int n / of_int Second))" "f64 (of_int s + f64 (of_int n / of_int Second)) \<le> of_int s + 1"
proof -
  let ?q = "of_int n / of_int Second :: rat" and ?g = "2 powi (- 30) :: rat"
  have g: "?g = 1 / 2 ^ 30" by (simp add: power_int_minus field_simps)
  have n1: "(1::rat) \<le> of_int n" using assms(3) by linarith
  have q: "0 < ?q" "?q \<le> 1" using assms(3,4) by (simp_all add: Second_def)
  have gq: "?g \<le> ?q" using n1 by (simp add: g Second_def field_simps)
  have y: "?g \<le> f64 ?q" "f64 ?q \<le> 1" "0 < f64 ?q"
    using f64_pos_ge [OF gq] f64_pos_le_1 [OF q] assms(3) g by (simp_all add: f64_def Second_def)
  let ?x = "of_int s + f64 ?q :: rat"
  have s0: "(0::rat) \<le> of_int s" using assms(1) by simp
  have s22: "(of_int s :: rat) \<le> 2 ^ 22 - 1"
  proof -
    have "(of_int s :: rat) \<le> of_int (2 ^ 22 - 1)" using assms(2) by (simp only: of_int_le_iff)
    then show ?thesis by simp
  qed
  have x: "0 < ?x" "?x < 2 powi (- 30 + 53)" using s0 s22 y by (simp_all add: power_int_numeral)
  have k: "of_int (s * 2 ^ 30 + 1) * ?g = of_int s + ?g" "of_int ((s + 1) * 2 ^ 30) * ?g = of_int s + 1"
    by (simp_all add: g algebra_simps)
  note grid = f64_pos_grid [OF x]
  have "of_int s + ?g \<le> f64 ?x" using grid(1) [of "s * 2 ^ 30 + 1"] y(1) x(1) by (simp add: k(1) f64_def)
  then show "of_int s < f64 ?x" by (simp add: g)
  show "f64 ?x \<le> of_int s + 1" using grid(2) [of "(s + 1) * 2 ^ 30"] y(2) x(1) by (simp add: k(2) f64_def)
qed

text \<open>Below 48 days the rounding is invisible: the header has the whole seconds, rounded up.\<close>

lemma retry_after_exact:
  assumes "0 \<le> d" "d < 2 ^ 22 * Second"
  shows "retry_after d = max 1 (- ((- d) div Second))"
proof -
  define s n where "s = d div Second" and "n = d mod Second"
  have d: "d = s * Second + n" "0 \<le> n" "n < Second" "0 \<le> s" "s < 2 ^ 22"
    using assms by (auto simp: s_def n_def Second_def)
  have "in64 s" using d(4,5) by (simp add: in64_def)
  then have s: "go_div d Second = s" using assms(1)
    by (simp add: go_div_def s_def Second_def i64_id in64_def sgn_if)
  have sec: "Seconds d = f64 (of_int s + f64 (of_int n / of_int Second))" by (simp add: Seconds_def s) (simp add: d)
  have "\<lceil>Seconds d\<rceil> = (if n = 0 then s else s + 1)"
  proof (cases "n = 0")
    case True
    then show ?thesis using d(4,5) by (simp add: sec f64_def [of 0] f64_nat)
  next
    case False
    with seconds_near [OF d(4,5), of n] d(2,3) show ?thesis by (intro ceiling_unique) (auto simp: sec)
  qed
  moreover have "- ((- d) div Second) = (if n = 0 then s else s + 1)"
    by (simp add: zdiv_zminus1_eq_if s_def n_def Second_def)
  ultimately show ?thesis by (simp add: retry_after_def Let_def max_def)
qed

context redis_server
begin

lemma refused_then_let_in:
  fixes w w2 :: "('s, 'x) world_scheme" and window :: int and scope u :: string
  defines "key \<equiv> RateLimitKey scope u" and "win \<equiv> go_div window Millisecond"
  defines "z \<equiv> zsets (view (db w)) (RateLimitKey scope u)" and "now \<equiv> now_ms (clock (view (db w)))"
  assumes q: "turns w = []" "turns w2 = []" and lim: "0 < limit" "limit < 10 ^ 14"
    and win: "0 \<le> window" "window < 2 ^ 22 * Second"
    and ok: "instants_ok now win z" "\<forall>sc\<in>ran z. sc \<le> now" "slots_used now win z \<le> limit"
    and run: "Allow R m scope u limit window w = (Inr d, w1)" "\<not> Allowed d"
    and later: "zsets (view (db w2)) key \<subseteq>\<^sub>m zsets (view (db w1)) key"
      "now + 1000 * retry_after (RetryAfter d) \<le> now_ms (clock (view (db w2)))"
      "instants_ok (now_ms (clock (view (db w2)))) win (zsets (view (db w2)) key)"
  shows "\<exists>d2 w3. Allow R m2 scope u limit window w2 = (Inr d2, w3) \<and> Allowed d2"
proof -
  let ?now2 = "now_ms (clock (view (db w2)))" and ?z2 = "zsets (view (db w2)) key"
  obtain s' d' where "Allow R m scope u limit window w = (Inr d', w\<lparr>db := s'\<rparr>)" "decision_is d' now win limit m z"
    "only_slots key (slots_after now win limit m z) (view (db w)) (view s')"
    using Allow_quiet [OF q(1) ok(1) [unfolded z_def now_def win_def] lim, of m] unfolding z_def now_def win_def key_def by blast
  with run have dec: "decision_is d now win limit m z" and z1: "zsets (view (db w1)) key = slots_after now win limit m z"
    by (auto simp: only_slots_def)
  from dec run(2) have full: "\<not> let_in now win limit z" by (simp add: decision_is_def)
  then have after: "slots_after now win limit m z = young now win z" by (simp add: slots_after_def)
  with dec run(2) obtain t where t: "oldest (young now win z) t" "RetryAfter d = i64 (max 1 (t + win - now) * Millisecond)"
    by (auto simp: decision_is_def)
  have tz: "t \<in> ran z" using t(1) ran_young [of now win z] by (auto simp: oldest_def)
  have "window < 4194304000000000" using win(2) by (simp add: Second_def)
  with win(1) have wd: "0 \<le> window div 1000000" "window div 1000000 < 4194304000"
    using zdiv_mono1 [of window 4194303999999999 1000000] by (simp_all add: pos_imp_zdiv_nonneg_iff)
  then have "win = window div 1000000"
    using win(1) by (simp add: win_def go_div_def Millisecond_def sgn_if i64_id in64_def)
  with wd have wb: "win < 2 ^ 22 * 1000" by simp
  define ms where "ms = max 1 (t + win - now)"
  have msb: "1 \<le> ms" "ms < 2 ^ 22 * 1000" "t + win - now \<le> ms" using ok(2) tz wb by (auto simp: ms_def max_def)
  then have ra: "RetryAfter d = ms * Millisecond" by (simp add: t(2) i64_id in64_def Millisecond_def flip: ms_def)
  have "retry_after (RetryAfter d) = max 1 (- ((- (ms * Millisecond)) div Second))"
    using msb by (simp add: ra retry_after_exact Millisecond_def Second_def)
  then have "ms \<le> 1000 * retry_after (RetryAfter d)" using msb by (simp add: Millisecond_def Second_def)
  with later(2) msb(3) have t2: "t \<le> ?now2 - win" "now \<le> ?now2" using msb(1) by linarith+
  have sub: "dom (young ?now2 win ?z2) \<subseteq> dom (young now win z)"
    using later(1) unfolding z1 after map_le_def dom_def by (auto simp: young_Some [of ?now2])
  obtain k where k: "young now win z k = Some t" using t(1) by (auto simp: oldest_def ran_def)
  have t0: "0 \<le> t" using ok(1) tz by (auto simp: instants_ok_def)
  have "k \<notin> dom (young ?now2 win ?z2)"
  proof
    assume "k \<in> dom (young ?now2 win ?z2)"
    then obtain sc where "young ?now2 win ?z2 k = Some sc" by blast
    then have sc: "?z2 k = Some sc" "\<not> (0 \<le> sc \<and> sc \<le> ?now2 - win)" by (simp_all add: young_Some)
    with later(1) k have "sc = t" unfolding z1 after map_le_def by (metis domI option.inject)
    with sc(2) t2 t0 show False by simp
  qed
  with sub k have "dom (young ?now2 win ?z2) \<subset> dom (young now win z)" by blast
  moreover have "finite (dom (young now win z))"
    by (rule finite_subset [OF _ finite_zset [of "db w" "RateLimitKey scope u"]]) (auto simp: young_Some z_def)
  ultimately have "card (dom (young ?now2 win ?z2)) < card (dom (young now win z))" by (rule psubset_card_mono [rotated])
  with ok(3) have "let_in ?now2 win limit ?z2" by (simp add: let_in_def slots_used_def)
  with Allow_quiet [OF q(2) later(3) [unfolded win_def key_def] lim, of m2] show ?thesis
    by (auto simp: decision_is_def win_def key_def)
qed

end

text \<open>
  C37. The advice is sound. When the limiter refuses a caller, and the caller waits the seconds
  that the Retry-After header gives, computed in \<open>float64\<close> and rounded up, and makes no call in
  between, the next call is let in.
\<close>

theorem retry_after_suffices:
  fixes R :: "'s redis" and view :: "'s \<Rightarrow> rview" and w w2 :: "('s, 'x) world_scheme" and window :: int
  assumes "redis_server R view" and "turns w = []" "turns w2 = []" and "0 < limit" "limit < 10 ^ 14"
    and "0 \<le> window" "window < 2 ^ 22 * Second"
    and "instants_ok (now_ms (clock (view (db w)))) (go_div window Millisecond) (zsets (view (db w)) (RateLimitKey scope u))"
    and "\<forall>sc\<in>ran (zsets (view (db w)) (RateLimitKey scope u)). sc \<le> now_ms (clock (view (db w)))"
    and "slots_used (now_ms (clock (view (db w)))) (go_div window Millisecond) (zsets (view (db w)) (RateLimitKey scope u)) \<le> limit"
    and "Allow R m scope u limit window w = (Inr d, w1)" "\<not> Allowed d"
    and "zsets (view (db w2)) (RateLimitKey scope u) \<subseteq>\<^sub>m zsets (view (db w1)) (RateLimitKey scope u)"
    and "now_ms (clock (view (db w))) + 1000 * retry_after (RetryAfter d) \<le> now_ms (clock (view (db w2)))"
    and "instants_ok (now_ms (clock (view (db w2)))) (go_div window Millisecond) (zsets (view (db w2)) (RateLimitKey scope u))"
  shows "\<exists>d2 w3. Allow R m2 scope u limit window w2 = (Inr d2, w3) \<and> Allowed d2"
  by (rule redis_server.refused_then_let_in [OF assms])

definition demo_busy :: "int \<Rightarrow> mem world" where
  "demo_busy t = \<lparr>db = demo\<lparr>m_zsets := [(RateLimitKey ''auth'' ''9.9.9.9'', [(''m0'', 2000)])], m_clock := (t, 0)\<rparr>, turns = []\<rparr>"

lemma demo_busy_run:
  "fst (Allow mem_redis ''m1'' ''auth'' ''9.9.9.9'' 1 10000000000 (demo_busy 3))
     = Inr \<lparr>Allowed = False, Remaining = 0, RetryAfter = 9000000000, Member = [], ResetAt = 12000\<rparr>"
  "m_zsets (db (snd (Allow mem_redis ''m1'' ''auth'' ''9.9.9.9'' 1 10000000000 (demo_busy 3)))) = m_zsets (db (demo_busy 3))"
  "retry_after 9000000000 = 9" "go_div 10000000000 Millisecond = 10000"
  by code_simp+

theorem retry_after_suffices_witness:
  "\<exists>d2 w3. Allow mem_redis ''m2'' ''auth'' ''9.9.9.9'' 1 10000000000 (demo_busy 12) = (Inr d2, w3) \<and> Allowed d2"
proof -
  let ?r = "Allow mem_redis ''m1'' ''auth'' ''9.9.9.9'' 1 10000000000 (demo_busy 3)"
  let ?z = "[''m0'' \<mapsto> 2000 :: int]" and ?k = "RateLimitKey ''auth'' ''9.9.9.9''"
  have z: "zsets (mem_view (db (demo_busy t))) ?k = ?z" "now_ms (clock (mem_view (db (demo_busy t)))) = t * 1000" "turns (demo_busy t) = []" for t
    by (simp_all add: demo_busy_def slot_def now_ms_def)
  have z1: "zsets (mem_view (db (snd ?r))) ?k = ?z"
    using demo_busy_run(2) by (simp add: slot_def demo_busy_def)
  have "dom (young 3000 10000 ?z) = {''m0''}" by (auto simp: young_def drop_range_def split: if_splits)
  then have used: "slots_used 3000 10000 ?z = 1" by (simp add: slots_used_def)
  have ok: "instants_ok 3000 10000 ?z" "instants_ok 12000 10000 ?z" by (auto simp: instants_ok_def)
  have r: "?r = (Inr \<lparr>Allowed = False, Remaining = 0, RetryAfter = 9000000000, Member = [], ResetAt = 12000\<rparr>, snd ?r)"
    by (simp add: prod_eq_iff demo_busy_run(1))
  show ?thesis
    by (rule retry_after_suffices [OF mem.redis_server_axioms _ _ _ _ _ _ _ _ _ r, of "demo_busy 12"])
      (use ok used in \<open>simp_all add: z z1 demo_busy_run Second_def ran_def del: mem_view_sel\<close>)
qed

end
