(* ===== verification/Metrics.thy ===== *)
theory Metrics
  imports Golang "HOL-Library.Char_ord" "HOL-Library.List_Lexorder"
begin

text \<open>
  \<open>internal/metrics\<close>: the fixed-bucket latency histogram (\<open>histogram.go\<close>) and the registry that
  renders histograms and counters as text (\<open>registry.go\<close>). Counts are 64-bit and wrap, durations are
  nanoseconds, quantiles are \<open>float64\<close> numbers. A metric is held by its name, which stands for
  the pointer.
\<close>

section \<open>Histograms\<close>

definition u64 :: "int \<Rightarrow> int" where
  "u64 n = n mod 2 ^ 64"

definition Bounds :: "int list" where
  "Bounds = [500000, 1000000, 2000000, 5000000, 10000000, 15000000, 20000000, 30000000, 50000000, 100000000,
     250000000, 500000000, 1000000000]"

definition OverTopBucket :: int where "OverTopBucket = - 1"

record histogram =
  Buckets :: "int list"
  HistCount :: int
  SumNanos :: int

definition NewHistogram :: histogram where
  "NewHistogram = \<lparr>Buckets = replicate (length Bounds + 1) 0, HistCount = 0, SumNanos = 0\<rparr>"

text \<open>\<open>sort.Search\<close> between \<open>i\<close> and \<open>j\<close>.\<close>

function search :: "(nat \<Rightarrow> bool) \<Rightarrow> nat \<Rightarrow> nat \<Rightarrow> nat" where
  "search f i j = (if j \<le> i then i
     else let h = (i + j) div 2 in if \<not> f h then search f (h + 1) j else search f i h)"
  by pat_completeness auto
termination by (relation "measure (\<lambda>(_, i, j). j - i)") auto

declare search.simps [simp del]

definition bucket_of :: "int \<Rightarrow> nat" where
  "bucket_of d = search (\<lambda>i. Bounds ! i \<ge> d) 0 (length Bounds)"

definition HistObserve :: "histogram \<Rightarrow> int \<Rightarrow> histogram" where
  "HistObserve h d = (if d < 0 then h
     else \<lparr>Buckets = (Buckets h)[bucket_of d := u64 (Buckets h ! bucket_of d + 1)],
           HistCount = u64 (HistCount h + 1), SumNanos = u64 (SumNanos h + d)\<rparr>)"

text \<open>The loop over the buckets; no bound is left for the last.\<close>

fun scan_buckets :: "int \<Rightarrow> int \<Rightarrow> int list \<Rightarrow> int list \<Rightarrow> int \<times> bool" where
  "scan_buckets target cum [] bounds = (0, False)"
| "scan_buckets target cum (b # bs) bounds =
     (if u64 (cum + b) \<ge> target then (case bounds of [] \<Rightarrow> OverTopBucket | x # _ \<Rightarrow> x, True)
      else scan_buckets target (u64 (cum + b)) bs (tl bounds))"

definition Quantile :: "histogram \<Rightarrow> rat \<Rightarrow> int \<times> bool" where
  "Quantile h q = (if HistCount h = 0 then (0, False)
     else scan_buckets (u64 \<lceil>f64 (q * f64 (of_int (HistCount h)))\<rceil>) 0 (Buckets h) Bounds)"

definition Sum :: "histogram \<Rightarrow> int" where
  "Sum h = i64 (SumNanos h)"

section \<open>The registry\<close>

record registry =
  Histograms :: "(string \<times> histogram) list"
  Counters :: "(string \<times> int) list"

definition NewRegistry :: registry where
  "NewRegistry = \<lparr>Histograms = [], Counters = []\<rparr>"

definition Histogram :: "string \<Rightarrow> registry \<Rightarrow> registry" where
  "Histogram name r = (if name \<in> fst ` set (Histograms r) then r
     else r\<lparr>Histograms := (name, NewHistogram) # Histograms r\<rparr>)"

definition Counter :: "string \<Rightarrow> registry \<Rightarrow> registry" where
  "Counter name r = (if name \<in> fst ` set (Counters r) then r else r\<lparr>Counters := (name, 0) # Counters r\<rparr>)"

definition Inc :: "string \<Rightarrow> registry \<Rightarrow> registry" where
  "Inc name r = r\<lparr>Counters := map (\<lambda>(n, v). if n = name then (n, u64 (v + 1)) else (n, v)) (Counters r)\<rparr>"

definition quantileMillis :: "int \<Rightarrow> int" where
  "quantileMillis d = (if d = OverTopBucket then - 1 else go_div d 1000000)"

definition histogram_lines :: "string \<times> histogram \<Rightarrow> string list" where
  "histogram_lines m = (case m of (name, h) \<Rightarrow>
     [''callit_'' @ name @ ''_count '' @ itoa (HistCount h),
      ''callit_'' @ name @ ''_p50_ms '' @ itoa (quantileMillis (fst (Quantile h (f64 (1 / 2))))),
      ''callit_'' @ name @ ''_p99_ms '' @ itoa (quantileMillis (fst (Quantile h (f64 (99 / 100))))),
      ''callit_'' @ name @ ''_sum_ms '' @ itoa (go_div (Sum h) 1000000)])"

definition counter_line :: "string \<times> int \<Rightarrow> string" where
  "counter_line m = (case m of (name, v) \<Rightarrow> ''callit_'' @ name @ '' '' @ itoa v)"

definition Render :: "registry \<Rightarrow> string" where
  "Render r = concat (map (\<lambda>l. l @ [CHR 0x0A])
     (sort (concat (map histogram_lines (Histograms r)) @ map counter_line (Counters r))))"

end
