(* ===== verification/MetricsSpec.thy ===== *)
theory MetricsSpec
  imports Metrics Floats
begin

text \<open>What a reported quantile says of the samples.\<close>

section \<open>The bucket of a sample\<close>

lemma search_least:
  assumes "\<And>a b. a \<le> b \<Longrightarrow> b < n \<Longrightarrow> f a \<Longrightarrow> f b"
  shows "i \<le> j \<Longrightarrow> j \<le> n \<Longrightarrow> \<forall>k<i. \<not> f k \<Longrightarrow> j < n \<longrightarrow> f j \<Longrightarrow>
    search f i j \<le> n \<and> (\<forall>k<search f i j. \<not> f k) \<and> (search f i j < n \<longrightarrow> f (search f i j))"
proof (induction "j - i" arbitrary: i j rule: less_induct)
  case less
  show ?case
  proof (cases "j \<le> i")
    case True
    then have "search f i j = i" by (subst search.simps) simp
    with True less.prems show ?thesis by auto
  next
    case False
    define h where "h = (i + j) div 2"
    with False have h: "i \<le> h" "h < j" by auto
    show ?thesis
    proof (cases "f h")
      case True
      with less.hyps [of h i] less.prems h show ?thesis by (simp add: search.simps [of f i j] Let_def flip: h_def)
    next
      case False': False
      have "\<forall>k<h + 1. \<not> f k"
      proof (intro allI impI notI)
        fix k assume "k < h + 1" "f k"
        with assms [of k h] h less.prems(2) False' show False by auto
      qed
      with less.hyps [of j "h + 1"] less.prems h False' show ?thesis
        by (simp add: search.simps [of f i j] Let_def flip: h_def)
    qed
  qed
qed

lemma Bounds_sorted: "i \<le> j \<Longrightarrow> j < length Bounds \<Longrightarrow> Bounds ! i \<le> Bounds ! j"
proof -
  have "sorted Bounds" by (simp add: Bounds_def)
  then show "i \<le> j \<Longrightarrow> j < length Bounds \<Longrightarrow> Bounds ! i \<le> Bounds ! j" by (rule sorted_nth_mono)
qed

lemma bucket_of_le: "bucket_of d \<le> length Bounds"
  and bucket_of_iff: "i < length Bounds \<Longrightarrow> bucket_of d \<le> i \<longleftrightarrow> d \<le> Bounds ! i"
proof -
  have mono: "\<And>a b. a \<le> b \<Longrightarrow> b < length Bounds \<Longrightarrow> d \<le> Bounds ! a \<Longrightarrow> d \<le> Bounds ! b" using Bounds_sorted order_trans by blast
  have s: "bucket_of d \<le> length Bounds" "\<forall>k<bucket_of d. \<not> d \<le> Bounds ! k"
    "bucket_of d < length Bounds \<longrightarrow> d \<le> Bounds ! bucket_of d"
    using search_least [where f = "\<lambda>i. Bounds ! i \<ge> d" and n = "length Bounds" and i = 0 and j = "length Bounds"] mono
    by (simp_all add: bucket_of_def)
  show "bucket_of d \<le> length Bounds" using s by simp
  assume i: "i < length Bounds"
  show "bucket_of d \<le> i \<longleftrightarrow> d \<le> Bounds ! i"
  proof
    assume "bucket_of d \<le> i"
    with s i mono [of "bucket_of d" i] show "d \<le> Bounds ! i" by auto
  next
    assume "d \<le> Bounds ! i"
    with s(2) show "bucket_of d \<le> i" using not_le by blast
  qed
qed

section \<open>What a histogram holds\<close>

definition in_bucket :: "int list \<Rightarrow> nat \<Rightarrow> int" where
  "in_bucket ns i = int (length (filter (\<lambda>d. bucket_of d = i) ns))"

definition up_to :: "int list \<Rightarrow> nat \<Rightarrow> int" where
  "up_to ns i = int (length (filter (\<lambda>d. bucket_of d < i) ns))"

definition observed :: "int list \<Rightarrow> histogram" where
  "observed ds = foldl HistObserve NewHistogram ds"

lemma up_to_Suc: "up_to ns (Suc i) = up_to ns i + in_bucket ns i"
  by (induction ns) (auto simp: up_to_def in_bucket_def less_Suc_eq)

lemma up_to_le: "up_to ns i \<le> int (length ns)" "0 \<le> up_to ns i" "0 \<le> in_bucket ns i"
  by (simp_all add: up_to_def in_bucket_def)

lemma observed_holds:
  "int (length ds) < 2 ^ 64 \<Longrightarrow> Buckets (observed ds) = map (in_bucket (filter (\<lambda>d. 0 \<le> d) ds)) [0..<Suc (length Bounds)]
     \<and> HistCount (observed ds) = int (length (filter (\<lambda>d. 0 \<le> d) ds))"
proof (induction ds rule: rev_induct)
  case Nil
  have "map (in_bucket []) [0..<Suc (length Bounds)] = replicate (length Bounds + 1) 0"
    by (rule nth_equalityI) (auto simp: in_bucket_def simp del: upt_Suc replicate_Suc)
  then show ?case by (simp add: observed_def NewHistogram_def del: upt_Suc)
next
  case (snoc d ds)
  let ?ns = "filter (\<lambda>d. 0 \<le> d) ds" and ?i = "bucket_of d"
  show ?case
  proof (cases "d < 0")
    case True
    with snoc show ?thesis by (simp add: observed_def HistObserve_def del: upt_Suc)
  next
    case False
    have len: "length ?ns \<le> length ds" by simp
    have i: "?i < Suc (length Bounds)" using bucket_of_le [of d] by simp
    have len2: "length (filter (\<lambda>d'. bucket_of d' = ?i) ?ns) \<le> length ds" by (rule le_trans [OF length_filter_le len])
    have "int (length ds) < 2 ^ 64 - 1" using snoc.prems by simp
    with len len2 have "int (length (filter (\<lambda>d'. bucket_of d' = ?i) ?ns)) < 2 ^ 64 - 1" "int (length ?ns) < 2 ^ 64 - 1"
      by linarith+
    then have u: "u64 (int (length ?ns) + 1) = int (length ?ns) + 1" "u64 (in_bucket ?ns ?i + 1) = in_bucket ?ns ?i + 1"
      by (simp_all add: u64_def in_bucket_def)
    have ih: "Buckets (observed ds) = map (in_bucket ?ns) [0..<Suc (length Bounds)]" "HistCount (observed ds) = int (length ?ns)"
      using snoc by simp_all
    have nth: "map (in_bucket ?ns) [0..<Suc (length Bounds)] ! ?i = in_bucket ?ns ?i" using i by (simp del: upt_Suc)
    have "(map (in_bucket ?ns) [0..<Suc (length Bounds)])[?i := in_bucket ?ns ?i + 1]
        = map (in_bucket (?ns @ [d])) [0..<Suc (length Bounds)]"
      by (rule nth_equalityI) (auto simp: in_bucket_def nth_list_update simp del: upt_Suc)
    with False ih u nth show ?thesis by (simp add: observed_def HistObserve_def del: upt_Suc)
  qed
qed

section \<open>The loop\<close>

lemma scan_finds:
  assumes "j \<le> length Bounds" "up_to ns j < t" "t \<le> int (length ns)" "int (length ns) < 2 ^ 64"
  shows "\<exists>i. j \<le> i \<and> i \<le> length Bounds
    \<and> scan_buckets t (up_to ns j) (map (in_bucket ns) [j..<Suc (length Bounds)]) (drop j Bounds)
      = (if i = length Bounds then OverTopBucket else Bounds ! i, True)
    \<and> t \<le> up_to ns (Suc i) \<and> up_to ns i < t"
  using assms(1,2)
proof (induction "length Bounds - j" arbitrary: j)
  case 0
  then have j: "j = length Bounds" by simp
  have "up_to ns (Suc j) = int (length ns)" using bucket_of_le by (simp add: up_to_def j less_Suc_eq_le)
  with assms 0 show ?case
    by (intro exI [of _ j]) (simp add: j up_to_Suc [symmetric] u64_def)
next
  case (Suc k)
  then have j: "j < length Bounds" by simp
  then have up: "[j..<Suc (length Bounds)] = j # [Suc j..<Suc (length Bounds)]" "drop j Bounds = Bounds ! j # drop (Suc j) Bounds"
    by (simp_all add: upt_conv_Cons Cons_nth_drop_Suc)
  have u: "u64 (up_to ns (Suc j)) = up_to ns (Suc j)" using up_to_le [of ns "Suc j"] assms(4) by (simp add: u64_def)
  show ?case
  proof (cases "t \<le> up_to ns (Suc j)")
    case True
    with j Suc.prems show ?thesis
      by (intro exI [of _ j]) (simp add: up u up_to_Suc [symmetric] del: upt_Suc)
  next
    case False
    moreover have "k = length Bounds - Suc j" using Suc.hyps(2) by simp
    ultimately obtain i where "Suc j \<le> i" "i \<le> length Bounds"
      "scan_buckets t (up_to ns (Suc j)) (map (in_bucket ns) [Suc j..<Suc (length Bounds)]) (drop (Suc j) Bounds)
        = (if i = length Bounds then OverTopBucket else Bounds ! i, True)" "t \<le> up_to ns (Suc i)" "up_to ns i < t"
      using Suc.hyps(1) [of "Suc j"] j by (meson Suc_leI leI)
    with False show ?thesis
      by (intro exI [of _ i]) (simp add: up u up_to_Suc [symmetric] del: upt_Suc)
  qed
qed

section \<open>The rank\<close>

text \<open>A \<open>float64\<close> at most \<open>2 ^ - 53\<close> below a whole number of hundredths ranks as that number does.\<close>

lemma rank_exact:
  assumes n: "0 < n" "n < 2 ^ 45" and p: "0 < p" "p \<le> 100"
    and q: "q \<le> of_int p / 100" "of_int p / 100 - 1 / 2 ^ 53 \<le> q" "0 < q"
  shows "\<lceil>f64 (q * f64 (of_int n))\<rceil> = - ((- (p * n)) div 100)"
proof -
  define m where "m = - ((- (p * n)) div 100)"
  have m: "p * n \<le> 100 * m" "100 * (m - 1) < p * n" by (simp_all add: m_def)
  have m': "(of_int p * of_int n :: rat) \<le> 100 * of_int m" "100 * (of_int m - 1) + 1 \<le> (of_int p * of_int n :: rat)"
  proof -
    have "(of_int (p * n) :: rat) \<le> of_int (100 * m)" using m(1) by (simp only: of_int_le_iff)
    then show "(of_int p * of_int n :: rat) \<le> 100 * of_int m" by simp
    have "(of_int (100 * (m - 1) + 1) :: rat) \<le> of_int (p * n)" using m(2) by (simp only: of_int_le_iff)
    then show "100 * (of_int m - 1) + 1 \<le> (of_int p * of_int n :: rat)" by simp
  qed
  have n': "(0::rat) < of_int n" "(of_int n :: rat) \<le> 2 ^ 45"
  proof -
    show "(0::rat) < of_int n" using n(1) by simp
    have "(of_int n :: rat) \<le> of_int (2 ^ 45)" using n(2) by (simp only: of_int_le_iff)
    then show "(of_int n :: rat) \<le> 2 ^ 45" by simp
  qed
  have fn: "f64 (of_int n) = of_int n" using n by (simp add: f64_def f64_pos_int)
  define x where "x = q * of_int n"
  have "q * of_int n \<le> (of_int p / 100) * of_int n" using q(1) n'(1) by (intro mult_right_mono) auto
  then have x1: "x \<le> of_int m" using m'(1) by (simp add: x_def)
  have "(of_int p / 100 - 1 / 2 ^ 53) * of_int n \<le> q * of_int n" using q(2) n'(1) by (intro mult_right_mono) auto
  then have x2: "of_int m - 1 + 1 / 2 ^ 8 \<le> x" using m'(2) n'(2) by (simp add: x_def left_diff_distrib)
  have x0: "0 < x" using q(3) n'(1) by (simp add: x_def)
  have pn: "(of_int p * of_int n :: rat) \<le> 100 * of_int n" using p(2) n'(1) by simp
  have x3: "x < 2 powi (- 8 + 53)"
  proof -
    have "q \<le> 1" using q(1) p(2) by (simp add: order_trans)
    then have "x \<le> of_int n" using n'(1) by (simp add: x_def)
    moreover have "(of_int n :: rat) < 2 ^ 45"
    proof -
      have "(of_int n :: rat) < of_int (2 ^ 45)" using n(2) by (simp only: of_int_less_iff)
      then show ?thesis by simp
    qed
    ultimately show ?thesis by (simp add: power_int_numeral)
  qed
  have g: "(2::rat) powi (- 8) = 1 / 2 ^ 8" by (simp add: power_int_minus field_simps)
  have k: "of_int ((m - 1) * 2 ^ 8 + 1) * (2::rat) powi (- 8) = of_int m - 1 + 1 / 2 ^ 8" "of_int (m * 2 ^ 8) * (2::rat) powi (- 8) = of_int m"
    by (simp_all add: g field_simps)
  note grid = f64_pos_grid [OF x0 x3]
  have "of_int m - 1 + 1 / 2 ^ 8 \<le> f64 x" using grid(1) [of "(m - 1) * 2 ^ 8 + 1"] x2 x0 by (simp add: k(1) f64_def)
  moreover have "f64 x \<le> of_int m" using grid(2) [of "m * 2 ^ 8"] x1 x0 by (simp add: k(2) f64_def)
  ultimately have "\<lceil>f64 x\<rceil> = m" by (intro ceiling_unique) auto
  then show ?thesis by (simp add: fn x_def m_def)
qed

lemma quantile_constants:
  "f64 (1 / 2) = 1 / 2" "f64 (99 / 100) \<le> 99 / 100" "99 / 100 - 1 / 2 ^ 53 \<le> f64 (99 / 100)" "0 < f64 (99 / 100)"
proof -
  have "f64 (1 / 2) = 1 / 2 \<and> f64 (99 / 100) = 4458563631096791 / 4503599627370496" by code_simp
  then show "f64 (1 / 2) = 1 / 2" "f64 (99 / 100) \<le> 99 / 100" "99 / 100 - 1 / 2 ^ 53 \<le> f64 (99 / 100)" "0 < f64 (99 / 100)"
    by simp_all
qed

section \<open>Properties\<close>

text \<open>
  C38. The reported latencies can be trusted. For the median and the 99th percentile that the
  registry renders, with the quantile a rounded \<open>float64\<close>: after any samples (fewer than 2^45, and
  negative ones are dropped) the bound that \<open>Quantile\<close> returns has at least that share of the
  samples at or below it, and the next smaller bound has not; the overflow mark is returned
  exactly when no bound has.
\<close>

theorem quantile_is_bound:
  assumes "ns = filter (\<lambda>d. 0 \<le> d) ds" "ns \<noteq> []" "length ds < 2 ^ 45"
    and "(q, p) = (f64 (1 / 2), 50) \<or> (q, p) = (f64 (99 / 100), 99)"
  shows "\<exists>i \<le> length Bounds. Quantile (foldl HistObserve NewHistogram ds) q
      = (if i = length Bounds then OverTopBucket else Bounds ! i, True)
    \<and> (i < length Bounds \<longrightarrow> p * length ns \<le> 100 * length (filter (\<lambda>d. d \<le> Bounds ! i) ns))
    \<and> (0 < i \<longrightarrow> 100 * length (filter (\<lambda>d. d \<le> Bounds ! (i - 1)) ns) < p * length ns)"
proof -
  let ?n = "int (length ns)" and ?P = "int p"
  have "length ns \<le> length ds" using assms(1) by simp
  with assms(2,3) have n: "0 < ?n" "?n < 2 ^ 45" "int (length ds) < 2 ^ 64" by auto
  have q: "q \<le> of_int ?P / 100" "of_int ?P / 100 - 1 / 2 ^ 53 \<le> q" "0 < q" "0 < ?P" "?P \<le> 100"
    using assms(4) quantile_constants by auto
  define t where "t = - ((- (?P * ?n)) div 100)"
  have t: "?P * ?n \<le> 100 * t" "100 * (t - 1) < ?P * ?n" by (simp_all add: t_def)
  have pn: "0 < ?P * ?n" "?P * ?n \<le> 100 * ?n" using n(1) q(4,5) by (simp_all only: zero_less_mult_iff mult_right_mono less_imp_le simp_thms)
  have t': "0 < t" "t \<le> ?n"
  proof -
    have "0 < 100 * t" "100 * (t - 1) < 100 * ?n" by (rule less_le_trans [OF pn(1) t(1)], rule less_le_trans [OF t(2) pn(2)])
    then show "0 < t" "t \<le> ?n" by simp_all
  qed
  have "u64 t = t" using t' n(2) by (simp add: u64_def)
  then have run: "Quantile (foldl HistObserve NewHistogram ds) q
      = scan_buckets t (up_to ns 0) (map (in_bucket ns) [0..<Suc (length Bounds)]) (drop 0 Bounds)"
    using observed_holds [OF n(3)] rank_exact [OF n(1,2) q(4,5,1,2,3)] n(1)
    by (simp add: Quantile_def assms(1) up_to_def observed_def t_def del: upt_Suc)
  obtain i where i: "i \<le> length Bounds" "scan_buckets t (up_to ns 0) (map (in_bucket ns) [0..<Suc (length Bounds)]) (drop 0 Bounds)
      = (if i = length Bounds then OverTopBucket else Bounds ! i, True)" "t \<le> up_to ns (Suc i)" "up_to ns i < t"
    using scan_finds [of 0 ns t] t' n(2) by (auto simp: up_to_def)
  have cnt: "up_to ns (Suc j) = int (length (filter (\<lambda>d. d \<le> Bounds ! j) ns))" if "j < length Bounds" for j
    using bucket_of_iff [OF that] by (simp add: up_to_def less_Suc_eq_le)
  have "p * length ns \<le> 100 * length (filter (\<lambda>d. d \<le> Bounds ! i) ns)" if "i < length Bounds"
  proof -
    have "int (p * length ns) \<le> int (100 * length (filter (\<lambda>d. d \<le> Bounds ! i) ns))"
      using t(1) i(3) cnt [OF that] by (simp only: of_nat_mult)
    then show ?thesis by (simp only: of_nat_le_iff)
  qed
  moreover have "100 * length (filter (\<lambda>d. d \<le> Bounds ! (i - 1)) ns) < p * length ns" if "0 < i"
  proof -
    have "up_to ns i = int (length (filter (\<lambda>d. d \<le> Bounds ! (i - 1)) ns))" using cnt [of "i - 1"] that i(1) by simp
    with i(4) have "100 * int (length (filter (\<lambda>d. d \<le> Bounds ! (i - 1)) ns)) \<le> 100 * (t - 1)" by simp
    then have "100 * int (length (filter (\<lambda>d. d \<le> Bounds ! (i - 1)) ns)) < ?P * ?n" by (rule le_less_trans [OF _ t(2)])
    then have "int (100 * length (filter (\<lambda>d. d \<le> Bounds ! (i - 1)) ns)) < int (p * length ns)"
      by (simp only: of_nat_mult of_nat_numeral)
    then show ?thesis by (simp only: of_nat_less_iff)
  qed
  ultimately show ?thesis by (intro exI [of _ i] conjI impI) (rule i(1), rule trans [OF run i(2)], assumption+)
qed

theorem quantile_is_bound_witness:
  "\<exists>i \<le> length Bounds. Quantile (foldl HistObserve NewHistogram [3000000, - 7, 400000]) (f64 (1 / 2))
      = (if i = length Bounds then OverTopBucket else Bounds ! i, True)
    \<and> (i < length Bounds \<longrightarrow> 50 * 2 \<le> 100 * length (filter (\<lambda>d. d \<le> Bounds ! i) [3000000, 400000]))
    \<and> (0 < i \<longrightarrow> 100 * length (filter (\<lambda>d. d \<le> Bounds ! (i - 1)) [3000000, 400000]) < 50 * 2)"
  using quantile_is_bound [of "[3000000, 400000]" "[3000000, - 7, 400000]" "f64 (1 / 2)" 50] by simp

end
