(* ===== verification/Toolchain.thy ===== *)
theory Toolchain
  imports Json
begin

text \<open>
  What the code uses of \<open>strings\<close> to take lines apart, and \<open>internal/toolchain\<close>
  (\<open>toolchain.go\<close>): the parsers of the Go version pins of \<open>go.mod\<close> and of the workflows.
\<close>

section \<open>Splitting\<close>

text \<open>\<open>strings.Split\<close> with a separator of one byte, and \<open>strings.SplitN\<close> with at most \<open>n\<close> pieces.\<close>

fun Split :: "char \<Rightarrow> string \<Rightarrow> string list" where
  "Split sep [] = [[]]"
| "Split sep (c # s) = (if c = sep then [] # Split sep s else (c # hd (Split sep s)) # tl (Split sep s))"

fun SplitN :: "char \<Rightarrow> nat \<Rightarrow> string \<Rightarrow> string list" where
  "SplitN sep 0 s = []"
| "SplitN sep (Suc n) s =
     (if n = 0 \<or> sep \<notin> set s then [s]
      else takeWhile (\<lambda>c. c \<noteq> sep) s # SplitN sep n (tl (dropWhile (\<lambda>c. c \<noteq> sep) s)))"

definition word_done :: "string \<Rightarrow> string list" where
  "word_done cur = (if cur = [] then [] else [cur])"

text \<open>\<open>strings.Fields\<close>: the words between runs of white space, \<open>cur\<close> the word being read.\<close>

function fields_from :: "string \<Rightarrow> string \<Rightarrow> string list" where
  "fields_from cur [] = word_done cur"
| "fields_from cur (c # s) = (case find (\<lambda>w. is_prefix w (c # s)) space_runes of
       None \<Rightarrow> fields_from (cur @ [c]) s
     | Some w \<Rightarrow> word_done cur @ fields_from [] (drop (length w - 1) s))"
  by pat_completeness auto
termination by (relation "measure (\<lambda>(cur, s). length s)") auto

definition Fields :: "string \<Rightarrow> string list" where
  "Fields s = fields_from [] s"

fun StringsIndex :: "string \<Rightarrow> string \<Rightarrow> nat option" where
  "StringsIndex sub [] = (if sub = [] then Some 0 else None)"
| "StringsIndex sub (c # s) = (if is_prefix sub (c # s) then Some 0 else map_option Suc (StringsIndex sub s))"

definition TrimPrefix :: "string \<Rightarrow> string \<Rightarrow> string" where
  "TrimPrefix s p = (if is_prefix p s then drop (length p) s else s)"

text \<open>\<open>strings.Trim\<close> with a cutset of ASCII characters.\<close>

definition Trim :: "string \<Rightarrow> string \<Rightarrow> string" where
  "Trim s cutset = rev (dropWhile (\<lambda>c. c \<in> set cutset) (rev (dropWhile (\<lambda>c. c \<in> set cutset) s)))"

section \<open>The parsers\<close>

definition MinGo :: string where
  "MinGo = ''1.26''"

text \<open>One line of \<open>go.mod\<close>: its version when it is the directive.\<close>

definition go_line :: "string \<Rightarrow> string option" where
  "go_line line =
     (let trimmed = TrimSpace line
      in if trimmed = [] \<or> is_prefix ''//'' trimmed then None
         else (let trimmed = (case StringsIndex ''//'' trimmed of Some idx \<Rightarrow> TrimSpace (take idx trimmed) | None \<Rightarrow> trimmed);
                   fields = Fields trimmed
               in if 2 \<le> length fields \<and> fields ! 0 = ''go'' then Some (fields ! 1) else None))"

fun first_some :: "('a \<Rightarrow> 'b option) \<Rightarrow> 'a list \<Rightarrow> 'b option" where
  "first_some f [] = None"
| "first_some f (x # xs) = (case f x of Some y \<Rightarrow> Some y | None \<Rightarrow> first_some f xs)"

definition newline :: char where
  "newline = char_of (10 :: nat)"

definition ParseGoDirective :: "string \<Rightarrow> string + string" where
  "ParseGoDirective gomod = (case first_some go_line (Split newline gomod) of
       Some v \<Rightarrow> Inr v
     | None \<Rightarrow> Inl ''no go directive found'')"

definition pin_line :: "string \<Rightarrow> string option" where
  "pin_line line =
     (let trimmed = TrimPrefix (TrimSpace line) ''- ''
      in if \<not> is_prefix ''go-version:'' trimmed then None
         else (let v = TrimSpace (TrimPrefix trimmed ''go-version:'');
                   v = (case StringsIndex ''#'' v of Some idx \<Rightarrow> TrimSpace (take idx v) | None \<Rightarrow> v)
               in Some (Trim v [CHR 0x22, CHR 0x27])))"

definition ParseCIPin :: "string \<Rightarrow> string + string list" where
  "ParseCIPin workflow =
     (let pins = List.map_filter pin_line (Split newline workflow)
      in if pins = [] then Inl ''no go-version pin found'' else Inr pins)"

definition MajorMinor :: "string \<Rightarrow> string" where
  "MajorMinor version =
     (let parts = SplitN CHR ''.'' 3 version
      in if length parts < 2 then version else parts ! 0 @ ''.'' @ parts ! 1)"

section \<open>Lemmas on splitting\<close>

lemma Split_nonempty [simp]: "Split sep s \<noteq> []"
  by (cases s) auto

lemma Split_append: "sep \<notin> set a \<Longrightarrow> Split sep (a @ sep # s) = a # Split sep s"
  by (induction a) auto

lemma Split_single: "sep \<notin> set a \<Longrightarrow> Split sep a = [a]"
  by (induction a) auto

text \<open>Splitting is undone by joining with the separator.\<close>

fun join_with :: "char \<Rightarrow> string list \<Rightarrow> string" where
  "join_with sep [] = []"
| "join_with sep [x] = x"
| "join_with sep (x # y # ys) = x @ sep # join_with sep (y # ys)"

lemma join_with_Cons: "ys \<noteq> [] \<Longrightarrow> join_with sep (x # ys) = x @ sep # join_with sep ys"
  by (cases ys) auto

lemma Split_spec: "join_with sep (Split sep s) = s \<and> (\<forall>x\<in>set (Split sep s). sep \<notin> set x)"
proof (induction s)
  case (Cons c s)
  obtain y ys where y: "Split sep s = y # ys" by (cases "Split sep s") auto
  with Cons show ?case by (cases ys) (auto simp: join_with_Cons)
qed simp

lemma Split_join: "xs \<noteq> [] \<Longrightarrow> \<forall>x\<in>set xs. sep \<notin> set x \<Longrightarrow> Split sep (join_with sep xs) = xs"
proof (induction xs)
  case (Cons x xs)
  then show ?case by (cases xs) (auto simp: Split_single Split_append join_with_Cons)
qed simp

lemma SplitN_spec: "join_with sep (SplitN sep (Suc n) s) = s \<and> SplitN sep (Suc n) s \<noteq> [] \<and> length (SplitN sep (Suc n) s) \<le> Suc n"
proof (induction n arbitrary: s)
  case (Suc n)
  show ?case
  proof (cases "sep \<in> set s")
    case True
    then obtain a b where ab: "s = a @ sep # b" "sep \<notin> set a" by (meson split_list_first)
    then have "takeWhile (\<lambda>c. c \<noteq> sep) s = a" "dropWhile (\<lambda>c. c \<noteq> sep) s = sep # b"
      by (auto simp: takeWhile_append dropWhile_append)
    with Suc [of b] ab True show ?thesis by (auto simp: join_with_Cons)
  qed simp
qed simp

text \<open>The version a pin names survives: the part kept of \<open>a.b\<close> or \<open>a.b.rest\<close> is \<open>a.b\<close>.\<close>

lemma MajorMinor_eq:
  assumes "CHR ''.'' \<notin> set a" "CHR ''.'' \<notin> set b"
  shows "MajorMinor (a @ CHR ''.'' # b) = a @ CHR ''.'' # b" "MajorMinor (a @ CHR ''.'' # b @ CHR ''.'' # s) = a @ CHR ''.'' # b"
    "MajorMinor a = a"
  using assms by (auto simp: MajorMinor_def Let_def numeral_3_eq_3 takeWhile_append dropWhile_append takeWhile_eq_all_conv)

end
