(* ===== verification/Cli.thy ===== *)
theory Cli
  imports Toolchain HttpApi
begin

text \<open>
  \<open>cmd/callit-cli\<close> (\<open>main.go\<close>): the demo client. A line of its input becomes a message of the
  socket; before that a host registers and creates a room over HTTP, a guest joins one. The
  connection's \<open>WriteMessage\<close>, the HTTP client with the building of its request, and the fresh
  idempotency keys are parameters; what is printed is not modelled, the errors printed are.
\<close>

section \<open>Commands\<close>

text \<open>
  The errors \<open>handleCommand\<close> returns and the ends of the process: a panic of the runtime, and an
  exit with a message.
\<close>

datatype cli_error =
    Usage string
  | BadNumber string
  | UnknownCommand string
  | NotWritten
  | IndexPanic
  | Fatal
  | ExitWith string

type_synonym ('w, 'a) cli = "('w, cli_error, 'a) eff"

definition sendEnvelope :: "(string \<Rightarrow> ('w, unit) cli) \<Rightarrow> string \<Rightarrow> json \<Rightarrow> ('w, unit) cli" where
  "sendEnvelope WriteMessage msgType v = WriteMessage (render (JObj [(''type'', JStr msgType), (''data'', v)]))"

definition round_command :: "(string \<Rightarrow> ('w, unit) cli) \<Rightarrow> string list \<Rightarrow> ('w, unit) cli" where
  "round_command WriteMessage args =
     (if length args < 2 then raise (Usage ''usage: round <question> | <outcome> | <outcome>'')
      else (let parts = map TrimSpace (Split CHR ''|'' (args ! 1)) in
        if length parts < 3 then raise (Usage ''need a question and at least 2 outcomes, separated by |'')
        else sendEnvelope WriteMessage ''create_round''
          (JObj [(''lock_in_ms'', JNum (itoa 30000)), (''outcomes'', JArr (map JStr (drop 1 parts))),
                 (''question'', JStr (parts ! 0))])))"

text \<open>Here the code takes the second part without looking whether it is there.\<close>

definition bet_command :: "(string \<Rightarrow> ('w, unit) cli) \<Rightarrow> string \<Rightarrow> string list \<Rightarrow> ('w, unit) cli" where
  "bet_command WriteMessage fresh args =
     (if length args < 2 then raise IndexPanic
      else (let parts = Fields (args ! 1) in
        if length parts \<noteq> 2 then raise (Usage ''usage: bet <outcome-index> <amount>'')
        else case ParseInt (parts ! 0) of None \<Rightarrow> raise (BadNumber (parts ! 0))
        | Some outcome \<Rightarrow> (case ParseInt (parts ! 1) of None \<Rightarrow> raise (BadNumber (parts ! 1))
          | Some amount \<Rightarrow> sendEnvelope WriteMessage ''place_wager''
              (JObj [(''amount'', JNum (itoa amount)), (''idempotency_key'', JStr fresh), (''outcome'', JNum (itoa outcome))]))))"

definition resolve_command :: "(string \<Rightarrow> ('w, unit) cli) \<Rightarrow> string list \<Rightarrow> ('w, unit) cli" where
  "resolve_command WriteMessage args =
     (let arg = TrimSpace (args ! (length args - 1)) in
      case ParseInt arg of None \<Rightarrow> raise (BadNumber arg)
      | Some outcome \<Rightarrow> sendEnvelope WriteMessage ''resolve_round'' (JObj [(''winning_outcome'', JNum (itoa outcome))]))"

definition handleCommand :: "(string \<Rightarrow> ('w, unit) cli) \<Rightarrow> string \<Rightarrow> string \<Rightarrow> ('w, unit) cli" where
  "handleCommand WriteMessage fresh line =
     (if line = [] then ret ()
      else (let args = SplitN CHR '' '' 2 line in
        if args ! 0 = ''round'' then round_command WriteMessage args
        else if args ! 0 = ''bet'' then bet_command WriteMessage fresh args
        else if args ! 0 = ''resolve'' then resolve_command WriteMessage args
        else raise (UnknownCommand (args ! 0))))"

text \<open>The loop over the lines, each with a fresh key, and the errors it prints; a panic ends it.\<close>

fun command_loop :: "(string \<Rightarrow> ('w, unit) cli) \<Rightarrow> (string \<times> string) list \<Rightarrow> ('w, cli_error list) cli" where
  "command_loop WriteMessage [] = ret []"
| "command_loop WriteMessage ((fresh, line) # rest) =
     attempt (handleCommand WriteMessage fresh (TrimSpace line)) (\<lambda>r. case r of
       Inr _ \<Rightarrow> command_loop WriteMessage rest
     | Inl e \<Rightarrow> if e = IndexPanic then raise e
         else andThen (command_loop WriteMessage rest) (\<lambda>es. ret (e # es)))"

section \<open>Entering a room\<close>

definition endpoints :: "string \<Rightarrow> bool \<Rightarrow> string \<times> string" where
  "endpoints addr secure = (if secure then (''https://'' @ addr, ''wss://'' @ addr) else (''http://'' @ addr, ''ws://'' @ addr))"

text \<open>A POST request: its URL, its Authorization header when there is a token, and its body.\<close>

record http_call =
  CallURL :: string
  CallAuth :: "string option"
  CallBody :: string

record api_reply =
  ReplyData :: "json option"
  ReplyError :: "(string \<times> string) option"

definition set_reply_error :: "string \<Rightarrow> json \<Rightarrow> string \<times> string \<Rightarrow> (string \<times> string) option" where
  "set_reply_error k v e = (case find_field [''code'', ''message''] k of
       None \<Rightarrow> Some e
     | Some f \<Rightarrow> if f = ''code'' then map_option (\<lambda>x. (x, snd e)) (into_string v (fst e))
         else map_option (\<lambda>x. (fst e, x)) (into_string v (snd e)))"

definition set_reply :: "string \<Rightarrow> json \<Rightarrow> api_reply \<Rightarrow> api_reply option" where
  "set_reply k v e = (case find_field [''data'', ''error''] k of
       None \<Rightarrow> Some e
     | Some f \<Rightarrow> if f = ''data'' then Some (e\<lparr>ReplyData := Some v\<rparr>)
         else if v = JNull then Some (e\<lparr>ReplyError := None\<rparr>)
         else map_option (\<lambda>x. e\<lparr>ReplyError := Some x\<rparr>)
           (into_struct set_reply_error v (case ReplyError e of None \<Rightarrow> ([], []) | Some x \<Rightarrow> x)))"

definition read_reply :: "string \<Rightarrow> api_reply option" where
  "read_reply text = Option.bind (first_value text) (\<lambda>v.
     if 10000 < depth v then None else into_struct set_reply v \<lparr>ReplyData = None, ReplyError = None\<rparr>)"

definition postJSON :: "(http_call \<Rightarrow> ('w, int \<times> string) cli) \<Rightarrow> string \<Rightarrow> string \<Rightarrow> json \<Rightarrow>
    (string \<Rightarrow> json \<Rightarrow> 'a \<Rightarrow> 'a option) \<Rightarrow> 'a \<Rightarrow> ('w, 'a) cli" where
  "postJSON Do url token body f out =
     andThen (Do \<lparr>CallURL = url, CallAuth = (if token \<noteq> [] then Some (''Bearer '' @ token) else None),
                   CallBody = render body\<rparr>) (\<lambda>(status, text).
     case read_reply text of None \<Rightarrow> raise Fatal
     | Some env \<Rightarrow>
         if 300 \<le> status then raise (ExitWith (case ReplyError env of
             Some (code, message) \<Rightarrow> code @ '': '' @ message | None \<Rightarrow> ''request failed''))
         else (case Option.bind (ReplyData env) (\<lambda>v. into_struct f v out) of
             None \<Rightarrow> raise Fatal | Some a \<Rightarrow> ret a))"

record entered =
  EnteredRoom :: string
  EnteredCode :: string
  EnteredToken :: string

definition not_entered :: entered where
  "not_entered = \<lparr>EnteredRoom = [], EnteredCode = [], EnteredToken = []\<rparr>"

definition set_registered :: "string \<Rightarrow> json \<Rightarrow> string \<Rightarrow> string option" where
  "set_registered k v t = (case find_field [''token''] k of None \<Rightarrow> Some t | Some _ \<Rightarrow> into_string v t)"

definition set_entered :: "string list \<Rightarrow> string \<Rightarrow> json \<Rightarrow> entered \<Rightarrow> entered option" where
  "set_entered names k v e = (case find_field names k of
       None \<Rightarrow> Some e
     | Some f \<Rightarrow> if f = ''room_id'' then map_option (\<lambda>x. e\<lparr>EnteredRoom := x\<rparr>) (into_string v (EnteredRoom e))
         else if f = ''code'' then map_option (\<lambda>x. e\<lparr>EnteredCode := x\<rparr>) (into_string v (EnteredCode e))
         else map_option (\<lambda>x. e\<lparr>EnteredToken := x\<rparr>) (into_string v (EnteredToken e)))"

definition prompt :: "string \<Rightarrow> string" where
  "prompt line = TrimSpace line"

text \<open>The two branches of \<open>main\<close>, on the lines typed at the prompts.\<close>

definition host_room :: "(http_call \<Rightarrow> ('w, int \<times> string) cli) \<Rightarrow> string \<Rightarrow> string \<Rightarrow> string \<Rightarrow> string \<Rightarrow> string \<Rightarrow> ('w, entered) cli" where
  "host_room Do base emailLine passwordLine nameLine buyInLine =
     (case ParseInt (TrimSpace (prompt buyInLine)) of None \<Rightarrow> raise Fatal
      | Some buyIn \<Rightarrow>
        andThen (postJSON Do (base @ ''/api/v1/auth/register'') []
          (JObj [(''display_name'', JStr (prompt nameLine)), (''email'', JStr (prompt emailLine)),
                 (''password'', JStr (prompt passwordLine))]) set_registered []) (\<lambda>token.
        postJSON Do (base @ ''/api/v1/rooms'') token (JObj [(''buy_in'', JNum (itoa buyIn))])
          (set_entered [''room_id'', ''code'', ''token'']) not_entered))"

definition guest_room :: "(http_call \<Rightarrow> ('w, int \<times> string) cli) \<Rightarrow> string \<Rightarrow> string \<Rightarrow> string \<Rightarrow> ('w, entered) cli" where
  "guest_room Do base code nameLine =
     postJSON Do (base @ ''/api/v1/rooms/'' @ code @ ''/participants'') []
       (JObj [(''display_name'', JStr (prompt nameLine))]) (set_entered [''room_id'', ''token'']) not_entered"

definition socket_url :: "string \<Rightarrow> string \<Rightarrow> string" where
  "socket_url wsBase token = wsBase @ ''/api/v1/socket?token='' @ token"

end
