(* ===== verification/CliSpec.thy ===== *)
theory CliSpec
  imports Cli EventSpec
begin

text \<open>
  The demo client and the server agree: what the client sends is decoded by the server's socket to
  what was typed, and what it posts is answered by the handlers with the token it connects with.
\<close>

section \<open>Cutting valid UTF-8\<close>

definition continues :: "char \<Rightarrow> bool" where
  "continues c \<longleftrightarrow> between 0x80 0xBF c"

lemma rune_len_continues:
  assumes "0 < i" "i < rune_len s"
  shows "continues (s ! i)"
proof -
  have second: "second_ok c d \<Longrightarrow> continues d" for c d
    by (auto simp: second_ok_def between_def continues_def split: if_splits)
  have "rune_len s \<le> 4" by (simp add: rune_len_def split: list.split)
  with assms consider "i = 1" | "i = 2" | "i = 3" by linarith
  then show ?thesis
  proof cases
    case 1
    with assms(2) second show ?thesis by (auto simp: rune_len_def split: list.splits if_splits)
  next
    case 2
    with assms(2) show ?thesis by (auto simp: rune_len_def continues_def split: list.splits if_splits)
  next
    case 3
    with assms(2) show ?thesis by (auto simp: rune_len_def continues_def split: list.splits if_splits)
  qed
qed

lemma rune_len_within: "rune_len s \<le> length s"
  using rune_len_prefix [of s] by (cases "rune_len s = 0") auto

lemma valid_utf8_cut:
  "valid_utf8 (a @ b) \<Longrightarrow> b = [] \<or> \<not> continues (hd b) \<Longrightarrow> valid_utf8 a \<and> valid_utf8 b"
proof (induction "length a" arbitrary: a rule: less_induct)
  case less
  show ?case
  proof (cases a)
    case (Cons c t)
    define n where "n = rune_len (a @ b)"
    from less.prems(1) Cons have n: "n \<noteq> 0" "valid_utf8 (drop (n - 1) (t @ b))" by (simp_all add: n_def Let_def valid_utf8.simps)
    have short: "n \<le> length a"
    proof (rule ccontr)
      assume "\<not> n \<le> length a"
      with Cons have "continues ((a @ b) ! length a)" by (intro rune_len_continues) (simp_all add: n_def)
      moreover have "b \<noteq> []" using rune_len_within [of "a @ b"] \<open>\<not> n \<le> length a\<close> by (auto simp: n_def)
      ultimately show False using less.prems(2) by (cases b) (auto simp: nth_append)
    qed
    have "rune_len (take n (a @ b) @ drop n a) = n" using rune_len_prefix [of "a @ b"] n(1) unfolding n_def by blast
    with short have len: "rune_len a = n" by simp
    from n(2) short Cons have "valid_utf8 (drop (n - 1) t @ b)" by simp
    with less.hyps [of "drop (n - 1) t"] less.prems(2) Cons have "valid_utf8 (drop (n - 1) t) \<and> valid_utf8 b" by simp
    with len n(1) Cons show ?thesis by (simp add: Let_def valid_utf8.simps)
  qed (use less.prems in \<open>simp add: valid_utf8.simps\<close>)
qed

lemma valid_utf8_prefix: "valid_utf8 a \<Longrightarrow> valid_utf8 (a @ b) \<Longrightarrow> valid_utf8 b"
proof (induction "length a" arbitrary: a rule: less_induct)
  case less
  show ?case
  proof (cases a)
    case (Cons c t)
    define n where "n = rune_len a"
    from less.prems(1) Cons have n: "n \<noteq> 0" "valid_utf8 (drop (n - 1) t)" "n \<le> length a"
      using rune_len_within [of a] by (simp_all add: n_def Let_def valid_utf8.simps)
    have "rune_len (take n a @ drop n a @ b) = n" using rune_len_prefix [of a] n(1) unfolding n_def by blast
    then have "rune_len (a @ b) = n" by (metis append.assoc append_take_drop_id)
    with less.prems(2) n Cons have "valid_utf8 (drop (n - 1) t @ b)" by (simp add: Let_def valid_utf8.simps)
    with less.hyps [of "drop (n - 1) t"] n(2) Cons show ?thesis by simp
  qed (use less.prems in simp)
qed

lemma ascii_stops: "byte c < 0x80 \<Longrightarrow> \<not> continues c"
  by (simp add: continues_def between_def)

lemma valid_utf8_around:
  assumes "valid_utf8 (a @ c # b)" "byte c < 0x80"
  shows "valid_utf8 a" "valid_utf8 b"
  using valid_utf8_cut [of a "c # b"] assms rune_len_ascii [of c b] by (auto simp: ascii_stops Let_def valid_utf8.simps)

lemma valid_utf8_Split: "byte sep < 0x80 \<Longrightarrow> valid_utf8 s \<Longrightarrow> x \<in> set (Split sep s) \<Longrightarrow> valid_utf8 x"
proof (induction "Split sep s" arbitrary: s)
  case (Cons y ys)
  have s: "s = join_with sep (y # ys)" using Split_spec [of sep s] Cons.hyps(2) by simp
  show ?case
  proof (cases "ys = []")
    case True
    with s Cons.hyps(2) have "x = s" using Cons.prems(3) by (metis join_with.simps(2) singletonD list.set(1,2) insert_iff)
    with Cons.prems(2) show ?thesis by simp
  next
    case False
    then have cut: "s = y @ sep # join_with sep ys" using s by (simp add: join_with_Cons)
    have "sep \<notin> set y" using Split_spec [of sep s] Cons.hyps(2) by (metis list.set_intros(1))
    with cut Cons.hyps(2) have "Split sep (join_with sep ys) = ys" by (simp add: Split_append)
    have "valid_utf8 y" "valid_utf8 (join_with sep ys)"
      using valid_utf8_around [of y sep "join_with sep ys"] cut Cons.prems(1,2) by simp_all
    moreover have "x = y \<or> x \<in> set (Split sep (join_with sep ys))"
      using Cons.prems(3) \<open>Split sep (join_with sep ys) = ys\<close> Cons.hyps(2) by (metis set_ConsD)
    ultimately show ?thesis
      using Cons.hyps(1) [of "join_with sep ys"] \<open>Split sep (join_with sep ys) = ys\<close> Cons.prems(1) by auto
  qed
qed simp

lemma trim_left_keeps:
  assumes step: "\<And>w t. w \<in> set ws \<Longrightarrow> P (w @ t) \<Longrightarrow> P t"
  shows "P s \<Longrightarrow> P (trim_left_n n ws s)"
proof (induction n arbitrary: s)
  case (Suc n)
  show ?case
  proof (cases "find (\<lambda>w. is_prefix w s) ws")
    case (Some w)
    then have w: "w \<in> set ws" "s = w @ drop (length w) s"
      by (auto simp: find_Some_iff is_prefix_def) (metis append_take_drop_id)
    then have "P (drop (length w) s)" using step [of w "drop (length w) s"] Suc.prems by simp
    with Suc.IH Some show ?thesis by simp
  qed (use Suc.prems in simp)
qed simp

lemma space_runes_utf8: "list_all (\<lambda>w. valid_utf8 w \<and> w \<noteq> [] \<and> \<not> continues (hd w)) space_runes"
  by code_simp

lemma valid_utf8_TrimSpace: "valid_utf8 s \<Longrightarrow> valid_utf8 (TrimSpace s)"
proof -
  assume s: "valid_utf8 s"
  define l where "l = trim_left_n (length s) space_runes s"
  have "valid_utf8 l" unfolding l_def
    by (rule trim_left_keeps [where P = valid_utf8, OF _ s]) (metis list_all_iff space_runes_utf8 valid_utf8_prefix)
  have cut: "valid_utf8 (rev t)" if "w \<in> set (map rev space_runes)" "valid_utf8 (rev (w @ t))" for w t
  proof -
    from that(1) obtain v where v: "v \<in> set space_runes" "w = rev v" by auto
    with space_runes_utf8 that(2) valid_utf8_cut [of "rev t" v] show ?thesis by (simp add: list_all_iff)
  qed
  have "valid_utf8 (rev (trim_left_n (length l) (map rev space_runes) (rev l)))"
    by (rule trim_left_keeps [where P = "\<lambda>r. valid_utf8 (rev r)"]) (use cut \<open>valid_utf8 l\<close> in simp_all)
  then show ?thesis by (simp add: TrimSpace_def l_def Let_def)
qed

section \<open>What the socket reads\<close>

lemma sent_names_utf8:
  "valid_utf8 ''type''" "valid_utf8 ''data''" "valid_utf8 ''create_round''" "valid_utf8 ''place_wager''"
  "valid_utf8 ''resolve_round''" "valid_utf8 ''lock_in_ms''" "valid_utf8 ''outcomes''" "valid_utf8 ''question''"
  by code_simp+

lemma ParseInt_range: "ParseInt s = Some n \<Longrightarrow> in64 n"
  by (auto simp: ParseInt_def Let_def split: option.splits if_splits prod.splits)

lemma DecodeEnvelope_sent:
  assumes "wf_json v" "depth v \<le> 9999" "valid_utf8 t" "t \<noteq> []"
  shows "DecodeEnvelope (render (JObj [(''type'', JStr t), (''data'', v)])) = Inr \<lparr>EnvType = t, EnvData = Some v\<rparr>"
proof -
  have "parse (render (JObj [(''type'', JStr t), (''data'', v)])) = Some (JObj [(''type'', JStr t), (''data'', v)])"
    by (rule parse_render) (simp add: assms sent_names_utf8)
  with assms show ?thesis
    by (simp add: DecodeEnvelope_def into_struct_def set_envelope_def find_field_def into_string_def del: render.simps)
qed

lemma fill_strings_sent: "fill_strings (map JStr os) slots = Some os"
  by (induction os arbitrary: slots) (simp_all add: into_string_def)

lemma depth_strings: "foldr max (map (depth \<circ> JStr) os) 0 = 0"
  by (induction os) simp_all

abbreviation round_json :: "string \<Rightarrow> string list \<Rightarrow> json" where
  "round_json q os \<equiv> JObj [(''lock_in_ms'', JNum (itoa 30000)), (''outcomes'', JArr (map JStr os)), (''question'', JStr q)]"

lemma round_json_read:
  assumes "valid_utf8 q" "list_all valid_utf8 os" "os \<noteq> []"
  shows "wf_json (round_json q os)" "depth (round_json q os) \<le> 9999"
    "into_struct set_create (round_json q os) \<lparr>CrQuestion = [], CrOutcomes = [], CrSpare = [], CrLockIn = 0\<rparr>
      = Some \<lparr>CrQuestion = q, CrOutcomes = os, CrSpare = [], CrLockIn = 30000\<rparr>"
proof -
  show "wf_json (round_json q os)" using assms(1,2) [unfolded list_all_iff] by (simp add: sent_names_utf8 num_itoa)
  show "depth (round_json q os) \<le> 9999" by (simp add: depth_strings)
  obtain o1 os' where "os = o1 # os'" using assms(3) by (cases os) auto
  then show "into_struct set_create (round_json q os) \<lparr>CrQuestion = [], CrOutcomes = [], CrSpare = [], CrLockIn = 0\<rparr>
      = Some \<lparr>CrQuestion = q, CrOutcomes = os, CrSpare = [], CrLockIn = 30000\<rparr>"
    using fill_strings_sent [of "o1 # os'" "[]"]
    by (simp add: into_struct_def set_create_def find_field_def into_simps in64_def Let_def)
qed

text \<open>A line cut at its first space.\<close>

lemma words_of_line: "SplitN CHR '' '' 2 line = [line] \<and> CHR '' '' \<notin> set line
    \<or> (\<exists>a b. SplitN CHR '' '' 2 line = [a, b] \<and> line = a @ '' '' @ b)"
proof (cases "CHR '' '' \<in> set line")
  case True
  then obtain a b where ab: "line = a @ CHR '' '' # b" "CHR '' '' \<notin> set a" by (meson split_list_first)
  then have "takeWhile (\<lambda>c. c \<noteq> CHR '' '') line = a" "dropWhile (\<lambda>c. c \<noteq> CHR '' '') line = CHR '' '' # b"
    by (auto simp: takeWhile_append dropWhile_append)
  with ab show ?thesis by (auto simp: numeral_2_eq_2)
qed (simp add: numeral_2_eq_2)

text \<open>The messages a line can become, and the way the server reads them.\<close>

definition reads_as :: "string \<Rightarrow> string \<Rightarrow> string \<Rightarrow> bool" where
  "reads_as fresh line p \<longleftrightarrow> (\<exists>env. DecodeEnvelope p = Inr env \<and>
     ((\<exists>arg q os. line = ''round '' @ arg \<and> map TrimSpace (Split CHR ''|'' arg) = q # os \<and> 2 \<le> length os
         \<and> EnvType env = ''create_round''
         \<and> unmarshal_data set_create \<lparr>CrQuestion = [], CrOutcomes = [], CrSpare = [], CrLockIn = 0\<rparr> env
             = Some \<lparr>CrQuestion = q, CrOutcomes = os, CrSpare = [], CrLockIn = 30000\<rparr>)
      \<or> (\<exists>arg a b i n. line = ''bet '' @ arg \<and> Fields arg = [a, b] \<and> ParseInt a = Some i \<and> ParseInt b = Some n
         \<and> EnvType env = ''place_wager''
         \<and> unmarshal_data set_place \<lparr>PwOutcome = 0, PwAmount = 0, PwKey = []\<rparr> env
             = Some \<lparr>PwOutcome = i, PwAmount = n, PwKey = fresh\<rparr>)
      \<or> (\<exists>arg i. line = ''resolve '' @ arg \<and> ParseInt (TrimSpace arg) = Some i
         \<and> EnvType env = ''resolve_round'' \<and> unmarshal_data set_resolve 0 env = Some i)))"

abbreviation recorded :: "string \<Rightarrow> (string list, unit) cli" where
  "recorded p \<equiv> exec (\<lambda>acc. acc @ [p])"

lemma round_sent:
  assumes "valid_utf8 (''round '' @ arg)" "round_command recorded [''round'', arg] acc = (Inr (), acc')"
  shows "\<exists>p. acc' = acc @ [p] \<and> reads_as fresh (''round '' @ arg) p"
proof -
  define parts where "parts = map TrimSpace (Split CHR ''|'' arg)"
  obtain q os where parts: "parts = q # os" "2 \<le> length os"
    and p: "acc' = acc @ [render (JObj [(''type'', JStr ''create_round''), (''data'', round_json q os)])]"
    using assms(2) by (cases parts) (auto simp: round_command_def parts_def [symmetric] sendEnvelope_def eff_simps Let_def
      simp del: render.simps split: if_splits)
  have "valid_utf8 arg"
    using valid_utf8_around(2) [of "''round''" "CHR '' ''" arg] assms(1) by (simp add: byte_def)
  then have "list_all valid_utf8 parts"
    using valid_utf8_Split [of "CHR ''|''" arg] by (auto simp: parts_def list_all_iff byte_def intro: valid_utf8_TrimSpace)
  with parts have ok: "valid_utf8 q" "list_all valid_utf8 os" "os \<noteq> []" by auto
  note read = round_json_read [OF ok]
  have "DecodeEnvelope (render (JObj [(''type'', JStr ''create_round''), (''data'', round_json q os)]))
      = Inr \<lparr>EnvType = ''create_round'', EnvData = Some (round_json q os)\<rparr>"
    by (rule DecodeEnvelope_sent [OF read(1,2)]) (simp_all add: sent_names_utf8)
  with parts read(3) have "reads_as fresh (''round '' @ arg) (render (JObj [(''type'', JStr ''create_round''), (''data'', round_json q os)]))"
    unfolding reads_as_def by (auto simp: unmarshal_data_def parts_def simp del: render.simps)
  with p show ?thesis by blast
qed

lemma bet_sent:
  assumes "valid_utf8 fresh" "bet_command recorded fresh [''bet'', arg] acc = (Inr (), acc')"
  shows "\<exists>p. acc' = acc @ [p] \<and> reads_as fresh (''bet '' @ arg) p"
proof -
  obtain a b i n where f: "Fields arg = [a, b]" "ParseInt a = Some i" "ParseInt b = Some n"
    and p: "acc' = acc @ [render (JObj [(''type'', JStr ''place_wager''), (''data'',
      JObj [(''amount'', JNum (itoa n)), (''idempotency_key'', JStr fresh), (''outcome'', JNum (itoa i))])])]"
    using assms(2) by (auto simp: bet_command_def sendEnvelope_def eff_simps Let_def numeral_2_eq_2 length_Suc_conv
      simp del: render.simps split: if_splits option.splits)
  let ?v = "JObj [(''amount'', JNum (itoa n)), (''idempotency_key'', JStr fresh), (''outcome'', JNum (itoa i))]"
  have "in64 i" "in64 n" using f ParseInt_range by blast+
  then have "into_struct set_place ?v \<lparr>PwOutcome = 0, PwAmount = 0, PwKey = []\<rparr> = Some \<lparr>PwOutcome = i, PwAmount = n, PwKey = fresh\<rparr>"
    by (simp add: into_struct_def set_place_def find_field_def into_simps)
  moreover have "DecodeEnvelope (render (JObj [(''type'', JStr ''place_wager''), (''data'', ?v)]))
      = Inr \<lparr>EnvType = ''place_wager'', EnvData = Some ?v\<rparr>"
    by (rule DecodeEnvelope_sent) (simp_all add: sent_names_utf8 names_utf8 num_itoa assms(1))
  ultimately have "reads_as fresh (''bet '' @ arg) (render (JObj [(''type'', JStr ''place_wager''), (''data'', ?v)]))"
    unfolding reads_as_def using f by (auto simp: unmarshal_data_def simp del: render.simps)
  with p show ?thesis by blast
qed

lemma resolve_sent:
  assumes "resolve_command recorded [w, arg] acc = (Inr (), acc')"
  shows "\<exists>p. acc' = acc @ [p] \<and> reads_as fresh (''resolve '' @ arg) p"
proof -
  obtain i where i: "ParseInt (TrimSpace arg) = Some i"
    and p: "acc' = acc @ [render (JObj [(''type'', JStr ''resolve_round''), (''data'', JObj [(''winning_outcome'', JNum (itoa i))])])]"
    using assms by (auto simp: resolve_command_def sendEnvelope_def eff_simps Let_def simp del: render.simps split: option.splits)
  have "into_struct set_resolve (JObj [(''winning_outcome'', JNum (itoa i))]) 0 = Some i"
    using ParseInt_range [OF i] by (simp add: into_struct_def set_resolve_def find_field_def into_simps)
  moreover have "DecodeEnvelope (render (JObj [(''type'', JStr ''resolve_round''), (''data'', JObj [(''winning_outcome'', JNum (itoa i))])]))
      = Inr \<lparr>EnvType = ''resolve_round'', EnvData = Some (JObj [(''winning_outcome'', JNum (itoa i))])\<rparr>"
    by (rule DecodeEnvelope_sent) (simp_all add: sent_names_utf8 names_utf8 num_itoa)
  ultimately have "reads_as fresh (''resolve '' @ arg)
      (render (JObj [(''type'', JStr ''resolve_round''), (''data'', JObj [(''winning_outcome'', JNum (itoa i))])]))"
    unfolding reads_as_def using i by (auto simp: unmarshal_data_def simp del: render.simps)
  with p show ?thesis by blast
qed

lemma words_of_blank_free: "CHR '' '' \<notin> set line \<Longrightarrow> SplitN CHR '' '' 2 line = [line]"
  using words_of_line [of line] by auto

lemma command_sent:
  assumes "valid_utf8 line" "valid_utf8 fresh" "handleCommand recorded fresh line acc = (Inr (), acc')" "line \<noteq> []"
  shows "\<exists>p. acc' = acc @ [p] \<and> reads_as fresh line p"
  using words_of_line [of line]
proof
  assume one: "SplitN CHR '' '' 2 line = [line] \<and> CHR '' '' \<notin> set line"
  moreover have "TrimSpace ''resolve'' = ''resolve''" by (rule TrimSpace_id) (simp add: printable_def)
  moreover have "ParseInt ''resolve'' = None" by code_simp
  ultimately show ?thesis using assms(3,4)
    by (auto simp: handleCommand_def round_command_def bet_command_def resolve_command_def eff_simps Let_def split: if_splits)
next
  assume "\<exists>a b. SplitN CHR '' '' 2 line = [a, b] \<and> line = a @ '' '' @ b"
  then obtain a b where ab: "SplitN CHR '' '' 2 line = [a, b]" "line = a @ '' '' @ b" by blast
  consider "a = ''round''" "round_command recorded [''round'', b] acc = (Inr (), acc')"
    | "a = ''bet''" "bet_command recorded fresh [''bet'', b] acc = (Inr (), acc')"
    | "a = ''resolve''" "resolve_command recorded [''resolve'', b] acc = (Inr (), acc')"
    using assms(3,4) ab(1) by (auto simp: handleCommand_def eff_simps Let_def split: if_splits)
  then show ?thesis
  proof cases
    case 1
    with round_sent [of b acc acc' fresh] assms(1) ab(2) show ?thesis by simp
  next
    case 2
    with bet_sent [OF assms(2) 2(2)] ab(2) show ?thesis by simp
  next
    case 3
    with resolve_sent [OF 3(2)] ab(2) show ?thesis by simp
  qed
qed

lemma command_panics:
  "fst (handleCommand recorded fresh line acc) = Inl IndexPanic \<longleftrightarrow> line = ''bet''"
proof (cases "line = []")
  case False
  show ?thesis using words_of_line [of line]
  proof
    assume "SplitN CHR '' '' 2 line = [line] \<and> CHR '' '' \<notin> set line"
    with False show ?thesis
      by (auto simp: handleCommand_def round_command_def bet_command_def resolve_command_def sendEnvelope_def eff_simps Let_def
        split: option.splits)
  next
    assume "\<exists>a b. SplitN CHR '' '' 2 line = [a, b] \<and> line = a @ '' '' @ b"
    then obtain a b where ab: "SplitN CHR '' '' 2 line = [a, b]" "line = a @ '' '' @ b" by blast
    then have "line \<noteq> ''bet''" by (auto simp: append_eq_Cons_conv)
    with ab(1) False show ?thesis
      by (auto simp: handleCommand_def round_command_def bet_command_def resolve_command_def sendEnvelope_def eff_simps Let_def
        split: option.splits)
  qed
qed (simp add: handleCommand_def eff_simps)

section \<open>Entering a room\<close>

text \<open>The client's transport joined to the server's handlers, one for each URL.\<close>

definition request_of :: "http_call \<Rightarrow> string \<Rightarrow> http_request" where
  "request_of call code = \<lparr>Method = ''POST'', HeaderValues = (\<lambda>k. if k = ''Content-Type'' then [''application/json'']
       else if k = ''Authorization'' then (case CallAuth call of Some v \<Rightarrow> [v] | None \<Rightarrow> []) else []),
     RemoteAddr = [], QueryToken = [], PathCode = code, Body = CallBody call\<rparr>"

definition serve :: "(string \<Rightarrow> ('s, 'x) handler) \<Rightarrow> call_ctx \<Rightarrow> string \<Rightarrow> http_call \<Rightarrow> (('s, 'x) world_scheme, int \<times> string) cli" where
  "serve route c code call w = (case route (CallURL call) c (request_of call code) w of
       (Inr resp, w') \<Rightarrow> (Inr (RespStatus resp, RespBody resp), w')
     | (Inl e, w') \<Rightarrow> (Inl Fatal, w'))"

lemma reply_names_utf8:
  "valid_utf8 ''error''" "valid_utf8 ''token''" "valid_utf8 ''code''" "valid_utf8 ''message''" "valid_utf8 ''buy_in''"
  "valid_utf8 ''display_name''" "valid_utf8 ''email''" "valid_utf8 ''password''" "valid_utf8 ''guest''"
  "valid_utf8 ''session_balance''" "valid_utf8 ''partial_buy_in''" "valid_utf8 ''account''" "valid_utf8 ''id''"
  by code_simp+

lemma read_reply_data:
  assumes "wf_json v" "depth v \<le> 9999"
  shows "read_reply (render (JObj [(''data'', v)]) @ [CHR 0x0A]) = Some \<lparr>ReplyData = Some v, ReplyError = None\<rparr>"
proof -
  let ?o = "JObj [(''data'', v)]"
  have "wf_json ?o" using assms(1) by (simp add: sent_names_utf8)
  then have "val n (render ?o @ [CHR 0x0A]) = Some (?o, [CHR 0x0A])" if "length (render ?o) \<le> n" for n
    using val_render [of ?o] that by (simp add: reads_back_def num_char_def is_digit_def del: render.simps)
  then have "first_value (render ?o @ [CHR 0x0A]) = Some ?o" by (simp add: first_value_def del: render.simps)
  with assms(2) show ?thesis by (simp add: read_reply_def into_struct_def set_reply_def find_field_def del: render.simps)
qed

abbreviation post_call :: "string \<Rightarrow> string \<Rightarrow> json \<Rightarrow> http_call" where
  "post_call url token body \<equiv> \<lparr>CallURL = url, CallAuth = (if token \<noteq> [] then Some (''Bearer '' @ token) else None),
     CallBody = render body\<rparr>"

lemma postJSON_served:
  assumes "route url c (request_of (post_call url token body) code) w = (Inr (write_json c' status (JObj [(''data'', v)])), w')"
    and "wf_json v" "depth v \<le> 9999" "status < 300" "into_struct f v out = Some a"
  shows "postJSON (serve route c code) url token body f out w = (Inr a, w')"
proof -
  have "serve route c code (post_call url token body) w = (Inr (status, render (JObj [(''data'', v)]) @ [CHR 0x0A]), w')"
    using assms(1) by (simp add: serve_def write_json_def del: render.simps)
  with assms(4,5) read_reply_data [OF assms(2,3)] show ?thesis by (simp add: postJSON_def eff_simps del: render.simps)
qed

lemma decode_body_sent:
  assumes "wf_json v" "v = JObj ms" "depth v \<le> 10000" "into_struct f v zero = Some a"
  shows "decode_body f zero (request_of (post_call url token v) code) = Decoded a"
proof -
  have "skip_ws (render v) \<noteq> []" using assms(2) by (simp add: render_JObj literal_chars del: render.simps)
  with assms first_value_render [OF assms(1)] show ?thesis
    by (simp add: decode_body_def request_of_def del: render.simps)
qed

text \<open>Folding an ASCII name only raises its letters.\<close>

lemma runes_ascii: "list_all (\<lambda>c. byte c < 0x80) s \<Longrightarrow> runes s = map (\<lambda>c. [c]) s"
proof (induction s)
  case (Cons c s)
  moreover have "rune_len (c # s) = 1" using Cons.prems rune_len_ascii [of c s] by simp
  ultimately show ?case by simp
qed simp

lemma fold_name_ascii: "list_all (\<lambda>c. byte c < 0x80) s \<Longrightarrow> fold_name s = map ascii_upper s"
  unfolding fold_name_def by (simp add: runes_ascii) (simp add: fold_rune_def concat_map_singleton comp_def)

lemma entered_fields:
  "find_field [''room_id'', ''token''] ''room_id'' = Some ''room_id''" "find_field [''room_id'', ''token''] ''token'' = Some ''token''"
  "find_field [''room_id'', ''token''] ''guest'' = None" "find_field [''room_id'', ''token''] ''session_balance'' = None"
  "find_field [''room_id'', ''token''] ''partial_buy_in'' = None"
  by (simp_all add: find_field_def fold_name_ascii byte_def ascii_upper_def between_def)

text \<open>A guest enters the room of the code under the name typed.\<close>

lemma guest_enters:
  assumes join: "JoinWith D code \<lparr>JoinUser = [], JoinName = NormalizeDisplayName (TrimSpace nameLine), JoinGuest = True,
      AccountBalance = 0\<rparr> w = (Inr j, w')"
    and name: "ValidateDisplayName (NormalizeDisplayName (TrimSpace nameLine)) = None" "valid_utf8 nameLine"
    and fresh: "CtxClaims c = None" "valid_utf8 (JoinedRoom j)" "valid_utf8 (JoinedToken j)"
    and route: "route (base @ ''/api/v1/rooms/'' @ code @ ''/participants'') = handleJoinRoom D"
  shows "guest_room (serve route c code) base code nameLine w
    = (Inr \<lparr>EnteredRoom = JoinedRoom j, EnteredCode = [], EnteredToken = JoinedToken j\<rparr>, w')"
proof -
  let ?body = "JObj [(''display_name'', JStr (prompt nameLine))]"
  have body: "decode_body set_join [] (request_of (post_call url token ?body) code)
      = Decoded (TrimSpace nameLine)" for url token
    by (rule decode_body_sent [OF _ refl])
      (simp_all add: reply_names_utf8 prompt_def valid_utf8_TrimSpace name into_struct_def set_join_def find_field_def into_simps)
  have "handleJoinRoom D c (request_of (post_call url [] ?body) code) w
      = (Inr (write_json c 201 (JObj [(''data'', joined_json j)])), w')" for url
    unfolding handleJoinRoom_def body using join name fresh(1)
    by (simp add: answer_def join_request_def Let_def check_def eff_simps attempt_def andThen_def WriteData_def request_of_def
        del: render.simps)
  moreover have "into_struct (set_entered [''room_id'', ''token'']) (joined_json j) not_entered
      = Some \<lparr>EnteredRoom = JoinedRoom j, EnteredCode = [], EnteredToken = JoinedToken j\<rparr>"
    by (simp add: into_struct_def joined_json_def set_entered_def entered_fields into_simps not_entered_def)
  moreover have "wf_json (joined_json j)" "depth (joined_json j) \<le> 9999"
    using fresh by (simp_all add: joined_json_def reply_names_utf8 names_utf8 num_itoa)
  ultimately show ?thesis unfolding guest_room_def
    by (intro postJSON_served [where c' = c and status = 201]) (use route in \<open>simp_all del: render.simps\<close>)
qed

text \<open>A host registers and, with the token of the new account, creates the room.\<close>

lemma host_fields:
  "find_field [''token''] ''account'' = None" "find_field [''token''] ''token'' = Some ''token''"
  "find_field [''room_id'', ''code'', ''token''] ''room_id'' = Some ''room_id''"
  "find_field [''room_id'', ''code'', ''token''] ''code'' = Some ''code''"
  "find_field [''room_id'', ''code'', ''token''] ''token'' = Some ''token''"
  "find_field [''room_id'', ''code'', ''token''] ''buy_in'' = None"
  by (simp_all add: find_field_def fold_name_ascii byte_def ascii_upper_def between_def)

lemma host_registers:
  assumes register: "RegisterWith D (TrimSpace emailLine) (TrimSpace passwordLine) (TrimSpace nameLine) w = (Inr (a, token), w1)"
    and plain: "list_all valid_utf8 [emailLine, passwordLine, nameLine, AccountID a, AccountEmail a, AccountName a, token]"
    and route: "route url = handleRegister D"
  shows "postJSON (serve route c code) url [] (JObj [(''display_name'', JStr (TrimSpace nameLine)),
      (''email'', JStr (TrimSpace emailLine)), (''password'', JStr (TrimSpace passwordLine))]) set_registered [] w
    = (Inr token, w1)"
proof -
  let ?body = "JObj [(''display_name'', JStr (TrimSpace nameLine)), (''email'', JStr (TrimSpace emailLine)),
    (''password'', JStr (TrimSpace passwordLine))]"
  have body: "decode_body set_register no_credentials (request_of (post_call url [] ?body) code)
      = Decoded \<lparr>ReqEmail = TrimSpace emailLine, ReqPassword = TrimSpace passwordLine, ReqName = TrimSpace nameLine\<rparr>"
    by (rule decode_body_sent [OF _ refl])
      (use plain in \<open>simp_all add: reply_names_utf8 valid_utf8_TrimSpace into_struct_def set_register_def find_field_def
        into_simps no_credentials_def\<close>)
  have "route url c (request_of (post_call url [] ?body) code) w
      = (Inr (write_json c 201 (JObj [(''data'', session_json (a, token))])), w1)"
    unfolding route handleRegister_def body using register
    by (simp add: answer_def attempt_def WriteData_def eff_simps del: render.simps)
  moreover have "into_struct set_registered (session_json (a, token)) [] = Some token"
    by (simp add: into_struct_def session_json_def set_registered_def host_fields into_simps)
  moreover have "wf_json (session_json (a, token))" "depth (session_json (a, token)) \<le> 9999"
    using plain by (simp_all add: session_json_def account_json_def reply_names_utf8 names_utf8 num_itoa)
  ultimately show ?thesis by (intro postJSON_served [where c' = c and status = 201]) simp_all
qed

lemma host_creates:
  assumes claims: "Verify J issuer (CtxNow c) token = Inr claims" "token \<noteq> []"
    and create: "CreateFor D (ClaimUser claims) (ClaimName claims) buyIn w = (Inr r, w')" "in64 buyIn"
    and plain: "list_all valid_utf8 [CreatedRoom r, CreatedCode r, CreatedToken r]"
    and route: "route url = RequireAuth txt J issuer (handleCreateRoom D)"
  shows "postJSON (serve route c code) url token (JObj [(''buy_in'', JNum (itoa buyIn))])
      (set_entered [''room_id'', ''code'', ''token'']) not_entered w
    = (Inr \<lparr>EnteredRoom = CreatedRoom r, EnteredCode = CreatedCode r, EnteredToken = CreatedToken r\<rparr>, w')"
proof -
  let ?body = "JObj [(''buy_in'', JNum (itoa buyIn))]" and ?c = "c\<lparr>CtxClaims := Some claims\<rparr>"
  have body: "decode_body set_buy_in None (request_of (post_call url token ?body) code) = Decoded (Some buyIn)"
    by (rule decode_body_sent [OF _ refl])
      (simp_all add: reply_names_utf8 num_itoa into_struct_def set_buy_in_def find_field_def ParseInt_itoa create(2))
  have auth: "verifyBearer J issuer (CtxNow c) (request_of (post_call url token ?body) code) = Some (Inr claims)"
    using claims by (simp add: verifyBearer_def header_get_def request_of_def is_prefix_def Let_def del: render.simps)
  have "route url c (request_of (post_call url token ?body) code) w
      = (Inr (write_json ?c 201 (JObj [(''data'', created_json r)])), w')"
    unfolding route RequireAuth_def auth handleCreateRoom_def body option.case sum.case using create(1)
    by (simp add: handleCreateRoom_def body ClaimsFrom_def answer_def attempt_def WriteData_def eff_simps del: render.simps)
  moreover have "into_struct (set_entered [''room_id'', ''code'', ''token'']) (created_json r) not_entered
      = Some \<lparr>EnteredRoom = CreatedRoom r, EnteredCode = CreatedCode r, EnteredToken = CreatedToken r\<rparr>"
    by (simp add: into_struct_def created_json_def set_entered_def host_fields into_simps not_entered_def)
  moreover have "wf_json (created_json r)" "depth (created_json r) \<le> 9999"
    using plain by (simp_all add: created_json_def reply_names_utf8 names_utf8 num_itoa)
  ultimately show ?thesis by (intro postJSON_served [where c' = ?c and status = 201]) simp_all
qed

lemma host_enters:
  assumes register: "RegisterWith D (TrimSpace emailLine) (TrimSpace passwordLine) (TrimSpace nameLine) w = (Inr (a, token), w1)"
    and plain: "list_all valid_utf8 [emailLine, passwordLine, nameLine, AccountID a, AccountEmail a, AccountName a, token]"
    and claims: "Verify J issuer (CtxNow c) token = Inr claims" "token \<noteq> []"
    and create: "CreateFor D (ClaimUser claims) (ClaimName claims) buyIn w1 = (Inr r, w')"
      "ParseInt (TrimSpace (TrimSpace buyInLine)) = Some buyIn"
    and created: "list_all valid_utf8 [CreatedRoom r, CreatedCode r, CreatedToken r]"
    and route: "route (base @ ''/api/v1/auth/register'') = handleRegister D"
      "route (base @ ''/api/v1/rooms'') = RequireAuth txt J issuer (handleCreateRoom D)"
  shows "host_room (serve route c code) base emailLine passwordLine nameLine buyInLine w
    = (Inr \<lparr>EnteredRoom = CreatedRoom r, EnteredCode = CreatedCode r, EnteredToken = CreatedToken r\<rparr>, w')"
  using host_registers [where D = D and route = route, OF register plain route(1)]
    host_creates [where D = D and route = route, OF claims create(1) ParseInt_range [OF create(2)] created route(2)] create(2)
  by (simp add: host_room_def prompt_def andThen_Inr del: render.simps)

section \<open>Property\<close>

text \<open>
  C40. The demo client speaks the server's protocol. A line that is no error sends nothing when it
  is empty and else one message, which the server's socket decodes to the command that was typed:
  the question and outcomes between the bars with a lock of thirty seconds, the outcome and amount
  of a bet with the fresh key, or the outcome to resolve with. The one line that ends the client
  is \<open>bet\<close> without arguments, where an index is out of range.
\<close>

theorem cli_speaks_protocol:
  assumes "valid_utf8 line" "valid_utf8 fresh"
  shows "(case handleCommand recorded fresh line acc of
       (Inr _, acc') \<Rightarrow> if line = [] then acc' = acc else \<exists>p. acc' = acc @ [p] \<and> reads_as fresh line p
     | (Inl e, acc') \<Rightarrow> acc' = acc \<and> (e = IndexPanic \<longleftrightarrow> line = ''bet''))"
proof -
  obtain r acc' where run: "handleCommand recorded fresh line acc = (r, acc')" by (meson surj_pair)
  show ?thesis
  proof (cases r)
    case (Inr u)
    with command_sent [OF assms, of acc acc'] run show ?thesis by (auto simp: handleCommand_def eff_simps)
  next
    case (Inl e)
    have "acc' = acc" using run Inl
      by (auto simp: handleCommand_def round_command_def bet_command_def resolve_command_def sendEnvelope_def eff_simps Let_def
        split: option.splits if_splits)
    with command_panics [of fresh line acc] run Inl show ?thesis by simp
  qed
qed

lemma cli_speaks_protocol_witness:
  "\<exists>p. handleCommand recorded ''k'' ''resolve 1'' [] = (Inr (), [p]) \<and> reads_as ''k'' ''resolve 1'' p"
proof -
  have "valid_utf8 ''resolve 1''" "valid_utf8 ''k''" by code_simp+
  note said = cli_speaks_protocol [OF this, of "[]"]
  have "TrimSpace ''1'' = ''1''" by (rule TrimSpace_id) (simp add: printable_def)
  moreover have "ParseInt ''1'' = Some 1" by code_simp
  moreover have "SplitN CHR '' '' 2 ''resolve 1'' = [''resolve'', ''1'']" by code_simp
  ultimately obtain p where "handleCommand recorded ''k'' ''resolve 1'' [] = (Inr (), [p])"
    by (simp add: handleCommand_def resolve_command_def sendEnvelope_def eff_simps del: render.simps)
  with said show ?thesis by auto
qed

end
