(* ===== verification/Config.thy ===== *)
theory Config
  imports HttpApi
begin

text \<open>
  \<open>internal/config\<close>: what each binary reads from its environment (\<open>config.go\<close>) and secrets that are
  given as files (\<open>secret_files.go\<close>). An error is the variable its message names. The parsers of
  durations, URLs, prefixes and IP addresses are parameters.
\<close>

type_synonym lookup = "string \<Rightarrow> string option"

record 'p parsers =
  ParseDuration :: "string \<Rightarrow> int option"
  ParseURL :: "string \<Rightarrow> (string \<times> string) option"
  ParsePrefix :: "string \<Rightarrow> 'p option"
  PrefixBits :: "'p \<Rightarrow> int"
  Masked :: "'p \<Rightarrow> 'p"
  LoopbackIP :: "string \<Rightarrow> bool"

section \<open>Variables\<close>

definition minJWTSecretLen :: nat where "minJWTSecretLen = 32"
definition defaultJWTTTL :: int where "defaultJWTTTL = 2 * 60 * Minute"
definition minJWTTTL :: int where "minJWTTTL = Minute"
definition maxJWTTTL :: int where "maxJWTTTL = 24 * 60 * Minute"

definition validEnvs :: "string list" where "validEnvs = [''development'', ''production'', ''test'']"
definition validLogLevels :: "string list" where "validLogLevels = [''debug'', ''info'', ''warn'', ''error'']"

definition int_var :: "lookup \<Rightarrow> string \<Rightarrow> int \<Rightarrow> int \<Rightarrow> int \<Rightarrow> string + int" where
  "int_var lookup name dflt lo hi = (case lookup name of None \<Rightarrow> Inr dflt
     | Some v \<Rightarrow> (case ParseInt v of None \<Rightarrow> Inl name
         | Some n \<Rightarrow> if n < lo \<or> n > hi then Inl name else Inr n))"

definition choice_var :: "lookup \<Rightarrow> string \<Rightarrow> string \<Rightarrow> string list \<Rightarrow> string + string" where
  "choice_var lookup name dflt valid = (case lookup name of None \<Rightarrow> Inr dflt
     | Some v \<Rightarrow> if v \<notin> set valid then Inl name else Inr v)"

definition text_var :: "lookup \<Rightarrow> string \<Rightarrow> string \<Rightarrow> string + string" where
  "text_var lookup name dflt = (case lookup name of None \<Rightarrow> Inr dflt
     | Some v \<Rightarrow> if v = [] then Inl name else Inr v)"

definition required_var :: "lookup \<Rightarrow> string \<Rightarrow> string + string" where
  "required_var lookup name = (case lookup name of None \<Rightarrow> Inl name | Some v \<Rightarrow> if v = [] then Inl name else Inr v)"

definition brokers_var :: "lookup \<Rightarrow> string + string list" where
  "brokers_var lookup = (case lookup ''KAFKA_BROKERS'' of None \<Rightarrow> Inr [''localhost:9092'']
     | Some v \<Rightarrow> if v = [] \<or> [] \<in> set (split_comma v) then Inl ''KAFKA_BROKERS'' else Inr (split_comma v))"

section \<open>The server\<close>

record 'p Config =
  Port :: int
  Env :: string
  LogLevel :: string
  RedisAddr :: string
  RedisDB :: int
  JWTSecret :: string
  JWTTTL :: int
  AllowedOrigins :: "string list"
  MetricsAddr :: string
  TrustedProxies :: "'p list"

text \<open>The entries of a comma-separated list, without the blank ones.\<close>

definition entries :: "string \<Rightarrow> string list" where
  "entries raw = filter (\<lambda>p. p \<noteq> []) (map TrimSpace (split_comma raw))"

definition origin_entry :: "'p parsers \<Rightarrow> string \<Rightarrow> string + string" where
  "origin_entry P p = (if p = ''*'' then Inl ''CORS_ALLOWED_ORIGINS''
     else case ParseURL P p of None \<Rightarrow> Inl ''CORS_ALLOWED_ORIGINS''
     | Some (scheme, host) \<Rightarrow> if scheme = [] \<or> host = [] then Inl ''CORS_ALLOWED_ORIGINS'' else Inr p)"

definition loadAllowedOrigins :: "'p parsers \<Rightarrow> string \<Rightarrow> lookup \<Rightarrow> string + string list" where
  "loadAllowedOrigins P env lookup =
     (case lookup ''CORS_ALLOWED_ORIGINS'' of
        Some raw \<Rightarrow> if TrimSpace raw = []
          then (if env = ''production'' then Inl ''CORS_ALLOWED_ORIGINS'' else Inr [''http://localhost:3000''])
          else try_map (origin_entry P) (entries raw)
      | None \<Rightarrow> if env = ''production'' then Inl ''CORS_ALLOWED_ORIGINS'' else Inr [''http://localhost:3000''])"

definition proxy_entry :: "'p parsers \<Rightarrow> string \<Rightarrow> string + 'p" where
  "proxy_entry P p = (case ParsePrefix P p of None \<Rightarrow> Inl ''TRUSTED_PROXIES''
     | Some prefix \<Rightarrow> if PrefixBits P prefix = 0 then Inl ''TRUSTED_PROXIES'' else Inr (Masked P prefix))"

definition loadTrustedProxies :: "'p parsers \<Rightarrow> lookup \<Rightarrow> string + 'p list" where
  "loadTrustedProxies P lookup = (case lookup ''TRUSTED_PROXIES'' of None \<Rightarrow> Inr []
     | Some raw \<Rightarrow> if TrimSpace raw = [] then Inr [] else try_map (proxy_entry P) (entries raw))"

definition requireLoopbackHost :: "'p parsers \<Rightarrow> string \<Rightarrow> bool" where
  "requireLoopbackHost P host \<longleftrightarrow> host = ''localhost'' \<or> LoopbackIP P host"

definition loadMetricsAddr :: "'p parsers \<Rightarrow> string \<Rightarrow> lookup \<Rightarrow> string + string" where
  "loadMetricsAddr P env lookup = (case lookup ''METRICS_ADDR'' of None \<Rightarrow> Inr []
     | Some raw \<Rightarrow> if raw = [] then Inr []
       else (case SplitHostPort raw of None \<Rightarrow> Inl ''METRICS_ADDR''
       | Some (host, portStr) \<Rightarrow> (case ParseInt portStr of None \<Rightarrow> Inl ''METRICS_ADDR''
           | Some port \<Rightarrow>
             if port < 1 \<or> port > 65535 then Inl ''METRICS_ADDR''
             else if env = ''production'' \<and> \<not> requireLoopbackHost P host then Inl ''METRICS_ADDR''
             else Inr raw)))"

definition jwt_secret :: "lookup \<Rightarrow> string + string" where
  "jwt_secret lookup = sum_bind (required_var lookup ''JWT_SECRET'') (\<lambda>v.
     if length v < minJWTSecretLen then Inl ''JWT_SECRET'' else Inr v)"

definition jwt_ttl :: "'p parsers \<Rightarrow> lookup \<Rightarrow> string + int" where
  "jwt_ttl P lookup = (case lookup ''JWT_TTL'' of None \<Rightarrow> Inr defaultJWTTTL
     | Some v \<Rightarrow> (case ParseDuration P v of None \<Rightarrow> Inl ''JWT_TTL''
         | Some life \<Rightarrow> if life < minJWTTTL \<or> life > maxJWTTTL then Inl ''JWT_TTL'' else Inr life))"

definition Load :: "'p parsers \<Rightarrow> lookup \<Rightarrow> string + 'p Config" where
  "Load P lookup =
     sum_bind (int_var lookup ''PORT'' 8080 1 65535) (\<lambda>port.
     sum_bind (choice_var lookup ''ENV'' ''development'' validEnvs) (\<lambda>env.
     sum_bind (choice_var lookup ''LOG_LEVEL'' ''info'' validLogLevels) (\<lambda>level.
     sum_bind (text_var lookup ''REDIS_ADDR'' ''localhost:6379'') (\<lambda>addr.
     sum_bind (int_var lookup ''REDIS_DB'' 0 0 15) (\<lambda>n.
     sum_bind (loadAllowedOrigins P env lookup) (\<lambda>origins.
     sum_bind (loadTrustedProxies P lookup) (\<lambda>proxies.
     sum_bind (jwt_secret lookup) (\<lambda>key.
     sum_bind (jwt_ttl P lookup) (\<lambda>life.
     sum_bind (loadMetricsAddr P env lookup) (\<lambda>metrics.
     Inr \<lparr>Port = port, Env = env, LogLevel = level, RedisAddr = addr, RedisDB = n, JWTSecret = key, JWTTTL = life,
       AllowedOrigins = origins, MetricsAddr = metrics, TrustedProxies = proxies\<rparr>))))))))))"

section \<open>The other binaries\<close>

record MigrateConfig =
  MigrateDSN :: string
  MigrateLevel :: string

definition LoadMigrate :: "lookup \<Rightarrow> string + MigrateConfig" where
  "LoadMigrate lookup =
     sum_bind (required_var lookup ''POSTGRES_DSN'') (\<lambda>dsn.
     sum_bind (choice_var lookup ''LOG_LEVEL'' ''info'' validLogLevels) (\<lambda>level.
     Inr \<lparr>MigrateDSN = dsn, MigrateLevel = level\<rparr>))"

record RelayConfig =
  RelayRedis :: string
  RelayDB :: int
  RelayBrokers :: "string list"
  RelayLevel :: string
  RelayEnv :: string

definition LoadRelay :: "lookup \<Rightarrow> string + RelayConfig" where
  "LoadRelay lookup =
     sum_bind (text_var lookup ''REDIS_ADDR'' ''localhost:6379'') (\<lambda>addr.
     sum_bind (int_var lookup ''REDIS_DB'' 0 0 15) (\<lambda>n.
     sum_bind (brokers_var lookup) (\<lambda>brokers.
     sum_bind (choice_var lookup ''LOG_LEVEL'' ''info'' validLogLevels) (\<lambda>level.
     sum_bind (choice_var lookup ''ENV'' ''development'' validEnvs) (\<lambda>env.
     Inr \<lparr>RelayRedis = addr, RelayDB = n, RelayBrokers = brokers, RelayLevel = level, RelayEnv = env\<rparr>)))))"

record LedgerConfig =
  LedgerDSN :: string
  LedgerBrokers :: "string list"
  ConsumerGroup :: string
  LedgerLevel :: string
  LedgerEnv :: string

definition LoadLedger :: "lookup \<Rightarrow> string + LedgerConfig" where
  "LoadLedger lookup =
     sum_bind (required_var lookup ''POSTGRES_DSN'') (\<lambda>dsn.
     sum_bind (brokers_var lookup) (\<lambda>brokers.
     sum_bind (text_var lookup ''LEDGER_GROUP'' ''ledger-writer'') (\<lambda>grp.
     sum_bind (choice_var lookup ''LOG_LEVEL'' ''info'' validLogLevels) (\<lambda>level.
     sum_bind (choice_var lookup ''ENV'' ''development'' validEnvs) (\<lambda>env.
     Inr \<lparr>LedgerDSN = dsn, LedgerBrokers = brokers, ConsumerGroup = grp, LedgerLevel = level, LedgerEnv = env\<rparr>)))))"

section \<open>Secret files\<close>

definition trim_newline :: "string \<Rightarrow> string" where
  "trim_newline s = (if s \<noteq> [] \<and> last s = CHR 0x0A then butlast s else s)"

text \<open>\<open>readFile\<close> gives \<open>None\<close> for an error.\<close>

definition secret_file :: "lookup \<Rightarrow> (string \<Rightarrow> string option) \<Rightarrow> string \<Rightarrow> string + string option" where
  "secret_file lookup readFile name = (case lookup (name @ ''_FILE'') of None \<Rightarrow> Inr None
     | Some path \<Rightarrow>
       if lookup name \<noteq> None \<or> path = [] then Inl name
       else (case readFile path of None \<Rightarrow> Inl name
       | Some content \<Rightarrow> if trim_newline content = [] then Inl name else Inr (Some (trim_newline content))))"

fun resolve_all :: "lookup \<Rightarrow> (string \<Rightarrow> string option) \<Rightarrow> string list \<Rightarrow> lookup \<Rightarrow> string + lookup" where
  "resolve_all lookup readFile [] resolved = Inr resolved"
| "resolve_all lookup readFile (name # names) resolved =
     sum_bind (secret_file lookup readFile name) (\<lambda>v. case v of
       None \<Rightarrow> resolve_all lookup readFile names resolved
     | Some x \<Rightarrow> resolve_all lookup readFile names (resolved(name \<mapsto> x)))"

definition ResolveSecretFiles :: "lookup \<Rightarrow> (string \<Rightarrow> string option) \<Rightarrow> string list \<Rightarrow> string + lookup" where
  "ResolveSecretFiles lookup readFile names =
     sum_bind (resolve_all lookup readFile names Map.empty) (\<lambda>resolved.
     Inr (\<lambda>key. case resolved key of Some v \<Rightarrow> Some v | None \<Rightarrow> lookup key))"

end
