(* ===== verification/ConfigSpec.thy ===== *)
theory ConfigSpec
  imports Config
begin

text \<open>What a configuration that \<open>Load\<close> accepts can be relied on for.\<close>

section \<open>Values that are accepted\<close>

lemma sum_bind_Inr: "sum_bind r k = Inr b \<longleftrightarrow> (\<exists>a. r = Inr a \<and> k a = Inr b)"
  by (cases r) (simp_all add: sum_bind_def)

lemma var_values:
  "int_var lookup name dflt lo hi = Inr n \<Longrightarrow> lo \<le> dflt \<Longrightarrow> dflt \<le> hi \<Longrightarrow> lo \<le> n \<and> n \<le> hi"
  "choice_var lookup name d vs = Inr v \<Longrightarrow> d \<in> set vs \<Longrightarrow> v \<in> set vs"
  "text_var lookup name d = Inr v \<Longrightarrow> d \<noteq> [] \<Longrightarrow> v \<noteq> []"
  by (auto simp: int_var_def choice_var_def text_var_def split: option.splits if_splits)

lemma try_map_set: "try_map f xs = Inr ys \<Longrightarrow> y \<in> set ys \<Longrightarrow> \<exists>x\<in>set xs. f x = Inr y"
  by (induction xs arbitrary: ys) (auto simp: sum_bind_def split: sum.splits)

definition absolute_url :: "'p parsers \<Rightarrow> string \<Rightarrow> bool" where
  "absolute_url P p \<longleftrightarrow> p \<noteq> ''*'' \<and> (\<exists>scheme host. ParseURL P p = Some (scheme, host) \<and> scheme \<noteq> [] \<and> host \<noteq> [])"

lemma origins_valid:
  assumes "loadAllowedOrigins P env lookup = Inr origins"
  shows "(\<forall>p\<in>set origins. p = ''http://localhost:3000'' \<and> env \<noteq> ''production'' \<or> absolute_url P p)
    \<and> (env = ''production'' \<longrightarrow> (\<exists>raw. lookup ''CORS_ALLOWED_ORIGINS'' = Some raw \<and> TrimSpace raw \<noteq> []))"
proof -
  have e: "origin_entry P p = Inr q \<Longrightarrow> absolute_url P q" for p q
    by (auto simp: origin_entry_def absolute_url_def split: option.splits if_splits)
  show ?thesis using assms try_map_set [of "origin_entry P"] e
    by (fastforce simp: loadAllowedOrigins_def split: option.splits if_splits)
qed

lemma proxies_valid:
  assumes "loadTrustedProxies P lookup = Inr proxies" "p \<in> set proxies"
  shows "\<exists>raw prefix. ParsePrefix P raw = Some prefix \<and> PrefixBits P prefix \<noteq> 0 \<and> p = Masked P prefix"
proof -
  have e: "proxy_entry P x = Inr q \<Longrightarrow> \<exists>raw prefix. ParsePrefix P raw = Some prefix \<and> PrefixBits P prefix \<noteq> 0 \<and> q = Masked P prefix" for x q
    by (auto simp: proxy_entry_def split: option.splits if_splits)
  show ?thesis using assms try_map_set [of "proxy_entry P"] e
    by (fastforce simp: loadTrustedProxies_def split: option.splits if_splits)
qed

definition metrics_ok :: "'p parsers \<Rightarrow> string \<Rightarrow> string \<Rightarrow> bool" where
  "metrics_ok P env addr \<longleftrightarrow> addr = [] \<or> (\<exists>host portStr port. SplitHostPort addr = Some (host, portStr)
     \<and> ParseInt portStr = Some port \<and> 1 \<le> port \<and> port \<le> 65535 \<and> (env = ''production'' \<longrightarrow> requireLoopbackHost P host))"

lemma metrics_valid: "loadMetricsAddr P env lookup = Inr addr \<Longrightarrow> metrics_ok P env addr"
  by (auto simp: loadMetricsAddr_def metrics_ok_def split: option.splits if_splits prod.splits)

lemma jwt_valid:
  "jwt_secret lookup = Inr key \<Longrightarrow> minJWTSecretLen \<le> length key"
  "jwt_ttl P lookup = Inr life \<Longrightarrow> minJWTTTL \<le> life \<and> life \<le> maxJWTTTL"
  by (auto simp: jwt_secret_def jwt_ttl_def required_var_def sum_bind_Inr minJWTTTL_def maxJWTTTL_def defaultJWTTTL_def Minute_def Second_def
      split: option.splits if_splits)

lemma loaded_issuer:
  assumes "Load P lookup = Inr cfg"
  shows "NewIssuer (JWTSecret cfg) (JWTTTL cfg) = Inr \<lparr>secret = JWTSecret cfg, ttl = JWTTTL cfg\<rparr>"
proof -
  have c: "jwt_secret lookup = Inr (JWTSecret cfg)" "jwt_ttl P lookup = Inr (JWTTTL cfg)"
    using assms by (auto simp: Load_def sum_bind_Inr)
  show ?thesis using jwt_valid(1) [OF c(1)] jwt_valid(2) [OF c(2)]
    by (auto simp: NewIssuer_def MinSecretLen_def minJWTSecretLen_def minJWTTTL_def Minute_def Second_def)
qed

section \<open>Properties\<close>

definition config_ok :: "'p parsers \<Rightarrow> 'p Config \<Rightarrow> bool" where
  "config_ok P cfg \<longleftrightarrow> 1 \<le> Port cfg \<and> Port cfg \<le> 65535 \<and> Env cfg \<in> set validEnvs \<and> LogLevel cfg \<in> set validLogLevels
     \<and> RedisAddr cfg \<noteq> [] \<and> 0 \<le> RedisDB cfg \<and> RedisDB cfg \<le> 15 \<and> metrics_ok P (Env cfg) (MetricsAddr cfg)
     \<and> (\<forall>p\<in>set (AllowedOrigins cfg). p = ''http://localhost:3000'' \<and> Env cfg \<noteq> ''production'' \<or> absolute_url P p)
     \<and> (\<forall>p\<in>set (TrustedProxies cfg). \<exists>raw prefix. ParsePrefix P raw = Some prefix \<and> PrefixBits P prefix \<noteq> 0
          \<and> p = Masked P prefix)"

lemma resolve_secret:
  assumes "ResolveSecretFiles vars readFile [name] = Inr lookup"
  shows "lookup k = (if k = name \<and> vars (name @ ''_FILE'') \<noteq> None
      then map_option trim_newline (Option.bind (vars (name @ ''_FILE'')) readFile) else vars k)"
    and "vars (name @ ''_FILE'') \<noteq> None \<Longrightarrow> vars name = None"
proof -
  obtain v where v: "secret_file vars readFile name = Inr v"
    "lookup = (\<lambda>key. case (case v of None \<Rightarrow> Map.empty | Some x \<Rightarrow> [name \<mapsto> x]) key of Some y \<Rightarrow> Some y | None \<Rightarrow> vars key)"
  proof -
    obtain resolved where r: "resolve_all vars readFile [name] Map.empty = Inr resolved"
      "lookup = (\<lambda>key. case resolved key of Some y \<Rightarrow> Some y | None \<Rightarrow> vars key)"
      using assms unfolding ResolveSecretFiles_def sum_bind_Inr by auto
    have "\<exists>v. secret_file vars readFile name = Inr v
        \<and> (case v of None \<Rightarrow> Inr Map.empty | Some x \<Rightarrow> Inr [name \<mapsto> x]) = (Inr resolved :: string + lookup)"
      using r(1) by (simp add: sum_bind_Inr)
    then obtain v where "secret_file vars readFile name = Inr v"
      "(case v of None \<Rightarrow> Inr Map.empty | Some x \<Rightarrow> Inr [name \<mapsto> x]) = (Inr resolved :: string + lookup)" by blast
    with that r(2) show thesis by (cases v) auto
  qed
  have f: "case vars (name @ ''_FILE'') of None \<Rightarrow> v = None
      | Some path \<Rightarrow> vars name = None \<and> (\<exists>content. readFile path = Some content \<and> v = Some (trim_newline content))"
    using v(1) by (simp add: secret_file_def split: option.splits if_splits)
  show "lookup k = (if k = name \<and> vars (name @ ''_FILE'') \<noteq> None
      then map_option trim_newline (Option.bind (vars (name @ ''_FILE'')) readFile) else vars k)"
    using f by (cases "vars (name @ ''_FILE'')") (auto simp: v(2))
  show "vars (name @ ''_FILE'') \<noteq> None \<Longrightarrow> vars name = None" using f by auto
qed

text \<open>
  C39. A process that starts is configured soundly. Whatever the environment and whatever the
  files, when \<open>ResolveSecretFiles\<close> and \<open>Load\<close> accept them, every value is in its range; in
  production no origin is the default of development and the metrics listener, if any, is bound to
  the loopback; no proxy prefix trusts every address; the secret is the file's without its last
  newline when a file is named, and then no variable competes with it; and the token issuer made
  from that secret and lifetime is never refused.
\<close>

theorem load_is_sound:
  assumes "ResolveSecretFiles vars readFile [''JWT_SECRET''] = Inr lookup" and "Load P lookup = Inr cfg"
  shows "config_ok P cfg \<and> NewIssuer (JWTSecret cfg) (JWTTTL cfg) = Inr \<lparr>secret = JWTSecret cfg, ttl = JWTTTL cfg\<rparr>
    \<and> (case vars ''JWT_SECRET_FILE'' of None \<Rightarrow> vars ''JWT_SECRET'' = Some (JWTSecret cfg)
       | Some path \<Rightarrow> vars ''JWT_SECRET'' = None \<and> (\<exists>content. readFile path = Some content \<and> JWTSecret cfg = trim_newline content))"
proof -
  obtain origins proxies where c: "int_var lookup ''PORT'' 8080 1 65535 = Inr (Port cfg)"
    "choice_var lookup ''ENV'' ''development'' validEnvs = Inr (Env cfg)"
    "choice_var lookup ''LOG_LEVEL'' ''info'' validLogLevels = Inr (LogLevel cfg)"
    "text_var lookup ''REDIS_ADDR'' ''localhost:6379'' = Inr (RedisAddr cfg)" "int_var lookup ''REDIS_DB'' 0 0 15 = Inr (RedisDB cfg)"
    "loadAllowedOrigins P (Env cfg) lookup = Inr (AllowedOrigins cfg)" "loadTrustedProxies P lookup = Inr (TrustedProxies cfg)"
    "jwt_secret lookup = Inr (JWTSecret cfg)" "jwt_ttl P lookup = Inr (JWTTTL cfg)" "loadMetricsAddr P (Env cfg) lookup = Inr (MetricsAddr cfg)"
    using assms(2) by (auto simp: Load_def sum_bind_Inr)
  note v = var_values(1) [OF c(1)] var_values(2) [OF c(2)] var_values(2) [OF c(3)] var_values(3) [OF c(4)] var_values(1) [OF c(5)]
    and rest = origins_valid [OF c(6)] proxies_valid [OF c(7)] metrics_valid [OF c(10)]
  have "config_ok P cfg"
    unfolding config_ok_def using v rest by (simp add: validEnvs_def validLogLevels_def)
  moreover have "NewIssuer (JWTSecret cfg) (JWTTTL cfg) = Inr \<lparr>secret = JWTSecret cfg, ttl = JWTTTL cfg\<rparr>"
    by (rule loaded_issuer [OF assms(2)])
  moreover have "lookup ''JWT_SECRET'' = Some (JWTSecret cfg)"
    using c(8) by (auto simp: jwt_secret_def required_var_def sum_bind_Inr split: option.splits if_splits)
  ultimately show ?thesis using resolve_secret [OF assms(1)]
    by (auto split: option.splits bind_splits)
qed

definition demo_parsers :: "string parsers" where
  "demo_parsers = \<lparr>ParseDuration = (\<lambda>_. None), ParseURL = (\<lambda>s. if s = ''https://a.b'' then Some (''https'', ''a.b'') else None),
     ParsePrefix = Some, PrefixBits = (\<lambda>_. 8), Masked = id, LoopbackIP = (\<lambda>s. s = ''127.0.0.1'')\<rparr>"

definition demo_vars :: "string \<Rightarrow> lookup" where
  "demo_vars origins = [''ENV'' \<mapsto> ''production'', ''CORS_ALLOWED_ORIGINS'' \<mapsto> origins, ''JWT_SECRET_FILE'' \<mapsto> ''f'',
     ''METRICS_ADDR'' \<mapsto> ''127.0.0.1:9100'']"

definition demo_secret :: string where "demo_secret = replicate 32 CHR ''s''"

definition demo_lookup :: "string \<Rightarrow> lookup" where
  "demo_lookup origins k = (if k = ''JWT_SECRET'' then Some demo_secret else demo_vars origins k)"

definition demo_config :: "string list \<Rightarrow> string Config" where
  "demo_config origins = \<lparr>Port = 8080, Env = ''production'', LogLevel = ''info'', RedisAddr = ''localhost:6379'', RedisDB = 0,
     JWTSecret = demo_secret, JWTTTL = defaultJWTTTL, AllowedOrigins = origins, MetricsAddr = ''127.0.0.1:9100'', TrustedProxies = []\<rparr>"

lemma demo_resolved:
  "ResolveSecretFiles (demo_vars origins) (\<lambda>_. Some (demo_secret @ [CHR 0x0A])) [''JWT_SECRET''] = Inr (demo_lookup origins)"
proof -
  have "trim_newline (demo_secret @ [CHR 0x0A]) = demo_secret" "demo_secret \<noteq> []" by (simp_all add: trim_newline_def demo_secret_def)
  then show ?thesis
    by (auto simp: ResolveSecretFiles_def sum_bind_def secret_file_def demo_vars_def demo_lookup_def fun_eq_iff)
qed

lemma demo_loaded: "Load demo_parsers (demo_lookup ''https://a.b'') = Inr (demo_config [''https://a.b''])"
proof -
  have "TrimSpace ''https://a.b'' = ''https://a.b''" by (rule TrimSpace_id) (simp add: printable_def)
  moreover have "split_comma ''https://a.b'' = [''https://a.b'']" "SplitHostPort ''127.0.0.1:9100'' = Some (''127.0.0.1'', ''9100'')"
    "ParseInt ''9100'' = Some 9100" by code_simp+
  ultimately show ?thesis
    by (simp add: Load_def sum_bind_def int_var_def choice_var_def text_var_def loadAllowedOrigins_def loadTrustedProxies_def
        loadMetricsAddr_def jwt_secret_def jwt_ttl_def required_var_def demo_lookup_def demo_vars_def demo_config_def
        entries_def origin_entry_def demo_parsers_def validEnvs_def validLogLevels_def minJWTSecretLen_def requireLoopbackHost_def)
      (simp add: demo_secret_def)
qed

theorem load_is_sound_witness:
  "config_ok demo_parsers (demo_config [''https://a.b'']) \<and> NewIssuer demo_secret defaultJWTTTL = Inr \<lparr>secret = demo_secret, ttl = defaultJWTTTL\<rparr>"
  using load_is_sound [OF demo_resolved demo_loaded] by (simp add: demo_config_def)

text \<open>
  In production a variable with nothing but a separator passes for a list of origins: the
  process starts with none.
\<close>

lemma production_without_origins: "Load demo_parsers (demo_lookup '','') = Inr (demo_config [])"
proof -
  have "TrimSpace '','' = '',''" by (rule TrimSpace_id) (simp add: printable_def)
  moreover have "TrimSpace [] = []" by (simp add: TrimSpace_def)
  moreover have "split_comma '','' = [[], []]" "SplitHostPort ''127.0.0.1:9100'' = Some (''127.0.0.1'', ''9100'')"
    "ParseInt ''9100'' = Some 9100" by code_simp+
  ultimately show ?thesis
    by (simp add: Load_def sum_bind_def int_var_def choice_var_def text_var_def loadAllowedOrigins_def loadTrustedProxies_def
        loadMetricsAddr_def jwt_secret_def jwt_ttl_def required_var_def demo_lookup_def demo_vars_def demo_config_def
        entries_def origin_entry_def demo_parsers_def validEnvs_def validLogLevels_def minJWTSecretLen_def requireLoopbackHost_def)
      (simp add: demo_secret_def)
qed

end
