(* ===== verification/Process.thy ===== *)
theory Process
  imports ConfigSpec
begin

text \<open>
  The processes: \<open>run\<close> of \<open>cmd/api\<close>, \<open>cmd/relay\<close> and \<open>cmd/ledger-worker\<close> and \<open>main\<close> of
  \<open>cmd/migrate\<close>, with \<open>redisstore.New\<close> (\<open>client.go\<close>), \<open>EnsureTopics\<close> (\<open>events/kafka.go\<close>) and
  \<open>internal/migrate\<close>. A run is the sequence of what it opens, starts, stops and closes, with its
  error or success; the outcomes of the calls of libraries are parameters, and so is what the
  process waits for. Logging is left out. The lemmas say in which order things are taken down.
\<close>

section \<open>Traces\<close>

datatype thing =
    RedisClient
  | RoundTimers
  | HubRooms
  | HttpServer
  | MetricsServer
  | BrokerConn
  | ControllerConn
  | KafkaWriter
  | PgPool
  | KafkaReader
  | Migrator

datatype life = Opens thing | Closes thing | CreatesTopic string int int

datatype fault =
    BadConfig string
  | NoRedis
  | NoIssuer
  | ServeError
  | SlowShutdown
  | KafkaFault
  | NoBrokers
  | PgFault
  | RunError
  | MigrateFault

type_synonym 'a process = "(life list, fault, 'a) eff"

definition emit :: "life \<Rightarrow> unit process" where
  "emit e = exec (\<lambda>t. t @ [e])"

text \<open>\<open>defer\<close>: \<open>d\<close> runs when the function returns, whatever it returns; its own error is only logged.\<close>

definition deferred :: "unit process \<Rightarrow> 'a process \<Rightarrow> 'a process" where
  "deferred d m = attempt m (\<lambda>r. attempt d (\<lambda>_. lift_sum r))"

definition configured :: "string + 'a \<Rightarrow> 'a process" where
  "configured r = (case r of Inl name \<Rightarrow> raise (BadConfig name) | Inr cfg \<Rightarrow> ret cfg)"

definition ensure :: "bool \<Rightarrow> fault \<Rightarrow> unit process" where
  "ensure ok f = (if ok then ret () else raise f)"

fun exit_code :: "fault + 'a \<Rightarrow> int" where
  "exit_code (Inl f) = 1"
| "exit_code (Inr a) = 0"

section \<open>What the processes open\<close>

text \<open>\<open>redisstore.New\<close>, with the outcomes of the ping and of loading the script of the limiter.\<close>

definition NewStore :: "bool \<Rightarrow> bool \<Rightarrow> unit process" where
  "NewStore pinged loaded =
     andThen (emit (Opens RedisClient)) (\<lambda>_.
     if \<not> pinged then andThen (emit (Closes RedisClient)) (\<lambda>_. raise NoRedis)
     else if \<not> loaded then andThen (emit (Closes RedisClient)) (\<lambda>_. raise NoRedis)
     else ret ())"

text \<open>Kafka's admin calls: dialling an address, the controller's address, and the topics to create.\<close>

record kafka_admin =
  Dials :: "string \<Rightarrow> bool"
  ControllerOf :: "(string \<times> int) option"
  CreateTopics :: "(string \<times> int \<times> int) list \<Rightarrow> bool"

definition Partitions :: int where "Partitions = 6"

definition topic_configs :: "int \<Rightarrow> (string \<times> int \<times> int) list" where
  "topic_configs partitions = [(TopicWagersPlaced, partitions, 1), (TopicRoundsSettled, partitions, 1)]"

definition EnsureTopics :: "kafka_admin \<Rightarrow> string list \<Rightarrow> int \<Rightarrow> unit process" where
  "EnsureTopics A brokers partitions =
     (case brokers of [] \<Rightarrow> raise NoBrokers
      | broker # _ \<Rightarrow>
        andThen (ensure (Dials A broker) KafkaFault) (\<lambda>_.
        andThen (emit (Opens BrokerConn)) (\<lambda>_.
        deferred (emit (Closes BrokerConn))
          (case ControllerOf A of None \<Rightarrow> raise KafkaFault
           | Some (host, port) \<Rightarrow>
             andThen (ensure (Dials A (host @ '':'' @ itoa port)) KafkaFault) (\<lambda>_.
             andThen (emit (Opens ControllerConn)) (\<lambda>_.
             deferred (emit (Closes ControllerConn))
               (andThen (ensure (CreateTopics A (topic_configs partitions)) KafkaFault) (\<lambda>_.
                exec (\<lambda>t. t @ map (\<lambda>(name, n, r). CreatesTopic name n r) (topic_configs partitions))))))))))"

section \<open>The server\<close>

text \<open>What ends the wait of \<open>run\<close>: the error of one of the two listeners, or a signal.\<close>

datatype wake = ServerFailed | MetricsFailed | Signalled

record api_outcomes =
  Pinged :: bool
  Loaded :: bool
  WokenBy :: wake
  ServerStops :: bool
  MetricsStops :: bool

text \<open>What follows a store that is open, and the whole.\<close>

definition serve_api :: "api_outcomes \<Rightarrow> 'p Config \<Rightarrow> unit process" where
  "serve_api out cfg = (case NewIssuer (JWTSecret cfg) (JWTTTL cfg) of
       Inl _ \<Rightarrow> raise NoIssuer
     | Inr issuer \<Rightarrow>
       andThen (emit (Opens HubRooms)) (\<lambda>_.
       andThen (emit (Opens RoundTimers)) (\<lambda>_.
       deferred (emit (Closes RoundTimers))
         (andThen (emit (Opens HttpServer)) (\<lambda>_.
          andThen (if MetricsAddr cfg \<noteq> [] then emit (Opens MetricsServer) else ret ()) (\<lambda>_.
          if WokenBy out = ServerFailed \<or> WokenBy out = MetricsFailed \<and> MetricsAddr cfg \<noteq> [] then raise ServeError
          else andThen (ensure (ServerStops out) SlowShutdown) (\<lambda>_.
            andThen (emit (Closes HttpServer)) (\<lambda>_.
            andThen (if MetricsAddr cfg \<noteq> []
              then andThen (ensure (MetricsStops out) SlowShutdown) (\<lambda>_. emit (Closes MetricsServer)) else ret ()) (\<lambda>_.
            andThen (emit (Closes RoundTimers)) (\<lambda>_.
            emit (Closes HubRooms)))))))))))"

definition api_process :: "'p parsers \<Rightarrow> lookup \<Rightarrow> (string \<Rightarrow> string option) \<Rightarrow> api_outcomes \<Rightarrow> unit process" where
  "api_process P env readFile out =
     andThen (configured (ResolveSecretFiles env readFile [''JWT_SECRET''])) (\<lambda>lookup.
     andThen (configured (Load P lookup)) (\<lambda>cfg.
     andThen (NewStore (Pinged out) (Loaded out)) (\<lambda>_.
     deferred (emit (Closes RedisClient)) (serve_api out cfg))))"

section \<open>The relay and the ledger worker\<close>

definition relay_process :: "lookup \<Rightarrow> kafka_admin \<Rightarrow> bool \<Rightarrow> unit process" where
  "relay_process env A runs_on =
     andThen (configured (LoadRelay env)) (\<lambda>cfg.
     andThen (emit (Opens RedisClient)) (\<lambda>_.
     deferred (emit (Closes RedisClient))
       (andThen (emit (Opens KafkaWriter)) (\<lambda>_.
        deferred (emit (Closes KafkaWriter))
          (andThen (EnsureTopics A (RelayBrokers cfg) Partitions) (\<lambda>_.
           ensure runs_on RunError))))))"

record worker_outcomes =
  PoolMade :: bool
  PoolPinged :: bool
  WorkerEnds :: bool

definition worker_process :: "lookup \<Rightarrow> (string \<Rightarrow> string option) \<Rightarrow> kafka_admin \<Rightarrow> worker_outcomes \<Rightarrow> unit process" where
  "worker_process env readFile A out =
     andThen (configured (ResolveSecretFiles env readFile [''POSTGRES_DSN''])) (\<lambda>lookup.
     andThen (configured (LoadLedger lookup)) (\<lambda>cfg.
     andThen (emit (Opens KafkaWriter)) (\<lambda>_.
     andThen (EnsureTopics A (LedgerBrokers cfg) Partitions) (\<lambda>_.
     andThen (emit (Closes KafkaWriter)) (\<lambda>_.
     andThen (ensure (PoolMade out) PgFault) (\<lambda>_.
     andThen (emit (Opens PgPool)) (\<lambda>_.
     if \<not> PoolPinged out then andThen (emit (Closes PgPool)) (\<lambda>_. raise PgFault)
     else deferred (emit (Closes PgPool))
       (andThen (emit (Opens KafkaReader)) (\<lambda>_.
        deferred (emit (Closes KafkaReader)) (ensure (WorkerEnds out) RunError))))))))))"

section \<open>Migrations\<close>

text \<open>What the library's \<open>Up\<close> or \<open>Down\<close> says.\<close>

datatype migration = Applied | NoChange | NotApplied

definition migrate_with :: "bool \<Rightarrow> migration \<Rightarrow> unit process" where
  "migrate_with built m =
     andThen (ensure built MigrateFault) (\<lambda>_.
     andThen (emit (Opens Migrator)) (\<lambda>_.
     deferred (emit (Closes Migrator)) (if m \<noteq> Applied \<and> m \<noteq> NoChange then raise MigrateFault else ret ())))"

definition migrate_main :: "lookup \<Rightarrow> (string \<Rightarrow> string option) \<Rightarrow> string list \<Rightarrow> bool \<Rightarrow> migration \<Rightarrow> migration \<Rightarrow> unit process" where
  "migrate_main env readFile args built down up =
     andThen (configured (ResolveSecretFiles env readFile [''POSTGRES_DSN''])) (\<lambda>lookup.
     andThen (configured (LoadMigrate lookup)) (\<lambda>cfg.
     if length args > 1 \<and> args ! 1 = ''down'' then migrate_with built down else migrate_with built up))"

section \<open>In which order things are taken down\<close>

lemmas process_defs = emit_def deferred_def configured_def ensure_def eff_defs

text \<open>
  The server. Nothing is touched with a bad configuration, and the issuer is never refused; the
  store is closed once, as the last step; only when both listeners have stopped are the timers of
  rounds cancelled and the hub shut down, and a run that succeeds ended so.
\<close>

definition api_trace :: "bool \<Rightarrow> life list \<Rightarrow> life list" where
  "api_trace metrics halted = [Opens RedisClient, Opens HubRooms, Opens RoundTimers, Opens HttpServer]
     @ (if metrics then [Opens MetricsServer] else []) @ halted @ [Closes RoundTimers, Closes RedisClient]"

lemma configured_cases:
  "andThen (configured r) k [] = (q, t) \<Longrightarrow> (\<exists>name. r = Inl name \<and> q = Inl (BadConfig name) \<and> t = []) \<or> (\<exists>cfg. r = Inr cfg \<and> k cfg [] = (q, t))"
  by (cases r) (auto simp: configured_def eff_simps)

lemma NewStore_eq:
  "NewStore pinged loaded t = (if pinged \<and> loaded then (Inr (), t @ [Opens RedisClient])
     else (Inl NoRedis, t @ [Opens RedisClient, Closes RedisClient]))"
  by (simp add: NewStore_def process_defs)

theorem api_process_trace:
  assumes "api_process P env readFile out [] = (r, t)"
  shows "(\<exists>name. r = Inl (BadConfig name)) \<and> t = []
    \<or> r = Inl NoRedis \<and> t = [Opens RedisClient, Closes RedisClient]
    \<or> (\<exists>m. r = Inl ServeError \<and> t = api_trace m []
          \<or> r = Inl SlowShutdown \<and> (t = api_trace m [] \<or> m \<and> t = api_trace m [Closes HttpServer])
          \<or> r = Inr () \<and> t = api_trace m ([Closes HttpServer] @ (if m then [Closes MetricsServer] else [])
              @ [Closes RoundTimers, Closes HubRooms]))"
proof -
  from configured_cases [OF assms [unfolded api_process_def]]
  consider name where "r = Inl (BadConfig name)" "t = []"
    | lookup where "andThen (configured (Load P lookup)) (\<lambda>cfg. andThen (NewStore (Pinged out) (Loaded out)) (\<lambda>_.
        deferred (emit (Closes RedisClient)) (serve_api out cfg))) [] = (r, t)"
    by blast
  then show ?thesis
  proof cases
    case 2
    from configured_cases [OF this] consider name where "r = Inl (BadConfig name)" "t = []"
      | cfg where "Load P lookup = Inr cfg" "andThen (NewStore (Pinged out) (Loaded out)) (\<lambda>_.
        deferred (emit (Closes RedisClient)) (serve_api out cfg)) [] = (r, t)" by blast
    then show ?thesis
    proof cases
      case 2
      show ?thesis
      proof (cases "Pinged out \<and> Loaded out")
        case False
        with 2(2) show ?thesis by (simp add: NewStore_eq andThen_def)
      next
        case True
        with 2(2) have run: "deferred (emit (Closes RedisClient)) (serve_api out cfg) [Opens RedisClient] = (r, t)"
          by (simp add: NewStore_eq andThen_def)
        show ?thesis
          by (rule disjI2, rule disjI2, rule exI [of _ "MetricsAddr cfg \<noteq> []"])
            (use run in \<open>cases "MetricsAddr cfg = []"; cases "WokenBy out"; cases "ServerStops out"; cases "MetricsStops out";
              simp add: serve_api_def loaded_issuer [OF 2(1)] api_trace_def process_defs; blast?\<close>)
      qed
    qed simp
  qed simp
qed

text \<open>Topics: the connections are closed in the reverse of their order, and topics come with both or not at all.\<close>

definition topics_failed :: "life list set" where
  "topics_failed = {[], [Opens BrokerConn, Closes BrokerConn], [Opens BrokerConn, Opens ControllerConn, Closes ControllerConn, Closes BrokerConn]}"

definition topics_made :: "life list" where
  "topics_made = [Opens BrokerConn, Opens ControllerConn, CreatesTopic TopicWagersPlaced 6 1, CreatesTopic TopicRoundsSettled 6 1,
     Closes ControllerConn, Closes BrokerConn]"

lemma EnsureTopics_trace:
  assumes "EnsureTopics A brokers Partitions t = (r, t')" "brokers \<noteq> []"
  shows "r = Inr () \<and> t' = t @ topics_made \<or> r = Inl KafkaFault \<and> (\<exists>x\<in>topics_failed. t' = t @ x)"
proof -
  obtain b bs where "brokers = b # bs" using assms(2) by (cases brokers) auto
  with assms(1) show ?thesis
    by (auto simp: EnsureTopics_def process_defs topics_made_def topics_failed_def topic_configs_def Partitions_def
      split: if_splits option.splits prod.splits)
qed

lemma brokers_nonempty: "brokers_var lookup = Inr bs \<Longrightarrow> bs \<noteq> []"
proof -
  have "split_comma v \<noteq> []" for v by (cases v) (auto split: list.split)
  then show "brokers_var lookup = Inr bs \<Longrightarrow> bs \<noteq> []"
    by (auto simp: brokers_var_def split: option.splits if_splits)
qed

text \<open>The relay closes the writer and the client whatever happens, the client last.\<close>

theorem relay_process_trace:
  assumes "relay_process env A runs_on [] = (r, t)"
  shows "(\<exists>name. r = Inl (BadConfig name)) \<and> t = []
    \<or> (\<exists>x. t = [Opens RedisClient, Opens KafkaWriter] @ x @ [Closes KafkaWriter, Closes RedisClient]
        \<and> (r = Inl KafkaFault \<and> x \<in> topics_failed \<or> r = (if runs_on then Inr () else Inl RunError) \<and> x = topics_made))"
proof -
  from configured_cases [OF assms [unfolded relay_process_def]]
  consider name where "r = Inl (BadConfig name)" "t = []" | cfg where "LoadRelay env = Inr cfg"
    "andThen (emit (Opens RedisClient)) (\<lambda>_. deferred (emit (Closes RedisClient)) (andThen (emit (Opens KafkaWriter)) (\<lambda>_.
      deferred (emit (Closes KafkaWriter)) (andThen (EnsureTopics A (RelayBrokers cfg) Partitions) (\<lambda>_. ensure runs_on RunError))))) []
      = (r, t)" by blast
  then show ?thesis
  proof cases
    case 2
    have "RelayBrokers cfg \<noteq> []" using 2(1) brokers_nonempty by (auto simp: LoadRelay_def sum_bind_Inr)
    obtain q u where q: "EnsureTopics A (RelayBrokers cfg) Partitions [Opens RedisClient, Opens KafkaWriter] = (q, u)" by (meson surj_pair)
    from EnsureTopics_trace [OF q \<open>RelayBrokers cfg \<noteq> []\<close>] show ?thesis
      using 2(2) q by (auto simp: process_defs)
  qed simp
qed

text \<open>
  The worker writes to no ledger before the topics are there and the database has answered. A
  failure to make the topics leaves the Kafka writer open, as the process is about to exit.
\<close>

theorem worker_process_trace:
  assumes "worker_process env readFile A out [] = (r, t)"
  shows "(\<exists>name. r = Inl (BadConfig name)) \<and> t = []
    \<or> r = Inl KafkaFault \<and> (\<exists>x\<in>topics_failed. t = Opens KafkaWriter # x)
    \<or> r = Inl PgFault \<and> (\<exists>x\<in>{[], [Opens PgPool, Closes PgPool]}. t = Opens KafkaWriter # topics_made @ Closes KafkaWriter # x)
    \<or> r = (if WorkerEnds out then Inr () else Inl RunError)
       \<and> t = Opens KafkaWriter # topics_made @ [Closes KafkaWriter, Opens PgPool, Opens KafkaReader, Closes KafkaReader, Closes PgPool]"
proof -
  let ?go = "\<lambda>cfg. andThen (emit (Opens KafkaWriter)) (\<lambda>_.
     andThen (EnsureTopics A (LedgerBrokers cfg) Partitions) (\<lambda>_.
     andThen (emit (Closes KafkaWriter)) (\<lambda>_.
     andThen (ensure (PoolMade out) PgFault) (\<lambda>_.
     andThen (emit (Opens PgPool)) (\<lambda>_.
     if \<not> PoolPinged out then andThen (emit (Closes PgPool)) (\<lambda>_. raise PgFault)
     else deferred (emit (Closes PgPool))
       (andThen (emit (Opens KafkaReader)) (\<lambda>_.
        deferred (emit (Closes KafkaReader)) (ensure (WorkerEnds out) RunError))))))))"
  from configured_cases [OF assms [unfolded worker_process_def]]
  consider name where "r = Inl (BadConfig name)" "t = []" | lookup where "andThen (configured (LoadLedger lookup)) ?go [] = (r, t)"
    by blast
  then show ?thesis
  proof cases
    case 2
    from configured_cases [OF this] consider name where "r = Inl (BadConfig name)" "t = []"
      | cfg where "LoadLedger lookup = Inr cfg" "?go cfg [] = (r, t)" by blast
    then show ?thesis
    proof cases
      case 2
      have "LedgerBrokers cfg \<noteq> []" using 2(1) brokers_nonempty by (auto simp: LoadLedger_def sum_bind_Inr)
      obtain q u where q: "EnsureTopics A (LedgerBrokers cfg) Partitions [Opens KafkaWriter] = (q, u)" by (meson surj_pair)
      from EnsureTopics_trace [OF q \<open>LedgerBrokers cfg \<noteq> []\<close>] show ?thesis
        using 2(2) q by (auto simp: process_defs split: if_splits)
    qed simp
  qed simp
qed

text \<open>Migrating an up-to-date database is a success, and the migrator never stays open.\<close>

theorem migrate_main_trace:
  assumes "migrate_main env readFile args built down up [] = (r, t)"
  shows "(\<exists>name. r = Inl (BadConfig name)) \<and> t = [] \<or> r = Inl MigrateFault \<and> \<not> built \<and> t = []
    \<or> built \<and> t = [Opens Migrator, Closes Migrator]
      \<and> (r = Inr () \<longleftrightarrow> (if length args > 1 \<and> args ! 1 = ''down'' then down else up) \<in> {Applied, NoChange})"
proof -
  let ?go = "if length args > 1 \<and> args ! 1 = ''down'' then migrate_with built down else migrate_with built up"
  from configured_cases [OF assms [unfolded migrate_main_def]]
  consider name where "r = Inl (BadConfig name)" "t = []"
    | lookup where "andThen (configured (LoadMigrate lookup)) (\<lambda>cfg. ?go) [] = (r, t)" by blast
  then show ?thesis
  proof cases
    case 2
    from configured_cases [OF this] consider name where "r = Inl (BadConfig name)" "t = []" | "?go [] = (r, t)" by blast
    then show ?thesis by cases (auto simp: migrate_with_def process_defs split: if_splits)
  qed simp
qed

end
