(* ===== verification/Spec2Isabelle.thy ===== *)
theory Spec2Isabelle
  imports SessionSpec RoundLife BalanceSpec RateSpec PlaceSpec RoomSpec WorkerSpec RelaySpec WsSpec WsLoops SocketSpec HttpSpec MetricsSpec CliSpec Process
begin

text \<open>
  Verification of the CallIt backend (\<open>src/backend\<close>, Go), a pari-mutuel wagering game with play
  tokens.

  \<^bold>\<open>The program.\<close> A host opens a round in a room; players stake tokens on its outcomes; the round
  locks when its clock runs out; the host resolves it and the pool is divided among the stakes on
  the winning outcome, or the clock refunds it. All live state is in Redis, changed by Lua scripts
  (\<open>scripts/lua\<close>) that \<open>internal/redisstore\<close> calls; the services \<open>internal/round\<close>, \<open>wager\<close>, \<open>room\<close>
  and \<open>account\<close> are sequences of such calls and of broadcasts, which \<open>internal/ws\<close> delivers to the
  sockets of a room. Every movement of tokens appends an event to the outbox stream in the same
  script that makes it. \<open>internal/relay\<close> moves the stream to Kafka, and \<open>internal/ledger\<close> posts the
  messages to a double-entry ledger in Postgres.

  \<^bold>\<open>The theories\<close>, in the order they build on one another (a theory \<open>XSpec\<close> holds the lemmas and
  properties of the theory or theories before it):

  \<^item> \<open>Prelude\<close>: the effect monad \<open>eff\<close> (state, an error of type \<open>err\<close> or a value), its
    \<open>named_theorems\<close>, lemmas on lists, maps and sums. \<open>Errors\<close>: the error values of all packages;
    \<open>Panic\<close> is a Go panic and \<open>Hangs\<close> a call that never returns. \<open>Golang\<close>: what is used of the standard
    library, decimal printing and parsing, 64-bit wrap-around (\<open>i64\<close>), \<open>float64\<close> division,
    \<open>strings\<close>. \<open>Json\<close>: \<open>encoding/json\<close>, a printer and a parser and the rules by which a value
    fills a struct.
  \<^item> \<open>Domain\<close>, \<open>Payout\<close>: \<open>internal/domain\<close>. Token amounts are integers written with the wrap-around
    of \<open>int64\<close>. The properties are those of \<open>Settle\<close>, of the status machine and of the account rules.
  \<^item> \<open>Redis\<close>: the interface to the server as a record of commands and the locale \<open>redis_server\<close> of
    their documented laws; \<open>MemRedis\<close> interprets it. \<open>Keys\<close>, \<open>Scripts\<close>: key names and the seven
    scripts, each one atomic step. \<open>Client\<close>: a command as the client sees it, a round trip whose
    reply may be lost and which \<open>go-redis\<close> may then send again; before each round trip the
    environment takes its turn. \<open>Store\<close>, \<open>WagerStore\<close>, \<open>SettleStore\<close>: the methods of \<open>redisstore\<close>.
    \<open>StoreSpec\<close>, \<open>WagerBook\<close>, \<open>WagerSpec\<close>, \<open>SettleSpec\<close>, \<open>RateSpec\<close>, \<open>RoundSpec\<close> and \<open>RoundLife\<close> hold the
    properties: what one call does, the books of a round (\<open>WagerBook\<close>: the wallets, the pools, the
    wagers and the bettors agree), idempotency, the rate limiter and the life of a round.
  \<^item> \<open>Service\<close>, \<open>Frames\<close>: services and their broadcasts. \<open>RoundService\<close>, \<open>Grace\<close>, \<open>WagerService\<close>,
    \<open>RoomService\<close>, \<open>AccountService\<close>, \<open>Auth\<close>: the packages of these names. \<open>Grace\<close> is the step
    relation of the goroutines that end a session after a disconnect. \<open>SessionSpec\<close>, \<open>PlaceSpec\<close>: the
    properties of the services. \<open>AuthSpec\<close>: base 64, the PHC format and tokens are read back.
    \<open>AccountSpec\<close>, \<open>RoomSpec\<close>: registration and login, a registration whose reply is lost, a room
    created under a free code and joined by it.
  \<^item> \<open>Events\<close>, \<open>EventSpec\<close>: \<open>internal/events\<close>, what a script's entry decodes to and the round trip of
    a message. \<open>Streams\<close>: the consumer-group commands with the locale of their laws. \<open>Relay\<close>,
    \<open>RelaySpec\<close>: \<open>internal/relay\<close>. \<open>Tables\<close>, \<open>Postgres\<close>: the schema of \<open>migrations\<close> and the
    transactions on it. \<open>Ledger\<close>, \<open>LedgerSpec\<close>, \<open>WorkerSpec\<close>: \<open>internal/ledger\<close>, the mapping of events
    to balanced transactions, the batch writer and the worker's fetch, post, commit rounds.
    \<open>MirrorSpec\<close>: the transactions of the events a method appends make the movements it made.
    \<open>BalanceSpec\<close>: what the balance queries return, and their agreement with Redis.
  \<^item> \<open>WsHub\<close>, \<open>WsSpec\<close>, \<open>WsRouter\<close>: \<open>internal/ws\<close>, the clients, rooms and hub as a state that each
    command of their goroutines changes in one step; the messages, the router and the handler.
    \<open>WsLoops\<close>: the loops of these goroutines with the commands their channels carry, and their
    agreement with the methods. \<open>Socket\<close>, \<open>SocketSpec\<close>: the router over the services with the hub as their
    broadcaster, and a wager from the client's message to its reply.
  \<^item> \<open>HttpApi\<close>: \<open>internal/httpapi\<close>, the response envelopes and the error table, bearer tokens, the
    throttles, the client address behind proxies, CORS, the handlers over the services, and the
    routes of \<open>NewMux\<close>. \<open>HttpSpec\<close>, \<open>RefillSpec\<close>: what a guarded route does in any environment, the
    address no client can forge, the \<open>Retry-After\<close> that suffices, and the refill route end to end.
  \<^item> \<open>Metrics\<close>, \<open>MetricsSpec\<close>: \<open>internal/metrics\<close>, histograms with their quantiles and the registry;
    \<open>Floats\<close>: the facts on rounding to 53 bits they and \<open>HttpSpec\<close> need. \<open>Config\<close>, \<open>ConfigSpec\<close>:
    \<open>internal/config\<close>, an environment as a map to strings, the four loaders and the secret files.
  \<^item> \<open>Toolchain\<close>: \<open>strings.Split\<close> and its kin, and \<open>internal/toolchain\<close>. \<open>Cli\<close>, \<open>CliSpec\<close>: the demo
    client \<open>cmd/callit-cli\<close>, what it sends and posts, and how the server's socket and handlers read
    it. \<open>Process\<close>: the processes under \<open>cmd\<close> with \<open>redisstore.New\<close>, \<open>EnsureTopics\<close> and
    \<open>internal/migrate\<close>, as traces of what they open and close with the result they end in.

  \<^bold>\<open>How effects are modelled.\<close> A function that reads or changes state is a value of \<open>eff\<close>. The state of
  a service call holds the server, the turns of the coming round trips (\<open>turns\<close>) and what was
  broadcast. The environment's turns are arbitrary functions on the server before any round
  trip; a property says which turns it admits: none, turns that keep the books, or any at all. A
  Lua script that fails half-way leaves the commands it has executed in force, as Redis does.

  \<^bold>\<open>Bounds and fuel.\<close> The book-keeping properties take amounts and totals up to \<open>max_amt\<close> and
  \<open>max_total\<close> (ten to the power fourteen), for which Lua's floating-point numbers are exact; the
  code's own caps are far below. Instants in milliseconds have the same bound. The JSON parser
  recurses on its input's length, so its fuel is the length and is always enough. The claim and
  drain loops of the relay take as fuel a number above that of the entries of the stream, and
  \<open>relay_catches_up\<close> shows that this suffices.

  \<^bold>\<open>Assumed of what is not here.\<close> The Redis commands, the cluster of Kafka brokers, Postgres' unique
  keys and its all-or-nothing commit, argon2, the JWT library, \<open>uuid.Parse\<close>, the Unicode case table,
  and the parsers of addresses, prefixes, durations and URLs are parameters with their documented
  behaviour, each instantiated in a witness; the outcomes of opening connections, of Kafka's admin
  calls and of the migration library are arbitrary. As the code's comments demand, there is one relay and
  one ledger worker at a time.

  \<^bold>\<open>Not modelled.\<close> The libraries that talk to Redis, Kafka and Postgres below the calls the code
  makes, and the engine that runs the SQL migrations; logging and what the demo client prints; and
  the timing of goroutines beyond the order of their steps. The traces of \<open>Process\<close> take the work a
  process does while it runs as one step: that work is the subject of the other theories.
\<close>

end
